(* ===== verification/Prelude.thy ===== *)
theory Prelude
  imports "HOL-Library.Word" "HOL-Library.State_Monad"
begin

text \<open>
  Shared vocabulary of the development: the machine integers of the C code, the state monad in
  which the components are written, and the two proof calculi the component proofs use.

  Every component is a program over a pair: its own C struct (a record) and the world behind its
  callbacks.  \<open>reads\<close> and \<open>writes\<close> touch the struct, \<open>outside\<close> runs a program on the world alone.

  \<^item> \<open>keeps P m\<close>: the program \<open>m\<close> preserves the predicate \<open>P\<close> on the pair.
  \<^item> \<open>sim R m n\<close>: from equal structs and worlds related by \<open>R\<close>, the programs \<open>m\<close> and \<open>n\<close> return equal
    results in equal structs and again related worlds.

  The collections \<open>keeps_rules\<close> and \<open>sim_rules\<close> hold one rule per program constructor, so a proof
  about an operation unfolds its definition and applies the collection.
\<close>

unbundle bit_operations_syntax

type_synonym u8 = "8 word"
type_synonym u16 = "16 word"
type_synonym u32 = "32 word"
type_synonym u64 = "64 word"

named_theorems keeps_rules "rules of the preservation calculus"
named_theorems sim_rules "rules of the simulation calculus"

section \<open>Programs over a struct and a world\<close>

abbreviation ret :: "'a \<Rightarrow> ('s, 'a) state" where
  "ret \<equiv> State_Monad.return"

definition reads :: "('s \<Rightarrow> 'a) \<Rightarrow> ('s \<times> 'w, 'a) state" where
  "reads f = State (\<lambda>(s, w). (f s, (s, w)))"

definition writes :: "('s \<Rightarrow> 's) \<Rightarrow> ('s \<times> 'w, unit) state" where
  "writes f = State (\<lambda>(s, w). ((), (f s, w)))"

definition outside :: "('w, 'a) state \<Rightarrow> ('s \<times> 'w, 'a) state" where
  "outside m = State (\<lambda>(s, w). case run_state m w of (r, w') \<Rightarrow> (r, (s, w')))"

definition whenever :: "bool \<Rightarrow> ('s, unit) state \<Rightarrow> ('s, unit) state" where
  "whenever b m = (if b then m else ret ())"

text \<open>The C loop \<open>for (i = 0; i < n; i++) body(i)\<close>, over the list of the values \<open>i\<close> takes.\<close>

fun for_each :: "'i list \<Rightarrow> ('i \<Rightarrow> ('s, unit) state) \<Rightarrow> ('s, unit) state" where
  "for_each [] f = ret ()"
| "for_each (i # is) f = f i \<bind> (\<lambda>_. for_each is f)"

lemma run_reads [simp]: "run_state (reads f) (s, w) = (f s, (s, w))"
  by (simp add: reads_def)

lemma run_writes [simp]: "run_state (writes f) (s, w) = ((), (f s, w))"
  by (simp add: writes_def)

lemma run_outside [simp]:
  "run_state (outside m) (s, w) = (fst (run_state m w), (s, snd (run_state m w)))"
  by (simp add: outside_def split: prod.split)

lemma run_whenever [simp]:
  "run_state (whenever b m) s = (if b then run_state m s else ((), s))"
  by (simp add: whenever_def)

text \<open>The final state and the result of a program.\<close>

abbreviation exec :: "('s, 'a) state \<Rightarrow> 's \<Rightarrow> 's" where
  "exec m s \<equiv> snd (run_state m s)"

abbreviation result :: "('s, 'a) state \<Rightarrow> 's \<Rightarrow> 'a" where
  "result m s \<equiv> fst (run_state m s)"

lemma run_bind_split:
  "run_state (m \<bind> f) s = run_state (f (result m s)) (exec m s)"
  by (simp add: case_prod_beta)

section \<open>The preservation calculus\<close>

definition keeps :: "('s \<Rightarrow> bool) \<Rightarrow> ('s, 'a) state \<Rightarrow> bool" where
  "keeps P m \<longleftrightarrow> (\<forall>s. P s \<longrightarrow> P (exec m s))"

lemma keepsD: "keeps P m \<Longrightarrow> P s \<Longrightarrow> P (exec m s)"
  by (simp add: keeps_def)

lemma keepsI: "(\<And>s. P s \<Longrightarrow> P (exec m s)) \<Longrightarrow> keeps P m"
  by (simp add: keeps_def)

lemma keeps_ret [keeps_rules]: "keeps P (ret x)"
  by (simp add: keeps_def)

lemma keeps_reads [keeps_rules]: "keeps P (reads f)"
  by (auto simp: keeps_def)

lemma keeps_bind [keeps_rules]:
  "keeps P m \<Longrightarrow> (\<And>x. keeps P (f x)) \<Longrightarrow> keeps P (m \<bind> f)"
  by (simp add: keeps_def case_prod_beta)

lemma keeps_if [keeps_rules]:
  "(b \<Longrightarrow> keeps P m) \<Longrightarrow> (\<not> b \<Longrightarrow> keeps P n) \<Longrightarrow> keeps P (if b then m else n)"
  by simp

lemma keeps_whenever [keeps_rules]: "(b \<Longrightarrow> keeps P m) \<Longrightarrow> keeps P (whenever b m)"
  by (simp add: whenever_def keeps_ret)

lemma keeps_let [keeps_rules]: "(\<And>x. x = t \<Longrightarrow> keeps P (m x)) \<Longrightarrow> keeps P (let x = t in m x)"
  by simp

lemma keeps_for_each [keeps_rules]:
  "(\<And>i. i \<in> set is \<Longrightarrow> keeps P (f i)) \<Longrightarrow> keeps P (for_each is f)"
  by (induction "is") (auto intro: keeps_rules)

lemma keeps_writes: "(\<And>s w. P (s, w) \<Longrightarrow> P (f s, w)) \<Longrightarrow> keeps P (writes f)"
  by (auto simp: keeps_def)

section \<open>The simulation calculus\<close>

definition sim :: "('w \<Rightarrow> 'v \<Rightarrow> bool) \<Rightarrow> ('s \<times> 'w, 'a) state \<Rightarrow> ('s \<times> 'v, 'a) state \<Rightarrow> bool" where
  "sim R m n \<longleftrightarrow> (\<forall>s w v. R w v \<longrightarrow>
     result m (s, w) = result n (s, v) \<and>
     fst (exec m (s, w)) = fst (exec n (s, v)) \<and>
     R (snd (exec m (s, w))) (snd (exec n (s, v))))"

lemma simI:
  "(\<And>s w v. R w v \<Longrightarrow> result m (s, w) = result n (s, v) \<and>
     fst (exec m (s, w)) = fst (exec n (s, v)) \<and>
     R (snd (exec m (s, w))) (snd (exec n (s, v)))) \<Longrightarrow> sim R m n"
  by (simp add: sim_def)

lemma simD:
  assumes "sim R m n" and "R w v"
  shows "result m (s, w) = result n (s, v)"
    and "fst (exec m (s, w)) = fst (exec n (s, v))"
    and "R (snd (exec m (s, w))) (snd (exec n (s, v)))"
  using assms by (auto simp: sim_def)

lemma sim_ret [sim_rules]: "sim R (ret x) (ret x)"
  by (simp add: sim_def)

lemma sim_reads [sim_rules]: "sim R (reads f) (reads f)"
  by (simp add: sim_def)

lemma sim_writes [sim_rules]: "sim R (writes f) (writes f)"
  by (simp add: sim_def)

lemma sim_bind [sim_rules]:
  assumes m: "sim R m n" and f: "\<And>x. sim R (f x) (g x)"
  shows "sim R (m \<bind> f) (n \<bind> g)"
proof (rule simI)
  fix s w v assume r: "R w v"
  obtain x s1 w1 where mw: "run_state m (s, w) = (x, (s1, w1))" by (metis prod.exhaust)
  obtain y s2 v1 where nv: "run_state n (s, v) = (y, (s2, v1))" by (metis prod.exhaust)
  have eq: "y = x" "s2 = s1" "R w1 v1"
    using simD [OF m r, of s] mw nv by auto
  show "result (m \<bind> f) (s, w) = result (n \<bind> g) (s, v) \<and>
     fst (exec (m \<bind> f) (s, w)) = fst (exec (n \<bind> g) (s, v)) \<and>
     R (snd (exec (m \<bind> f) (s, w))) (snd (exec (n \<bind> g) (s, v)))"
    using simD [OF f eq(3), of x s1] mw nv eq(1,2) by simp
qed

lemma sim_if [sim_rules]:
  "(b \<Longrightarrow> sim R m n) \<Longrightarrow> (\<not> b \<Longrightarrow> sim R m' n') \<Longrightarrow> sim R (if b then m else m') (if b then n else n')"
  by simp

lemma sim_whenever [sim_rules]: "(b \<Longrightarrow> sim R m n) \<Longrightarrow> sim R (whenever b m) (whenever b n)"
  by (simp add: whenever_def sim_ret)

lemma sim_let [sim_rules]:
  "(\<And>x. x = t \<Longrightarrow> sim R (m x) (n x)) \<Longrightarrow> sim R (let x = t in m x) (let x = t in n x)"
  by simp

section \<open>Pre- and postconditions\<close>

definition hoare :: "('s \<Rightarrow> bool) \<Rightarrow> ('s, 'a) state \<Rightarrow> ('s \<Rightarrow> bool) \<Rightarrow> bool" where
  "hoare P m Q \<longleftrightarrow> (\<forall>s. P s \<longrightarrow> Q (exec m s))"

lemma hoareD: "hoare P m Q \<Longrightarrow> P s \<Longrightarrow> Q (exec m s)"
  by (simp add: hoare_def)

lemma hoare_bind: "hoare P m R \<Longrightarrow> (\<And>x. hoare R (f x) Q) \<Longrightarrow> hoare P (m \<bind> f) Q"
  by (simp add: hoare_def case_prod_beta)

lemma keeps_hoare: "keeps P m \<Longrightarrow> (\<And>s. P s \<Longrightarrow> Q s) \<Longrightarrow> hoare P m Q"
  by (simp add: hoare_def keeps_def)

lemma hoare_keeps_bind: "keeps P m \<Longrightarrow> (\<And>x. hoare P (f x) Q) \<Longrightarrow> hoare P (m \<bind> f) Q"
  by (simp add: hoare_def keeps_def case_prod_beta)

lemma keeps_iff_hoare: "keeps P m \<longleftrightarrow> hoare P m P"
  by (simp add: hoare_def keeps_def)

lemma hoare_reads_then: "(\<And>x. hoare P (m x) Q) \<Longrightarrow> hoare P (reads f \<bind> m) Q"
  by (auto simp: hoare_def)

text \<open>A predicate on the struct alone, as a predicate on the pair.\<close>

abbreviation on_struct :: "('s \<Rightarrow> bool) \<Rightarrow> 's \<times> 'w \<Rightarrow> bool" where
  "on_struct Q \<equiv> \<lambda>p. Q (fst p)"

lemma keeps_writes_struct [keeps_rules]:
  "(\<And>s. Q s \<Longrightarrow> Q (f s)) \<Longrightarrow> keeps (on_struct Q) (writes f)"
  by (auto simp: keeps_def)

lemma keeps_outside [keeps_rules]: "keeps (on_struct Q) (outside m)"
  by (auto simp: keeps_def)

lemma keeps_prod_case [keeps_rules]: "(\<And>x y. keeps P (f x y)) \<Longrightarrow> keeps P (case p of (x, y) \<Rightarrow> f x y)"
  by (cases p) simp

lemma keeps_option_case [keeps_rules]:
  "keeps P m \<Longrightarrow> (\<And>x. keeps P (f x)) \<Longrightarrow> keeps P (case r of None \<Rightarrow> m | Some x \<Rightarrow> f x)"
  by (cases r) simp_all

section \<open>Hoare triples with results\<close>

definition triple :: "('s \<Rightarrow> bool) \<Rightarrow> ('s, 'a) state \<Rightarrow> ('a \<Rightarrow> 's \<Rightarrow> bool) \<Rightarrow> bool" where
  "triple P m Q \<longleftrightarrow> (\<forall>s. P s \<longrightarrow> Q (result m s) (exec m s))"

lemma tripleD: "triple P m Q \<Longrightarrow> P s \<Longrightarrow> Q (result m s) (exec m s)"
  by (simp add: triple_def)

lemma triple_bind: "triple P m R \<Longrightarrow> (\<And>x. triple (R x) (f x) Q) \<Longrightarrow> triple P (m \<bind> f) Q"
  by (simp add: triple_def case_prod_beta)

lemma triple_ret: "(\<And>s. P s \<Longrightarrow> Q x s) \<Longrightarrow> triple P (ret x) Q"
  by (simp add: triple_def)

lemma triple_reads: "(\<And>s w. P (s, w) \<Longrightarrow> Q (f s) (s, w)) \<Longrightarrow> triple P (reads f) Q"
  by (auto simp: triple_def)

lemma triple_writes: "(\<And>s w. P (s, w) \<Longrightarrow> Q () (f s, w)) \<Longrightarrow> triple P (writes f) Q"
  by (auto simp: triple_def)

lemma triple_weaken: "triple P m Q \<Longrightarrow> (\<And>s. P' s \<Longrightarrow> P s) \<Longrightarrow> (\<And>x s. Q x s \<Longrightarrow> Q' x s) \<Longrightarrow> triple P' m Q'"
  by (auto simp: triple_def)

lemma triple_keeps: "keeps P m \<longleftrightarrow> triple P m (\<lambda>_. P)"
  by (simp add: triple_def keeps_def)

lemma triple_if:
  "(b \<Longrightarrow> triple P m Q) \<Longrightarrow> (\<not> b \<Longrightarrow> triple P n Q) \<Longrightarrow> triple P (if b then m else n) Q"
  by simp

lemma triple_pure: "(b \<Longrightarrow> triple P m Q) \<Longrightarrow> triple (\<lambda>s. b \<and> P s) m Q"
  by (auto simp: triple_def)

section \<open>Words\<close>

lemma word_and_one_cases:
  fixes x :: "'a::len word"
  shows "x AND 1 = 0 \<or> x AND 1 = 1"
  by (simp add: and_one_eq mod_2_eq_odd)

lemma unat_u8_lt: "unat (x :: u8) < 256"
  using unsigned_less [of x] by simp

lemma unat_u16_lt: "unat (x :: u16) < 65536"
  using unsigned_less [of x] by simp

lemma unat_drop_bit: "unat (drop_bit n (x :: 'a::len word)) = unat x div 2 ^ n"
proof -
  have "take_bit LENGTH('a) (unat x) = unat x" by (simp add: take_bit_nat_eq_self_iff)
  then show ?thesis by (simp only: unsigned_drop_bit_eq) (simp add: drop_bit_eq_div)
qed

lemma unat_ucast_u8_u16 [simp]: "unat (ucast (x :: u8) :: u16) = unat x"
  using unat_u8_lt [of x] by (simp add: unsigned_ucast_eq take_bit_eq_mod)

lemma unat_ucast_u16_u32 [simp]: "unat (ucast (x :: u16) :: u32) = unat x"
  using unat_u16_lt [of x] by (simp add: unsigned_ucast_eq take_bit_eq_mod)

lemma unat_ucast_u16_u8 [simp]: "unat (ucast (x :: u16) :: u8) = unat x mod 256"
  by (simp add: unsigned_ucast_eq take_bit_eq_mod)

lemma unat_ucast_u32_u16 [simp]: "unat (ucast (x :: u32) :: u16) = unat x mod 65536"
  by (simp add: unsigned_ucast_eq take_bit_eq_mod)

lemma u8_eqI:
  fixes x y :: u8
  assumes "bit x 0 = bit y 0" "bit x 1 = bit y 1" "bit x 2 = bit y 2" "bit x 3 = bit y 3"
    "bit x 4 = bit y 4" "bit x 5 = bit y 5" "bit x 6 = bit y 6" "bit x 7 = bit y 7"
  shows "x = y"
proof (rule bit_word_eqI)
  fix n assume "n < LENGTH(8)"
  then have "n = 0 \<or> n = 1 \<or> n = 2 \<or> n = 3 \<or> n = 4 \<or> n = 5 \<or> n = 6 \<or> n = 7" by auto
  with assms show "bit x n = bit y n" by auto
qed

lemma bit_unat: "bit (x :: 'a::len word) n \<longleftrightarrow> odd (unat x div 2 ^ n)"
proof -
  have "bit x n \<longleftrightarrow> bit (unat x) n" by (simp add: bit_unsigned_iff)
  then show ?thesis by (simp only: bit_iff_odd)
qed

lemma odd_div_eq: "u < 2 * k \<Longrightarrow> odd (u div k) \<longleftrightarrow> k \<le> (u :: nat)"
proof -
  assume "u < 2 * k"
  then have "u div k = (if k \<le> u then 1 else 0)"
    by (auto simp: div_nat_eqI)
  then show ?thesis by simp
qed

lemma bit_u8_7: "bit (x :: u8) 7 \<longleftrightarrow> 128 \<le> unat x"
  using odd_div_eq [of "unat x" 128] unat_u8_lt [of x] by (simp add: bit_unat)

lemma unat_not_u8: "unat (NOT m :: u8) = 255 - unat m" 
proof -
  have "NOT m = 255 - m" by (simp add: not_eq_complement)
  then show ?thesis using unat_u8_lt [of m] by (simp add: unat_sub_if')
qed

lemma sint_u8: "sint (a :: u8) = int (unat a) - (if 128 \<le> unat a then 256 else 0)"
proof -
  have u: "uint a = int (unat a)" by simp
  have "sint a = signed_take_bit 7 (uint a)" by (simp add: sint_uint)
  also have "\<dots> = take_bit 8 (uint a) - 256 * of_bool (bit (uint a) 7)"
    by (simp add: signed_take_bit_eq_take_bit_minus)
  also have "take_bit 8 (uint a) = int (unat a) mod 256" by (simp add: take_bit_eq_mod)
  also have "int (unat a) mod 256 = int (unat a)"
    by (rule mod_pos_pos_trivial) (use unat_u8_lt [of a] in linarith)+
  also have "bit (uint a) 7 \<longleftrightarrow> 128 \<le> unat a" by (simp add: bit_uint_iff bit_u8_7)
  finally show ?thesis by simp
qed

lemma sint_small_u32: "unat x < 2 ^ 31 \<Longrightarrow> sint (x :: u32) = int (unat x)"
proof -
  assume a: "unat x < 2 ^ 31"
  have "int (unat x) < int (2 ^ 31)" using a by (simp only: of_nat_less_iff)
  then have "uint x < 2 ^ 31" by simp
  then have "take_bit 31 (uint x) = uint x" by (intro take_bit_int_eq_self) simp_all
  moreover have "\<not> bit (uint x) 31" using a by (simp add: bit_uint_iff bit_unat)
  ultimately show ?thesis by (simp add: sint_uint signed_take_bit_eq_if_positive)
qed

end
