(* ===== verification/M6502.thy ===== *)
theory M6502
  imports Prelude
begin

text \<open>
  The CPU core, \<open>m6502/m6502.h\<close> and \<open>m6502/m6502.c\<close>: the register struct, the bus callbacks, the
  addressing modes, the 76 opcode routines with their dispatch and timing tables, and the public
  API \<open>m6502_init\<close>, \<open>m6502_reset\<close>, \<open>m6502_nmi\<close>, \<open>m6502_irq\<close>, \<open>m6502_step\<close>.

  The struct \<open>M6502\<close> is the record \<open>m6502\<close> and the file-static variables of \<open>m6502.c\<close> extend it to
  the record \<open>core\<close>.  The flags stay single bytes, as in the code.  A bus is a pair of callbacks
  over the core and a context of any type; the C context pointer becomes the second component of
  the state.  Where C leaves the order of two bus reads in one expression open (\<open>rdk16\<close>, \<open>rdp16w\<close>,
  \<open>am_indx\<close>, \<open>am_indy\<close>) the model takes them from left to right.
\<close>

unbundle bit_operations_syntax

named_theorems m6502_ops "definitions of the addressing modes and opcode routines"

section \<open>State and bus\<close>

datatype m6502_access =
    M6502_ACC_OPCODE | M6502_ACC_OPERAND | M6502_ACC_DATA
  | M6502_ACC_PTR | M6502_ACC_STACK | M6502_ACC_VECTOR

fun acc_code :: "m6502_access \<Rightarrow> u8" where
  "acc_code M6502_ACC_OPCODE = 0"
| "acc_code M6502_ACC_OPERAND = 1"
| "acc_code M6502_ACC_DATA = 2"
| "acc_code M6502_ACC_PTR = 3"
| "acc_code M6502_ACC_STACK = 4"
| "acc_code M6502_ACC_VECTOR = 5"

lemma acc_code_inj: "acc_code k = acc_code l \<Longrightarrow> k = l"
  by (cases k; cases l; simp)

text \<open>The macro \<open>M6502_ACC_IS_CODE\<close> compares enumerators, so they carry the order of their codes.\<close>

instantiation m6502_access :: linorder
begin

definition less_eq_m6502_access :: "m6502_access \<Rightarrow> m6502_access \<Rightarrow> bool" where
  "less_eq_m6502_access k l \<longleftrightarrow> acc_code k \<le> acc_code l"

definition less_m6502_access :: "m6502_access \<Rightarrow> m6502_access \<Rightarrow> bool" where
  "less_m6502_access k l \<longleftrightarrow> acc_code k < acc_code l"

instance
proof
  fix k l m :: m6502_access
  show "(k < l) = (k \<le> l \<and> \<not> l \<le> k)"
    unfolding less_eq_m6502_access_def less_m6502_access_def by (rule less_le_not_le)
  show "k \<le> k" unfolding less_eq_m6502_access_def by (rule order_refl)
  show "k \<le> l \<Longrightarrow> l \<le> m \<Longrightarrow> k \<le> m"
    unfolding less_eq_m6502_access_def by (rule order_trans)
  show "k \<le> l \<Longrightarrow> l \<le> k \<Longrightarrow> k = l"
    unfolding less_eq_m6502_access_def by (rule acc_code_inj) (rule order_antisym)
  show "k \<le> l \<or> l \<le> k" unfolding less_eq_m6502_access_def by (rule linear)
qed

end

definition M6502_ACC_IS_CODE :: "m6502_access \<Rightarrow> bool" where
  "M6502_ACC_IS_CODE k \<longleftrightarrow> k \<le> M6502_ACC_OPERAND"

record m6502 =
  r_pc :: u16
  r_sp :: u8
  r_a :: u8
  r_x :: u8
  r_y :: u8
  f_c :: u8
  f_z :: u8
  f_i :: u8
  f_d :: u8
  f_v :: u8
  f_n :: u8
  cycles :: u64
  access :: u8

record core = m6502 +
  g_ea :: u16
  g_ticks :: u32
  g_op :: u8
  g_paddr :: u8
  g_pop :: u8
  g_acc :: u8
  g_imm :: u8

text \<open>The file-static variables start as zero; so does the \<open>static M6502\<close> of both programs.\<close>

definition zero_core :: core where
  "zero_core = \<lparr>r_pc = 0, r_sp = 0, r_a = 0, r_x = 0, r_y = 0, f_c = 0, f_z = 0, f_i = 0, f_d = 0, f_v = 0,
     f_n = 0, cycles = 0, access = 0, g_ea = 0, g_ticks = 0, g_op = 0, g_paddr = 0, g_pop = 0, g_acc = 0, g_imm = 0\<rparr>"

type_synonym ('w, 'a) cpu = "(core \<times> 'w, 'a) state"

record 'w bus =
  bus_read :: "u16 \<Rightarrow> (core \<times> 'w, u8) state"
  bus_write :: "u16 \<Rightarrow> u8 \<Rightarrow> (core \<times> 'w, unit) state"

section \<open>Bus helpers\<close>

definition rdk :: "'w bus \<Rightarrow> u16 \<Rightarrow> m6502_access \<Rightarrow> ('w, u8) cpu" where
  "rdk B a kind = do { writes (\<lambda>s. s\<lparr>access := acc_code kind\<rparr>); bus_read B a }"

definition wrk :: "'w bus \<Rightarrow> u16 \<Rightarrow> u8 \<Rightarrow> m6502_access \<Rightarrow> ('w, unit) cpu" where
  "wrk B a v kind = do { writes (\<lambda>s. s\<lparr>access := acc_code kind\<rparr>); bus_write B a v }"

text \<open>The C expression \<open>lo | hi << 8\<close> on \<open>uint16_t\<close>.\<close>

definition le16 :: "u8 \<Rightarrow> u8 \<Rightarrow> u16" where
  "le16 lo hi = ucast lo OR push_bit 8 (ucast hi)"

definition rdk16 :: "'w bus \<Rightarrow> u16 \<Rightarrow> m6502_access \<Rightarrow> ('w, u16) cpu" where
  "rdk16 B a kind = do { lo \<leftarrow> rdk B a kind; hi \<leftarrow> rdk B (a + 1) kind; ret (le16 lo hi) }"

definition rd :: "'w bus \<Rightarrow> u16 \<Rightarrow> ('w, u8) cpu" where
  "rd B a = rdk B a M6502_ACC_DATA"

definition wr :: "'w bus \<Rightarrow> u16 \<Rightarrow> u8 \<Rightarrow> ('w, unit) cpu" where
  "wr B a v = wrk B a v M6502_ACC_DATA"

definition rdc :: "'w bus \<Rightarrow> u16 \<Rightarrow> ('w, u8) cpu" where
  "rdc B a = rdk B a M6502_ACC_OPERAND"

definition rdc16 :: "'w bus \<Rightarrow> u16 \<Rightarrow> ('w, u16) cpu" where
  "rdc16 B a = rdk16 B a M6502_ACC_OPERAND"

definition rdp :: "'w bus \<Rightarrow> u16 \<Rightarrow> ('w, u8) cpu" where
  "rdp B a = rdk B a M6502_ACC_PTR"

definition rdp16w :: "'w bus \<Rightarrow> u16 \<Rightarrow> ('w, u16) cpu" where
  "rdp16w B a = (let b = (a AND 0xff00) OR ((a + 1) AND 0x00ff) in
     do { lo \<leftarrow> rdp B a; hi \<leftarrow> rdp B b; ret (le16 lo hi) })"

definition rdv16 :: "'w bus \<Rightarrow> u16 \<Rightarrow> ('w, u16) cpu" where
  "rdv16 B a = rdk16 B a M6502_ACC_VECTOR"

section \<open>Stack helpers\<close>

definition push8 :: "'w bus \<Rightarrow> u8 \<Rightarrow> ('w, unit) cpu" where
  "push8 B v = do {
     sp \<leftarrow> reads r_sp;
     writes (\<lambda>s. s\<lparr>r_sp := sp - 1\<rparr>);
     wrk B (0x0100 OR ucast sp) v M6502_ACC_STACK }"

definition pull8 :: "'w bus \<Rightarrow> ('w, u8) cpu" where
  "pull8 B = do {
     writes (\<lambda>s. s\<lparr>r_sp := r_sp s + 1\<rparr>);
     sp \<leftarrow> reads r_sp;
     rdk B (0x0100 OR ucast sp) M6502_ACC_STACK }"

definition push16 :: "'w bus \<Rightarrow> u16 \<Rightarrow> ('w, unit) cpu" where
  "push16 B v = do { push8 B (ucast (drop_bit 8 v)); push8 B (ucast v) }"

definition pull16 :: "'w bus \<Rightarrow> ('w, u16) cpu" where
  "pull16 B = do { lo \<leftarrow> pull8 B; hi \<leftarrow> pull8 B; ret (le16 lo hi) }"

section \<open>Processor status register\<close>

definition m6502_getP :: "'z m6502_scheme \<Rightarrow> u8" where
  "m6502_getP s = push_bit 7 (f_n s) OR push_bit 6 (f_v s) OR push_bit 5 1 OR
     push_bit 3 (f_d s) OR push_bit 2 (f_i s) OR push_bit 1 (f_z s) OR f_c s"

definition m6502_setP :: "u8 \<Rightarrow> 'z m6502_scheme \<Rightarrow> 'z m6502_scheme" where
  "m6502_setP p s = s\<lparr>
     f_n := drop_bit 7 p AND 1, f_v := drop_bit 6 p AND 1,
     f_d := drop_bit 3 p AND 1, f_i := drop_bit 2 p AND 1,
     f_z := drop_bit 1 p AND 1, f_c := p AND 1\<rparr>"

definition calcZ :: "u8 \<Rightarrow> ('w, unit) cpu" where
  "calcZ v = writes (\<lambda>s. s\<lparr>f_z := of_bool (v = 0)\<rparr>)"

definition calcN :: "u8 \<Rightarrow> ('w, unit) cpu" where
  "calcN v = writes (\<lambda>s. s\<lparr>f_n := drop_bit 7 v AND 1\<rparr>)"

definition calcZN :: "u8 \<Rightarrow> ('w, unit) cpu" where
  "calcZN v = do { calcZ v; calcN v }"

definition calcC16 :: "u16 \<Rightarrow> ('w, unit) cpu" where
  "calcC16 v = writes (\<lambda>s. s\<lparr>f_c := ucast (drop_bit 8 v AND 1)\<rparr>)"

definition calcV :: "u16 \<Rightarrow> u8 \<Rightarrow> u16 \<Rightarrow> ('w, unit) cpu" where
  "calcV r a m = writes (\<lambda>s. s\<lparr>f_v := of_bool ((r XOR ucast a) AND (r XOR m) AND 0x80 \<noteq> 0)\<rparr>)"

section \<open>Addressing modes\<close>

text \<open>The expression \<open>g_cpu->pc++\<close>.\<close>

definition pc_postinc :: "('w, u16) cpu" where
  "pc_postinc = do { p \<leftarrow> reads r_pc; writes (\<lambda>s. s\<lparr>r_pc := p + 1\<rparr>); ret p }"

definition set_ea :: "u16 \<Rightarrow> ('w, unit) cpu" where
  "set_ea v = writes (\<lambda>s. s\<lparr>g_ea := v\<rparr>)"

definition am_imp :: "('w, unit) cpu" where [m6502_ops]:
  "am_imp = ret ()"

definition am_acc :: "('w, unit) cpu" where [m6502_ops]:
  "am_acc = writes (\<lambda>s. s\<lparr>g_acc := 1\<rparr>)"

definition am_imm :: "('w, unit) cpu" where [m6502_ops]:
  "am_imm = do { p \<leftarrow> pc_postinc; set_ea p; writes (\<lambda>s. s\<lparr>g_imm := 1\<rparr>) }"

definition am_zp :: "'w bus \<Rightarrow> ('w, unit) cpu" where [m6502_ops]:
  "am_zp B = do { p \<leftarrow> pc_postinc; b \<leftarrow> rdc B p; set_ea (ucast b) }"

definition am_zpx :: "'w bus \<Rightarrow> ('w, unit) cpu" where [m6502_ops]:
  "am_zpx B = do { p \<leftarrow> pc_postinc; b \<leftarrow> rdc B p; x \<leftarrow> reads r_x;
     set_ea ((ucast b + ucast x) AND 0xff) }"

definition am_zpy :: "'w bus \<Rightarrow> ('w, unit) cpu" where [m6502_ops]:
  "am_zpy B = do { p \<leftarrow> pc_postinc; b \<leftarrow> rdc B p; y \<leftarrow> reads r_y;
     set_ea ((ucast b + ucast y) AND 0xff) }"

text \<open>The statement pair \<open>b = rdc16(pc); pc += 2\<close>.\<close>

definition fetch16 :: "'w bus \<Rightarrow> ('w, u16) cpu" where
  "fetch16 B = do { p \<leftarrow> reads r_pc; b \<leftarrow> rdc16 B p; writes (\<lambda>s. s\<lparr>r_pc := r_pc s + 2\<rparr>); ret b }"

definition am_abs :: "'w bus \<Rightarrow> ('w, unit) cpu" where [m6502_ops]:
  "am_abs B = do { b \<leftarrow> fetch16 B; set_ea b }"

definition am_rel :: "'w bus \<Rightarrow> ('w, unit) cpu" where [m6502_ops]:
  "am_rel B = do { p \<leftarrow> pc_postinc; off \<leftarrow> rdc B p; pc \<leftarrow> reads r_pc; set_ea (pc + scast off) }"

text \<open>Base plus index, with the page-crossing note \<open>g_paddr\<close>.\<close>

definition set_ea_indexed :: "u16 \<Rightarrow> u8 \<Rightarrow> ('w, unit) cpu" where
  "set_ea_indexed b i = do {
     set_ea (b + ucast i);
     writes (\<lambda>s. s\<lparr>g_paddr := of_bool (b AND 0xff00 \<noteq> g_ea s AND 0xff00)\<rparr>) }"

definition am_absx :: "'w bus \<Rightarrow> ('w, unit) cpu" where [m6502_ops]:
  "am_absx B = do { b \<leftarrow> fetch16 B; x \<leftarrow> reads r_x; set_ea_indexed b x }"

definition am_absy :: "'w bus \<Rightarrow> ('w, unit) cpu" where [m6502_ops]:
  "am_absy B = do { b \<leftarrow> fetch16 B; y \<leftarrow> reads r_y; set_ea_indexed b y }"

definition am_ind :: "'w bus \<Rightarrow> ('w, unit) cpu" where [m6502_ops]:
  "am_ind B = do { p \<leftarrow> fetch16 B; t \<leftarrow> rdp16w B p; set_ea t }"

definition am_indx :: "'w bus \<Rightarrow> ('w, unit) cpu" where [m6502_ops]:
  "am_indx B = do {
     p \<leftarrow> pc_postinc; b \<leftarrow> rdc B p; x \<leftarrow> reads r_x;
     let ptr = (b + x :: u8);
     lo \<leftarrow> rdp B (ucast ptr); hi \<leftarrow> rdp B ((ucast ptr + 1) AND 0xff);
     set_ea (le16 lo hi) }"

definition am_indy :: "'w bus \<Rightarrow> ('w, unit) cpu" where [m6502_ops]:
  "am_indy B = do {
     p \<leftarrow> pc_postinc; ptr \<leftarrow> rdc B p;
     lo \<leftarrow> rdp B (ucast ptr); hi \<leftarrow> rdp B ((ucast ptr + 1) AND 0xff);
     y \<leftarrow> reads r_y;
     set_ea_indexed (le16 lo hi) y }"

section \<open>Operand access and branches\<close>

definition getval :: "'w bus \<Rightarrow> ('w, u8) cpu" where
  "getval B = do {
     acc \<leftarrow> reads g_acc;
     if acc \<noteq> 0 then reads r_a
     else do { imm \<leftarrow> reads g_imm; ea \<leftarrow> reads g_ea;
               if imm \<noteq> 0 then rdc B ea else rd B ea } }"

definition putval :: "'w bus \<Rightarrow> u8 \<Rightarrow> ('w, unit) cpu" where
  "putval B v = do {
     acc \<leftarrow> reads g_acc;
     if acc \<noteq> 0 then writes (\<lambda>s. s\<lparr>r_a := v\<rparr>)
     else do { ea \<leftarrow> reads g_ea; wr B ea v } }"

definition branch :: "bool \<Rightarrow> ('w, unit) cpu" where
  "branch cond = whenever cond (do {
     old \<leftarrow> reads r_pc;
     writes (\<lambda>s. s\<lparr>r_pc := g_ea s\<rparr>);
     writes (\<lambda>s. s\<lparr>g_ticks := g_ticks s +
       (if (old XOR r_pc s) AND 0xff00 \<noteq> 0 then 2 else 1)\<rparr>) })"

section \<open>Official opcodes\<close>

text \<open>The body of \<open>op_adc\<close> and \<open>op_sbc\<close> after \<open>getval()\<close> has delivered the operand byte \<open>m\<close>.\<close>

definition adc_with :: "u8 \<Rightarrow> ('w, unit) cpu" where [m6502_ops]:
  "adc_with m = do {
     a \<leftarrow> reads r_a; c \<leftarrow> reads f_c; d \<leftarrow> reads f_d;
     let v = (ucast m :: u16);
     let r = ucast a + v + ucast c;
     calcZ (ucast r);
     calcV r a v;
     r' \<leftarrow> (if d = 0 then do { calcC16 r; calcN (ucast r); ret r }
       else do {
         let al = (ucast a AND 0x0f) + (v AND 0x0f) + ucast c;
         let al = (if 0x0a \<le> al then ((al + 6) AND 0x0f) + 0x10 else al);
         let al = al + ((ucast a AND 0xf0) + (v AND 0xf0));
         calcN (ucast al);
         calcV al a v;
         let al = (if 0xa0 \<le> al then al + 0x60 else al);
         calcC16 al;
         writes (\<lambda>s. s\<lparr>g_ticks := g_ticks s + 1\<rparr>);
         ret al });
     writes (\<lambda>s. s\<lparr>r_a := ucast r'\<rparr>) }"

definition sbc_with :: "u8 \<Rightarrow> u8 \<Rightarrow> ('w, unit) cpu" where [m6502_ops]:
  "sbc_with cc m = do {
     let v = (ucast m XOR 0xff :: u16);
     a \<leftarrow> reads r_a; c \<leftarrow> reads f_c;
     let r = ucast a + v + ucast c;
     calcC16 r;
     calcZN (ucast r);
     calcV r a v;
     d \<leftarrow> reads f_d;
     r' \<leftarrow> (if d \<noteq> 0 then do {
         let b = v XOR 0xff;
         let al = (ucast a AND 0x0f) - (b AND 0x0f) + ucast cc - 1;
         let al = (if al AND 0x8000 \<noteq> 0 then ((al - 6) AND 0x0f) - 0x10 else al);
         let res = (ucast a AND 0xf0) - (b AND 0xf0) + al;
         let res = (if res AND 0x8000 \<noteq> 0 then res - 0x60 else res);
         writes (\<lambda>s. s\<lparr>g_ticks := g_ticks s + 1\<rparr>);
         ret res }
       else ret r);
     writes (\<lambda>s. s\<lparr>r_a := ucast r'\<rparr>) }"

definition op_adc :: "'w bus \<Rightarrow> ('w, unit) cpu" where [m6502_ops]:
  "op_adc B = do { writes (\<lambda>s. s\<lparr>g_pop := 1\<rparr>); m \<leftarrow> getval B; adc_with m }"

definition op_sbc :: "'w bus \<Rightarrow> ('w, unit) cpu" where [m6502_ops]:
  "op_sbc B = do { writes (\<lambda>s. s\<lparr>g_pop := 1\<rparr>); cc \<leftarrow> reads f_c; m \<leftarrow> getval B; sbc_with cc m }"

definition op_and :: "'w bus \<Rightarrow> ('w, unit) cpu" where [m6502_ops]:
  "op_and B = do {
     writes (\<lambda>s. s\<lparr>g_pop := 1\<rparr>);
     v \<leftarrow> getval B; a \<leftarrow> reads r_a;
     writes (\<lambda>s. s\<lparr>r_a := a AND v\<rparr>); calcZN (a AND v) }"

definition op_eor :: "'w bus \<Rightarrow> ('w, unit) cpu" where [m6502_ops]:
  "op_eor B = do {
     writes (\<lambda>s. s\<lparr>g_pop := 1\<rparr>);
     v \<leftarrow> getval B; a \<leftarrow> reads r_a;
     writes (\<lambda>s. s\<lparr>r_a := a XOR v\<rparr>); calcZN (a XOR v) }"

definition op_ora :: "'w bus \<Rightarrow> ('w, unit) cpu" where [m6502_ops]:
  "op_ora B = do {
     writes (\<lambda>s. s\<lparr>g_pop := 1\<rparr>);
     v \<leftarrow> getval B; a \<leftarrow> reads r_a;
     writes (\<lambda>s. s\<lparr>r_a := a OR v\<rparr>); calcZN (a OR v) }"

definition op_lda :: "'w bus \<Rightarrow> ('w, unit) cpu" where [m6502_ops]:
  "op_lda B = do { writes (\<lambda>s. s\<lparr>g_pop := 1\<rparr>); v \<leftarrow> getval B; writes (\<lambda>s. s\<lparr>r_a := v\<rparr>); calcZN v }"

definition op_ldx :: "'w bus \<Rightarrow> ('w, unit) cpu" where [m6502_ops]:
  "op_ldx B = do { writes (\<lambda>s. s\<lparr>g_pop := 1\<rparr>); v \<leftarrow> getval B; writes (\<lambda>s. s\<lparr>r_x := v\<rparr>); calcZN v }"

definition op_ldy :: "'w bus \<Rightarrow> ('w, unit) cpu" where [m6502_ops]:
  "op_ldy B = do { writes (\<lambda>s. s\<lparr>g_pop := 1\<rparr>); v \<leftarrow> getval B; writes (\<lambda>s. s\<lparr>r_y := v\<rparr>); calcZN v }"

definition op_sta :: "'w bus \<Rightarrow> ('w, unit) cpu" where [m6502_ops]:
  "op_sta B = do { ea \<leftarrow> reads g_ea; v \<leftarrow> reads r_a; wr B ea v }"

definition op_stx :: "'w bus \<Rightarrow> ('w, unit) cpu" where [m6502_ops]:
  "op_stx B = do { ea \<leftarrow> reads g_ea; v \<leftarrow> reads r_x; wr B ea v }"

definition op_sty :: "'w bus \<Rightarrow> ('w, unit) cpu" where [m6502_ops]:
  "op_sty B = do { ea \<leftarrow> reads g_ea; v \<leftarrow> reads r_y; wr B ea v }"

definition op_asl :: "'w bus \<Rightarrow> ('w, unit) cpu" where [m6502_ops]:
  "op_asl B = do {
     v \<leftarrow> getval B;
     let r = (push_bit 1 (ucast v) :: u16);
     calcC16 r; calcZN (ucast r); putval B (ucast r) }"

definition op_lsr :: "'w bus \<Rightarrow> ('w, unit) cpu" where [m6502_ops]:
  "op_lsr B = do {
     v \<leftarrow> getval B;
     writes (\<lambda>s. s\<lparr>f_c := v AND 1\<rparr>);
     let v = drop_bit 1 v;
     calcZN v; putval B v }"

definition op_rol :: "'w bus \<Rightarrow> ('w, unit) cpu" where [m6502_ops]:
  "op_rol B = do {
     v \<leftarrow> getval B; c \<leftarrow> reads f_c;
     let r = (push_bit 1 (ucast v) OR ucast c :: u16);
     calcC16 r; calcZN (ucast r); putval B (ucast r) }"

definition op_ror :: "'w bus \<Rightarrow> ('w, unit) cpu" where [m6502_ops]:
  "op_ror B = do {
     v \<leftarrow> getval B; c \<leftarrow> reads f_c;
     let r = drop_bit 1 v OR push_bit 7 c;
     writes (\<lambda>s. s\<lparr>f_c := v AND 1\<rparr>);
     calcZN r; putval B r }"

definition op_inc :: "'w bus \<Rightarrow> ('w, unit) cpu" where [m6502_ops]:
  "op_inc B = do { v \<leftarrow> getval B; let r = v + 1; calcZN r; putval B r }"

definition op_dec :: "'w bus \<Rightarrow> ('w, unit) cpu" where [m6502_ops]:
  "op_dec B = do { v \<leftarrow> getval B; let r = v - 1; calcZN r; putval B r }"

definition op_inx :: "('w, unit) cpu" where [m6502_ops]:
  "op_inx = do { v \<leftarrow> reads r_x; writes (\<lambda>s. s\<lparr>r_x := v + 1\<rparr>); calcZN (v + 1) }"

definition op_iny :: "('w, unit) cpu" where [m6502_ops]:
  "op_iny = do { v \<leftarrow> reads r_y; writes (\<lambda>s. s\<lparr>r_y := v + 1\<rparr>); calcZN (v + 1) }"

definition op_dex :: "('w, unit) cpu" where [m6502_ops]:
  "op_dex = do { v \<leftarrow> reads r_x; writes (\<lambda>s. s\<lparr>r_x := v - 1\<rparr>); calcZN (v - 1) }"

definition op_dey :: "('w, unit) cpu" where [m6502_ops]:
  "op_dey = do { v \<leftarrow> reads r_y; writes (\<lambda>s. s\<lparr>r_y := v - 1\<rparr>); calcZN (v - 1) }"

definition op_tax :: "('w, unit) cpu" where [m6502_ops]:
  "op_tax = do { v \<leftarrow> reads r_a; writes (\<lambda>s. s\<lparr>r_x := v\<rparr>); calcZN v }"

definition op_tay :: "('w, unit) cpu" where [m6502_ops]:
  "op_tay = do { v \<leftarrow> reads r_a; writes (\<lambda>s. s\<lparr>r_y := v\<rparr>); calcZN v }"

definition op_txa :: "('w, unit) cpu" where [m6502_ops]:
  "op_txa = do { v \<leftarrow> reads r_x; writes (\<lambda>s. s\<lparr>r_a := v\<rparr>); calcZN v }"

definition op_tya :: "('w, unit) cpu" where [m6502_ops]:
  "op_tya = do { v \<leftarrow> reads r_y; writes (\<lambda>s. s\<lparr>r_a := v\<rparr>); calcZN v }"

definition op_tsx :: "('w, unit) cpu" where [m6502_ops]:
  "op_tsx = do { v \<leftarrow> reads r_sp; writes (\<lambda>s. s\<lparr>r_x := v\<rparr>); calcZN v }"

definition op_txs :: "('w, unit) cpu" where [m6502_ops]:
  "op_txs = writes (\<lambda>s. s\<lparr>r_sp := r_x s\<rparr>)"

definition op_clc :: "('w, unit) cpu" where [m6502_ops]:
  "op_clc = writes (\<lambda>s. s\<lparr>f_c := 0\<rparr>)"

definition op_sec :: "('w, unit) cpu" where [m6502_ops]:
  "op_sec = writes (\<lambda>s. s\<lparr>f_c := 1\<rparr>)"

definition op_cld :: "('w, unit) cpu" where [m6502_ops]:
  "op_cld = writes (\<lambda>s. s\<lparr>f_d := 0\<rparr>)"

definition op_sed :: "('w, unit) cpu" where [m6502_ops]:
  "op_sed = writes (\<lambda>s. s\<lparr>f_d := 1\<rparr>)"

definition op_cli :: "('w, unit) cpu" where [m6502_ops]:
  "op_cli = writes (\<lambda>s. s\<lparr>f_i := 0\<rparr>)"

definition op_sei :: "('w, unit) cpu" where [m6502_ops]:
  "op_sei = writes (\<lambda>s. s\<lparr>f_i := 1\<rparr>)"

definition op_clv :: "('w, unit) cpu" where [m6502_ops]:
  "op_clv = writes (\<lambda>s. s\<lparr>f_v := 0\<rparr>)"

definition cmp_reg :: "u8 \<Rightarrow> u8 \<Rightarrow> ('w, unit) cpu" where [m6502_ops]:
  "cmp_reg reg val = do {
     writes (\<lambda>s. s\<lparr>f_c := of_bool (val \<le> reg), f_z := of_bool (reg = val)\<rparr>);
     calcN (reg - val) }"

definition op_cmp :: "'w bus \<Rightarrow> ('w, unit) cpu" where [m6502_ops]:
  "op_cmp B = do { writes (\<lambda>s. s\<lparr>g_pop := 1\<rparr>); v \<leftarrow> getval B; a \<leftarrow> reads r_a; cmp_reg a v }"

definition op_cpx :: "'w bus \<Rightarrow> ('w, unit) cpu" where [m6502_ops]:
  "op_cpx B = do { v \<leftarrow> getval B; x \<leftarrow> reads r_x; cmp_reg x v }"

definition op_cpy :: "'w bus \<Rightarrow> ('w, unit) cpu" where [m6502_ops]:
  "op_cpy B = do { v \<leftarrow> getval B; y \<leftarrow> reads r_y; cmp_reg y v }"

definition op_bit :: "'w bus \<Rightarrow> ('w, unit) cpu" where [m6502_ops]:
  "op_bit B = do {
     v \<leftarrow> getval B; a \<leftarrow> reads r_a;
     writes (\<lambda>s. s\<lparr>f_z := of_bool (a AND v = 0), f_n := drop_bit 7 v AND 1,
       f_v := drop_bit 6 v AND 1\<rparr>) }"

definition op_bpl :: "('w, unit) cpu" where [m6502_ops]:
  "op_bpl = do { f \<leftarrow> reads f_n; branch (f = 0) }"

definition op_bmi :: "('w, unit) cpu" where [m6502_ops]:
  "op_bmi = do { f \<leftarrow> reads f_n; branch (f \<noteq> 0) }"

definition op_bvc :: "('w, unit) cpu" where [m6502_ops]:
  "op_bvc = do { f \<leftarrow> reads f_v; branch (f = 0) }"

definition op_bvs :: "('w, unit) cpu" where [m6502_ops]:
  "op_bvs = do { f \<leftarrow> reads f_v; branch (f \<noteq> 0) }"

definition op_bcc :: "('w, unit) cpu" where [m6502_ops]:
  "op_bcc = do { f \<leftarrow> reads f_c; branch (f = 0) }"

definition op_bcs :: "('w, unit) cpu" where [m6502_ops]:
  "op_bcs = do { f \<leftarrow> reads f_c; branch (f \<noteq> 0) }"

definition op_bne :: "('w, unit) cpu" where [m6502_ops]:
  "op_bne = do { f \<leftarrow> reads f_z; branch (f = 0) }"

definition op_beq :: "('w, unit) cpu" where [m6502_ops]:
  "op_beq = do { f \<leftarrow> reads f_z; branch (f \<noteq> 0) }"

definition op_jmp :: "('w, unit) cpu" where [m6502_ops]:
  "op_jmp = writes (\<lambda>s. s\<lparr>r_pc := g_ea s\<rparr>)"

definition op_jsr :: "'w bus \<Rightarrow> ('w, unit) cpu" where [m6502_ops]:
  "op_jsr B = do { pc \<leftarrow> reads r_pc; push16 B (pc - 1); writes (\<lambda>s. s\<lparr>r_pc := g_ea s\<rparr>) }"

definition op_rts :: "'w bus \<Rightarrow> ('w, unit) cpu" where [m6502_ops]:
  "op_rts B = do { pc \<leftarrow> pull16 B; writes (\<lambda>s. s\<lparr>r_pc := pc + 1\<rparr>) }"

definition op_rti :: "'w bus \<Rightarrow> ('w, unit) cpu" where [m6502_ops]:
  "op_rti B = do { p \<leftarrow> pull8 B; writes (m6502_setP p); pc \<leftarrow> pull16 B; writes (\<lambda>s. s\<lparr>r_pc := pc\<rparr>) }"

definition op_brk :: "'w bus \<Rightarrow> ('w, unit) cpu" where [m6502_ops]:
  "op_brk B = do {
     writes (\<lambda>s. s\<lparr>r_pc := r_pc s + 1\<rparr>);
     pc \<leftarrow> reads r_pc;
     push16 B pc;
     p \<leftarrow> reads m6502_getP;
     push8 B (p OR 0x10);
     writes (\<lambda>s. s\<lparr>f_i := 1\<rparr>);
     v \<leftarrow> rdv16 B 0xfffe;
     writes (\<lambda>s. s\<lparr>r_pc := v\<rparr>) }"

definition op_pha :: "'w bus \<Rightarrow> ('w, unit) cpu" where [m6502_ops]:
  "op_pha B = do { a \<leftarrow> reads r_a; push8 B a }"

definition op_pla :: "'w bus \<Rightarrow> ('w, unit) cpu" where [m6502_ops]:
  "op_pla B = do { v \<leftarrow> pull8 B; writes (\<lambda>s. s\<lparr>r_a := v\<rparr>); calcZN v }"

definition op_php :: "'w bus \<Rightarrow> ('w, unit) cpu" where [m6502_ops]:
  "op_php B = do { p \<leftarrow> reads m6502_getP; push8 B (p OR 0x10) }"

definition op_plp :: "'w bus \<Rightarrow> ('w, unit) cpu" where [m6502_ops]:
  "op_plp B = do { p \<leftarrow> pull8 B; writes (m6502_setP p) }"

definition op_nop :: "('w, unit) cpu" where [m6502_ops]:
  "op_nop = do {
     op \<leftarrow> reads g_op;
     whenever (op \<in> {0x1c, 0x3c, 0x5c, 0x7c, 0xdc, 0xfc}) (writes (\<lambda>s. s\<lparr>g_pop := 1\<rparr>)) }"

section \<open>Undocumented opcodes\<close>

definition op_SLO :: "'w bus \<Rightarrow> ('w, unit) cpu" where [m6502_ops]:
  "op_SLO B = do { op_asl B; op_ora B }"

definition op_RLA :: "'w bus \<Rightarrow> ('w, unit) cpu" where [m6502_ops]:
  "op_RLA B = do { op_rol B; op_and B; writes (\<lambda>s. s\<lparr>g_pop := 0\<rparr>) }"

definition op_SRE :: "'w bus \<Rightarrow> ('w, unit) cpu" where [m6502_ops]:
  "op_SRE B = do { op_lsr B; op_eor B; writes (\<lambda>s. s\<lparr>g_pop := 0\<rparr>) }"

definition op_RRA :: "'w bus \<Rightarrow> ('w, unit) cpu" where [m6502_ops]:
  "op_RRA B = do { op_ror B; op_adc B; writes (\<lambda>s. s\<lparr>g_pop := 0\<rparr>); d \<leftarrow> reads f_d; whenever (d \<noteq> 0) (writes (\<lambda>s. s\<lparr>g_ticks := g_ticks s - 1\<rparr>)) }"

definition op_SAX :: "'w bus \<Rightarrow> ('w, unit) cpu" where [m6502_ops]:
  "op_SAX B = do { ea \<leftarrow> reads g_ea; a \<leftarrow> reads r_a; x \<leftarrow> reads r_x; wr B ea (a AND x) }"

definition op_LAX :: "'w bus \<Rightarrow> ('w, unit) cpu" where [m6502_ops]:
  "op_LAX B = do { writes (\<lambda>s. s\<lparr>g_pop := 1\<rparr>); op_lda B; op_ldx B }"

definition op_DCP :: "'w bus \<Rightarrow> ('w, unit) cpu" where [m6502_ops]:
  "op_DCP B = do { op_dec B; op_cmp B; writes (\<lambda>s. s\<lparr>g_pop := 0\<rparr>) }"

definition op_ISC :: "'w bus \<Rightarrow> ('w, unit) cpu" where [m6502_ops]:
  "op_ISC B = do { op_inc B; op_sbc B; writes (\<lambda>s. s\<lparr>g_pop := 0\<rparr>); d \<leftarrow> reads f_d; whenever (d \<noteq> 0) (writes (\<lambda>s. s\<lparr>g_ticks := g_ticks s - 1\<rparr>)) }"

definition op_ANC :: "'w bus \<Rightarrow> ('w, unit) cpu" where [m6502_ops]:
  "op_ANC B = do { op_and B; writes (\<lambda>s. s\<lparr>f_c := drop_bit 7 (r_a s) AND 1\<rparr>) }"

definition op_ALR :: "'w bus \<Rightarrow> ('w, unit) cpu" where [m6502_ops]:
  "op_ALR B = do {
     op_and B;
     writes (\<lambda>s. s\<lparr>f_c := r_a s AND 1\<rparr>);
     writes (\<lambda>s. s\<lparr>r_a := drop_bit 1 (r_a s)\<rparr>);
     a \<leftarrow> reads r_a; calcZN a }"

definition op_LAS :: "'w bus \<Rightarrow> ('w, unit) cpu" where [m6502_ops]:
  "op_LAS B = do {
     writes (\<lambda>s. s\<lparr>g_pop := 1\<rparr>);
     m \<leftarrow> getval B; sp \<leftarrow> reads r_sp;
     let v = m AND sp;
     writes (\<lambda>s. s\<lparr>r_x := v, r_a := v, r_sp := v\<rparr>);
     calcZN v }"

definition op_JAM :: "('w, unit) cpu" where [m6502_ops]:
  "op_JAM = writes (\<lambda>s. s\<lparr>r_pc := r_pc s - 1\<rparr>)"

definition op_ARR :: "'w bus \<Rightarrow> ('w, unit) cpu" where [m6502_ops]:
  "op_ARR B = do {
     op_and B;
     pre \<leftarrow> reads r_a;
     writes (\<lambda>s. s\<lparr>r_a := drop_bit 1 (r_a s) OR push_bit 7 (f_c s)\<rparr>);
     a \<leftarrow> reads r_a; calcZN a;
     d \<leftarrow> reads f_d;
     if d = 0 then do {
       writes (\<lambda>s. s\<lparr>f_c := drop_bit 6 (r_a s) AND 1\<rparr>);
       writes (\<lambda>s. s\<lparr>f_v := f_c s XOR (drop_bit 5 (r_a s) AND 1)\<rparr>) }
     else do {
       writes (\<lambda>s. s\<lparr>f_v := of_bool ((r_a s XOR pre) AND 0x40 \<noteq> 0)\<rparr>);
       whenever (5 < (ucast pre AND 0x0f) + (ucast pre AND 1 :: u16))
         (writes (\<lambda>s. s\<lparr>r_a := (r_a s AND 0xf0) OR ((r_a s + 6) AND 0x0f)\<rparr>));
       if 0x60 \<le> (ucast pre :: u16) + (ucast pre AND 0x10)
       then writes (\<lambda>s. s\<lparr>r_a := r_a s + 0x60, f_c := 1\<rparr>)
       else writes (\<lambda>s. s\<lparr>f_c := 0\<rparr>) } }"

definition op_SBX :: "'w bus \<Rightarrow> ('w, unit) cpu" where [m6502_ops]:
  "op_SBX B = do {
     v \<leftarrow> getval B;
     writes (\<lambda>s. s\<lparr>r_x := r_x s AND r_a s\<rparr>);
     x \<leftarrow> reads r_x; cmp_reg x v;
     writes (\<lambda>s. s\<lparr>r_x := r_x s - v\<rparr>) }"

text \<open>The mask \<open>(uint8_t)((a >> 8) + 1)\<close> of the unstable stores.\<close>

definition hi_plus1 :: "u16 \<Rightarrow> u8" where
  "hi_plus1 a = ucast (drop_bit 8 a + 1)"

definition op_SHA :: "'w bus \<Rightarrow> ('w, unit) cpu" where [m6502_ops]:
  "op_SHA B = do { ea \<leftarrow> reads g_ea; a \<leftarrow> reads r_a; x \<leftarrow> reads r_x; wr B ea (a AND x AND hi_plus1 ea) }"

definition op_SHX :: "'w bus \<Rightarrow> ('w, unit) cpu" where [m6502_ops]:
  "op_SHX B = do {
     ea \<leftarrow> reads g_ea; x \<leftarrow> reads r_x; y \<leftarrow> reads r_y;
     let v = x AND hi_plus1 (ea - ucast y);
     whenever (0xff < ((ea - ucast y) AND 0xff) + ucast y)
       (set_ea ((ea AND 0xff) OR push_bit 8 (ucast v)));
     ea' \<leftarrow> reads g_ea;
     wr B ea' v }"

definition op_SHY :: "'w bus \<Rightarrow> ('w, unit) cpu" where [m6502_ops]:
  "op_SHY B = do {
     ea \<leftarrow> reads g_ea; y \<leftarrow> reads r_y; x \<leftarrow> reads r_x;
     let v = y AND hi_plus1 (ea - ucast x);
     whenever (0xff < ((ea - ucast x) AND 0xff) + ucast x)
       (set_ea ((ea AND 0xff) OR push_bit 8 (ucast v)));
     ea' \<leftarrow> reads g_ea;
     wr B ea' v }"

definition op_TAS :: "'w bus \<Rightarrow> ('w, unit) cpu" where [m6502_ops]:
  "op_TAS B = do {
     writes (\<lambda>s. s\<lparr>r_sp := r_a s AND r_x s\<rparr>);
     ea \<leftarrow> reads g_ea; sp \<leftarrow> reads r_sp;
     wr B ea (sp AND hi_plus1 ea) }"

definition op_ANE :: "'w bus \<Rightarrow> ('w, unit) cpu" where [m6502_ops]:
  "op_ANE B = do {
     v \<leftarrow> getval B; a \<leftarrow> reads r_a; x \<leftarrow> reads r_x;
     let r = (a OR 0xef) AND x AND v;
     writes (\<lambda>s. s\<lparr>r_a := r\<rparr>); calcZN r }"

definition op_LXA :: "'w bus \<Rightarrow> ('w, unit) cpu" where [m6502_ops]:
  "op_LXA B = do {
     v \<leftarrow> getval B; a \<leftarrow> reads r_a;
     let r = (a OR 0xee) AND v;
     writes (\<lambda>s. s\<lparr>r_x := r, r_a := r\<rparr>); calcZN r }"

section \<open>Dispatch and timing tables\<close>

text \<open>The tables hold the routines themselves, as the C tables hold function pointers.\<close>

definition g_at :: "'w bus \<Rightarrow> ('w, unit) cpu list" where
  "g_at B = [
    am_imp, am_indx B, am_imp, am_indx B, am_zp B, am_zp B, am_zp B, am_zp B,
    am_imp, am_imm, am_acc, am_imm, am_abs B, am_abs B, am_abs B, am_abs B,
    am_rel B, am_indy B, am_imp, am_indy B, am_zpx B, am_zpx B, am_zpx B, am_zpx B,
    am_imp, am_absy B, am_imp, am_absy B, am_absx B, am_absx B, am_absx B, am_absx B,
    am_abs B, am_indx B, am_imp, am_indx B, am_zp B, am_zp B, am_zp B, am_zp B,
    am_imp, am_imm, am_acc, am_imm, am_abs B, am_abs B, am_abs B, am_abs B,
    am_rel B, am_indy B, am_imp, am_indy B, am_zpx B, am_zpx B, am_zpx B, am_zpx B,
    am_imp, am_absy B, am_imp, am_absy B, am_absx B, am_absx B, am_absx B, am_absx B,
    am_imp, am_indx B, am_imp, am_indx B, am_zp B, am_zp B, am_zp B, am_zp B,
    am_imp, am_imm, am_acc, am_imm, am_abs B, am_abs B, am_abs B, am_abs B,
    am_rel B, am_indy B, am_imp, am_indy B, am_zpx B, am_zpx B, am_zpx B, am_zpx B,
    am_imp, am_absy B, am_imp, am_absy B, am_absx B, am_absx B, am_absx B, am_absx B,
    am_imp, am_indx B, am_imp, am_indx B, am_zp B, am_zp B, am_zp B, am_zp B,
    am_imp, am_imm, am_acc, am_imm, am_ind B, am_abs B, am_abs B, am_abs B,
    am_rel B, am_indy B, am_imp, am_indy B, am_zpx B, am_zpx B, am_zpx B, am_zpx B,
    am_imp, am_absy B, am_imp, am_absy B, am_absx B, am_absx B, am_absx B, am_absx B,
    am_imm, am_indx B, am_imm, am_indx B, am_zp B, am_zp B, am_zp B, am_zp B,
    am_imp, am_imm, am_imp, am_imm, am_abs B, am_abs B, am_abs B, am_abs B,
    am_rel B, am_indy B, am_imp, am_indy B, am_zpx B, am_zpx B, am_zpy B, am_zpy B,
    am_imp, am_absy B, am_imp, am_absy B, am_absx B, am_absx B, am_absy B, am_absy B,
    am_imm, am_indx B, am_imm, am_indx B, am_zp B, am_zp B, am_zp B, am_zp B,
    am_imp, am_imm, am_imp, am_imm, am_abs B, am_abs B, am_abs B, am_abs B,
    am_rel B, am_indy B, am_imp, am_indy B, am_zpx B, am_zpx B, am_zpy B, am_zpy B,
    am_imp, am_absy B, am_imp, am_absy B, am_absx B, am_absx B, am_absy B, am_absy B,
    am_imm, am_indx B, am_imm, am_indx B, am_zp B, am_zp B, am_zp B, am_zp B,
    am_imp, am_imm, am_imp, am_imm, am_abs B, am_abs B, am_abs B, am_abs B,
    am_rel B, am_indy B, am_imp, am_indy B, am_zpx B, am_zpx B, am_zpx B, am_zpx B,
    am_imp, am_absy B, am_imp, am_absy B, am_absx B, am_absx B, am_absx B, am_absx B,
    am_imm, am_indx B, am_imm, am_indx B, am_zp B, am_zp B, am_zp B, am_zp B,
    am_imp, am_imm, am_imp, am_imm, am_abs B, am_abs B, am_abs B, am_abs B,
    am_rel B, am_indy B, am_imp, am_indy B, am_zpx B, am_zpx B, am_zpx B, am_zpx B,
    am_imp, am_absy B, am_imp, am_absy B, am_absx B, am_absx B, am_absx B, am_absx B]"

definition g_ot :: "'w bus \<Rightarrow> ('w, unit) cpu list" where
  "g_ot B = [
    op_brk B, op_ora B, op_JAM, op_SLO B, op_nop, op_ora B, op_asl B, op_SLO B,
    op_php B, op_ora B, op_asl B, op_ANC B, op_nop, op_ora B, op_asl B, op_SLO B,
    op_bpl, op_ora B, op_JAM, op_SLO B, op_nop, op_ora B, op_asl B, op_SLO B,
    op_clc, op_ora B, op_nop, op_SLO B, op_nop, op_ora B, op_asl B, op_SLO B,
    op_jsr B, op_and B, op_JAM, op_RLA B, op_bit B, op_and B, op_rol B, op_RLA B,
    op_plp B, op_and B, op_rol B, op_ANC B, op_bit B, op_and B, op_rol B, op_RLA B,
    op_bmi, op_and B, op_JAM, op_RLA B, op_nop, op_and B, op_rol B, op_RLA B,
    op_sec, op_and B, op_nop, op_RLA B, op_nop, op_and B, op_rol B, op_RLA B,
    op_rti B, op_eor B, op_JAM, op_SRE B, op_nop, op_eor B, op_lsr B, op_SRE B,
    op_pha B, op_eor B, op_lsr B, op_ALR B, op_jmp, op_eor B, op_lsr B, op_SRE B,
    op_bvc, op_eor B, op_JAM, op_SRE B, op_nop, op_eor B, op_lsr B, op_SRE B,
    op_cli, op_eor B, op_nop, op_SRE B, op_nop, op_eor B, op_lsr B, op_SRE B,
    op_rts B, op_adc B, op_JAM, op_RRA B, op_nop, op_adc B, op_ror B, op_RRA B,
    op_pla B, op_adc B, op_ror B, op_ARR B, op_jmp, op_adc B, op_ror B, op_RRA B,
    op_bvs, op_adc B, op_JAM, op_RRA B, op_nop, op_adc B, op_ror B, op_RRA B,
    op_sei, op_adc B, op_nop, op_RRA B, op_nop, op_adc B, op_ror B, op_RRA B,
    op_nop, op_sta B, op_nop, op_SAX B, op_sty B, op_sta B, op_stx B, op_SAX B,
    op_dey, op_nop, op_txa, op_ANE B, op_sty B, op_sta B, op_stx B, op_SAX B,
    op_bcc, op_sta B, op_JAM, op_SHA B, op_sty B, op_sta B, op_stx B, op_SAX B,
    op_tya, op_sta B, op_txs, op_TAS B, op_SHY B, op_sta B, op_SHX B, op_SHA B,
    op_ldy B, op_lda B, op_ldx B, op_LAX B, op_ldy B, op_lda B, op_ldx B, op_LAX B,
    op_tay, op_lda B, op_tax, op_LXA B, op_ldy B, op_lda B, op_ldx B, op_LAX B,
    op_bcs, op_lda B, op_JAM, op_LAX B, op_ldy B, op_lda B, op_ldx B, op_LAX B,
    op_clv, op_lda B, op_tsx, op_LAS B, op_ldy B, op_lda B, op_ldx B, op_LAX B,
    op_cpy B, op_cmp B, op_nop, op_DCP B, op_cpy B, op_cmp B, op_dec B, op_DCP B,
    op_iny, op_cmp B, op_dex, op_SBX B, op_cpy B, op_cmp B, op_dec B, op_DCP B,
    op_bne, op_cmp B, op_JAM, op_DCP B, op_nop, op_cmp B, op_dec B, op_DCP B,
    op_cld, op_cmp B, op_nop, op_DCP B, op_nop, op_cmp B, op_dec B, op_DCP B,
    op_cpx B, op_sbc B, op_nop, op_ISC B, op_cpx B, op_sbc B, op_inc B, op_ISC B,
    op_inx, op_sbc B, op_nop, op_sbc B, op_cpx B, op_sbc B, op_inc B, op_ISC B,
    op_beq, op_sbc B, op_JAM, op_ISC B, op_nop, op_sbc B, op_inc B, op_ISC B,
    op_sed, op_sbc B, op_nop, op_ISC B, op_nop, op_sbc B, op_inc B, op_ISC B]"

definition g_tt :: "u8 list" where
  "g_tt = [
    7, 6, 2, 8, 3, 3, 5, 5, 3, 2, 2, 2, 4, 4, 6, 6,
    2, 5, 2, 8, 4, 4, 6, 6, 2, 4, 2, 7, 4, 4, 7, 7,
    6, 6, 2, 8, 3, 3, 5, 5, 4, 2, 2, 2, 4, 4, 6, 6,
    2, 5, 2, 8, 4, 4, 6, 6, 2, 4, 2, 7, 4, 4, 7, 7,
    6, 6, 2, 8, 3, 3, 5, 5, 3, 2, 2, 2, 3, 4, 6, 6,
    2, 5, 2, 8, 4, 4, 6, 6, 2, 4, 2, 7, 4, 4, 7, 7,
    6, 6, 2, 8, 3, 3, 5, 5, 4, 2, 2, 2, 5, 4, 6, 6,
    2, 5, 2, 8, 4, 4, 6, 6, 2, 4, 2, 7, 4, 4, 7, 7,
    2, 6, 2, 6, 3, 3, 3, 3, 2, 2, 2, 2, 4, 4, 4, 4,
    2, 6, 2, 6, 4, 4, 4, 4, 2, 5, 2, 5, 5, 5, 5, 5,
    2, 6, 2, 6, 3, 3, 3, 3, 2, 2, 2, 2, 4, 4, 4, 4,
    2, 5, 2, 5, 4, 4, 4, 4, 2, 4, 2, 4, 4, 4, 4, 4,
    2, 6, 2, 8, 3, 3, 5, 5, 2, 2, 2, 2, 4, 4, 6, 6,
    2, 5, 2, 8, 4, 4, 6, 6, 2, 4, 2, 7, 4, 4, 7, 7,
    2, 6, 2, 8, 3, 3, 5, 5, 2, 2, 2, 2, 4, 4, 6, 6,
    2, 5, 2, 8, 4, 4, 6, 6, 2, 4, 2, 7, 4, 4, 7, 7]"

lemma table_length [simp]: "length (g_at B) = 256" "length (g_ot B) = 256" "length g_tt = 256"
  by (simp_all add: g_at_def g_ot_def g_tt_def)

section \<open>Public API\<close>

definition m6502_init :: "'z m6502_scheme \<Rightarrow> 'z m6502_scheme" where
  "m6502_init s = s\<lparr>r_pc := 0, r_sp := 0, r_a := 0, r_x := 0, r_y := 0,
     f_c := 0, f_z := 0, f_i := 0, f_d := 0, f_v := 0, f_n := 0, cycles := 0, access := 0\<rparr>"

definition m6502_reset :: "'w bus \<Rightarrow> ('w, int) cpu" where
  "m6502_reset B = do {
     writes (\<lambda>s. s\<lparr>r_sp := 0xfd, r_a := 0, r_x := 0, r_y := 0,
       f_c := 0, f_z := 0, f_d := 0, f_v := 0, f_n := 0, f_i := 1\<rparr>);
     v \<leftarrow> rdv16 B 0xfffc;
     writes (\<lambda>s. s\<lparr>r_pc := v\<rparr>);
     writes (\<lambda>s. s\<lparr>cycles := cycles s + 7\<rparr>);
     ret 7 }"

text \<open>The common body of \<open>m6502_nmi\<close> and \<open>m6502_irq\<close>.\<close>

definition interrupt :: "'w bus \<Rightarrow> u16 \<Rightarrow> ('w, int) cpu" where
  "interrupt B vec = do {
     pc \<leftarrow> reads r_pc; push16 B pc;
     p \<leftarrow> reads m6502_getP; push8 B (p AND NOT 0x10);
     writes (\<lambda>s. s\<lparr>f_i := 1\<rparr>);
     v \<leftarrow> rdv16 B vec;
     writes (\<lambda>s. s\<lparr>r_pc := v\<rparr>);
     writes (\<lambda>s. s\<lparr>cycles := cycles s + 7\<rparr>);
     ret 7 }"

definition m6502_nmi :: "'w bus \<Rightarrow> ('w, int) cpu" where
  "m6502_nmi B = interrupt B 0xfffa"

definition m6502_irq :: "'w bus \<Rightarrow> ('w, int) cpu" where
  "m6502_irq B = do { i \<leftarrow> reads f_i; if i \<noteq> 0 then ret 0 else interrupt B 0xfffe }"

text \<open>The start of \<open>m6502_step\<close>: clear the per-instruction notes and fetch the opcode.\<close>

definition fetch_opcode :: "'w bus \<Rightarrow> ('w, u8) cpu" where
  "fetch_opcode B = do {
     writes (\<lambda>s. s\<lparr>g_paddr := 0, g_pop := 0, g_acc := 0, g_imm := 0\<rparr>);
     p \<leftarrow> pc_postinc;
     op \<leftarrow> rdk B p M6502_ACC_OPCODE;
     writes (\<lambda>s. s\<lparr>g_op := op\<rparr>);
     writes (\<lambda>s. s\<lparr>g_ticks := ucast (g_tt ! unat op)\<rparr>);
     ret op }"

text \<open>The end of \<open>m6502_step\<close>: the page-crossing cycle and the accounting.\<close>

definition finish_step :: "('w, int) cpu" where
  "finish_step = do {
     pop \<leftarrow> reads g_pop; paddr \<leftarrow> reads g_paddr;
     whenever (pop \<noteq> 0 \<and> paddr \<noteq> 0) (writes (\<lambda>s. s\<lparr>g_ticks := g_ticks s + 1\<rparr>));
     t \<leftarrow> reads g_ticks;
     writes (\<lambda>s. s\<lparr>cycles := cycles s + ucast t\<rparr>);
     ret (sint t) }"

definition m6502_step :: "'w bus \<Rightarrow> ('w, int) cpu" where
  "m6502_step B = do {
     op \<leftarrow> fetch_opcode B;
     g_at B ! unat op;
     g_ot B ! unat op;
     finish_step }"

text \<open>The loop of the callers: \<open>n\<close> calls of \<open>m6502_step\<close>.\<close>

fun m6502_steps :: "'w bus \<Rightarrow> nat \<Rightarrow> ('w, int list) cpu" where
  "m6502_steps B 0 = ret []"
| "m6502_steps B (Suc n) = do { t \<leftarrow> m6502_step B; ts \<leftarrow> m6502_steps B n; ret (t # ts) }"

end
