(* ===== verification/M6502_Alu.thy ===== *)
theory M6502_Alu
  imports M6502
begin

text \<open>
  The arithmetic of \<open>op_adc\<close> and \<open>op_sbc\<close> (\<open>m6502/m6502.c\<close>) against integer arithmetic.  The code
  computes on 16-bit words with masks; the lemmas say what the accumulator and the flags hold, in
  binary mode for all operands and in decimal mode for operands that are packed BCD.
  \<open>bcd_ok\<close> and \<open>bcd\<close> are the specification: which bytes are packed BCD, and the number they denote.
\<close>

unbundle bit_operations_syntax

definition bcd_ok :: "u8 \<Rightarrow> bool" where
  "bcd_ok x \<longleftrightarrow> unat x div 16 \<le> 9 \<and> unat x mod 16 \<le> 9"

definition bcd :: "u8 \<Rightarrow> nat" where
  "bcd x = 10 * (unat x div 16) + unat x mod 16"

section \<open>Reading the masks of the code\<close>

lemma carry_out:
  fixes r :: u16
  assumes "unat r < 512"
  shows "(ucast (drop_bit 8 r AND 1) :: u8) = of_bool (256 \<le> unat r)"
proof -
  have "bit r 8 \<longleftrightarrow> 256 \<le> unat r"
    using odd_div_eq [of "unat r" 256] assms by (simp add: bit_unat)
  then show ?thesis
    by (intro bit_word_eqI) (auto simp: bit_simps bit_1_iff)
qed

lemma neg_out: "drop_bit 7 v AND 1 = (of_bool (128 \<le> unat v) :: u8)"
  by (intro bit_word_eqI) (auto simp: bit_simps bit_1_iff bit_u8_7)

lemma overflow_out:
  fixes r :: u16 and a m :: u8
  shows "(r XOR ucast a) AND (r XOR ucast m) AND 0x80 \<noteq> 0 \<longleftrightarrow>
    (128 \<le> unat r mod 256) \<noteq> (128 \<le> unat a) \<and> (128 \<le> unat r mod 256) \<noteq> (128 \<le> unat m)"
proof -
  have mask: "x AND 0x80 \<noteq> 0 \<longleftrightarrow> bit x 7" for x :: u16
  proof -
    have "(0x80 :: u16) = 2 ^ 7" by simp
    then show ?thesis by (simp only: and_exp_eq_0_iff_not_bit) simp
  qed
  have "bit r 7 \<longleftrightarrow> bit (ucast r :: u8) 7" by (simp add: bit_simps)
  then have "bit r 7 \<longleftrightarrow> 128 \<le> unat r mod 256" by (simp only: bit_u8_7 unat_ucast_u16_u8)
  then show ?thesis unfolding mask and.assoc [symmetric] by (simp add: bit_simps bit_u8_7)
qed

lemma unat_and_low: "unat (x AND 0x0f :: u16) = unat x mod 16"
proof -
  have "(0x0f :: u16) = mask 4" by (simp add: mask_eq_exp_minus_1)
  then have "x AND 0x0f = take_bit 4 x" by (simp only: take_bit_eq_mask)
  then have "unat (x AND 0x0f) = unat (take_bit 4 x)" by (rule arg_cong)
  then show ?thesis by (simp only: unsigned_take_bit_eq) (simp add: take_bit_eq_mod)
qed

lemma u16_and_f0: "unat (x AND 0xf0 :: u16) = 16 * (unat x div 16 mod 16)"
proof -
  have "(0xf0 :: u16) = push_bit 4 (mask 4)" by (simp add: mask_eq_exp_minus_1)
  moreover have "x AND push_bit 4 (mask 4) = push_bit 4 (take_bit 4 (drop_bit 4 x))"
    by (rule bit_word_eqI) (auto simp: bit_simps)
  moreover have "unat (push_bit 4 (take_bit 4 (drop_bit 4 x))) = 16 * (unat x div 16 mod 16)"
    using unat_u16_lt [of x]
    by (simp only: unsigned_push_bit_eq unsigned_take_bit_eq unsigned_drop_bit_eq)
       (simp add: take_bit_eq_mod push_bit_eq_mult drop_bit_eq_div)
  ultimately show ?thesis by simp
qed

lemma xor_ff: "(ucast (m :: u8) XOR 0xff :: u16) = ucast (NOT m)" 
proof -
  have "ucast m XOR mask 8 = (ucast (NOT m) :: u16)"
    by (rule bit_word_eqI) (auto simp: bit_simps dest: bit_imp_le_length)
  moreover have "(0xff :: u16) = mask 8" by (simp add: mask_eq_exp_minus_1)
  ultimately show ?thesis by simp
qed

lemma overflow_nat:
  fixes a m c :: nat
  assumes "a < 256" "m < 256" "c \<le> 1"
  defines n: "n \<equiv> a + m + c"
  shows "(128 \<le> n mod 256) \<noteq> (128 \<le> a) \<and> (128 \<le> n mod 256) \<noteq> (128 \<le> m) \<longleftrightarrow>
    (int a - (if 128 \<le> a then 256 else 0)) + (int m - (if 128 \<le> m then 256 else 0)) + int c \<notin> {-128..127}"
proof -
  have "n mod 256 = (if n < 256 then n else n - 256)"
    using assms(1-3) by (simp add: n le_mod_geq)
  then show ?thesis
    using assms(1-3) by (cases "128 \<le> a"; cases "128 \<le> m"; cases "n < 256") (auto simp: n)
qed

section \<open>Binary mode\<close>

lemma adc_binary:
  fixes s :: core and w :: 'w and m :: u8
  assumes d: "f_d s = 0" and c: "f_c s = 0 \<or> f_c s = 1"
  defines s': "s' \<equiv> fst (exec (adc_with m) (s, w))"
  defines n: "n \<equiv> unat (r_a s) + unat m + unat (f_c s)"
  shows "unat (r_a s') = n mod 256" "f_c s' = of_bool (256 \<le> n)" "f_z s' = of_bool (n mod 256 = 0)"
    "f_n s' = of_bool (128 \<le> n mod 256)"
    "f_v s' = of_bool (sint (r_a s) + sint m + int (unat (f_c s)) \<notin> {-128..127})"
proof -
  define r where "r = (ucast (r_a s) + ucast m + ucast (f_c s) :: u16)"
  have b: "unat (r_a s) < 256" "unat m < 256" "unat (f_c s) \<le> 1"
    using unat_u8_lt [of "r_a s"] unat_u8_lt [of m] c by auto
  have r: "unat r = n" "n < 512" using b by (auto simp: r_def n unat_word_ariths)
  have z: "ucast r = (0 :: u8) \<longleftrightarrow> n mod 256 = 0"
    by (subst unat_eq_zero [symmetric]) (simp only: unat_ucast_u16_u8 r)
  have s'': "r_a s' = ucast r" "f_c s' = ucast (drop_bit 8 r AND 1)" "f_z s' = of_bool (ucast r = (0 :: u8))"
    "f_n s' = drop_bit 7 (ucast r) AND 1"
    "f_v s' = of_bool ((r XOR ucast (r_a s)) AND (r XOR ucast m) AND 0x80 \<noteq> 0)"
    using d unfolding s' r_def
    by (simp_all add: adc_with_def calcZ_def calcV_def calcC16_def calcN_def Let_def)
  show "unat (r_a s') = n mod 256" "f_c s' = of_bool (256 \<le> n)" "f_z s' = of_bool (n mod 256 = 0)"
    "f_n s' = of_bool (128 \<le> n mod 256)"
    unfolding s'' neg_out z using r by (simp_all add: carry_out)
  show "f_v s' = of_bool (sint (r_a s) + sint m + int (unat (f_c s)) \<notin> {-128..127})"
    unfolding s'' overflow_out r sint_u8 using overflow_nat [OF b] by (simp only: n)
qed

lemma sbc_flags:
  fixes s :: core and w :: 'w and cc m :: u8
  assumes c: "f_c s = 0 \<or> f_c s = 1"
  defines s': "s' \<equiv> fst (exec (sbc_with cc m) (s, w))"
  defines n: "n \<equiv> int (unat (r_a s)) - int (unat m) - (1 - int (unat (f_c s)))"
  shows "f_c s' = of_bool (0 \<le> n)" "f_z s' = of_bool (n mod 256 = 0)"
    "f_n s' = of_bool (128 \<le> n mod 256)"
    "f_v s' = of_bool (sint (r_a s) - sint m - (1 - int (unat (f_c s))) \<notin> {-128..127})"
    "f_d s = 0 \<Longrightarrow> int (unat (r_a s')) = n mod 256"
proof -
  define r where "r = (ucast (r_a s) + ucast (NOT m) + ucast (f_c s) :: u16)"
  define k where "k = unat (r_a s) + unat (NOT m) + unat (f_c s)"
  have b: "unat (r_a s) < 256" "unat (NOT m) < 256" "unat (f_c s) \<le> 1"
    using unat_u8_lt [of "r_a s"] unat_u8_lt [of "NOT m"] c by auto
  have r: "unat r = k" "k < 512" using b by (auto simp: r_def k_def unat_word_ariths)
  have z: "ucast r = (0 :: u8) \<longleftrightarrow> k mod 256 = 0"
    by (subst unat_eq_zero [symmetric]) (simp only: unat_ucast_u16_u8 r)
  have "int (unat (NOT m)) = 255 - int (unat m)"
    using unat_u8_lt [of m] by (simp add: unat_not_u8 of_nat_diff)
  then have kn: "int k = n + 256" unfolding k_def n by simp
  then have km: "int (k mod 256) = n mod 256" by (simp add: zmod_int)
  have s'': "f_c s' = ucast (drop_bit 8 r AND 1)" "f_z s' = of_bool (ucast r = (0 :: u8))"
    "f_n s' = drop_bit 7 (ucast r) AND 1"
    "f_v s' = of_bool ((r XOR ucast (r_a s)) AND (r XOR ucast (NOT m)) AND 0x80 \<noteq> 0)"
    "f_d s = 0 \<Longrightarrow> r_a s' = ucast r"
    unfolding s' r_def
    by (cases "f_d s = 0"; simp add: sbc_with_def calcZN_def calcZ_def calcV_def calcC16_def calcN_def
         Let_def xor_ff split del: if_split)+
  show "f_c s' = of_bool (0 \<le> n)"
    unfolding s'' using r kn by (simp add: carry_out)
  show "f_z s' = of_bool (n mod 256 = 0)"
    unfolding s'' z using km by simp
  show "f_n s' = of_bool (128 \<le> n mod 256)"
    unfolding s'' neg_out unat_ucast_u16_u8 r km [symmetric] by simp
  show "f_d s = 0 \<Longrightarrow> int (unat (r_a s')) = n mod 256"
    using r by (simp add: s'' km [symmetric])
  have "sint (NOT m) = - 1 - sint m"
    using unat_u8_lt [of m] \<open>int (unat (NOT m)) = 255 - int (unat m)\<close>
    unfolding sint_u8 unat_not_u8 by (cases "128 \<le> unat m") simp_all
  then have e: "sint (r_a s) + sint (NOT m) + int (unat (f_c s)) = sint (r_a s) - sint m - (1 - int (unat (f_c s)))"
    by simp
  show "f_v s' = of_bool (sint (r_a s) - sint m - (1 - int (unat (f_c s))) \<notin> {-128..127})"
    unfolding s'' overflow_out r k_def overflow_nat [OF b] sint_u8 [symmetric] e ..
qed

section \<open>Decimal addition\<close>

lemma bcd_add_nat:
  fixes a1 a0 m1 m0 c :: nat
  assumes "a1 \<le> 9" "a0 \<le> 9" "m1 \<le> 9" "m0 \<le> 9" "c \<le> 1"
  defines lo: "lo \<equiv> a0 + m0 + c"
  defines lo': "lo' \<equiv> (if 10 \<le> lo then (lo + 6) mod 16 + 16 else lo)"
  defines al: "al \<equiv> lo' + (16 * a1 + 16 * m1)"
  defines al': "al' \<equiv> (if 160 \<le> al then al + 96 else al)"
  defines n: "n \<equiv> 10 * (a1 + m1) + a0 + m0 + c"
  shows "al' < 512" "al' mod 256 mod 16 \<le> 9" "al' mod 256 div 16 \<le> 9"
    "10 * (al' mod 256 div 16) + al' mod 256 mod 16 = n mod 100" "256 \<le> al' \<longleftrightarrow> 100 \<le> n"
proof -
  define k where "k = (if 10 \<le> lo then 1 else 0 :: nat)"
  define l where "l = lo - 10 * k"
  define h where "h = a1 + m1 + k"
  define j where "j = (if 10 \<le> h then 1 else 0 :: nat)"
  have l: "l \<le> 9" "lo = l + 10 * k" and kj: "k \<le> 1" "j \<le> 1" using assms(1-5) by (auto simp: l_def k_def lo j_def)
  have "(lo + 6) mod 16 = lo - 10" if "10 \<le> lo"
  proof -
    have "lo + 6 = (lo - 10) + 16" using that by simp
    then have "(lo + 6) mod 16 = (lo - 10) mod 16" by (metis mod_add_self2)
    then show ?thesis using assms(1-5) by (simp add: lo)
  qed
  then have "lo' = l + 16 * k" by (auto simp: lo' l_def k_def)
  then have al2: "al = 16 * h + l" by (simp add: al h_def)
  then have al3: "al' = 16 * (h + 6 * j) + l" using l by (auto simp: al' j_def)
  have h: "h \<le> 19" using assms(1-5) kj by (auto simp: h_def)
  define q where "q = h - 10 * j"
  have hq: "h = 10 * j + q" "q \<le> 9" using h by (auto simp: q_def j_def)
  have al4: "al' = 256 * j + (16 * q + l)" using al3 hq(1) by simp
  have m: "al' mod 256 = 16 * q + l" using al4 hq(2) l(1) by simp
  have n2: "n = 100 * j + (10 * q + l)"
    using l(2) hq(1) unfolding n h_def [symmetric] by (simp add: h_def lo)
  show "al' < 512" "al' mod 256 mod 16 \<le> 9" "al' mod 256 div 16 \<le> 9"
    using al4 m l(1) hq(2) kj by auto
  show "10 * (al' mod 256 div 16) + al' mod 256 mod 16 = n mod 100"
    unfolding m n2 using l(1) hq(2) by simp
  show "256 \<le> al' \<longleftrightarrow> 100 \<le> n"
    unfolding al4 n2 using l(1) hq(2) by (cases "j = 0") auto
qed

definition dec_add :: "u8 \<Rightarrow> u8 \<Rightarrow> u8 \<Rightarrow> u16" where
  "dec_add a m c = (
     let al = (ucast a AND 0x0f) + (ucast m AND 0x0f) + ucast c;
         al = (if 0x0a \<le> al then ((al + 6) AND 0x0f) + 0x10 else al);
         al = al + ((ucast a AND 0xf0) + (ucast m AND 0xf0))
     in if 0xa0 \<le> al then al + 0x60 else al)"

lemma adc_with_decimal:
  assumes "f_d s \<noteq> 0"
  shows "r_a (fst (exec (adc_with m) (s, w))) = ucast (dec_add (r_a s) m (f_c s))"
    and "f_c (fst (exec (adc_with m) (s, w))) = ucast (drop_bit 8 (dec_add (r_a s) m (f_c s)) AND 1)"
  using assms
  by (simp_all add: adc_with_def dec_add_def calcZ_def calcV_def calcC16_def calcN_def Let_def split del: if_split)

lemma unat_dec_add:
  assumes ok: "bcd_ok a" "bcd_ok m" and c: "c = 0 \<or> c = 1"
  defines lo: "lo \<equiv> unat a mod 16 + unat m mod 16 + unat c"
  defines lo': "lo' \<equiv> if 10 \<le> lo then (lo + 6) mod 16 + 16 else lo"
  defines al: "al \<equiv> lo' + (16 * (unat a div 16) + 16 * (unat m div 16))"
  shows "unat (dec_add a m c) = (if 160 \<le> al then al + 96 else al)"
proof -
  define wlo where "wlo = (ucast a AND 0x0f) + (ucast m AND 0x0f) + (ucast c :: u16)"
  define wlo' where "wlo' = (if 0x0a \<le> wlo then ((wlo + 6) AND 0x0f) + 0x10 else wlo)"
  define hi where "hi = (ucast a AND 0xf0) + (ucast m AND 0xf0 :: u16)"
  have b: "unat a div 16 \<le> 9" "unat a mod 16 \<le> 9" "unat m div 16 \<le> 9" "unat m mod 16 \<le> 9" "unat c \<le> 1"
    using ok c by (auto simp: bcd_ok_def)
  have wlo: "unat wlo = lo" "lo \<le> 19"
    using b by (simp_all add: wlo_def lo unat_word_ariths unat_and_low)
  have wlo': "unat wlo' = lo'" "lo' \<le> 31"
    using wlo mod_less_divisor [of 16 "lo + 6"]
    by (auto simp: wlo'_def lo' word_le_nat_alt unat_word_ariths unat_and_low simp del: mod_less_divisor)
  have hi: "unat hi = 16 * (unat a div 16) + 16 * (unat m div 16)"
    using b by (simp add: hi_def unat_word_ariths u16_and_f0)
  have wal: "unat (wlo' + hi) = al" "al \<le> 351"
    using wlo' hi b by (simp_all add: al unat_word_ariths)
  have "dec_add a m c = (if 0xa0 \<le> wlo' + hi then wlo' + hi + 0x60 else wlo' + hi)"
    by (simp only: dec_add_def Let_def wlo_def wlo'_def hi_def)
  moreover have "0xa0 \<le> wlo' + hi \<longleftrightarrow> 160 \<le> al" by (simp add: word_le_nat_alt wal)
  moreover have "unat (wlo' + hi + 0x60) = al + 96"
    using wal by (subst unat_word_ariths) simp
  ultimately show ?thesis using wal by simp
qed

lemma adc_decimal:
  fixes s :: core and w :: 'w and m :: u8
  assumes d: "f_d s \<noteq> 0" and c: "f_c s = 0 \<or> f_c s = 1" and ok: "bcd_ok (r_a s)" "bcd_ok m"
  defines s': "s' \<equiv> fst (exec (adc_with m) (s, w))"
  defines n: "n \<equiv> bcd (r_a s) + bcd m + unat (f_c s)"
  shows "bcd_ok (r_a s')" "bcd (r_a s') = n mod 100" "f_c s' = of_bool (100 \<le> n)"
proof -
  have b: "unat (r_a s) div 16 \<le> 9" "unat (r_a s) mod 16 \<le> 9" "unat m div 16 \<le> 9"
    "unat m mod 16 \<le> 9" "unat (f_c s) \<le> 1"
    using ok c by (auto simp: bcd_ok_def)
  note B = bcd_add_nat [OF b, folded unat_dec_add [OF ok c]]
  have a: "unat (r_a s') = unat (dec_add (r_a s) m (f_c s)) mod 256"
    unfolding s' adc_with_decimal [OF d] by (rule unat_ucast_u16_u8)
  have f: "f_c s' = of_bool (256 \<le> unat (dec_add (r_a s) m (f_c s)))"
    unfolding s' adc_with_decimal [OF d] by (rule carry_out) (rule B(1))
  have n': "10 * (unat (r_a s) div 16 + unat m div 16) + unat (r_a s) mod 16 + unat m mod 16 + unat (f_c s) = n"
    by (simp add: n bcd_def)
  show "bcd_ok (r_a s')" "bcd (r_a s') = n mod 100" "f_c s' = of_bool (100 \<le> n)"
    using B(2-5) unfolding bcd_ok_def bcd_def a f n' by simp_all
qed

section \<open>Decimal subtraction\<close>

lemma int_word_repr: "unat (x :: u16) = n \<Longrightarrow> x = of_int (int n)"
  by (drule sym) simp

lemma low_of_int: "(of_int k AND 0x0f :: u16) = of_int (k mod 16)"
proof -
  have "(0x0f :: u16) = mask 4" by (simp add: mask_eq_exp_minus_1)
  then have "(of_int k AND 0x0f :: u16) = take_bit 4 (of_int k)" by (simp only: take_bit_eq_mask)
  also have "\<dots> = of_int (take_bit 4 k)"
    by (rule bit_word_eqI) (simp add: bit_simps)
  finally show ?thesis by (simp add: take_bit_eq_mod)
qed

lemma neg_of_int:
  assumes "- 32768 \<le> k" "k < 32768"
  shows "(of_int k AND 0x8000 :: u16) \<noteq> 0 \<longleftrightarrow> k < 0"
proof -
  have "(of_int k AND 0x8000 :: u16) \<noteq> 0 \<longleftrightarrow> bit (of_int k :: u16) 15"
  proof -
    have "(0x8000 :: u16) = 2 ^ 15" by simp
    then show ?thesis by (simp only: and_exp_eq_0_iff_not_bit) simp
  qed
  also have "\<dots> \<longleftrightarrow> odd (k div 32768)" by (simp only: bit_word_of_int_iff) (simp add: bit_iff_odd)
  also have "k div 32768 = (if k < 0 then -1 else 0)"
  proof (cases "k < 0")
    case True
    have "k div 32768 = - 1"
      by (rule int_div_pos_eq [where r = "k + 32768"]) (use assms True in auto)
    with True show ?thesis by simp
  qed (use assms in simp)
  finally show ?thesis by simp
qed

lemma unat_ucast_of_int: "int (unat (ucast (of_int k :: u16) :: u8)) = k mod 256"
proof -
  have "uint (ucast (of_int k :: u16) :: u8) = take_bit 8 (take_bit 16 k)"
    by (simp only: unsigned_ucast_eq uint_word_of_int_eq) simp
  also have "\<dots> = k mod 256" by (simp add: take_bit_eq_mod mod_mod_cancel)
  finally have "uint (ucast (of_int k :: u16) :: u8) = k mod 256" .
  moreover have "int (unat x) = uint x" for x :: u8 by simp
  ultimately show ?thesis by (simp only:)
qed

definition dec_sub :: "u8 \<Rightarrow> u8 \<Rightarrow> u8 \<Rightarrow> u16" where
  "dec_sub a m c = (
     let al = (ucast a AND 0x0f) - (ucast m AND 0x0f) + ucast c - 1;
         al = (if al AND 0x8000 \<noteq> 0 then ((al - 6) AND 0x0f) - 0x10 else al);
         res = (ucast a AND 0xf0) - (ucast m AND 0xf0) + al
     in if res AND 0x8000 \<noteq> 0 then res - 0x60 else res)"

lemma sbc_with_decimal:
  assumes "f_d s \<noteq> 0"
  shows "r_a (fst (exec (sbc_with cc m) (s, w))) = ucast (dec_sub (r_a s) m cc)"
proof -
  have "((ucast m XOR 0xff) XOR 0xff :: u16) = ucast m" by (simp add: xor.assoc)
  then show ?thesis using assms
    by (simp add: sbc_with_def dec_sub_def calcZN_def calcZ_def calcV_def calcC16_def calcN_def Let_def
         split del: if_split)
qed

lemma dec_sub_repr:
  assumes ok: "bcd_ok a" "bcd_ok m" and c: "c = 0 \<or> c = 1"
  defines d: "d \<equiv> int (unat a mod 16) - int (unat m mod 16) + int (unat c) - 1"
  defines k: "k \<equiv> if d < 0 then 1 else (0 :: int)"
  defines h: "h \<equiv> int (unat a div 16) - int (unat m div 16) - k"
  shows "dec_sub a m c = of_int (16 * (if h < 0 then h - 6 else h) + (d + 10 * k))"
proof -
  have b: "unat a div 16 \<le> 9" "unat a mod 16 \<le> 9" "unat m div 16 \<le> 9" "unat m mod 16 \<le> 9" "unat c \<le> 1"
    using ok c by (auto simp: bcd_ok_def)
  have d_b: "- 10 \<le> d" "d \<le> 9" using b unfolding d by linarith+
  then have k_b: "0 \<le> d + 10 * k" "d + 10 * k \<le> 9" "0 \<le> k" "k \<le> 1" by (auto simp: k)
  have h_b: "- 10 \<le> h" "h \<le> 9" using b k_b(3,4) unfolding h by linarith+
  define al where "al = (ucast a AND 0x0f) - (ucast m AND 0x0f) + ucast c - (1 :: u16)"
  define al' where "al' = (if al AND 0x8000 \<noteq> 0 then ((al - 6) AND 0x0f) - 0x10 else al)"
  define res where "res = (ucast a AND 0xf0) - (ucast m AND 0xf0) + al'"
  have nib: "(ucast a AND 0x0f :: u16) = of_int (int (unat a mod 16))" 
    "(ucast m AND 0x0f :: u16) = of_int (int (unat m mod 16))" "(ucast c :: u16) = of_int (int (unat c))"
    "(ucast a AND 0xf0 :: u16) = of_int (16 * int (unat a div 16))"
    "(ucast m AND 0xf0 :: u16) = of_int (16 * int (unat m div 16))"
  proof -
    show "(ucast a AND 0x0f :: u16) = of_int (int (unat a mod 16))"
      "(ucast m AND 0x0f :: u16) = of_int (int (unat m mod 16))" "(ucast c :: u16) = of_int (int (unat c))"
      by (rule int_word_repr; simp only: unat_and_low unat_ucast_u8_u16)+
    have hi: "(ucast x AND 0xf0 :: u16) = of_int (16 * int (unat x div 16))" if "unat x div 16 \<le> 9" for x :: u8
    proof -
      have "unat (ucast x AND 0xf0 :: u16) = 16 * (unat x div 16)" using that by (simp add: u16_and_f0)
      then have "(ucast x AND 0xf0 :: u16) = of_int (int (16 * (unat x div 16)))" by (rule int_word_repr)
      then show ?thesis by (simp only: of_nat_mult of_nat_numeral)
    qed
    show "(ucast a AND 0xf0 :: u16) = of_int (16 * int (unat a div 16))"
      "(ucast m AND 0xf0 :: u16) = of_int (16 * int (unat m div 16))"
      by (rule hi, rule b)+
  qed
  have al: "al = of_int d" by (simp only: al_def nib d of_int_add of_int_diff of_int_1)
  have "(d - 6) mod 16 - 16 = d - 6" if "d < 0"
  proof -
    have "d - 6 = (d + 10) - 16" by simp
    then have "(d - 6) mod 16 = (d + 10) mod 16" by (metis minus_mod_self2)
    then show ?thesis using that d_b by (simp add: mod_pos_pos_trivial)
  qed
  then have "(al - 6 AND 0x0f) - 0x10 = of_int (d - 6)" if "d < 0"
  proof -
    have "al - 6 = of_int (d - 6)" by (simp add: al)
    then have "(al - 6 AND 0x0f) - 0x10 = of_int ((d - 6) mod 16 - 16)" by (simp only: low_of_int) simp
    then show ?thesis using \<open>d < 0 \<Longrightarrow> (d - 6) mod 16 - 16 = d - 6\<close> that by simp
  qed
  moreover have "al AND 0x8000 \<noteq> 0 \<longleftrightarrow> d < 0" unfolding al using d_b by (intro neg_of_int) auto
  ultimately have al': "al' = of_int (d - 6 * k)" by (simp add: al'_def al k)
  have "16 * int (unat a div 16) - 16 * int (unat m div 16) + (d - 6 * k) = 16 * h + (d + 10 * k)"
    by (simp add: h)
  then have res: "res = of_int (16 * h + (d + 10 * k))"
    unfolding res_def nib al' of_int_add [symmetric] of_int_diff [symmetric] by (rule arg_cong)
  have "res AND 0x8000 \<noteq> 0 \<longleftrightarrow> 16 * h + (d + 10 * k) < 0"
    unfolding res using h_b k_b by (intro neg_of_int) auto
  also have "\<dots> \<longleftrightarrow> h < 0" using k_b by auto
  finally have neg: "res AND 0x8000 \<noteq> 0 \<longleftrightarrow> h < 0" .
  have "dec_sub a m c = (if res AND 0x8000 \<noteq> 0 then res - 0x60 else res)"
    by (simp only: dec_sub_def Let_def res_def al'_def al_def)
  also have "\<dots> = of_int (16 * (if h < 0 then h - 6 else h) + (d + 10 * k))"
    unfolding neg by (simp add: res algebra_simps)
  finally show ?thesis .
qed

lemma sbc_decimal:
  fixes s :: core and w :: 'w and m :: u8
  assumes dd: "f_d s \<noteq> 0" and c: "f_c s = 0 \<or> f_c s = 1" and ok: "bcd_ok (r_a s)" "bcd_ok m"
  defines s': "s' \<equiv> fst (exec (sbc_with (f_c s) m) (s, w))"
  defines n: "n \<equiv> int (bcd (r_a s)) - int (bcd m) - (1 - int (unat (f_c s)))"
  shows "bcd_ok (r_a s')" "int (bcd (r_a s')) = n mod 100" "f_c s' = of_bool (0 \<le> n)"
proof -
  let ?a = "unat (r_a s)" and ?m = "unat m" and ?c = "unat (f_c s)"
  have b: "?a div 16 \<le> 9" "?a mod 16 \<le> 9" "?m div 16 \<le> 9" "?m mod 16 \<le> 9" "?c \<le> 1"
    using ok c by (auto simp: bcd_ok_def)
  define d where "d = int (?a mod 16) - int (?m mod 16) + int ?c - 1"
  define k where "k = (if d < 0 then 1 else (0 :: int))"
  define h where "h = int (?a div 16) - int (?m div 16) - k"
  define j where "j = (if h < 0 then 1 else (0 :: int))"
  have "- 10 \<le> d" "d \<le> 9" using b unfolding d_def by linarith+
  then have l: "0 \<le> d + 10 * k" "d + 10 * k \<le> 9" "0 \<le> k" "k \<le> 1" by (auto simp: k_def)
  have "- 10 \<le> h" "h \<le> 9" using b l(3,4) unfolding h_def by linarith+
  then have q: "0 \<le> h + 10 * j" "h + 10 * j \<le> 9" by (auto simp: j_def)
  have "int (unat (r_a s')) = (16 * (if h < 0 then h - 6 else h) + (d + 10 * k)) mod 256"
    unfolding s' sbc_with_decimal [OF dd] dec_sub_repr [OF ok c, folded d_def, folded k_def, folded h_def]
    by (rule unat_ucast_of_int)
  also have "16 * (if h < 0 then h - 6 else h) + (d + 10 * k) = (16 * (h + 10 * j) + (d + 10 * k)) - 256 * j"
    by (simp add: j_def)
  also have "\<dots> mod 256 = 16 * (h + 10 * j) + (d + 10 * k)"
  proof -
    have "(16 * (h + 10 * j) + (d + 10 * k) - 256 * j) mod 256 = (16 * (h + 10 * j) + (d + 10 * k)) mod 256"
      by (metis mod_mult_self2 uminus_add_conv_diff add.commute mult_minus_right)
    then show ?thesis using l q by (simp add: mod_pos_pos_trivial)
  qed
  finally have r: "int (unat (r_a s')) = 16 * (h + 10 * j) + (d + 10 * k)" .
  have dm: "(16 * q' + l') div 16 = q'" "(16 * q' + l') mod 16 = l'" if "0 \<le> l'" "l' \<le> 9" for q' l' :: int
    using that by (simp_all add: div_pos_pos_trivial mod_pos_pos_trivial)
  have r16: "int (unat (r_a s') div 16) = h + 10 * j" "int (unat (r_a s') mod 16) = d + 10 * k"
    unfolding zdiv_int zmod_int r of_nat_numeral by (rule dm [OF l(1,2)])+
  show "bcd_ok (r_a s')" using r16 l q by (auto simp: bcd_ok_def)
  have n': "n = 10 * (int (?a div 16) - int (?m div 16)) + d" by (simp add: n bcd_def d_def)
  then have "10 * (h + 10 * j) + (d + 10 * k) = n + 100 * j" by (simp add: h_def)
  then show "int (bcd (r_a s')) = n mod 100" 
  proof -
    have "int (bcd (r_a s')) = n + 100 * j" using r16 \<open>10 * (h + 10 * j) + (d + 10 * k) = n + 100 * j\<close>
      by (simp add: bcd_def)
    moreover have nj: "n + 100 * j \<le> 99" "0 \<le> n + 100 * j" using \<open>10 * (h + 10 * j) + _ = _\<close> l(1,2) q by auto
    moreover have "(n + 100 * j) mod 100 = n + 100 * j" using nj by (intro mod_pos_pos_trivial) auto
    ultimately have "int (bcd (r_a s')) = (n + 100 * j) mod 100" by (simp only:)
    also have "\<dots> = n mod 100" by (rule mod_mult_self2)
    finally show ?thesis .
  qed
  have "int ?a - int ?m - (1 - int ?c) = 16 * (int (?a div 16) - int (?m div 16)) + d"
  proof -
    have e: "int x = 16 * int (x div 16) + int (x mod 16)" for x :: nat
      by (simp only: zdiv_int zmod_int of_nat_numeral mult_div_mod_eq)
    show ?thesis using e [of ?a] e [of ?m] unfolding d_def by (simp only: algebra_simps)
  qed
  then have "0 \<le> int ?a - int ?m - (1 - int ?c) \<longleftrightarrow> 0 \<le> n"
  proof -
    have "0 \<le> 16 * D + d \<longleftrightarrow> 0 \<le> 10 * D + d" for D :: int
      using \<open>- 10 \<le> d\<close> \<open>d \<le> 9\<close> by (cases "0 < D"; cases "D = 0") auto
    then show ?thesis unfolding n' \<open>int ?a - int ?m - (1 - int ?c) = _\<close> .
  qed
  then show "f_c s' = of_bool (0 \<le> n)" unfolding s' sbc_flags(1) [OF c] by simp
qed
end
