(* ===== verification/M6502_Props.thy ===== *)
theory M6502_Props
  imports M6502_Alu
begin

text \<open>
  Properties of the CPU core that hold on every bus: the arithmetic of \<open>op_adc\<close> and \<open>op_sbc\<close>.
  The operand byte is what \<open>getval\<close> delivers on the given bus; the theorems say what the routine
  then leaves in the accumulator and the flags.  \<open>open_bus\<close> is a concrete bus for the witnesses.
\<close>
unbundle bit_operations_syntax

definition open_bus :: "unit bus" where
  "open_bus = \<lparr>bus_read = (\<lambda>a. ret 0xff), bus_write = (\<lambda>a v. ret ())\<rparr>"

lemma exec_op_adc:
  "run_state (getval B) (s\<lparr>g_pop := 1\<rparr>, w) = (m, (t, v)) \<Longrightarrow> exec (op_adc B) (s, w) = exec (adc_with m) (t, v)"
  by (simp add: op_adc_def)

lemma exec_op_sbc:
  "run_state (getval B) (s\<lparr>g_pop := 1\<rparr>, w) = (m, (t, v)) \<Longrightarrow> exec (op_sbc B) (s, w) = exec (sbc_with (f_c s) m) (t, v)"
  by (simp add: op_sbc_def)

text \<open>C9: In binary mode ADC leaves the sum modulo 256 in the accumulator and the carry, zero, negative
  and overflow flags of the sum.\<close>

theorem op_adc_binary:
  assumes "run_state (getval B) (s\<lparr>g_pop := 1\<rparr>, w) = (m, (t, v))" and "f_d t = 0" and "f_c t = 0 \<or> f_c t = 1"
  shows "let s' = fst (exec (op_adc B) (s, w)); n = unat (r_a t) + unat m + unat (f_c t) in
    unat (r_a s') = n mod 256 \<and> f_c s' = of_bool (256 \<le> n) \<and> f_z s' = of_bool (n mod 256 = 0) \<and>
    f_n s' = of_bool (128 \<le> n mod 256) \<and>
    f_v s' = of_bool (sint (r_a t) + sint m + int (unat (f_c t)) \<notin> {-128..127})"
  unfolding exec_op_adc [OF assms(1)] Let_def by (intro conjI adc_binary assms)

theorem op_adc_binary_witness:
  "let s' = fst (exec (op_adc open_bus) (zero_core\<lparr>r_a := 0x50, g_acc := 1\<rparr>, ())) in
    unat (r_a s') = 0xa0 \<and> f_c s' = 0 \<and> f_v s' = 1 \<and> f_n s' = 1"
proof -
  have "run_state (getval open_bus) (zero_core\<lparr>r_a := 0x50, g_acc := 1, g_pop := 1\<rparr>, ())
      = (0x50, (zero_core\<lparr>r_a := 0x50, g_acc := 1, g_pop := 1\<rparr>, ()))"
    by (simp add: getval_def)
  from op_adc_binary [OF this] show ?thesis by (simp add: zero_core_def Let_def)
qed

text \<open>C10: In decimal mode ADC of packed BCD operands leaves the packed BCD sum modulo 100 and its decimal
  carry.\<close>

theorem op_adc_decimal:
  assumes "run_state (getval B) (s\<lparr>g_pop := 1\<rparr>, w) = (m, (t, v))" and "f_d t \<noteq> 0" and "f_c t = 0 \<or> f_c t = 1"
    and "bcd_ok (r_a t)" and "bcd_ok m"
  shows "let s' = fst (exec (op_adc B) (s, w)); n = bcd (r_a t) + bcd m + unat (f_c t) in
    bcd_ok (r_a s') \<and> bcd (r_a s') = n mod 100 \<and> f_c s' = of_bool (100 \<le> n)"
  unfolding exec_op_adc [OF assms(1)] Let_def by (intro conjI adc_decimal assms)

theorem op_adc_decimal_witness:
  "let s' = fst (exec (op_adc open_bus) (zero_core\<lparr>r_a := 0x75, f_c := 1, f_d := 1, g_acc := 1\<rparr>, ())) in
    bcd (r_a s') = 51 \<and> f_c s' = 1"
proof -
  let ?t = "zero_core\<lparr>r_a := 0x75, f_c := 1, f_d := 1, g_acc := 1, g_pop := 1\<rparr>"
  have "run_state (getval open_bus) (?t, ()) = (0x75, (?t, ()))"
    by (simp add: getval_def)
  from op_adc_decimal [OF this] show ?thesis by (simp add: zero_core_def bcd_ok_def bcd_def Let_def)
qed

text \<open>C11: SBC leaves the borrow, zero, negative and overflow flags of the difference, and in binary mode
  the difference modulo 256 in the accumulator.\<close>

theorem op_sbc_binary:
  assumes "run_state (getval B) (s\<lparr>g_pop := 1\<rparr>, w) = (m, (t, v))" and "f_c t = 0 \<or> f_c t = 1"
  shows "let s' = fst (exec (op_sbc B) (s, w)); n = int (unat (r_a t)) - int (unat m) - (1 - int (unat (f_c t))) in
    f_c s' = of_bool (0 \<le> n) \<and> f_z s' = of_bool (n mod 256 = 0) \<and> f_n s' = of_bool (128 \<le> n mod 256) \<and>
    f_v s' = of_bool (sint (r_a t) - sint m - (1 - int (unat (f_c t))) \<notin> {-128..127}) \<and>
    (f_d t = 0 \<longrightarrow> int (unat (r_a s')) = n mod 256)"
  unfolding exec_op_sbc [OF assms(1)] Let_def by (intro conjI impI sbc_flags assms)

theorem op_sbc_binary_witness:
  "let s' = fst (exec (op_sbc open_bus) (zero_core\<lparr>r_a := 0x50, g_acc := 1\<rparr>, ())) in
    int (unat (r_a s')) = 0xff \<and> f_c s' = 0 \<and> f_n s' = 1 \<and> f_v s' = 0"
proof -
  let ?t = "zero_core\<lparr>r_a := 0x50, g_acc := 1, g_pop := 1\<rparr>"
  have "run_state (getval open_bus) (?t, ()) = (0x50, (?t, ()))"
    by (simp add: getval_def)
  from op_sbc_binary [OF this] show ?thesis by (simp add: zero_core_def Let_def)
qed

text \<open>C12: In decimal mode SBC of packed BCD operands leaves the packed BCD difference modulo 100 and its
  borrow.\<close>

theorem op_sbc_decimal:
  assumes "run_state (getval B) (s\<lparr>g_pop := 1\<rparr>, w) = (m, (t, v))" and "f_d t \<noteq> 0" and "f_c t = 0 \<or> f_c t = 1"
    and "f_c s = f_c t" and "bcd_ok (r_a t)" and "bcd_ok m"
  shows "let s' = fst (exec (op_sbc B) (s, w)); n = int (bcd (r_a t)) - int (bcd m) - (1 - int (unat (f_c t))) in
    bcd_ok (r_a s') \<and> int (bcd (r_a s')) = n mod 100 \<and> f_c s' = of_bool (0 \<le> n)"
  unfolding exec_op_sbc [OF assms(1)] assms(4) Let_def by (intro conjI sbc_decimal assms)

theorem op_sbc_decimal_witness:
  "let s' = fst (exec (op_sbc open_bus) (zero_core\<lparr>r_a := 0x42, f_d := 1, g_acc := 1\<rparr>, ())) in
    bcd (r_a s') = 99 \<and> f_c s' = 0"
proof -
  let ?t = "zero_core\<lparr>r_a := 0x42, f_d := 1, g_acc := 1, g_pop := 1\<rparr>"
  have "run_state (getval open_bus) (?t, ()) = (0x42, (?t, ()))"
    by (simp add: getval_def)
  from op_sbc_decimal [OF this] show ?thesis by (simp add: zero_core_def bcd_ok_def bcd_def Let_def)
qed
end
