(* ===== verification/Cache.thy ===== *)
theory Cache
  imports Complex_Main Prelude
begin

text \<open>
  The set-associative cache, \<open>h6502/cache.h\<close> and \<open>h6502/cache.c\<close>, definition by definition.

  The struct \<open>Cache\<close> is the record \<open>cache\<close>, its fields prefixed \<open>c_\<close>; the world of its programs is
  the backing store, a type \<open>'b\<close> behind the two callbacks the struct holds.  The line array and the
  data array are functions of their index; \<open>Cache_Props\<close> proves every index the code computes to be
  within the bounds of the C arrays.  \<open>unsigned\<close> is \<open>u32\<close> with its wrap-around, also in the products
  of \<open>cache_config\<close>.  The bytes \<open>valid\<close> and \<open>dirty\<close> only ever hold 0 and 1 and are booleans here.

  \<open>CacheEvent\<close> results are returned beside the value; a caller that passes \<open>NULL\<close> ignores them.
  The C library's \<open>rand\<close> is the argument \<open>rnd\<close> of the operations that may call it.
\<close>

unbundle bit_operations_syntax

section \<open>State\<close>

datatype cache_repl = REPL_LRU | REPL_FIFO | REPL_RANDOM

datatype cache_wpol = WPOL_BACK | WPOL_THROUGH

definition CACHE_MAX_LINES :: u32 where
  "CACHE_MAX_LINES = 4096"

record cache_line =
  l_tag :: u16
  l_valid :: bool
  l_dirty :: bool
  l_stamp :: u32
  l_base :: u16

record 'b cache =
  c_name :: string
  c_line_bytes :: u32
  c_ways :: u32
  c_sets :: u32
  c_capacity :: u32
  c_off_bits :: u32
  c_idx_bits :: u32
  c_repl :: cache_repl
  c_wpol :: cache_wpol
  c_write_alloc :: bool
  c_miss_penalty :: u32
  c_line :: "nat \<Rightarrow> cache_line"
  c_store :: "nat \<Rightarrow> u8"
  c_clock :: u32
  c_bs_read :: "u16 \<Rightarrow> ('b, u8) state"
  c_bs_write :: "u16 \<Rightarrow> u8 \<Rightarrow> ('b, unit) state"
  c_reads :: u64
  c_writes :: u64
  c_read_hit :: u64
  c_read_miss :: u64
  c_write_hit :: u64
  c_write_miss :: u64
  c_evictions :: u64
  c_writebacks :: u64
  c_invalidations :: u64
  c_stall_cycles :: u64
  c_bytes_in :: u64
  c_bytes_out :: u64

record cache_event =
  ev_hit :: bool
  ev_set :: u32
  ev_way :: u32
  ev_tag :: u16
  ev_stall :: u32
  ev_evicted :: bool
  ev_evicted_base :: u16
  ev_wrote_back :: bool

type_synonym ('b, 'a) cprog = "('b cache \<times> 'b, 'a) state"

definition zero_line :: cache_line where
  "zero_line = \<lparr>l_tag = 0, l_valid = False, l_dirty = False, l_stamp = 0, l_base = 0\<rparr>"

text \<open>\<open>memset(c, 0, \<dots>)\<close>; the callbacks of a cleared struct are never called before \<open>cache_attach\<close>.\<close>

definition zero_cache :: "'b cache" where
  "zero_cache = \<lparr>c_name = [], c_line_bytes = 0, c_ways = 0, c_sets = 0, c_capacity = 0, c_off_bits = 0,
     c_idx_bits = 0, c_repl = REPL_LRU, c_wpol = WPOL_BACK, c_write_alloc = False, c_miss_penalty = 0,
     c_line = (\<lambda>_. zero_line), c_store = (\<lambda>_. 0), c_clock = 0,
     c_bs_read = (\<lambda>_. ret 0), c_bs_write = (\<lambda>_ _. ret ()), c_reads = 0, c_writes = 0, c_read_hit = 0,
     c_read_miss = 0, c_write_hit = 0, c_write_miss = 0, c_evictions = 0, c_writebacks = 0,
     c_invalidations = 0, c_stall_cycles = 0, c_bytes_in = 0, c_bytes_out = 0\<rparr>"

section \<open>Configuration\<close>

text \<open>The \<open>while\<close> loop of \<open>log2u\<close>, with its two variables.\<close>

function log2u_loop :: "u32 \<Rightarrow> u32 \<Rightarrow> u32" where
  "log2u_loop v n = (if 1 < v then log2u_loop (drop_bit 1 v) (n + 1) else n)"
  by pat_completeness auto
termination
proof (relation "measure (\<lambda>(v, n). unat v)")
  fix v n :: u32 assume "1 < v"
  then have "0 < unat v" by (simp add: word_less_nat_alt)
  moreover have "unat (drop_bit 1 v) = unat v div 2"
    using unat_drop_bit [of 1 v] by simp
  ultimately show "((drop_bit 1 v, n + 1), (v, n)) \<in> measure (\<lambda>(v, n). unat v)" by simp
qed simp

declare log2u_loop.simps [simp del]

definition log2u :: "u32 \<Rightarrow> u32" where
  "log2u v = log2u_loop v 0"

definition is_pow2 :: "u32 \<Rightarrow> bool" where
  "is_pow2 v \<longleftrightarrow> v \<noteq> 0 \<and> v AND (v - 1) = 0"

text \<open>
  The outcomes of \<open>cache_config\<close>: success, \<open>-1\<close> with its message, or the division by zero that
  \<open>size_bytes % (line_bytes * ways)\<close> runs into when the product wraps to 0.
\<close>

datatype config_outcome = Config_ok | Config_error string | Config_crash

text \<open>\<open>room\<close> says whether \<open>calloc\<close> delivers.\<close>

definition cache_config ::
  "bool \<Rightarrow> string option \<Rightarrow> u32 \<Rightarrow> u32 \<Rightarrow> u32 \<Rightarrow> ('b, config_outcome) cprog" where
  "cache_config room nm size_bytes line_bytes ways = (
    if \<not> is_pow2 line_bytes \<or> line_bytes < 1 \<or> 256 < line_bytes
    then ret (Config_error ''line size must be a power of two, 1..256'')
    else if ways < 1 then ret (Config_error ''ways must be >= 1'')
    else if size_bytes < line_bytes * ways then ret (Config_error ''cache is smaller than one set'')
    else if line_bytes * ways = 0 then ret Config_crash
    else if size_bytes mod (line_bytes * ways) \<noteq> 0
    then ret (Config_error ''size must be a whole number of sets (line * ways)'')
    else let sets = size_bytes div (line_bytes * ways) in
    if \<not> is_pow2 sets then ret (Config_error ''set count must be a power of two'')
    else let nlines = sets * ways in
    if CACHE_MAX_LINES < nlines then ret (Config_error ''too many lines'')
    else if 0x10000 < size_bytes then ret (Config_error ''cache larger than the address space'')
    else if \<not> room then ret (Config_error ''out of memory'')
    else do {
      writes (\<lambda>c. c\<lparr>c_line := (\<lambda>_. zero_line), c_store := (\<lambda>_. 0),
        c_line_bytes := line_bytes, c_ways := ways, c_sets := sets, c_capacity := size_bytes,
        c_off_bits := log2u line_bytes, c_idx_bits := log2u sets, c_clock := 0\<rparr>);
      writes (\<lambda>c. case nm of None \<Rightarrow> c | Some s \<Rightarrow> c\<lparr>c_name := take 3 s\<rparr>);
      ret Config_ok })"

definition cache_attach ::
  "(u16 \<Rightarrow> ('b, u8) state) \<Rightarrow> (u16 \<Rightarrow> u8 \<Rightarrow> ('b, unit) state) \<Rightarrow> ('b, unit) cprog" where
  "cache_attach rd wr = writes (\<lambda>c. c\<lparr>c_bs_read := rd, c_bs_write := wr\<rparr>)"

section \<open>Addresses, lines and data\<close>

definition addr_off :: "'b cache \<Rightarrow> u16 \<Rightarrow> u32" where
  "addr_off c a = ucast a AND (c_line_bytes c - 1)"

definition addr_set :: "'b cache \<Rightarrow> u16 \<Rightarrow> u32" where
  "addr_set c a = drop_bit (unat (c_off_bits c)) (ucast a) AND (c_sets c - 1)"

definition addr_tag :: "'b cache \<Rightarrow> u16 \<Rightarrow> u16" where
  "addr_tag c a = ucast (drop_bit (unat (c_off_bits c + c_idx_bits c)) (ucast a :: u32))"

definition cache_decode :: "'b cache \<Rightarrow> u16 \<Rightarrow> u16 \<times> u32 \<times> u32" where
  "cache_decode c a = (addr_tag c a, addr_set c a, addr_off c a)"

text \<open>The address of byte 0 of the line that covers \<open>a\<close>, as \<open>refill\<close> computes it.\<close>

definition addr_base :: "'b cache \<Rightarrow> u16 \<Rightarrow> u16" where
  "addr_base c a = a AND NOT (ucast (c_line_bytes c - 1))"

definition line_index :: "'b cache \<Rightarrow> u32 \<Rightarrow> u32 \<Rightarrow> nat" where
  "line_index c si way = unat (si * c_ways c + way)"

definition line_at :: "'b cache \<Rightarrow> u32 \<Rightarrow> u32 \<Rightarrow> cache_line" where
  "line_at c si way = c_line c (line_index c si way)"

text \<open>The offset of \<open>data_at\<close> into the data array, a \<open>size_t\<close>.\<close>

definition data_index :: "'b cache \<Rightarrow> u32 \<Rightarrow> u32 \<Rightarrow> nat" where
  "data_index c si way = line_index c si way * unat (c_line_bytes c)"

definition data_at :: "'b cache \<Rightarrow> u32 \<Rightarrow> u32 \<Rightarrow> u32 \<Rightarrow> u8" where
  "data_at c si way i = c_store c (data_index c si way + unat i)"

definition set_line :: "u32 \<Rightarrow> u32 \<Rightarrow> (cache_line \<Rightarrow> cache_line) \<Rightarrow> 'b cache \<Rightarrow> 'b cache" where
  "set_line si way f c = c\<lparr>c_line := (c_line c)(line_index c si way := f (line_at c si way))\<rparr>"

definition set_data :: "u32 \<Rightarrow> u32 \<Rightarrow> u32 \<Rightarrow> u8 \<Rightarrow> 'b cache \<Rightarrow> 'b cache" where
  "set_data si way i v c = c\<lparr>c_store := (c_store c)(data_index c si way + unat i := v)\<rparr>"

text \<open>The values of \<open>for (i = 0; i < n; i++)\<close> with an \<open>unsigned\<close> bound.\<close>

definition upto_u32 :: "u32 \<Rightarrow> u32 list" where
  "upto_u32 n = List.map of_nat [0..<unat n]"

text \<open>The search loop over the ways of the set of \<open>a\<close>; the first valid line with the tag wins.\<close>

definition find_way :: "'b cache \<Rightarrow> u16 \<Rightarrow> u32 option" where
  "find_way c a = List.find
     (\<lambda>w. l_valid (line_at c (addr_set c a) w) \<and> l_tag (line_at c (addr_set c a) w) = addr_tag c a)
     (upto_u32 (c_ways c))"

definition cache_probe :: "'b cache \<Rightarrow> u16 \<Rightarrow> u32 option" where
  "cache_probe c a = find_way c a"

section \<open>Misses\<close>

text \<open>The scan for the smallest stamp: the arguments are \<open>beststamp\<close>, \<open>best\<close> and the ways to go.\<close>

fun oldest :: "'b cache \<Rightarrow> u32 \<Rightarrow> u32 \<Rightarrow> u32 \<Rightarrow> u32 list \<Rightarrow> u32" where
  "oldest c si bs best [] = best"
| "oldest c si bs best (w # ws) =
    (if l_stamp (line_at c si w) < bs then oldest c si (l_stamp (line_at c si w)) w ws
     else oldest c si bs best ws)"

definition pick_victim :: "('b, nat) state \<Rightarrow> u32 \<Rightarrow> ('b, u32) cprog" where
  "pick_victim rnd si = do {
     c \<leftarrow> reads id;
     case List.find (\<lambda>w. \<not> l_valid (line_at c si w)) (upto_u32 (c_ways c)) of
       Some w \<Rightarrow> ret w
     | None \<Rightarrow>
         if c_repl c = REPL_RANDOM
         then do { r \<leftarrow> outside rnd; ret (of_nat (r mod unat (c_ways c))) }
         else ret (oldest c si 0xffffffff 0 (upto_u32 (c_ways c))) }"

definition writeback :: "u32 \<Rightarrow> u32 \<Rightarrow> ('b, unit) cprog" where
  "writeback si way = do {
     l \<leftarrow> reads (\<lambda>c. line_at c si way);
     whenever (l_valid l \<and> l_dirty l) (do {
       n \<leftarrow> reads c_line_bytes;
       for_each (upto_u32 n) (\<lambda>i. do {
         d \<leftarrow> reads (\<lambda>c. data_at c si way i);
         wr \<leftarrow> reads c_bs_write;
         outside (wr (l_base l + ucast i) d) });
       writes (\<lambda>c. c\<lparr>c_writebacks := c_writebacks c + 1, c_bytes_out := c_bytes_out c + ucast n\<rparr>);
       writes (set_line si way (\<lambda>l. l\<lparr>l_dirty := False\<rparr>)) }) }"

definition refill :: "u32 \<Rightarrow> u32 \<Rightarrow> u16 \<Rightarrow> u16 \<Rightarrow> ('b, unit) cprog" where
  "refill si way a tag = do {
     base \<leftarrow> reads (\<lambda>c. addr_base c a);
     n \<leftarrow> reads c_line_bytes;
     for_each (upto_u32 n) (\<lambda>i. do {
       rd \<leftarrow> reads c_bs_read;
       v \<leftarrow> outside (rd (base + ucast i));
       writes (set_data si way i v) });
     writes (set_line si way (\<lambda>l. l\<lparr>l_valid := True, l_dirty := False, l_tag := tag, l_base := base\<rparr>));
     writes (\<lambda>c. c\<lparr>c_clock := c_clock c + 1\<rparr>);
     t \<leftarrow> reads c_clock;
     writes (set_line si way (\<lambda>l. l\<lparr>l_stamp := t\<rparr>));
     writes (\<lambda>c. c\<lparr>c_bytes_in := c_bytes_in c + ucast n\<rparr>) }"

definition ev_init :: "u32 \<Rightarrow> u16 \<Rightarrow> cache_event" where
  "ev_init si tag = \<lparr>ev_hit = False, ev_set = si, ev_way = 0, ev_tag = tag, ev_stall = 0,
     ev_evicted = False, ev_evicted_base = 0, ev_wrote_back = False\<rparr>"

definition handle_miss ::
  "('b, nat) state \<Rightarrow> u16 \<Rightarrow> u16 \<Rightarrow> u32 \<Rightarrow> cache_event \<Rightarrow> ('b, u32 \<times> cache_event) cprog" where
  "handle_miss rnd a tag si ev = do {
     way \<leftarrow> pick_victim rnd si;
     l \<leftarrow> reads (\<lambda>c. line_at c si way);
     whenever (l_valid l) (do {
       writes (\<lambda>c. c\<lparr>c_evictions := c_evictions c + 1\<rparr>);
       writeback si way });
     let ev = (if l_valid l
       then ev\<lparr>ev_evicted := True, ev_evicted_base := l_base l, ev_wrote_back := l_dirty l\<rparr> else ev);
     refill si way a tag;
     writes (\<lambda>c. c\<lparr>c_stall_cycles := c_stall_cycles c + ucast (c_miss_penalty c)\<rparr>);
     p \<leftarrow> reads c_miss_penalty;
     ret (way, ev\<lparr>ev_stall := p\<rparr>) }"

definition touch :: "u32 \<Rightarrow> u32 \<Rightarrow> ('b, unit) cprog" where
  "touch si way = do {
     r \<leftarrow> reads c_repl;
     whenever (r = REPL_LRU) (do {
       writes (\<lambda>c. c\<lparr>c_clock := c_clock c + 1\<rparr>);
       t \<leftarrow> reads c_clock;
       writes (set_line si way (\<lambda>l. l\<lparr>l_stamp := t\<rparr>)) }) }"

section \<open>Accesses\<close>

definition cache_read :: "('b, nat) state \<Rightarrow> u16 \<Rightarrow> ('b, u8 \<times> cache_event) cprog" where
  "cache_read rnd a = do {
     (tag, si, off) \<leftarrow> reads (\<lambda>c. cache_decode c a);
     let ev = ev_init si tag;
     writes (\<lambda>c. c\<lparr>c_reads := c_reads c + 1\<rparr>);
     found \<leftarrow> reads (\<lambda>c. find_way c a);
     case found of
       Some w \<Rightarrow> do {
         writes (\<lambda>c. c\<lparr>c_read_hit := c_read_hit c + 1\<rparr>);
         touch si w;
         v \<leftarrow> reads (\<lambda>c. data_at c si w off);
         ret (v, ev\<lparr>ev_hit := True, ev_way := w\<rparr>) }
     | None \<Rightarrow> do {
         writes (\<lambda>c. c\<lparr>c_read_miss := c_read_miss c + 1\<rparr>);
         (w, ev) \<leftarrow> handle_miss rnd a tag si ev;
         v \<leftarrow> reads (\<lambda>c. data_at c si w off);
         ret (v, ev\<lparr>ev_way := w\<rparr>) } }"

text \<open>The store into the line and, under write-through, into memory: the end of \<open>cache_write\<close>.\<close>

definition store_line :: "u32 \<Rightarrow> u32 \<Rightarrow> u32 \<Rightarrow> u16 \<Rightarrow> u8 \<Rightarrow> ('b, unit) cprog" where
  "store_line si w off a v = do {
     writes (set_data si w off v);
     p \<leftarrow> reads c_wpol;
     if p = WPOL_THROUGH then do {
       wr \<leftarrow> reads c_bs_write;
       outside (wr a v);
       writes (\<lambda>c. c\<lparr>c_bytes_out := c_bytes_out c + 1\<rparr>) }
     else writes (set_line si w (\<lambda>l. l\<lparr>l_dirty := True\<rparr>)) }"

definition cache_write :: "('b, nat) state \<Rightarrow> u16 \<Rightarrow> u8 \<Rightarrow> ('b, cache_event) cprog" where
  "cache_write rnd a v = do {
     (tag, si, off) \<leftarrow> reads (\<lambda>c. cache_decode c a);
     let ev = ev_init si tag;
     writes (\<lambda>c. c\<lparr>c_writes := c_writes c + 1\<rparr>);
     found \<leftarrow> reads (\<lambda>c. find_way c a);
     case found of
       Some w \<Rightarrow> do {
         writes (\<lambda>c. c\<lparr>c_write_hit := c_write_hit c + 1\<rparr>);
         touch si w;
         store_line si w off a v;
         ret (ev\<lparr>ev_hit := True, ev_way := w\<rparr>) }
     | None \<Rightarrow> do {
         writes (\<lambda>c. c\<lparr>c_write_miss := c_write_miss c + 1\<rparr>);
         alloc \<leftarrow> reads c_write_alloc;
         if \<not> alloc then do {
           wr \<leftarrow> reads c_bs_write;
           outside (wr a v);
           writes (\<lambda>c. c\<lparr>c_bytes_out := c_bytes_out c + 1,
             c_stall_cycles := c_stall_cycles c + ucast (c_miss_penalty c)\<rparr>);
           p \<leftarrow> reads c_miss_penalty;
           ret (ev\<lparr>ev_stall := p\<rparr>) }
         else do {
           (w, ev) \<leftarrow> handle_miss rnd a tag si ev;
           store_line si w off a v;
           ret (ev\<lparr>ev_way := w\<rparr>) } } }"

section \<open>Maintenance\<close>

text \<open>The two nested loops over all sets and ways.\<close>

definition all_ways :: "(u32 \<Rightarrow> u32 \<Rightarrow> ('b, unit) cprog) \<Rightarrow> ('b, unit) cprog" where
  "all_ways f = do {
     ns \<leftarrow> reads c_sets;
     nw \<leftarrow> reads c_ways;
     for_each (upto_u32 ns) (\<lambda>s. for_each (upto_u32 nw) (\<lambda>w. f s w)) }"

definition cache_clean :: "('b, unit) cprog" where
  "cache_clean = all_ways writeback"

definition cache_clean_addr :: "u16 \<Rightarrow> ('b, bool) cprog" where
  "cache_clean_addr a = do {
     si \<leftarrow> reads (\<lambda>c. addr_set c a);
     found \<leftarrow> reads (\<lambda>c. find_way c a);
     case found of
       Some w \<Rightarrow> do { writeback si w; ret True }
     | None \<Rightarrow> ret False }"

definition cache_flush :: "('b, unit) cprog" where
  "cache_flush = all_ways (\<lambda>s w. do {
     writeback s w;
     writes (set_line s w (\<lambda>l. l\<lparr>l_valid := False\<rparr>)) })"

definition cache_invalidate :: "('b, unit) cprog" where
  "cache_invalidate = all_ways (\<lambda>s w. writes (set_line s w (\<lambda>l. l\<lparr>l_valid := False, l_dirty := False\<rparr>)))"

definition cache_snoop :: "u16 \<Rightarrow> ('b, bool) cprog" where
  "cache_snoop a = do {
     si \<leftarrow> reads (\<lambda>c. addr_set c a);
     found \<leftarrow> reads (\<lambda>c. find_way c a);
     case found of
       Some w \<Rightarrow> do {
         writeback si w;
         writes (set_line si w (\<lambda>l. l\<lparr>l_valid := False\<rparr>));
         writes (\<lambda>c. c\<lparr>c_invalidations := c_invalidations c + 1\<rparr>);
         ret True }
     | None \<Rightarrow> ret False }"

definition cache_reset_stats :: "('b, unit) cprog" where
  "cache_reset_stats = writes (\<lambda>c. c\<lparr>c_reads := 0, c_writes := 0, c_read_hit := 0, c_read_miss := 0,
     c_write_hit := 0, c_write_miss := 0, c_evictions := 0, c_writebacks := 0, c_invalidations := 0,
     c_stall_cycles := 0, c_bytes_in := 0, c_bytes_out := 0\<rparr>)"

text \<open>\<open>cache_hit_rate\<close> with the rational number for the \<open>double\<close>: the rounding is not modelled.\<close>

definition cache_hit_rate :: "'b cache \<Rightarrow> rat" where
  "cache_hit_rate c = (let tot = c_reads c + c_writes c in
     if tot = 0 then 0
     else of_nat (unat (c_read_hit c + c_write_hit c)) * 100 / of_nat (unat tot))"

end
