(* ===== verification/Terminal.thy ===== *)
theory Terminal
  imports Prelude "HOL-Library.Char_ord"
begin

text \<open>
  The C library as both programs use it: the conversions of \<open>printf\<close> that occur in the format
  strings, and the terminal behind \<open>stdin\<close> and \<open>stdout\<close>.

  What the terminal will deliver is part of the state, a list of polls: \<open>None\<close> is a moment at which
  \<open>select\<close> finds nothing to read, \<open>Some c\<close> a character that has arrived, the end of the list the end
  of the input.  What has been printed is one string.
\<close>

section \<open>Conversions\<close>

definition nl :: string where
  "nl = [CHR 0x0A]"

definition digit :: "nat \<Rightarrow> char" where
  "digit n = ''0123456789ABCDEF'' ! n"

text \<open>The digits of \<open>n\<close> in base \<open>2 \<le> b \<le> 16\<close>, most significant first: \<open>%u\<close> and \<open>%X\<close>.\<close>

function digits :: "nat \<Rightarrow> nat \<Rightarrow> string" where
  "digits b n = (if n < b \<or> b < 2 then [digit n] else digits b (n div b) @ [digit (n mod b)])"
  by pat_completeness auto
termination
  by (relation "measure snd") auto

declare digits.simps [simp del]

definition pad_left :: "char \<Rightarrow> nat \<Rightarrow> string \<Rightarrow> string" where
  "pad_left c w s = replicate (w - length s) c @ s"

definition pad_right :: "nat \<Rightarrow> string \<Rightarrow> string" where
  "pad_right w s = s @ replicate (w - length s) CHR '' ''"

definition hexw :: "nat \<Rightarrow> nat \<Rightarrow> string" where
  "hexw w n = pad_left CHR ''0'' w (digits 16 n)"

text \<open>\<open>%02X\<close>, \<open>%04X\<close>, \<open>%u\<close> and the signed \<open>%ld\<close>.\<close>

definition hex2 :: "u8 \<Rightarrow> string" where
  "hex2 v = hexw 2 (unat v)"

definition hex4 :: "u16 \<Rightarrow> string" where
  "hex4 v = hexw 4 (unat v)"

definition dec :: "nat \<Rightarrow> string" where
  "dec n = digits 10 n"

definition decl :: "int \<Rightarrow> string" where
  "decl n = (if n < 0 then CHR ''-'' # dec (nat (- n)) else dec (nat n))"

section \<open>Terminal\<close>

record terminal =
  t_in :: "u8 option list"
  t_out :: string

definition put_text :: "string \<Rightarrow> (terminal, unit) state" where
  "put_text s = State (\<lambda>t. ((), t\<lparr>t_out := t_out t @ s\<rparr>))"

definition putchar :: "u8 \<Rightarrow> (terminal, unit) state" where
  "putchar v = put_text [char_of (unat v)]"

text \<open>A \<open>select\<close> with a zero timeout and, if it reports input, the \<open>read\<close> of one character.\<close>

datatype poll = Idle | Eof | Ready u8

definition poll_read :: "(terminal, poll) state" where
  "poll_read = State (\<lambda>t. case t_in t of
       [] \<Rightarrow> (Eof, t)
     | None # ps \<Rightarrow> (Idle, t\<lparr>t_in := ps\<rparr>)
     | Some c # ps \<Rightarrow> (Ready c, t\<lparr>t_in := ps\<rparr>))"

text \<open>A \<open>read\<close> of one character, which waits for it; \<open>None\<close> at the end of the input.\<close>

definition wait_read :: "(terminal, u8 option) state" where
  "wait_read = State (\<lambda>t. case dropWhile (\<lambda>p. p = None) (t_in t) of
       [] \<Rightarrow> (None, t\<lparr>t_in := []\<rparr>)
     | p # ps \<Rightarrow> (p, t\<lparr>t_in := ps\<rparr>))"

section \<open>Length of a conversion\<close>

lemma digits_16_length: "n < 16 ^ w \<Longrightarrow> 0 < w \<Longrightarrow> length (digits 16 n) \<le> w"
proof (induction w arbitrary: n)
  case (Suc w)
  show ?case
  proof (cases "n < 16")
    case True
    then show ?thesis by (simp add: digits.simps)
  next
    case False
    then have w: "0 < w" using Suc.prems by (cases w) auto
    have "n div 16 < 16 ^ w" using Suc.prems(1) by (simp add: less_mult_imp_div_less)
    from Suc.IH [OF this w] show ?thesis using False by (subst digits.simps) simp
  qed
qed simp

lemma length_hexw: "n < 16 ^ w \<Longrightarrow> 0 < w \<Longrightarrow> length (hexw w n) = w"
  using digits_16_length [of n w] by (simp add: hexw_def pad_left_def)

lemma length_hex2: "length (hex2 v) = 2"
  using unat_u8_lt [of v] by (simp add: hex2_def length_hexw)

lemma length_hex4: "length (hex4 v) = 4"
  using unat_u16_lt [of v] by (simp add: hex4_def length_hexw)

end
