(* ===== verification/Memsys.thy ===== *)
theory Memsys
  imports M6502 Cache Terminal
begin

text \<open>
  The memory system, \<open>h6502/memsys.h\<close> and \<open>h6502/memsys.c\<close>, with the device page of \<open>h6502/hmon.c\<close>
  that its two bus callbacks call.

  The state has four layers, each the world of the one above: the CPU (\<open>core\<close>), the struct
  \<open>MemSys\<close> (record \<open>memsys\<close>), the statics of \<open>hmon.c\<close> (record \<open>hmon\<close>) and the terminal.  The two
  physical memories, the two space pointers and the state of \<open>rand\<close> form the record \<open>phys\<close>, which is
  also the world of the three caches: their callbacks read and write it and nothing else.  A
  \<open>uint8_t *\<close> into one of the memories is a \<open>mem_name\<close>, a \<open>Cache *\<close> a \<open>cache_name\<close> or none.
  Integers used as truth values are booleans, and \<open>long\<close> counters are \<open>int\<close>.
\<close>

unbundle bit_operations_syntax

section \<open>State\<close>

datatype MemMode = MODE_VONNEUMANN | MODE_HARVARD | MODE_MODIFIED

datatype MemSide = SIDE_CODE | SIDE_DATA

datatype mem_name = MEM_I | MEM_D

datatype cache_name = CI | CD | CU

record phys =
  mem_i :: "u16 \<Rightarrow> u8"
  mem_d :: "u16 \<Rightarrow> u8"
  imem :: mem_name
  dmem :: mem_name
  rand_at :: "nat \<Rightarrow> nat"
  rand_n :: nat

record memsys =
  ms_mode :: MemMode
  caches_on :: bool
  snoop :: bool
  warn_stale :: bool
  ci :: "phys cache"
  cd :: "phys cache"
  cu :: "phys cache"
  ms_phys :: phys
  n_kind :: "u8 \<Rightarrow> u64"
  n_code :: u64
  n_data :: u64
  n_uncached :: u64
  stale_writes :: u64
  code_stores :: u64
  stale_warn_left :: int
  code_lo :: u16
  code_hi :: u16
  code_known :: bool
  trace :: bool
  trace_left :: int

record hmon =
  halted :: bool
  io_staged :: "u8 option"
  break_pending :: bool

type_synonym world = "memsys \<times> hmon \<times> terminal"

type_synonym 'a hprog = "(hmon \<times> terminal, 'a) state"
type_synonym 'a msprog = "(world, 'a) state"

definition MS_IO_LO :: u16 where
  "MS_IO_LO = 0xF000"

definition MS_IO_HI :: u16 where
  "MS_IO_HI = 0xF0FF"

definition io_page :: "u16 \<Rightarrow> bool" where
  "io_page a \<longleftrightarrow> MS_IO_LO \<le> a \<and> a \<le> MS_IO_HI"

section \<open>The physical memories\<close>

definition space :: "phys \<Rightarrow> mem_name \<Rightarrow> u16 \<Rightarrow> u8" where
  "space b p = (case p of MEM_I \<Rightarrow> mem_i b | MEM_D \<Rightarrow> mem_d b)"

definition set_space :: "mem_name \<Rightarrow> u16 \<Rightarrow> u8 \<Rightarrow> phys \<Rightarrow> phys" where
  "set_space p a v b = (case p of MEM_I \<Rightarrow> b\<lparr>mem_i := (mem_i b)(a := v)\<rparr>
     | MEM_D \<Rightarrow> b\<lparr>mem_d := (mem_d b)(a := v)\<rparr>)"

definition bs_read_i :: "u16 \<Rightarrow> (phys, u8) state" where
  "bs_read_i a = State (\<lambda>b. (space b (imem b) a, b))"

definition bs_write_i :: "u16 \<Rightarrow> u8 \<Rightarrow> (phys, unit) state" where
  "bs_write_i a v = State (\<lambda>b. ((), set_space (imem b) a v b))"

definition bs_read_d :: "u16 \<Rightarrow> (phys, u8) state" where
  "bs_read_d a = State (\<lambda>b. (space b (dmem b) a, b))"

definition bs_write_d :: "u16 \<Rightarrow> u8 \<Rightarrow> (phys, unit) state" where
  "bs_write_d a v = State (\<lambda>b. ((), set_space (dmem b) a v b))"

text \<open>\<open>rand\<close> of the C library: the next number of a sequence that is part of the state.\<close>

definition rand :: "(phys, nat) state" where
  "rand = State (\<lambda>b. (rand_at b (rand_n b), b\<lparr>rand_n := rand_n b + 1\<rparr>))"

section \<open>Caches by name\<close>

definition the_cache :: "cache_name \<Rightarrow> memsys \<Rightarrow> phys cache" where
  "the_cache k m = (case k of CI \<Rightarrow> ci m | CD \<Rightarrow> cd m | CU \<Rightarrow> cu m)"

definition put_cache :: "cache_name \<Rightarrow> phys cache \<Rightarrow> memsys \<Rightarrow> memsys" where
  "put_cache k c m = (case k of CI \<Rightarrow> m\<lparr>ci := c\<rparr> | CD \<Rightarrow> m\<lparr>cd := c\<rparr> | CU \<Rightarrow> m\<lparr>cu := c\<rparr>)"

definition on_cache :: "cache_name \<Rightarrow> (phys, 'a) cprog \<Rightarrow> 'a msprog" where
  "on_cache k p = State (\<lambda>(m, w). case run_state p (the_cache k m, ms_phys m) of
     (r, (c, b)) \<Rightarrow> (r, (put_cache k c (m\<lparr>ms_phys := b\<rparr>), w)))"

section \<open>Initialisation and mode\<close>

text \<open>\<open>room\<close> says for each cache whether the \<open>calloc\<close> of its \<open>cache_config\<close> delivers; nobody looks at the result.\<close>

definition cache_defaults :: "bool \<Rightarrow> string \<Rightarrow> (phys, config_outcome) cprog" where
  "cache_defaults room nm = do {
     writes (\<lambda>c. zero_cache);
     writes (\<lambda>c. c\<lparr>c_repl := REPL_LRU, c_wpol := WPOL_BACK, c_write_alloc := True, c_miss_penalty := 8\<rparr>);
     cache_config room (Some nm) 256 16 2 }"

definition zero_memsys :: "phys \<Rightarrow> memsys" where
  "zero_memsys b = \<lparr>ms_mode = MODE_VONNEUMANN, caches_on = False, snoop = False, warn_stale = False,
     ci = zero_cache, cd = zero_cache, cu = zero_cache, ms_phys = b, n_kind = (\<lambda>_. 0), n_code = 0, n_data = 0,
     n_uncached = 0, stale_writes = 0, code_stores = 0, stale_warn_left = 0, code_lo = 0, code_hi = 0,
     code_known = False, trace = False, trace_left = 0\<rparr>"

definition ms_init :: "(cache_name \<Rightarrow> bool) \<Rightarrow> unit msprog" where
  "ms_init room = do {
     writes (\<lambda>m. zero_memsys (ms_phys m));
     writes (\<lambda>m. m\<lparr>ms_mode := MODE_VONNEUMANN, caches_on := True, snoop := False, warn_stale := True,
       stale_warn_left := 8, ms_phys := (ms_phys m)\<lparr>imem := MEM_I, dmem := MEM_I\<rparr>\<rparr>);
     on_cache CI (cache_defaults (room CI) ''I$'');
     on_cache CD (cache_defaults (room CD) ''D$'');
     on_cache CU (cache_defaults (room CU) ''U$'');
     on_cache CI (cache_attach bs_read_i bs_write_i);
     on_cache CD (cache_attach bs_read_d bs_write_d);
     on_cache CU (cache_attach bs_read_i bs_write_i) }"

definition ms_set_mode :: "MemMode \<Rightarrow> unit msprog" where
  "ms_set_mode k = do {
     on_cache CI cache_flush;
     on_cache CD cache_flush;
     on_cache CU cache_flush;
     writes (\<lambda>m. m\<lparr>ms_mode := k, ms_phys := (ms_phys m)\<lparr>imem := MEM_I,
       dmem := (if k = MODE_HARVARD then MEM_D else MEM_I)\<rparr>\<rparr>) }"

section \<open>Routing\<close>

definition side_of :: "u8 \<Rightarrow> MemSide" where
  "side_of kind = (if kind = acc_code M6502_ACC_OPCODE \<or> kind = acc_code M6502_ACC_OPERAND \<or>
     kind = acc_code M6502_ACC_VECTOR then SIDE_CODE else SIDE_DATA)"

definition ms_cache_for :: "memsys \<Rightarrow> MemSide \<Rightarrow> cache_name option" where
  "ms_cache_for m side = (
     if \<not> caches_on m then None
     else if ms_mode m = MODE_VONNEUMANN then Some CU
     else Some (if side = SIDE_CODE then CI else CD))"

definition space_for :: "memsys \<Rightarrow> MemSide \<Rightarrow> mem_name" where
  "space_for m side = (if side = SIDE_CODE then imem (ms_phys m) else dmem (ms_phys m))"

definition ms_peek :: "memsys \<Rightarrow> MemSide \<Rightarrow> u16 \<Rightarrow> u8" where
  "ms_peek m side a = space (ms_phys m) (if side = SIDE_CODE then imem (ms_phys m) else dmem (ms_phys m)) a"

definition ms_poke :: "MemSide \<Rightarrow> u16 \<Rightarrow> u8 \<Rightarrow> unit msprog" where
  "ms_poke side a v = writes (\<lambda>m. m\<lparr>ms_phys :=
     set_space (if side = SIDE_CODE then imem (ms_phys m) else dmem (ms_phys m)) a v (ms_phys m)\<rparr>)"

definition ms_peek_code :: "memsys \<Rightarrow> u16 \<Rightarrow> u8" where
  "ms_peek_code m a = space (ms_phys m) (imem (ms_phys m)) a"

text \<open>The expressions \<open>space_for(ms, side)[addr]\<close>, read and assigned.\<close>

definition space_get :: "MemSide \<Rightarrow> u16 \<Rightarrow> u8 msprog" where
  "space_get side a = reads (\<lambda>m. space (ms_phys m) (space_for m side) a)"

definition space_put :: "MemSide \<Rightarrow> u16 \<Rightarrow> u8 \<Rightarrow> unit msprog" where
  "space_put side a v = writes (\<lambda>m. m\<lparr>ms_phys := set_space (space_for m side) a v (ms_phys m)\<rparr>)"

section \<open>Trace\<close>

definition ms_mode_name :: "MemMode \<Rightarrow> string" where
  "ms_mode_name k = (case k of
     MODE_VONNEUMANN \<Rightarrow> ''von Neumann (unified memory, unified L1)''
   | MODE_HARVARD \<Rightarrow> ''Harvard (split memory, split L1)''
   | MODE_MODIFIED \<Rightarrow> ''modified Harvard (unified memory, split L1)'')"

definition ms_kind_name :: "u8 \<Rightarrow> string" where
  "ms_kind_name kind = (if kind < 6
     then [''OPCODE'', ''OPERAND'', ''DATA'', ''PTR'', ''STACK'', ''VECTOR''] ! unat kind else ''?'')"

definition say :: "string \<Rightarrow> unit msprog" where
  "say s = outside (outside (put_text s))"

definition trace_line :: "string \<Rightarrow> u8 \<Rightarrow> u16 \<Rightarrow> u8 \<Rightarrow> (cache_name \<times> cache_event) option \<Rightarrow> unit msprog" where
  "trace_line op kind a v ce = do {
     on \<leftarrow> reads trace;
     left \<leftarrow> reads trace_left;
     whenever (on \<and> left \<noteq> 0) (do {
       whenever (0 < left) (writes (\<lambda>m. m\<lparr>trace_left := left - 1\<rparr>));
       say (''  '' @ pad_right 5 op @ '' '' @ pad_right 7 (ms_kind_name kind) @ '' $'' @ hex4 a @ '' = $'' @
         hex2 v @ ''  '');
       case ce of
         None \<Rightarrow> say (''[uncached]'' @ nl)
       | Some (k, ev) \<Rightarrow> do {
           nm \<leftarrow> reads (\<lambda>m. c_name (the_cache k m));
           say (nm @ '' set '' @ pad_left CHR '' '' 2 (dec (unat (ev_set ev))) @ '' way '' @ dec (unat (ev_way ev)) @
             '' tag $'' @ hexw 3 (unat (ev_tag ev)) @ ''  '' @ (if ev_hit ev then ''HIT '' else ''MISS''));
           whenever (\<not> ev_hit ev) (say ('' +'' @ dec (unat (ev_stall ev)) @ ''c''));
           whenever (ev_evicted ev) (say (''  evict $'' @ hex4 (ev_evicted_base ev) @
             (if ev_wrote_back ev then '' (dirty->mem)'' else [])));
           say nl } }) }"

section \<open>Maintenance\<close>

definition ms_flush :: "bool \<Rightarrow> bool \<Rightarrow> unit msprog" where
  "ms_flush code data = do {
     k \<leftarrow> reads ms_mode;
     if k = MODE_VONNEUMANN then whenever (code \<or> data) (on_cache CU cache_flush)
     else do {
       whenever code (on_cache CI cache_flush);
       whenever data (on_cache CD cache_flush) } }"

definition ms_clean :: "unit msprog" where
  "ms_clean = do {
     k \<leftarrow> reads ms_mode;
     if k = MODE_VONNEUMANN then on_cache CU cache_clean else on_cache CD cache_clean }"

definition ms_reset_stats :: "unit msprog" where
  "ms_reset_stats = do {
     on_cache CI cache_reset_stats;
     on_cache CD cache_reset_stats;
     on_cache CU cache_reset_stats;
     writes (\<lambda>m. m\<lparr>n_kind := (\<lambda>_. 0), n_code := 0, n_data := 0, n_uncached := 0, stale_writes := 0,
       code_stores := 0, stale_warn_left := 8\<rparr>) }"

definition ms_stall_cycles :: "memsys \<Rightarrow> u64" where
  "ms_stall_cycles m = (
     if \<not> caches_on m then 0
     else if ms_mode m = MODE_VONNEUMANN then c_stall_cycles (cu m)
     else c_stall_cycles (ci m) + c_stall_cycles (cd m))"

section \<open>The device page\<close>

text \<open>\<open>SIGINT\<close> may set the flag between any two instructions.\<close>

definition on_sigint :: "unit hprog" where
  "on_sigint = writes (\<lambda>h. h\<lparr>break_pending := True\<rparr>)"

definition io_peek :: "bool hprog" where
  "io_peek = do {
     st \<leftarrow> reads io_staged;
     if st \<noteq> None then ret True
     else do {
       p \<leftarrow> outside poll_read;
       case p of
         Ready ch \<Rightarrow> do { writes (\<lambda>h. h\<lparr>io_staged := Some ch\<rparr>); ret True }
       | _ \<Rightarrow> ret False } }"

definition io_getc :: "u8 hprog" where
  "io_getc = do {
     st \<leftarrow> reads io_staged;
     case st of
       Some v \<Rightarrow> do { writes (\<lambda>h. h\<lparr>io_staged := None\<rparr>); ret v }
     | None \<Rightarrow> do {
         r \<leftarrow> outside wait_read;
         ret (case r of Some ch \<Rightarrow> ch | None \<Rightarrow> 0) } }"

text \<open>\<open>None\<close> is the result with \<open>*handled = 0\<close>.\<close>

definition h_io_read :: "u16 \<Rightarrow> u8 option hprog" where
  "h_io_read a = (
     if a = 0xF002 then do { r \<leftarrow> io_peek; ret (Some (if r then 0xFF else 0)) }
     else if a = 0xF003 then do { v \<leftarrow> io_getc; ret (Some v) }
     else if a = 0xF004 then do {
       b \<leftarrow> reads break_pending;
       writes (\<lambda>h. h\<lparr>break_pending := False\<rparr>);
       ret (Some (if b then 0xFF else 0)) }
     else ret None)"

text \<open>The result is \<open>*handled\<close>.\<close>

definition h_io_write :: "u16 \<Rightarrow> u8 \<Rightarrow> (world, bool) cpu" where
  "h_io_write a v = (
     if a = 0xF001 then do { outside (outside (outside (putchar v))); ret True }
     else if a = 0xF0FC then do { outside ms_clean; ret True }
     else if a = 0xF0FD then do { outside (ms_flush True False); ret True }
     else if a = 0xF0FE then do {
       outside ms_reset_stats;
       writes (\<lambda>s. s\<lparr>cycles := 0\<rparr>);
       ret True }
     else if a = 0xF0FF then do { outside (outside (writes (\<lambda>h. h\<lparr>halted := True\<rparr>))); ret True }
     else ret False)"

section \<open>The bus\<close>

text \<open>The census at the head of both callbacks.\<close>

definition count_access :: "u8 \<Rightarrow> unit msprog" where
  "count_access kind = do {
     writes (\<lambda>m. let i = (if kind < 6 then kind else 2) in m\<lparr>n_kind := (n_kind m)(i := n_kind m i + 1)\<rparr>);
     if side_of kind = SIDE_CODE then writes (\<lambda>m. m\<lparr>n_code := n_code m + 1\<rparr>)
     else writes (\<lambda>m. m\<lparr>n_data := n_data m + 1\<rparr>) }"

text \<open>The parts of \<open>ms_read\<close> for the device page and for memory proper.\<close>

definition ms_io_load :: "u8 \<Rightarrow> u16 \<Rightarrow> u8 msprog" where
  "ms_io_load kind a = do {
     writes (\<lambda>m. m\<lparr>n_uncached := n_uncached m + 1\<rparr>);
     r \<leftarrow> outside (h_io_read a);
     v \<leftarrow> (case r of Some v \<Rightarrow> ret v | None \<Rightarrow> space_get (side_of kind) a);
     trace_line ''read'' kind a v None;
     ret v }"

definition ms_load :: "u8 \<Rightarrow> u16 \<Rightarrow> u8 msprog" where
  "ms_load kind a = do {
     c \<leftarrow> reads (\<lambda>m. ms_cache_for m (side_of kind));
     case c of
       None \<Rightarrow> do {
         v \<leftarrow> space_get (side_of kind) a;
         trace_line ''read'' kind a v None;
         ret v }
     | Some k \<Rightarrow> do {
         (v, ev) \<leftarrow> on_cache k (cache_read rand a);
         trace_line ''read'' kind a v (Some (k, ev));
         ret v } }"

definition ms_read :: "u16 \<Rightarrow> (world, u8) cpu" where
  "ms_read a = do {
     kind \<leftarrow> reads access;
     outside (count_access kind);
     outside (if io_page a then ms_io_load kind a else ms_load kind a) }"

text \<open>The warning on a store that goes stale in the instruction cache.\<close>

definition stale_warning :: "u16 \<Rightarrow> unit msprog" where
  "stale_warning a = do {
     writes (\<lambda>m. m\<lparr>stale_writes := stale_writes m + 1\<rparr>);
     warn \<leftarrow> reads warn_stale;
     left \<leftarrow> reads stale_warn_left;
     whenever (warn \<and> left \<noteq> 0) (do {
       whenever (0 < left) (writes (\<lambda>m. m\<lparr>stale_warn_left := left - 1\<rparr>));
       base \<leftarrow> reads (\<lambda>m. addr_base (ci m) a);
       say (''  [coherence] store to $'' @ hex4 a @ '' is now stale in I$ (line $'' @ hex4 base @
         '') -- the fetch side will not see it'' @ nl) }) }"

definition coherence :: "memsys \<Rightarrow> MemSide \<Rightarrow> u16 \<Rightarrow> bool" where
  "coherence m side a \<longleftrightarrow> ms_mode m = MODE_MODIFIED \<and> side = SIDE_DATA \<and> caches_on m \<and> cache_probe (ci m) a \<noteq> None"

text \<open>The parts of \<open>ms_write\<close>.\<close>

definition ms_store :: "u8 \<Rightarrow> u16 \<Rightarrow> u8 \<Rightarrow> unit msprog" where
  "ms_store kind a v = do {
     let side = side_of kind;
     known \<leftarrow> reads (\<lambda>m. code_known m \<and> code_lo m \<le> a \<and> a \<le> code_hi m);
     whenever known (writes (\<lambda>m. m\<lparr>code_stores := code_stores m + 1\<rparr>));
     c \<leftarrow> reads (\<lambda>m. ms_cache_for m side);
     co \<leftarrow> reads (\<lambda>m. coherence m side a);
     sn \<leftarrow> reads snoop;
     whenever (co \<and> \<not> sn) (stale_warning a);
     case c of
       None \<Rightarrow> do {
         space_put side a v;
         trace_line ''write'' kind a v None }
     | Some k \<Rightarrow> do {
         ev \<leftarrow> on_cache k (cache_write rand a v);
         trace_line ''write'' kind a v (Some (k, ev));
         whenever (co \<and> sn) (do {
           on_cache CD (cache_clean_addr a);
           on_cache CI (cache_snoop a);
           ret () }) } }"

definition ms_io_store :: "u8 \<Rightarrow> u16 \<Rightarrow> u8 \<Rightarrow> (world, unit) cpu" where
  "ms_io_store kind a v = do {
     outside (writes (\<lambda>m. m\<lparr>n_uncached := n_uncached m + 1\<rparr>));
     handled \<leftarrow> h_io_write a v;
     whenever (\<not> handled) (outside (space_put (side_of kind) a v));
     outside (trace_line ''write'' kind a v None) }"

definition ms_write :: "u16 \<Rightarrow> u8 \<Rightarrow> (world, unit) cpu" where
  "ms_write a v = do {
     kind \<leftarrow> reads access;
     outside (count_access kind);
     if io_page a then ms_io_store kind a v else outside (ms_store kind a v) }"

definition h6502_bus :: "world bus" where
  "h6502_bus = \<lparr>bus_read = ms_read, bus_write = ms_write\<rparr>"

end
