(* ===== verification/Memsys_Spec.thy ===== *)
theory Memsys_Spec
  imports Memsys
begin

text \<open>
  What the memory system promises the program it runs: a machine without caches.  It has one memory
  for code and one for data; \<open>i_split\<close> tells whether a store reaches the code memory too (von Neumann
  and modified Harvard) or only the data memory (Harvard).  The device page answers as the code's
  \<open>h_io_read\<close> does, and of the writes to it only the console, the cycle counter and the halt latch
  remain: cleaning and flushing caches is invisible here.
\<close>

record ideal =
  i_split :: bool
  i_code :: "u16 \<Rightarrow> u8"
  i_data :: "u16 \<Rightarrow> u8"

type_synonym iworld = "ideal \<times> hmon \<times> terminal"

definition i_load :: "MemSide \<Rightarrow> u16 \<Rightarrow> ideal \<Rightarrow> u8" where
  "i_load side a i = (if side = SIDE_CODE then i_code i a else i_data i a)"

definition i_store :: "u16 \<Rightarrow> u8 \<Rightarrow> ideal \<Rightarrow> ideal" where
  "i_store a v i = i\<lparr>i_code := (if i_split i then i_code i else (i_code i)(a := v)), i_data := (i_data i)(a := v)\<rparr>"

definition ideal_read :: "u16 \<Rightarrow> (iworld, u8) cpu" where
  "ideal_read a = do {
     kind \<leftarrow> reads access;
     r \<leftarrow> (if io_page a then outside (outside (h_io_read a)) else ret None);
     case r of Some v \<Rightarrow> ret v | None \<Rightarrow> outside (reads (i_load (side_of kind) a)) }"

definition ideal_write :: "u16 \<Rightarrow> u8 \<Rightarrow> (iworld, unit) cpu" where
  "ideal_write a v = (
     if a = 0xF001 then outside (outside (outside (putchar v)))
     else if a = 0xF0FC \<or> a = 0xF0FD then ret ()
     else if a = 0xF0FE then writes (\<lambda>s. s\<lparr>cycles := 0\<rparr>)
     else if a = 0xF0FF then outside (outside (writes (\<lambda>h. h\<lparr>halted := True\<rparr>)))
     else outside (writes (i_store a v)))"

definition ideal_bus :: "iworld bus" where
  "ideal_bus = \<lparr>bus_read = ideal_read, bus_write = ideal_write\<rparr>"

end
