(* ===== verification/M6502_Bus.thy ===== *)
theory M6502_Bus
  imports M6502
begin

text \<open>
  Two contracts of the bus interface of \<open>m6502/m6502.h\<close>, as locales over the callbacks.

  \<open>bus_sim\<close> relates two buses: their callbacks return the same bytes and keep the contexts
  related.  Its lemmas lift this to every addressing mode, every opcode routine, both dispatch
  tables and the public API, so two systems whose memories agree run every program alike.
  Writes are only required to agree for the access kinds the core writes with, data and stack.

  \<open>bus_inv\<close> is the case of one bus and an invariant of its context: what every callback keeps,
  every instruction keeps.
\<close>

section \<open>Simulation of one bus by another\<close>

locale bus_sim =
  fixes B :: "'w bus" and B' :: "'v bus" and R :: "'w \<Rightarrow> 'v \<Rightarrow> bool"
  assumes read_sim: "sim R (bus_read B a) (bus_read B' a)"
    and write_sim: "R w v \<Longrightarrow> access s \<in> {acc_code M6502_ACC_DATA, acc_code M6502_ACC_STACK} \<Longrightarrow>
      result (bus_write B a x) (s, w) = result (bus_write B' a x) (s, v) \<and>
      fst (exec (bus_write B a x) (s, w)) = fst (exec (bus_write B' a x) (s, v)) \<and>
      R (snd (exec (bus_write B a x) (s, w))) (snd (exec (bus_write B' a x) (s, v)))"
begin

lemma rdk_sim [sim_rules]: "sim R (rdk B a k) (rdk B' a k)"
  unfolding rdk_def by (intro sim_rules read_sim)

lemma wrk_sim:
  assumes "k \<in> {M6502_ACC_DATA, M6502_ACC_STACK}"
  shows "sim R (wrk B a x k) (wrk B' a x k)"
proof (rule simI)
  fix s :: core and w :: 'w and v :: 'v assume "R w v"
  then show "result (wrk B a x k) (s, w) = result (wrk B' a x k) (s, v) \<and>
     fst (exec (wrk B a x k) (s, w)) = fst (exec (wrk B' a x k) (s, v)) \<and>
     R (snd (exec (wrk B a x k) (s, w))) (snd (exec (wrk B' a x k) (s, v)))"
    using write_sim [of w v "s\<lparr>access := acc_code k\<rparr>" a x] assms by (auto simp: wrk_def)
qed

lemma data_sim [sim_rules]:
  "sim R (rdk16 B a k) (rdk16 B' a k)" "sim R (rd B a) (rd B' a)" "sim R (wr B a x) (wr B' a x)"
  "sim R (rdc B a) (rdc B' a)" "sim R (rdc16 B a) (rdc16 B' a)" "sim R (rdp B a) (rdp B' a)"
  "sim R (rdp16w B a) (rdp16w B' a)" "sim R (rdv16 B a) (rdv16 B' a)"
  unfolding rdk16_def rd_def wr_def rdc_def rdc16_def rdp_def rdp16w_def rdv16_def Let_def
  by (intro sim_rules wrk_sim; simp)+

lemma stack_sim [sim_rules]:
  "sim R (push8 B u) (push8 B' u)" "sim R (pull8 B) (pull8 B')"
  "sim R (push16 B z) (push16 B' z)" "sim R (pull16 B) (pull16 B')"
  unfolding push16_def pull16_def push8_def pull8_def
  by (intro sim_rules wrk_sim; simp)+

lemma struct_sim [sim_rules]:
  "sim R (calcZ u) (calcZ u)" "sim R (calcN u) (calcN u)" "sim R (calcZN u) (calcZN u)"
  "sim R (calcC16 z) (calcC16 z)" "sim R (calcV z u y) (calcV z u y)" "sim R pc_postinc pc_postinc"
  "sim R (set_ea z) (set_ea z)" "sim R (set_ea_indexed z u) (set_ea_indexed z u)"
  "sim R (branch b) (branch b)" "sim R (cmp_reg u u') (cmp_reg u u')"
  unfolding calcZN_def calcZ_def calcN_def calcC16_def calcV_def pc_postinc_def set_ea_indexed_def
    set_ea_def branch_def cmp_reg_def
  by (intro sim_rules)+

lemma alu_sim [sim_rules]: "sim R (adc_with u) (adc_with u)" "sim R (sbc_with u u') (sbc_with u u')"
  unfolding m6502_ops Let_def by (intro sim_rules)+

lemma operand_sim [sim_rules]:
  "sim R (fetch16 B) (fetch16 B')" "sim R (getval B) (getval B')" "sim R (putval B u) (putval B' u)"
  unfolding fetch16_def getval_def putval_def by (intro sim_rules)+

lemma am_sim [sim_rules]:
  "sim R am_imp am_imp" "sim R am_acc am_acc" "sim R am_imm am_imm" "sim R (am_zp B) (am_zp B')"
  "sim R (am_zpx B) (am_zpx B')" "sim R (am_zpy B) (am_zpy B')" "sim R (am_abs B) (am_abs B')"
  "sim R (am_rel B) (am_rel B')" "sim R (am_absx B) (am_absx B')" "sim R (am_absy B) (am_absy B')"
  "sim R (am_ind B) (am_ind B')" "sim R (am_indx B) (am_indx B')" "sim R (am_indy B) (am_indy B')"
  unfolding m6502_ops Let_def by (intro sim_rules)+

lemma op_sim [sim_rules]:
  "sim R (op_adc B) (op_adc B')" "sim R (op_sbc B) (op_sbc B')" "sim R (op_and B) (op_and B')"
  "sim R (op_eor B) (op_eor B')" "sim R (op_ora B) (op_ora B')" "sim R (op_lda B) (op_lda B')"
  "sim R (op_ldx B) (op_ldx B')" "sim R (op_ldy B) (op_ldy B')" "sim R (op_sta B) (op_sta B')"
  "sim R (op_stx B) (op_stx B')" "sim R (op_sty B) (op_sty B')" "sim R (op_asl B) (op_asl B')"
  "sim R (op_lsr B) (op_lsr B')" "sim R (op_rol B) (op_rol B')" "sim R (op_ror B) (op_ror B')"
  "sim R (op_inc B) (op_inc B')" "sim R (op_dec B) (op_dec B')" "sim R op_inx op_inx"
  "sim R op_iny op_iny" "sim R op_dex op_dex" "sim R op_dey op_dey" "sim R op_tax op_tax"
  "sim R op_tay op_tay" "sim R op_txa op_txa" "sim R op_tya op_tya" "sim R op_tsx op_tsx"
  "sim R op_txs op_txs" "sim R op_clc op_clc" "sim R op_sec op_sec" "sim R op_cld op_cld"
  "sim R op_sed op_sed" "sim R op_cli op_cli" "sim R op_sei op_sei" "sim R op_clv op_clv"
  "sim R (op_cmp B) (op_cmp B')" "sim R (op_cpx B) (op_cpx B')" "sim R (op_cpy B) (op_cpy B')"
  "sim R (op_bit B) (op_bit B')" "sim R op_bpl op_bpl" "sim R op_bmi op_bmi" "sim R op_bvc op_bvc"
  "sim R op_bvs op_bvs" "sim R op_bcc op_bcc" "sim R op_bcs op_bcs" "sim R op_bne op_bne"
  "sim R op_beq op_beq" "sim R op_jmp op_jmp" "sim R (op_jsr B) (op_jsr B')"
  "sim R (op_rts B) (op_rts B')" "sim R (op_rti B) (op_rti B')" "sim R (op_brk B) (op_brk B')"
  "sim R (op_pha B) (op_pha B')" "sim R (op_pla B) (op_pla B')" "sim R (op_php B) (op_php B')"
  "sim R (op_plp B) (op_plp B')" "sim R op_nop op_nop" "sim R (op_SAX B) (op_SAX B')"
  "sim R (op_LAS B) (op_LAS B')" "sim R op_JAM op_JAM" "sim R (op_SBX B) (op_SBX B')"
  "sim R (op_SHA B) (op_SHA B')" "sim R (op_SHX B) (op_SHX B')" "sim R (op_SHY B) (op_SHY B')"
  "sim R (op_TAS B) (op_TAS B')" "sim R (op_ANE B) (op_ANE B')" "sim R (op_LXA B) (op_LXA B')"
  unfolding m6502_ops Let_def by (intro sim_rules)+

lemma op_compound_sim [sim_rules]:
  "sim R (op_SLO B) (op_SLO B')" "sim R (op_RLA B) (op_RLA B')" "sim R (op_SRE B) (op_SRE B')"
  "sim R (op_RRA B) (op_RRA B')" "sim R (op_LAX B) (op_LAX B')" "sim R (op_DCP B) (op_DCP B')"
  "sim R (op_ISC B) (op_ISC B')" "sim R (op_ANC B) (op_ANC B')" "sim R (op_ALR B) (op_ALR B')"
  "sim R (op_ARR B) (op_ARR B')"
  unfolding op_SLO_def op_RLA_def op_SRE_def op_RRA_def op_LAX_def op_DCP_def op_ISC_def op_ANC_def
    op_ALR_def op_ARR_def Let_def by (intro sim_rules)+

lemma table_sim:
  "list_all2 (sim R) (g_at B) (g_at B')" "list_all2 (sim R) (g_ot B) (g_ot B')"
  unfolding g_at_def g_ot_def list_all2_Cons
  by (intro conjI am_sim op_sim op_compound_sim list.rel_intros)+

lemma dispatch_sim [sim_rules]:
  fixes op :: u8
  shows "sim R (g_at B ! unat op) (g_at B' ! unat op)"
    and "sim R (g_ot B ! unat op) (g_ot B' ! unat op)"
  using table_sim [THEN list_all2_nthD, of "unat op"] unat_u8_lt [of op] by simp_all

lemma step_sim [sim_rules]: "sim R (m6502_step B) (m6502_step B')"
  unfolding m6502_step_def fetch_opcode_def finish_step_def by (intro sim_rules)

lemma steps_sim [sim_rules]: "sim R (m6502_steps B n) (m6502_steps B' n)"
  by (induction n) (auto intro!: sim_rules)

lemma interrupt_sim [sim_rules]: "sim R (interrupt B vec) (interrupt B' vec)"
  unfolding interrupt_def by (intro sim_rules)

lemma api_sim:
  "sim R (m6502_reset B) (m6502_reset B')" "sim R (m6502_nmi B) (m6502_nmi B')"
  "sim R (m6502_irq B) (m6502_irq B')"
  unfolding m6502_reset_def m6502_nmi_def m6502_irq_def by (intro sim_rules)+

end

section \<open>Invariants of the context\<close>

locale bus_inv =
  fixes B :: "'w bus" and I :: "'w \<Rightarrow> bool"
  assumes read_inv: "I w \<Longrightarrow> I (snd (exec (bus_read B a) (s, w)))"
    and write_inv: "I w \<Longrightarrow> access s \<in> {acc_code M6502_ACC_DATA, acc_code M6502_ACC_STACK} \<Longrightarrow>
      I (snd (exec (bus_write B a x) (s, w)))"

sublocale bus_inv \<subseteq> bus_sim B B "\<lambda>w v. v = w \<and> I w"
  by unfold_locales (auto simp: sim_def read_inv write_inv)

context bus_inv
begin

lemma step_keeps: "I w \<Longrightarrow> I (snd (exec (m6502_step B) (s, w)))"
  using simD(3) [OF step_sim, of w w] by blast

lemma steps_keeps: "I w \<Longrightarrow> I (snd (exec (m6502_steps B n) (s, w)))"
  using simD(3) [OF steps_sim, of w w] by blast

lemma api_keeps:
  assumes "I w"
  shows "I (snd (exec (m6502_reset B) (s, w)))" "I (snd (exec (m6502_nmi B) (s, w)))"
    "I (snd (exec (m6502_irq B) (s, w)))"
  using api_sim [THEN simD(3), of w w] assms by blast+

end

end
