(* ===== verification/M6502_Frame.thy ===== *)
theory M6502_Frame
  imports M6502_Bus
begin

text \<open>
  What the core itself guarantees on every bus whose callbacks leave the core struct alone, apart
  from the cycle counter they may advance (locale \<open>bus_frame\<close>): each flag stays 0 or 1, so
  \<open>m6502_getP\<close> packs a faithful status byte; an instruction takes the cycles of the table \<open>g_tt\<close>
  and at most two more; and a routine that is no jump leaves the program counter where the
  addressing mode put it.
\<close>

unbundle bit_operations_syntax

section \<open>The flags and the status byte\<close>

definition flag_ok :: "u8 \<Rightarrow> bool" where
  "flag_ok f \<longleftrightarrow> f = 0 \<or> f = 1"

definition flags_ok :: "'z m6502_scheme \<Rightarrow> bool" where
  "flags_ok s \<longleftrightarrow> flag_ok (f_c s) \<and> flag_ok (f_z s) \<and> flag_ok (f_i s) \<and>
     flag_ok (f_d s) \<and> flag_ok (f_v s) \<and> flag_ok (f_n s)"

lemma flag_ok_simps [simp]:
  "flag_ok 0" "flag_ok 1" "flag_ok (of_bool b)" "flag_ok (x AND 1)" "flag_ok (ucast (y AND (1 :: u16)))"
  using word_and_one_cases [of x] word_and_one_cases [of y]
  by (auto simp: flag_ok_def)

lemma flag_ok_xor [simp]: "flag_ok x \<Longrightarrow> flag_ok y \<Longrightarrow> flag_ok (x XOR y)"
  by (auto simp: flag_ok_def)

lemma flags_ok_setP [simp]: "flags_ok (m6502_setP p s)"
  by (simp add: flags_ok_def m6502_setP_def)

lemma setP_getP: "flags_ok s \<Longrightarrow> m6502_setP (m6502_getP s) s = s"
  unfolding flags_ok_def flag_ok_def m6502_getP_def m6502_setP_def
  by (cases s) auto

lemma getP_setP: "m6502_getP (m6502_setP p s) = (p AND 0xcf) OR 0x20"
  unfolding m6502_getP_def m6502_setP_def
  by (rule u8_eqI) (simp_all add: bit_simps del: push_bit_Suc)

section \<open>The predicates that are carried through an instruction\<close>

text \<open>\<open>steady\<close> holds before and after every routine that neither jumps nor charges cycles itself.\<close>

definition steady :: "u32 \<Rightarrow> u16 \<Rightarrow> 'z core_scheme \<Rightarrow> bool" where
  "steady t p s \<longleftrightarrow> flags_ok s \<and> g_ticks s = t \<and> r_pc s = p"

text \<open>The state between the addressing mode and the routine: nothing is charged yet.\<close>

definition decoded :: "u32 \<Rightarrow> u16 \<Rightarrow> 'z core_scheme \<Rightarrow> bool" where
  "decoded t p s \<longleftrightarrow> flags_ok s \<and> g_ticks s = t \<and> r_pc s = p \<and> g_pop s = 0"

text \<open>The routines that jump charge nothing more, the branches one cycle or two, with \<open>g_pop\<close> off.\<close>

definition dispatched :: "u32 \<Rightarrow> 'z core_scheme \<Rightarrow> bool" where
  "dispatched t s \<longleftrightarrow> flags_ok s \<and> g_ticks s = t \<and> g_pop s = 0"

text \<open>The decimal adders charge one cycle in decimal mode; the routines built on them take it back.\<close>

definition decimal :: "u32 \<Rightarrow> u16 \<Rightarrow> 'z core_scheme \<Rightarrow> bool" where
  "decimal t p s \<longleftrightarrow> flags_ok s \<and> g_ticks s = t + of_bool (f_d s \<noteq> 0) \<and> r_pc s = p"

text \<open>The state after the routine: one cycle of decimal mode or at most two of a branch.\<close>

definition charged :: "u32 \<Rightarrow> 'z core_scheme \<Rightarrow> bool" where
  "charged t s \<longleftrightarrow> flags_ok s \<and> (g_ticks s = t \<or> g_ticks s = t + 1 \<or> g_ticks s = t + 2 \<and> g_pop s = 0)"

lemma decoded_steady: "decoded t p s \<Longrightarrow> steady t p s"
  by (simp add: decoded_def steady_def)

lemma steady_charged: "steady t p s \<Longrightarrow> charged t s"
  by (simp add: steady_def charged_def)

lemma decimal_charged: "decimal t p s \<Longrightarrow> charged t s"
  by (simp add: decimal_def charged_def)

lemmas m6502_helpers =
  calcZN_def calcZ_def calcN_def calcC16_def calcV_def set_ea_indexed_def set_ea_def cmp_reg_def

section \<open>Callbacks that leave the core alone\<close>

locale bus_frame =
  fixes B :: "'w bus"
  assumes read_frame: "\<exists>n. fst (exec (bus_read B a) (s, w)) = s\<lparr>cycles := n\<rparr>"
    and write_frame: "\<exists>n. fst (exec (bus_write B a x) (s, w)) = s\<lparr>cycles := n\<rparr>"
begin

lemma bus_keeps:
  assumes cyc: "\<And>s n. Q s \<Longrightarrow> Q (s\<lparr>cycles := n\<rparr>)" and acc: "\<And>s k. Q s \<Longrightarrow> Q (s\<lparr>access := k\<rparr>)"
  shows "keeps (on_struct Q) (rdk B a k)" "keeps (on_struct Q) (wrk B a v k)"
proof -
  have "Q (fst (exec (bus_read B a) (s, w)))" "Q (fst (exec (bus_write B a v) (s, w)))" if "Q s" for s w
    using read_frame [of a s w] write_frame [of a v s w] cyc [OF that] by auto
  then show "keeps (on_struct Q) (rdk B a k)" "keeps (on_struct Q) (wrk B a v k)"
    using acc unfolding rdk_def wrk_def keeps_def by (auto simp: case_prod_beta)
qed

lemma rdk_keeps [keeps_rules]:
  "keeps (on_struct (steady t p)) (rdk B a k)" "keeps (on_struct (decoded t p)) (rdk B a k)"
  "keeps (on_struct (charged t)) (rdk B a k)"
  by (rule bus_keeps; simp add: steady_def decoded_def charged_def flags_ok_def)+

lemma wrk_keeps [keeps_rules]:
  "keeps (on_struct (steady t p)) (wrk B a v k)" "keeps (on_struct (charged t)) (wrk B a v k)"
  by (rule bus_keeps; simp add: steady_def charged_def flags_ok_def)+

lemma helpers_keep [keeps_rules]:
  assumes "\<And>a k. keeps P (rdk B a k)"
  shows "keeps P (rdk16 B a k)" "keeps P (rd B a)" "keeps P (rdc B a)" "keeps P (rdc16 B a)"
    "keeps P (rdp B a)" "keeps P (rdp16w B a)" "keeps P (rdv16 B a)"
  unfolding rdk16_def rd_def rdc_def rdc16_def rdp_def rdp16w_def rdv16_def Let_def
  by (intro keeps_rules assms)+

lemma wr_keeps [keeps_rules]: "(\<And>k. keeps P (wrk B a v k)) \<Longrightarrow> keeps P (wr B a v)"
  by (simp add: wr_def)

lemma stack_steady [keeps_rules]:
  "keeps (on_struct (steady t p)) (push8 B v)" "keeps (on_struct (steady t p)) (pull8 B)"
  "keeps (on_struct (steady t p)) (push16 B z)" "keeps (on_struct (steady t p)) (pull16 B)"
  unfolding push16_def pull16_def push8_def pull8_def
  by (intro keeps_rules; simp add: steady_def flags_ok_def)+

lemma operand_steady [keeps_rules]:
  "keeps (on_struct (steady t p)) (getval B)" "keeps (on_struct (steady t p)) (putval B v)"
  unfolding getval_def putval_def by (intro keeps_rules; simp add: steady_def flags_ok_def)+

lemma op_steady [keeps_rules]:
  "keeps (on_struct (steady t p)) (op_and B)" "keeps (on_struct (steady t p)) (op_eor B)"
  "keeps (on_struct (steady t p)) (op_ora B)" "keeps (on_struct (steady t p)) (op_lda B)"
  "keeps (on_struct (steady t p)) (op_ldx B)" "keeps (on_struct (steady t p)) (op_ldy B)"
  "keeps (on_struct (steady t p)) (op_sta B)" "keeps (on_struct (steady t p)) (op_stx B)"
  "keeps (on_struct (steady t p)) (op_sty B)" "keeps (on_struct (steady t p)) (op_asl B)"
  "keeps (on_struct (steady t p)) (op_lsr B)" "keeps (on_struct (steady t p)) (op_rol B)"
  "keeps (on_struct (steady t p)) (op_ror B)" "keeps (on_struct (steady t p)) (op_inc B)"
  "keeps (on_struct (steady t p)) (op_dec B)" "keeps (on_struct (steady t p)) op_inx"
  "keeps (on_struct (steady t p)) op_iny" "keeps (on_struct (steady t p)) op_dex"
  "keeps (on_struct (steady t p)) op_dey" "keeps (on_struct (steady t p)) op_tax"
  "keeps (on_struct (steady t p)) op_tay" "keeps (on_struct (steady t p)) op_txa"
  "keeps (on_struct (steady t p)) op_tya" "keeps (on_struct (steady t p)) op_tsx"
  "keeps (on_struct (steady t p)) op_txs" "keeps (on_struct (steady t p)) op_clc"
  "keeps (on_struct (steady t p)) op_sec" "keeps (on_struct (steady t p)) op_cld"
  "keeps (on_struct (steady t p)) op_sed" "keeps (on_struct (steady t p)) op_cli"
  "keeps (on_struct (steady t p)) op_sei" "keeps (on_struct (steady t p)) op_clv"
  "keeps (on_struct (steady t p)) (op_cmp B)" "keeps (on_struct (steady t p)) (op_cpx B)"
  "keeps (on_struct (steady t p)) (op_cpy B)" "keeps (on_struct (steady t p)) (op_bit B)"
  "keeps (on_struct (steady t p)) (op_pha B)" "keeps (on_struct (steady t p)) (op_pla B)"
  "keeps (on_struct (steady t p)) (op_php B)" "keeps (on_struct (steady t p)) (op_plp B)"
  "keeps (on_struct (steady t p)) op_nop" "keeps (on_struct (steady t p)) (op_SAX B)"
  "keeps (on_struct (steady t p)) (op_LAS B)" "keeps (on_struct (steady t p)) (op_SBX B)"
  "keeps (on_struct (steady t p)) (op_SHA B)" "keeps (on_struct (steady t p)) (op_SHX B)"
  "keeps (on_struct (steady t p)) (op_SHY B)" "keeps (on_struct (steady t p)) (op_TAS B)"
  "keeps (on_struct (steady t p)) (op_ANE B)" "keeps (on_struct (steady t p)) (op_LXA B)"
  unfolding m6502_ops m6502_helpers Let_def
  by (intro keeps_rules; simp add: steady_def flags_ok_def m6502_setP_def)+

lemma op_compound_steady [keeps_rules]:
  "keeps (on_struct (steady t p)) (op_SLO B)" "keeps (on_struct (steady t p)) (op_RLA B)"
  "keeps (on_struct (steady t p)) (op_SRE B)" "keeps (on_struct (steady t p)) (op_LAX B)"
  "keeps (on_struct (steady t p)) (op_DCP B)" "keeps (on_struct (steady t p)) (op_ANC B)"
  "keeps (on_struct (steady t p)) (op_ALR B)" "keeps (on_struct (steady t p)) (op_ARR B)"
  unfolding op_SLO_def op_RLA_def op_SRE_def op_LAX_def op_DCP_def op_ANC_def op_ALR_def op_ARR_def
    m6502_helpers Let_def
  by (intro keeps_rules; simp add: steady_def flags_ok_def)+


lemma rdk_dispatched [keeps_rules]:
  "keeps (on_struct (dispatched t)) (rdk B a k)" "keeps (on_struct (dispatched t)) (wrk B a v k)"
  by (rule bus_keeps; simp add: dispatched_def flags_ok_def)+

lemma jump_dispatched [keeps_rules]:
  "keeps (on_struct (dispatched t)) op_jmp" "keeps (on_struct (dispatched t)) (op_jsr B)"
  "keeps (on_struct (dispatched t)) (op_rts B)" "keeps (on_struct (dispatched t)) (op_rti B)"
  "keeps (on_struct (dispatched t)) (op_brk B)" "keeps (on_struct (dispatched t)) op_JAM"
  unfolding m6502_ops push16_def pull16_def push8_def pull8_def
  by (intro keeps_rules; simp add: dispatched_def flags_ok_def m6502_setP_def)+

lemma branch_charged:
  "hoare (on_struct (dispatched t)) (branch b) (on_struct (charged t))"
  by (auto simp: hoare_def branch_def dispatched_def charged_def flags_ok_def)

lemma bxx_charged:
  "hoare (on_struct (dispatched t)) op_bpl (on_struct (charged t))"
  "hoare (on_struct (dispatched t)) op_bmi (on_struct (charged t))"
  "hoare (on_struct (dispatched t)) op_bvc (on_struct (charged t))"
  "hoare (on_struct (dispatched t)) op_bvs (on_struct (charged t))"
  "hoare (on_struct (dispatched t)) op_bcc (on_struct (charged t))"
  "hoare (on_struct (dispatched t)) op_bcs (on_struct (charged t))"
  "hoare (on_struct (dispatched t)) op_bne (on_struct (charged t))"
  "hoare (on_struct (dispatched t)) op_beq (on_struct (charged t))"
  unfolding m6502_ops by (intro hoare_reads_then branch_charged)+

lemma adder_decimal:
  "hoare (on_struct (steady t p)) (adc_with m :: ('w, unit) cpu) (on_struct (decimal t p))"
  "hoare (on_struct (steady t p)) (sbc_with cc m :: ('w, unit) cpu) (on_struct (decimal t p))"
proof -
  have "decimal t p (fst (exec (adc_with m) (s, w)))" "decimal t p (fst (exec (sbc_with cc m) (s, w)))"
    if "steady t p s" for s :: core and w :: 'w
    using that
    by (cases "f_d s = 0"; simp add: adc_with_def sbc_with_def m6502_helpers Let_def steady_def
          decimal_def flags_ok_def split del: if_split)+
  then show "hoare (on_struct (steady t p)) (adc_with m :: ('w, unit) cpu) (on_struct (decimal t p))"
    "hoare (on_struct (steady t p)) (sbc_with cc m :: ('w, unit) cpu) (on_struct (decimal t p))"
    by (auto simp: hoare_def)
qed

lemma op_adder:
  "hoare (on_struct (steady t p)) (op_adc B) (on_struct (decimal t p))"
  "hoare (on_struct (steady t p)) (op_sbc B) (on_struct (decimal t p))"
proof -
  have pop: "keeps (on_struct (steady t p)) (writes (\<lambda>s. s\<lparr>g_pop := 1\<rparr>))"
    by (intro keeps_rules) (simp add: steady_def flags_ok_def)
  show "hoare (on_struct (steady t p)) (op_adc B) (on_struct (decimal t p))"
    unfolding op_adc_def by (intro hoare_keeps_bind pop keeps_rules adder_decimal)
  show "hoare (on_struct (steady t p)) (op_sbc B) (on_struct (decimal t p))"
    unfolding op_sbc_def by (intro hoare_keeps_bind pop keeps_rules adder_decimal)
qed

lemma op_adder_steady [keeps_rules]:
  "keeps (on_struct (steady t p)) (op_RRA B)" "keeps (on_struct (steady t p)) (op_ISC B)"
proof -
  have undo: "hoare (on_struct (decimal t p))
      (do { writes (\<lambda>s. s\<lparr>g_pop := 0\<rparr>); d \<leftarrow> reads f_d; whenever (d \<noteq> 0) (writes (\<lambda>s. s\<lparr>g_ticks := g_ticks s - 1\<rparr>)) })
      (on_struct (steady t p))"
    by (auto simp: hoare_def decimal_def steady_def flags_ok_def)
  show "keeps (on_struct (steady t p)) (op_RRA B)" "keeps (on_struct (steady t p)) (op_ISC B)"
    unfolding op_RRA_def op_ISC_def keeps_iff_hoare
    by (rule hoare_keeps_bind, rule op_steady, rule hoare_bind, rule op_adder, rule undo)+
qed

text \<open>The addressing modes step over their operand bytes and charge nothing.\<close>

lemma postinc_decoded:
  "hoare (on_struct (decoded t p)) (pc_postinc :: ('w, u16) cpu) (on_struct (decoded t (p + 1)))"
  by (auto simp: hoare_def pc_postinc_def decoded_def flags_ok_def)

lemma fetch16_decoded:
  "hoare (on_struct (decoded t p)) (fetch16 B) (on_struct (decoded t (p + 2)))"
proof -
  have step: "hoare (on_struct (decoded t p)) (writes (\<lambda>s. s\<lparr>r_pc := r_pc s + 2\<rparr>)) (on_struct (decoded t (p + 2)))"
    by (auto simp: hoare_def decoded_def flags_ok_def)
  show ?thesis
    unfolding fetch16_def
    by (intro hoare_keeps_bind hoare_bind [OF step] keeps_rules)
       (auto simp: hoare_def intro: keeps_rules)
qed

lemma operand_then:
  "(\<And>x. keeps (on_struct (decoded t (p + 1))) (f x :: ('w, 'a) cpu)) \<Longrightarrow>
    hoare (on_struct (decoded t p)) (pc_postinc \<bind> f) (on_struct (decoded t (p + 1)))"
  "(\<And>x. keeps (on_struct (decoded t (p + 2))) (g x)) \<Longrightarrow>
    hoare (on_struct (decoded t p)) (fetch16 B \<bind> g) (on_struct (decoded t (p + 2)))"
  unfolding keeps_iff_hoare
  by (auto intro: hoare_bind [OF postinc_decoded] hoare_bind [OF fetch16_decoded])

lemma am_decoded:
  "hoare (on_struct (decoded t p)) (am_imp :: ('w, unit) cpu) (on_struct (decoded t p))"
  "hoare (on_struct (decoded t p)) (am_acc :: ('w, unit) cpu) (on_struct (decoded t p))"
  "hoare (on_struct (decoded t p)) (am_imm :: ('w, unit) cpu) (on_struct (decoded t (p + 1)))"
  "hoare (on_struct (decoded t p)) (am_zp B) (on_struct (decoded t (p + 1)))"
  "hoare (on_struct (decoded t p)) (am_zpx B) (on_struct (decoded t (p + 1)))"
  "hoare (on_struct (decoded t p)) (am_zpy B) (on_struct (decoded t (p + 1)))"
  "hoare (on_struct (decoded t p)) (am_abs B) (on_struct (decoded t (p + 2)))"
  "hoare (on_struct (decoded t p)) (am_rel B) (on_struct (decoded t (p + 1)))"
  "hoare (on_struct (decoded t p)) (am_absx B) (on_struct (decoded t (p + 2)))"
  "hoare (on_struct (decoded t p)) (am_absy B) (on_struct (decoded t (p + 2)))"
  "hoare (on_struct (decoded t p)) (am_ind B) (on_struct (decoded t (p + 2)))"
  "hoare (on_struct (decoded t p)) (am_indx B) (on_struct (decoded t (p + 1)))"
  "hoare (on_struct (decoded t p)) (am_indy B) (on_struct (decoded t (p + 1)))"
  unfolding m6502_ops m6502_helpers Let_def
  by (rule operand_then keeps_iff_hoare [THEN iffD1],
      (intro keeps_rules; simp add: decoded_def flags_ok_def))+

lemma am_table:
  "list_all (\<lambda>m. \<forall>t p. \<exists>k. hoare (on_struct (decoded t p)) m (on_struct (decoded t (p + k)))) (g_at B)"
proof -
  have zero: "\<exists>k. hoare (on_struct (decoded t p)) m (on_struct (decoded t (p + k)))"
    if "hoare (on_struct (decoded t p)) m (on_struct (decoded t p))" for m :: "('w, unit) cpu" and t p
    using that by (intro exI [of _ 0]) simp
  show ?thesis
    unfolding g_at_def list.pred_inject
    by (intro conjI allI list.pred_inject(1)) (rule zero, rule am_decoded | rule exI, rule am_decoded)+
qed

text \<open>Every routine of the dispatch table, from a decoded instruction.\<close>

lemma routine_charged:
  assumes "keeps (on_struct (steady t p)) m \<or> keeps (on_struct (dispatched t)) m
    \<or> hoare (on_struct (dispatched t)) m (on_struct (charged t))
    \<or> hoare (on_struct (steady t p)) m (on_struct (decimal t p))"
  shows "hoare (on_struct (decoded t p)) m (on_struct (charged t))"
  using assms unfolding hoare_def keeps_def
  by (auto simp: decoded_def steady_def dispatched_def charged_def decimal_def)

lemma op_table:
  "list_all (\<lambda>m. hoare (on_struct (decoded t p)) m (on_struct (charged t))) (g_ot B)"
proof -
  note ks = op_steady op_compound_steady op_adder_steady
  have "m \<in> set (g_ot B) \<Longrightarrow> keeps (on_struct (steady t p)) m \<or> keeps (on_struct (dispatched t)) m
    \<or> hoare (on_struct (dispatched t)) m (on_struct (charged t))
    \<or> hoare (on_struct (steady t p)) m (on_struct (decimal t p))" for m
    unfolding g_ot_def set_simps
    by (elim insertE emptyE; simp only: ks jump_dispatched bxx_charged op_adder simp_thms)
  then show ?thesis by (auto simp: list_all_iff intro!: routine_charged)
qed

section \<open>Whole instructions\<close>

lemma opcode_fetched:
  fixes s :: core and w :: 'w
  assumes "flags_ok s"
  defines op: "op \<equiv> result (fetch_opcode B) (s, w)"
  shows "decoded (ucast (g_tt ! unat op)) (r_pc s + 1) (fst (exec (fetch_opcode B) (s, w)))"
proof -
  define s1 where "s1 = s\<lparr>g_paddr := 0, g_pop := 0, g_acc := 0, g_imm := 0, r_pc := r_pc s + 1\<rparr>"
  have "decoded (g_ticks s1) (r_pc s + 1) s1"
    using assms(1) by (simp add: s1_def decoded_def flags_ok_def)
  moreover obtain x s2 w2 where r: "run_state (rdk B (r_pc s) M6502_ACC_OPCODE) (s1, w) = (x, (s2, w2))"
    by (metis prod.exhaust)
  ultimately have "decoded (g_ticks s1) (r_pc s + 1) s2"
    using rdk_keeps(2) [THEN keepsD, of "g_ticks s1" "r_pc s + 1" "(s1, w)" "r_pc s" M6502_ACC_OPCODE] by simp
  moreover have "run_state (fetch_opcode B) (s, w) =
      (x, (s2\<lparr>g_op := x, g_ticks := ucast (g_tt ! unat x)\<rparr>, w2))"
    using r by (simp add: fetch_opcode_def pc_postinc_def s1_def)
  ultimately show ?thesis
    unfolding op by (simp add: decoded_def flags_ok_def)
qed

text \<open>From the fetch to the routine: what is charged, and that the flags are still single bits.\<close>

lemma body_charged:
  fixes s :: core and w :: 'w
  assumes "flags_ok s"
  defines op: "op \<equiv> result (fetch_opcode B) (s, w)"
  defines t: "t \<equiv> exec (do { g_at B ! unat op; g_ot B ! unat op }) (exec (fetch_opcode B) (s, w))"
  shows "charged (ucast (g_tt ! unat op)) (fst t)"
proof -
  have lt: "unat op < 256" by (rule unat_u8_lt)
  let ?k = "ucast (g_tt ! unat op) :: u32"
  have d: "on_struct (decoded ?k (r_pc s + 1)) (exec (fetch_opcode B) (s, w))"
    using opcode_fetched [OF assms(1)] unfolding op by simp
  obtain k where "hoare (on_struct (decoded ?k (r_pc s + 1))) (g_at B ! unat op)
      (on_struct (decoded ?k (r_pc s + 1 + k)))"
    using am_table lt unfolding list_all_length table_length by blast
  moreover have "hoare (on_struct (decoded ?k (r_pc s + 1 + k))) (g_ot B ! unat op) (on_struct (charged ?k))"
    using op_table lt by (auto simp: list_all_length)
  ultimately have "hoare (on_struct (decoded ?k (r_pc s + 1)))
      (do { g_at B ! unat op; g_ot B ! unat op }) (on_struct (charged ?k))"
    by (rule hoare_bind)
  then show ?thesis using d unfolding t by (rule hoareD)
qed

lemma run_step:
  "run_state (m6502_step B) p = run_state finish_step
     (exec (do { g_at B ! unat (result (fetch_opcode B) p); g_ot B ! unat (result (fetch_opcode B) p) })
       (exec (fetch_opcode B) p))"
  by (simp add: m6502_step_def case_prod_beta)

lemma g_tt_small: "list_all (\<lambda>t. t \<le> 8) g_tt"
  by (simp add: g_tt_def)

lemma step_flags: "flags_ok s \<Longrightarrow> flags_ok (fst (exec (m6502_step B) (s, w)))"
proof -
  assume "flags_ok s"
  then have "on_struct flags_ok (exec (do { g_at B ! unat (result (fetch_opcode B) (s, w));
      g_ot B ! unat (result (fetch_opcode B) (s, w)) }) (exec (fetch_opcode B) (s, w)))"
    using body_charged [of s w] by (simp only: charged_def)
  moreover have "keeps (on_struct flags_ok) (finish_step :: ('w, int) cpu)"
    unfolding finish_step_def by (intro keeps_rules; simp add: flags_ok_def)
  ultimately show ?thesis unfolding run_step by (rule keepsD [rotated])
qed

lemma step_ticks:
  assumes "flags_ok s"
  shows "result (m6502_step B) (s, w) - int (unat (g_tt ! unat (result (fetch_opcode B) (s, w)))) \<in> {0, 1, 2}"
proof -
  define op where "op = result (fetch_opcode B) (s, w)"
  define k where "k = (ucast (g_tt ! unat op) :: u32)"
  have le: "unat (g_tt ! unat op) \<le> 8"
    using g_tt_small unat_u8_lt [of op] by (simp add: list_all_length word_le_nat_alt)
  have k: "unat k = unat (g_tt ! unat op)"
    using unat_u8_lt [of "g_tt ! unat op"] by (simp add: k_def unsigned_ucast_eq take_bit_eq_mod)
  have small: "sint (k + of_nat j) = int (unat (g_tt ! unat op)) + int j" if "j \<le> 2" for j
  proof -
    have u: "unat (k + of_nat j) = unat (g_tt ! unat op) + j"
      using that le by (simp add: unat_word_ariths k unat_of_nat)
    then have "unat (k + of_nat j) < 2 ^ 31" using that le by simp
    then show ?thesis using u by (simp only: sint_small_u32)
  qed
  obtain u v where uv: "exec (do { g_at B ! unat op; g_ot B ! unat op }) (exec (fetch_opcode B) (s, w)) = (u, v)"
    by fastforce
  have "charged k u"
    using body_charged [OF assms, of w, folded op_def] by (simp only: uv k_def fst_conv)
  moreover have "result (m6502_step B) (s, w) =
      sint (if g_pop u \<noteq> 0 \<and> g_paddr u \<noteq> 0 then g_ticks u + 1 else g_ticks u)"
    unfolding run_step op_def [symmetric] uv by (simp add: finish_step_def)
  ultimately show ?thesis
    unfolding op_def [symmetric] using small [of 0] small [of 1] small [of 2]
    by (auto simp: charged_def add.assoc)
qed

end

text \<open>The hardware entry points keep the flags and charge seven cycles.\<close>

context bus_frame
begin

lemma flags_steady: "keeps (on_struct flags_ok) (rdk B a k)" "keeps (on_struct flags_ok) (wrk B a v k)"
  by (rule bus_keeps; simp add: flags_ok_def)+

lemma api_flags:
  "keeps (on_struct flags_ok) (m6502_reset B)" "keeps (on_struct flags_ok) (m6502_nmi B)"
  "keeps (on_struct flags_ok) (m6502_irq B)"
  unfolding m6502_reset_def m6502_nmi_def m6502_irq_def interrupt_def push16_def push8_def
  by (intro keeps_rules flags_steady; simp add: flags_ok_def)+

end

end
