(* ===== verification/Memsys_Contract.thy ===== *)
theory Memsys_Contract
  imports Memsys_Spec M6502_Bus M6502_Frame
begin

text \<open>
  The contract between the memory system and the program it runs, as a locale.  \<open>S Vc Vd sp h w\<close> is to
  say that the world \<open>w\<close> shows the code memory \<open>Vc\<close> and the data memory \<open>Vd\<close>, that stores leave the code
  memory alone (\<open>sp\<close>), and that \<open>h\<close> is outside the memory system.  A reading of the machine that keeps
  the laws below makes the bus of the code a simulation of the bus of \<open>Memsys_Spec\<close>.
\<close>

lemma sim_silent:
  assumes "\<And>w v. R w v \<Longrightarrow> R (exec m w) v" "\<And>x. sim R (f x) n"
  shows "sim R (outside m \<bind> f) n"
  using assms by (simp add: sim_def)

lemma sim_outside:
  assumes "\<And>w v. R w v \<Longrightarrow> result m w = result n v \<and> R (exec m w) (exec n v)"
  shows "sim R (outside m) (outside n)"
  using assms by (simp add: sim_def)

lemma sim_then_ret: "sim R (m \<bind> f) (n \<bind> ret) \<Longrightarrow> sim R (m \<bind> f) n"
  by simp

lemma outside_bind: "outside (m \<bind> f) = outside m \<bind> (\<lambda>x. outside (f x))"
  by (rule State_Monad.state.expand) (simp add: fun_eq_iff case_prod_beta)

lemma outside_ret [simp]: "outside (ret x) = ret x"
  by (rule State_Monad.state.expand) (simp add: fun_eq_iff)

lemma triple_whenever: "(b \<Longrightarrow> triple P m (\<lambda>_. P)) \<Longrightarrow> triple P (whenever b m) (\<lambda>_. P)"
  by (simp add: whenever_def triple_ret)

text \<open>What a store of the processor does to the code memory.\<close>

definition stored :: "bool \<Rightarrow> (u16 \<Rightarrow> u8) \<Rightarrow> u16 \<Rightarrow> u8 \<Rightarrow> u16 \<Rightarrow> u8" where
  "stored split V a v = (if split then V else V(a := v))"

lemma routing_code_stores [simp]:
  "coherence (m\<lparr>code_stores := n\<rparr>) side a = coherence m side a"
  "ms_cache_for (m\<lparr>code_stores := n\<rparr>) side = ms_cache_for m side"
  by (simp_all add: coherence_def ms_cache_for_def)

lemma data_kinds: "k \<in> {acc_code M6502_ACC_DATA, acc_code M6502_ACC_STACK} \<Longrightarrow> side_of k = SIDE_DATA"
  by (auto simp: side_of_def)

section \<open>The contract\<close>

locale memory_contract =
  fixes S :: "(u16 \<Rightarrow> u8) \<Rightarrow> (u16 \<Rightarrow> u8) \<Rightarrow> bool \<Rightarrow> hmon \<times> terminal \<Rightarrow> world \<Rightarrow> bool"
  assumes outer: "S Vc Vd sp h (m, h') \<Longrightarrow> h' = h"
    and outer_change: "S Vc Vd sp h (m, h) \<Longrightarrow> S Vc Vd sp g (m, g)"
    and silent: "triple (S Vc Vd sp h) (count_access kind) (\<lambda>_. S Vc Vd sp h)"
      "triple (S Vc Vd sp h) (trace_line op kind a v ce) (\<lambda>_. S Vc Vd sp h)"
      "triple (S Vc Vd sp h) ms_clean (\<lambda>_. S Vc Vd sp h)"
      "triple (S Vc Vd sp h) (ms_flush code data) (\<lambda>_. S Vc Vd sp h)"
      "triple (S Vc Vd sp h) ms_reset_stats (\<lambda>_. S Vc Vd sp h)"
      "triple (S Vc Vd sp h) (writes (\<lambda>m. m\<lparr>n_uncached := n_uncached m + 1\<rparr>)) (\<lambda>_. S Vc Vd sp h)"
    and load: "\<not> io_page a \<Longrightarrow> triple (S Vc Vd sp h) (ms_load kind a)
      (\<lambda>r w. r = (if side_of kind = SIDE_CODE then Vc else Vd) a \<and> S Vc Vd sp h w)"
    and store: "\<not> io_page a \<Longrightarrow> side_of kind = SIDE_DATA \<Longrightarrow>
      triple (S Vc Vd sp h) (ms_store kind a v) (\<lambda>_. S (stored sp Vc a v) (Vd(a := v)) sp h)"
    and device_get: "io_page a \<Longrightarrow> triple (S Vc Vd sp h) (space_get side a)
      (\<lambda>r w. r = (if side = SIDE_CODE then Vc else Vd) a \<and> S Vc Vd sp h w)"
    and device_put: "io_page a \<Longrightarrow>
      triple (S Vc Vd sp h) (space_put SIDE_DATA a v) (\<lambda>_. S (stored sp Vc a v) (Vd(a := v)) sp h)"
begin

definition refines :: "world \<Rightarrow> iworld \<Rightarrow> bool" where
  "refines w i \<longleftrightarrow> S (i_code (fst i)) (i_data (fst i)) (i_split (fst i)) (snd i) w"

lemma refines_silent:
  "(\<And>Vc Vd sp h. triple (S Vc Vd sp h) m (\<lambda>_. S Vc Vd sp h)) \<Longrightarrow> refines w i \<Longrightarrow> refines (exec m w) i"
  unfolding refines_def triple_def by blast

lemma refines_io [sim_rules]: "sim refines (outside (outside p)) (outside (outside p))"
proof (rule sim_outside)
  fix w :: world and i :: iworld assume r: "refines w i"
  obtain m g where w: "w = (m, g)" by (cases w)
  have S: "S (i_code (fst i)) (i_data (fst i)) (i_split (fst i)) (snd i) (m, g)" using r by (simp add: refines_def w)
  note g = outer [OF S]
  show "result (outside p) w = result (outside p) i \<and> refines (exec (outside p) w) (exec (outside p) i)"
    using outer_change [OF S [unfolded g]] by (cases i) (simp add: w g refines_def)
qed

lemma silent_steps:
  "refines w i \<Longrightarrow> refines (exec (count_access kind) w) i"
  "refines w i \<Longrightarrow> refines (exec (trace_line op kind a v ce) w) i"
  "refines w i \<Longrightarrow> refines (exec ms_clean w) i"
  "refines w i \<Longrightarrow> refines (exec (ms_flush code data) w) i"
  "refines w i \<Longrightarrow> refines (exec ms_reset_stats w) i"
  "refines w i \<Longrightarrow> refines (exec (writes (\<lambda>m. m\<lparr>n_uncached := n_uncached m + 1\<rparr>)) w) i"
  by (erule refines_silent [rotated], rule silent)+

lemmas uncached_silent = silent_steps(6)

lemma load_sim:
  assumes "io_page a"
  shows "sim refines (outside (space_get side a)) (outside (reads (i_load side a)))"
  using tripleD [OF device_get [OF assms]]
  by (intro sim_outside) (auto simp: refines_def i_load_def)

lemma load_refines:
  assumes "\<not> io_page a"
  shows "sim refines (outside (ms_load kind a)) (outside (reads (i_load (side_of kind) a)))"
  using tripleD [OF load [OF assms]]
  by (intro sim_outside) (auto simp: refines_def i_load_def)

lemma refines_stored:
  "S (stored (i_split j) (i_code j) a v) ((i_data j)(a := v)) (i_split j) h w \<Longrightarrow> refines w (i_store a v j, h)"
  by (simp add: refines_def i_store_def stored_def)

lemma put_sim:
  assumes "io_page a"
  shows "sim refines (outside (space_put SIDE_DATA a v)) (outside (writes (i_store a v)))"
  using tripleD [OF device_put [OF assms]]
  by (intro sim_outside) (auto simp: refines_def i_store_def stored_def)

lemma store_refines:
  assumes "\<not> io_page a" and "side_of kind = SIDE_DATA"
  shows "sim refines (outside (ms_store kind a v)) (outside (writes (i_store a v)))"
  using tripleD [OF store [OF assms]]
  by (intro sim_outside) (auto simp: refines_def i_store_def stored_def)

lemma io_load_refines:
  assumes a: "io_page a"
  shows "sim refines (outside (ms_io_load kind a)) (outside (outside (h_io_read a)) \<bind> (\<lambda>r. case r of
    Some v \<Rightarrow> ret v | None \<Rightarrow> outside (reads (i_load (side_of kind) a))))"
  unfolding ms_io_load_def outside_bind
proof (rule sim_silent, erule uncached_silent, rule sim_bind [OF refines_io])
  fix r :: "u8 option"
  show "sim refines (do {
      v \<leftarrow> outside (case r of Some v \<Rightarrow> ret v | None \<Rightarrow> space_get (side_of kind) a);
      outside (trace_line ''read'' kind a v None);
      outside (ret v) }) (case r of Some v \<Rightarrow> ret v | None \<Rightarrow> outside (reads (i_load (side_of kind) a)))"
  proof (rule sim_then_ret, rule sim_bind)
    show "sim refines (outside (case r of Some v \<Rightarrow> ret v | None \<Rightarrow> space_get (side_of kind) a))
        (case r of Some v \<Rightarrow> ret v | None \<Rightarrow> outside (reads (i_load (side_of kind) a)))"
      using load_sim [OF a] by (cases r) (simp_all add: sim_ret)
    show "sim refines (do { outside (trace_line ''read'' kind a v None); outside (ret v) }) (ret v)" for v
      unfolding outside_ret by (rule sim_silent, erule silent_steps(2), rule sim_ret)
  qed
qed

lemma read_refines: "sim refines (ms_read a) (ideal_read a)"
  unfolding ms_read_def ideal_read_def
proof (rule sim_bind [OF sim_reads], rule sim_silent, erule silent_steps(1))
  fix kind :: u8
  show "sim refines (outside (if io_page a then ms_io_load kind a else ms_load kind a))
    (do { r \<leftarrow> (if io_page a then outside (outside (h_io_read a)) else ret None);
       case r of Some v \<Rightarrow> ret v | None \<Rightarrow> outside (reads (i_load (side_of kind) a)) })"
  proof (cases "io_page a")
    case True
    from io_load_refines [OF this] show ?thesis by (simp only: True if_True)
  next
    case False
    from load_refines [OF this] show ?thesis by (simp add: False)
  qed
qed

lemma io_store_refines:
  assumes a: "io_page a" and k: "side_of kind = SIDE_DATA"
  shows "sim refines (ms_io_store kind a v) (ideal_write a v)"
proof -
  note put = put_sim [OF a]
  have tail: "sim refines (outside (trace_line ''write'' kind a v None)) (ret ())"
    by (rule simI) (use silent_steps(2) in auto)
  have after: "sim refines (m \<bind> (\<lambda>_. outside (trace_line ''write'' kind a v None))) n" if "sim refines m n" for m n
    by (rule sim_then_ret, rule sim_bind [OF that]) (simp add: tail)
  show ?thesis
    unfolding ms_io_store_def k
  proof (rule sim_silent, erule uncached_silent)
    consider "a = 0xF001" | "a = 0xF0FC" | "a = 0xF0FD" | "a = 0xF0FE" | "a = 0xF0FF"
      | "a \<notin> {0xF001, 0xF0FC, 0xF0FD, 0xF0FE, 0xF0FF}" by blast
    then show "sim refines (do {
        handled \<leftarrow> h_io_write a v;
        whenever (\<not> handled) (outside (space_put SIDE_DATA a v));
        outside (trace_line ''write'' kind a v None) }) (ideal_write a v)"
    proof cases
      case 1
      show ?thesis unfolding 1 by (simp add: h_io_write_def ideal_write_def whenever_def) (rule after [OF refines_io, unfolded 1])
    next
      case 2
      show ?thesis unfolding 2 by (simp add: h_io_write_def ideal_write_def whenever_def)
        (rule sim_silent, erule silent_steps(3), rule tail [unfolded 2])
    next
      case 3
      show ?thesis unfolding 3 by (simp add: h_io_write_def ideal_write_def whenever_def)
        (rule sim_silent, erule silent_steps(4), rule tail [unfolded 3])
    next
      case 4
      show ?thesis unfolding 4 by (simp add: h_io_write_def ideal_write_def whenever_def)
        (rule sim_silent, erule silent_steps(5), rule after [OF sim_writes, unfolded 4])
    next
      case 5
      show ?thesis unfolding 5 by (simp add: h_io_write_def ideal_write_def whenever_def) (rule after [OF refines_io, unfolded 5])
    next
      case 6
      then show ?thesis by (simp add: h_io_write_def ideal_write_def whenever_def) (rule after [OF put])
    qed
  qed
qed

lemma write_refines:
  assumes r: "refines w i" and k: "access s \<in> {acc_code M6502_ACC_DATA, acc_code M6502_ACC_STACK}"
  shows "result (ms_write a v) (s, w) = result (ideal_write a v) (s, i) \<and>
    fst (exec (ms_write a v) (s, w)) = fst (exec (ideal_write a v) (s, i)) \<and>
    refines (snd (exec (ms_write a v) (s, w))) (snd (exec (ideal_write a v) (s, i)))"
proof -
  have "sim refines (do {
      outside (count_access (access s));
      if io_page a then ms_io_store (access s) a v else outside (ms_store (access s) a v) }) (ideal_write a v)"
  proof (rule sim_silent, erule silent_steps(1), cases "io_page a")
    case True
    then show "sim refines (if io_page a then ms_io_store (access s) a v else outside (ms_store (access s) a v)) (ideal_write a v)"
      using io_store_refines [OF True data_kinds [OF k]] by simp
  next
    case False
    then have "ideal_write a v = outside (writes (i_store a v))"
      by (auto simp: ideal_write_def io_page_def MS_IO_LO_def MS_IO_HI_def)
    then show "sim refines (if io_page a then ms_io_store (access s) a v else outside (ms_store (access s) a v)) (ideal_write a v)"
      using store_refines [OF False data_kinds [OF k]] False by simp
  qed
  from simD [OF this r, of s] show ?thesis by (simp add: ms_write_def)
qed

lemma bus_simulates: "bus_sim h6502_bus ideal_bus refines"
  by unfold_locales (simp_all add: h6502_bus_def ideal_bus_def read_refines write_refines)

end

end
