(* ===== verification/Cache_Geometry.thy ===== *)
theory Cache_Geometry
  imports Cache
begin

text \<open>
  Addresses and arrays of \<open>h6502/cache.c\<close>.  \<open>geometry_ok\<close> is what \<open>cache_config\<close> is there to establish;
  under it tag, index and offset are the quotients and remainders of the address, the decomposition
  is one-to-one, and every index into the line and data arrays is within its bounds.
\<close>

unbundle bit_operations_syntax

section \<open>Powers of two\<close>

lemma nat_pow2: "0 < n \<Longrightarrow> n AND (n - 1) = 0 \<Longrightarrow> \<exists>k. n = (2 :: nat) ^ k"
proof (induction n rule: less_induct)
  case (less n)
  show ?case
  proof (cases "even n")
    case True
    then obtain m where m: "n = 2 * m" by (elim evenE)
    with less.prems have "0 < m" by simp
    have "n - 1 = Suc (2 * (m - 1))" using m \<open>0 < m\<close> by simp
    then have "n AND (n - 1) = 2 * (m AND (m - 1))"
      unfolding m by (simp add: and_nat_rec [of "2 * m"])
    with less.prems have "m AND (m - 1) = 0" by simp
    then obtain k where "m = 2 ^ k" using less.IH [of m] m \<open>0 < m\<close> by auto
    then have "n = 2 ^ Suc k" by (simp add: m)
    then show ?thesis by blast
  next
    case False
    then obtain m where m: "n = Suc (2 * m)" by (auto elim: oddE)
    then have "n AND (n - 1) = 2 * m" by (simp add: and_nat_rec [of "Suc (2 * m)"])
    with less.prems m have "n = 2 ^ 0" by simp
    then show ?thesis by blast
  qed
qed

lemma is_pow2_unat: "is_pow2 v \<longleftrightarrow> (\<exists>k<32. unat v = 2 ^ k)"
proof
  assume v: "is_pow2 v"
  then have "0 < unat v" by (simp add: is_pow2_def unat_gt_0)
  moreover from this have "unat (v AND (v - 1)) = unat v AND (unat v - 1)"
    by (simp add: unsigned_and_eq unat_sub_if')
  ultimately obtain k where "unat v = 2 ^ k" using v nat_pow2 [of "unat v"] by (auto simp: is_pow2_def)
  moreover from this have "(2 :: nat) ^ k < 2 ^ 32" using unsigned_less [of v, where 'a = nat] by simp
  then have "k < 32" by (rule power_less_imp_less_exp [rotated]) simp
  ultimately show "\<exists>k<32. unat v = 2 ^ k" by blast
next
  assume "\<exists>k<32. unat v = 2 ^ k"
  then obtain k where k: "k < 32" "unat v = 2 ^ k" by blast
  have "v = of_nat (unat v)" by simp
  then have "v = 2 ^ k" by (simp add: k(2))
  moreover have "(2 ^ k :: u32) - 1 = mask k" by (simp add: mask_eq_exp_minus_1)
  moreover have "(2 ^ k :: u32) AND mask k = 0" by (rule bit_word_eqI) (auto simp: bit_simps)
  moreover have "v \<noteq> 0" using k by auto
  ultimately show "is_pow2 v" by (simp add: is_pow2_def)
qed

lemma log2u_loop: "unat v = 2 ^ k \<Longrightarrow> log2u_loop v n = n + of_nat k"
proof (induction k arbitrary: v n)
  case 0
  then have "v = 1" by (simp add: word_unat_eq_iff)
  then show ?case by (simp add: log2u_loop.simps)
next
  case (Suc k)
  moreover have "1 < (2 :: nat) * 2 ^ k" by (rule order_less_le_trans [of _ 2]) simp_all
  ultimately have "1 < v" by (simp add: word_less_nat_alt)
  moreover have "unat (drop_bit 1 v) = 2 ^ k" using Suc.prems unat_drop_bit [of 1 v] by simp
  ultimately show ?case using Suc.IH [of "drop_bit 1 v" "n + 1"] by (subst log2u_loop.simps) simp
qed

lemma log2u: "unat v = 2 ^ k \<Longrightarrow> log2u v = of_nat k"
  by (simp add: log2u_def log2u_loop)

lemma small_powers:
  "log2u 16 = 4" "log2u 8 = 3" "log2u 4 = 2" "log2u 2 = 1" "log2u 1 = 0"
  "is_pow2 16" "is_pow2 8" "is_pow2 4" "is_pow2 2" "is_pow2 1"
  by (simp_all add: log2u_def log2u_loop.simps is_pow2_def)

section \<open>Well-formed geometry\<close>

definition geometry_ok :: "'b cache \<Rightarrow> bool" where
  "geometry_ok c \<longleftrightarrow>
     unat (c_line_bytes c) = 2 ^ unat (c_off_bits c) \<and> unat (c_sets c) = 2 ^ unat (c_idx_bits c) \<and>
     unat (c_off_bits c) \<le> 8 \<and> unat (c_off_bits c) + unat (c_idx_bits c) \<le> 16 \<and>
     0 < unat (c_ways c) \<and> unat (c_sets c) * unat (c_ways c) \<le> 4096 \<and>
     unat (c_capacity c) = unat (c_line_bytes c) * unat (c_ways c) * unat (c_sets c)"

lemma geometry_bounds:
  assumes "geometry_ok c"
  shows "0 < unat (c_line_bytes c)" "unat (c_line_bytes c) \<le> 256" "0 < unat (c_sets c)" "0 < unat (c_ways c)"
    "unat (c_line_bytes c) * unat (c_sets c) \<le> 65536" "unat (c_sets c) \<le> 65536" "unat (c_ways c) \<le> 4096"
    "unat (c_sets c) * unat (c_ways c) \<le> 4096"
proof -
  note g = assms [unfolded geometry_ok_def]
  have "(2 :: nat) ^ unat (c_off_bits c) \<le> 2 ^ 8" using g by (intro power_increasing) auto
  then show "unat (c_line_bytes c) \<le> 256" using g by simp
  have "(2 :: nat) ^ (unat (c_off_bits c) + unat (c_idx_bits c)) \<le> 2 ^ 16" using g by (intro power_increasing) auto
  then show "unat (c_line_bytes c) * unat (c_sets c) \<le> 65536" using g by (simp add: power_add)
  have "(2 :: nat) ^ unat (c_idx_bits c) \<le> 2 ^ 16" using g by (intro power_increasing) auto
  then show "unat (c_sets c) \<le> 65536" using g by simp
  show pos: "0 < unat (c_line_bytes c)" "0 < unat (c_sets c)" "0 < unat (c_ways c)"
    "unat (c_sets c) * unat (c_ways c) \<le> 4096"
    using g by (simp, simp, blast, blast)
  have "1 * unat (c_ways c) \<le> unat (c_sets c) * unat (c_ways c)"
    using pos(2) by (intro mult_le_mono1) (simp only: Suc_le_eq One_nat_def)
  then show "unat (c_ways c) \<le> 4096" using pos(4) by linarith
qed

lemma pow2_minus_1: "unat (x :: u32) = 2 ^ n \<Longrightarrow> n < 32 \<Longrightarrow> x - 1 = mask n"
proof -
  assume x: "unat x = 2 ^ n" and "n < 32"
  have "x = of_nat (unat x)" by simp
  then have "x = 2 ^ n" by (simp add: x)
  then show ?thesis by (simp add: mask_eq_exp_minus_1)
qed

lemma unat_take_bit: "unat (take_bit n (x :: 'a::len word)) = unat x mod 2 ^ n"
proof -
  have "unat (take_bit n x) = take_bit n (unat x)" by (simp add: unsigned_take_bit_eq)
  then show ?thesis by (simp add: take_bit_eq_mod)
qed

lemma unat_addr_off: "geometry_ok c \<Longrightarrow> unat (addr_off c a) = unat a mod unat (c_line_bytes c)"
proof -
  assume "geometry_ok c"
  then have "c_line_bytes c - 1 = mask (unat (c_off_bits c))" "unat (c_line_bytes c) = 2 ^ unat (c_off_bits c)"
    by (auto simp: geometry_ok_def intro!: pow2_minus_1)
  then show ?thesis
    unfolding addr_off_def by (simp only: take_bit_eq_mask [symmetric] unat_take_bit unat_ucast_u16_u32)
qed

lemma unat_addr_set: "geometry_ok c \<Longrightarrow>
  unat (addr_set c a) = unat a div unat (c_line_bytes c) mod unat (c_sets c)"
proof -
  assume "geometry_ok c"
  then have "c_sets c - 1 = mask (unat (c_idx_bits c))" "unat (c_line_bytes c) = 2 ^ unat (c_off_bits c)"
    "unat (c_sets c) = 2 ^ unat (c_idx_bits c)"
    by (auto simp: geometry_ok_def intro!: pow2_minus_1)
  then show ?thesis
    unfolding addr_set_def
    by (simp only: take_bit_eq_mask [symmetric] unat_take_bit unat_drop_bit unat_ucast_u16_u32)
qed

lemma unat_addr_tag: "geometry_ok c \<Longrightarrow>
  unat (addr_tag c a) = unat a div unat (c_line_bytes c) div unat (c_sets c)"
proof -
  assume g: "geometry_ok c"
  then have s: "unat (c_off_bits c + c_idx_bits c) = unat (c_off_bits c) + unat (c_idx_bits c)"
    by (simp add: geometry_ok_def unat_word_ariths)
  have "unat a div unat (c_line_bytes c) div unat (c_sets c) < 65536"
    using unat_u16_lt [of a] by (meson div_le_dividend order_le_less_trans)
  then show ?thesis
    using g unfolding addr_tag_def s
    by (simp only: unat_ucast_u32_u16 unat_drop_bit unat_ucast_u16_u32 geometry_ok_def)
      (simp add: power_add div_mult2_eq)
qed

lemma unat_addr_base: "geometry_ok c \<Longrightarrow>
  unat (addr_base c a) = unat a div unat (c_line_bytes c) * unat (c_line_bytes c)"
proof -
  assume g: "geometry_ok c"
  define n where "n = unat (c_off_bits c)"
  have n: "n \<le> 8" "unat (c_line_bytes c) = 2 ^ n" using g by (auto simp: geometry_ok_def n_def)
  have "c_line_bytes c - 1 = mask n" using n by (intro pow2_minus_1) auto
  then have "(ucast (c_line_bytes c - 1) :: u16) = mask n"
    using n(1) by simp (auto intro!: bit_word_eqI simp: bit_simps)
  then have "addr_base c a = push_bit n (drop_bit n a)"
    unfolding addr_base_def by (auto intro!: bit_word_eqI simp: bit_simps)
  moreover have "unat (push_bit n (drop_bit n a)) = unat a div 2 ^ n * 2 ^ n"
  proof -
    have "unat a div 2 ^ n * 2 ^ n < 65536"
      using unat_u16_lt [of a] by (meson div_times_less_eq_dividend order_le_less_trans)
    then show ?thesis
      using unat_drop_bit [of n a]
      by (simp only: unsigned_push_bit_eq) (simp add: take_bit_eq_mod push_bit_eq_mult)
  qed
  ultimately show ?thesis by (simp add: n)
qed

lemma addr_bounds:
  assumes "geometry_ok c"
  shows "addr_set c a < c_sets c" "addr_off c a < c_line_bytes c"
  using geometry_bounds [OF assms] by (simp_all add: word_less_nat_alt unat_addr_set unat_addr_off assms)

lemma addr_eqI:
  assumes g: "geometry_ok c" and "addr_tag c a = addr_tag c b" "addr_set c a = addr_set c b" "addr_off c a = addr_off c b"
  shows "a = b"
proof -
  have split: "n = (n div l div s * s + n div l mod s) * l + n mod l" for n l s :: nat
    by (simp only: div_mult_mod_eq)
  have "unat x = (unat (addr_tag c x) * unat (c_sets c) + unat (addr_set c x)) * unat (c_line_bytes c) + unat (addr_off c x)" for x
    unfolding unat_addr_set [OF g] unat_addr_off [OF g] unat_addr_tag [OF g] by (rule split)
  from this [of a] this [of b] have "unat a = unat b" by (simp only: assms(2-4))
  then show ?thesis by (rule word_unat_eq_iff [THEN iffD2])
qed

text \<open>A line covers the addresses \<open>base + i\<close>: they share tag and index and have offset \<open>i\<close>.\<close>

lemma unat_base_plus:
  assumes g: "geometry_ok c" and i: "i < c_line_bytes c"
  shows "unat (addr_base c a + ucast i) = unat a div unat (c_line_bytes c) * unat (c_line_bytes c) + unat i"
proof -
  let ?l = "unat (c_line_bytes c)"
  have il: "unat i < ?l" using i by (simp add: word_less_nat_alt)
  have l: "0 < ?l" "?l \<le> 256" using geometry_bounds [OF g] by simp_all
  have e: "?l = 2 ^ unat (c_off_bits c)" "unat (c_off_bits c) \<le> 16" using g by (simp_all add: geometry_ok_def)
  have "?l dvd 2 ^ 16" unfolding e(1) using e(2) by (rule le_imp_power_dvd)
  then obtain k where "2 ^ 16 = ?l * k" by (rule dvdE)
  then have k: "65536 = ?l * k" by simp
  have "unat a div ?l < k"
    using unat_u16_lt [of a] l(1) by (simp add: less_mult_imp_div_less k mult.commute)
  then have "(unat a div ?l + 1) * ?l \<le> k * ?l" by (intro mult_le_mono1) simp
  then have "unat a div ?l * ?l + unat i < 65536" using il k by (simp add: mult.commute)
  moreover have "unat (ucast i :: u16) = unat i" using il l by simp
  ultimately show ?thesis by (simp add: unat_word_ariths unat_addr_base [OF g])
qed

lemma base_plus:
  assumes g: "geometry_ok c" and i: "i < c_line_bytes c"
  shows "addr_tag c (addr_base c a + ucast i) = addr_tag c a" "addr_set c (addr_base c a + ucast i) = addr_set c a"
    "addr_off c (addr_base c a + ucast i) = i"
proof -
  let ?l = "unat (c_line_bytes c)"
  have il: "unat i < ?l" using i by (simp add: word_less_nat_alt)
  have d: "(unat a div ?l * ?l + unat i) div ?l = unat a div ?l" "(unat a div ?l * ?l + unat i) mod ?l = unat i"
    using il by simp_all
  show "addr_tag c (addr_base c a + ucast i) = addr_tag c a" "addr_set c (addr_base c a + ucast i) = addr_set c a"
    "addr_off c (addr_base c a + ucast i) = i"
    unfolding word_unat_eq_iff unat_addr_tag [OF g] unat_addr_set [OF g] unat_addr_off [OF g]
      unat_base_plus [OF g i] d by (rule refl)+
qed

lemma base_off:
  assumes g: "geometry_ok c"
  shows "addr_base c a + ucast (addr_off c a) = a"
  by (rule addr_eqI [OF g]) (rule base_plus [OF g addr_bounds(2) [OF g]])+

lemma base_decode:
  assumes "geometry_ok c"
  shows "cache_decode c (addr_base c a) = (addr_tag c a, addr_set c a, 0)"
proof -
  have "0 < c_line_bytes c" using geometry_bounds(1) [OF assms] by (simp add: word_less_nat_alt)
  from base_plus [OF assms this, of a] show ?thesis by (simp add: cache_decode_def)
qed

lemma decode_eqI:
  assumes g: "geometry_ok c" and b: "cache_decode c b = (addr_tag c a, addr_set c a, 0)"
  shows "b = addr_base c a"
proof (rule addr_eqI [OF g])
  show "addr_tag c b = addr_tag c (addr_base c a)" "addr_set c b = addr_set c (addr_base c a)"
    "addr_off c b = addr_off c (addr_base c a)"
    using b base_decode [OF g, of a] unfolding cache_decode_def by (simp_all only: prod.inject)
qed

lemma base_eq_iff:
  assumes g: "geometry_ok c"
  shows "addr_base c a = addr_base c b \<longleftrightarrow> addr_tag c a = addr_tag c b \<and> addr_set c a = addr_set c b"
proof
  assume "addr_base c a = addr_base c b"
  then show "addr_tag c a = addr_tag c b \<and> addr_set c a = addr_set c b"
    using base_decode [OF g, of a] base_decode [OF g, of b] by (simp only: prod.inject)
next
  assume "addr_tag c a = addr_tag c b \<and> addr_set c a = addr_set c b"
  then have "cache_decode c (addr_base c a) = (addr_tag c b, addr_set c b, 0)"
    using base_decode [OF g, of a] by (simp only:)
  then show "addr_base c a = addr_base c b" by (rule decode_eqI [OF g])
qed

section \<open>Indices\<close>

lemma set_upto_u32: "set (upto_u32 n) = {i. i < n}"
proof -
  have "i \<in> of_nat ` {0..<unat n}" if "i < n" for i
    using that by (intro image_eqI [of _ _ "unat i"]) (simp_all add: word_less_nat_alt)
  moreover have "(of_nat k :: u32) < n" if "k < unat n" for k
    using that unsigned_less [of n, where 'a = nat] by (simp add: word_less_nat_alt unat_of_nat)
  ultimately show ?thesis by (auto simp: upto_u32_def)
qed

lemma distinct_upto_u32: "distinct (upto_u32 n)"
proof -
  have "inj_on (of_nat :: nat \<Rightarrow> u32) {0..<unat n}"
    using unsigned_less [of n, where 'a = nat] by (intro inj_onI) (auto dest!: arg_cong [where f = unat] simp: unat_of_nat)
  then show ?thesis by (simp add: upto_u32_def distinct_map)
qed

lemma line_index:
  assumes g: "geometry_ok c" and s: "s < c_sets c" and w: "w < c_ways c"
  shows "line_index c s w = unat s * unat (c_ways c) + unat w"
    and "line_index c s w < unat (c_sets c) * unat (c_ways c)"
proof -
  have sw: "unat s < unat (c_sets c)" "unat w < unat (c_ways c)" using s w by (simp_all add: word_less_nat_alt)
  then have "(unat s + 1) * unat (c_ways c) \<le> unat (c_sets c) * unat (c_ways c)" by (intro mult_le_mono1) simp
  then have b: "unat s * unat (c_ways c) + unat w < unat (c_sets c) * unat (c_ways c)" using sw(2) by simp
  then have "unat s * unat (c_ways c) + unat w < 4096" using geometry_bounds(8) [OF g] by linarith
  then show "line_index c s w = unat s * unat (c_ways c) + unat w"
    by (simp add: line_index_def unat_word_ariths)
  with b show "line_index c s w < unat (c_sets c) * unat (c_ways c)" by simp
qed

lemma line_index_inj:
  assumes g: "geometry_ok c" and "s < c_sets c" "w < c_ways c" "s' < c_sets c" "w' < c_ways c"
    and eq: "line_index c s w = line_index c s' w'"
  shows "s = s' \<and> w = w'"
proof -
  let ?n = "unat (c_ways c)"
  have lt: "unat w < ?n" "unat w' < ?n" using assms by (simp_all add: word_less_nat_alt)
  have eq: "unat s * ?n + unat w = unat s' * ?n + unat w'" using assms by (simp add: line_index)
  have "unat s = (unat s * ?n + unat w) div ?n" "unat w = (unat s * ?n + unat w) mod ?n" using lt by simp_all
  moreover have "unat s' = (unat s' * ?n + unat w') div ?n" "unat w' = (unat s' * ?n + unat w') mod ?n" using lt by simp_all
  ultimately have "unat s = unat s'" "unat w = unat w'" using eq by simp_all
  then show ?thesis by (simp add: word_unat_eq_iff)
qed

lemma data_index_inj:
  assumes g: "geometry_ok c" and "s < c_sets c" "w < c_ways c" "s' < c_sets c" "w' < c_ways c"
    and i: "i < c_line_bytes c" "j < c_line_bytes c"
    and eq: "data_index c s w + unat i = data_index c s' w' + unat j"
  shows "s = s' \<and> w = w' \<and> i = j"
proof -
  let ?l = "unat (c_line_bytes c)"
  have lt: "unat i < ?l" "unat j < ?l" using i by (simp_all add: word_less_nat_alt)
  have div: "line_index c s w = (line_index c s w * ?l + unat i) div ?l" "unat i = (line_index c s w * ?l + unat i) mod ?l"
    "line_index c s' w' = (line_index c s' w' * ?l + unat j) div ?l" "unat j = (line_index c s' w' * ?l + unat j) mod ?l"
    using lt by simp_all
  then have "line_index c s w = line_index c s' w'" "unat i = unat j" using eq by (simp_all add: data_index_def)
  then show ?thesis using line_index_inj [OF assms(1-5)] by (simp add: word_unat_eq_iff)
qed

lemma data_index_bound:
  assumes g: "geometry_ok c" and "s < c_sets c" "w < c_ways c" and i: "i < c_line_bytes c"
  shows "data_index c s w + unat i < unat (c_capacity c)"
proof -
  let ?l = "unat (c_line_bytes c)"
  have "unat i < ?l" using i by (simp add: word_less_nat_alt)
  moreover have "(line_index c s w + 1) * ?l \<le> unat (c_sets c) * unat (c_ways c) * ?l"
    using line_index(2) [OF assms(1-3)] by (intro mult_le_mono1) simp
  moreover have "unat (c_capacity c) = unat (c_sets c) * unat (c_ways c) * ?l"
    using g by (simp add: geometry_ok_def mult.commute mult.left_commute)
  ultimately show ?thesis by (simp add: data_index_def)
qed

section \<open>The victim\<close>

lemma oldest_in: "oldest c s bs best ws \<in> insert best (set ws)"
  by (induction ws arbitrary: bs best) auto

lemma victim_struct: "fst (exec (pick_victim rnd s) (c, b)) = c"
  by (simp add: pick_victim_def split: option.split)

lemma victim_bound:
  assumes "geometry_ok c"
  shows "result (pick_victim rnd s) (c, b) < c_ways c"
proof -
  have pos: "0 < unat (c_ways c)" using geometry_bounds(4) [OF assms] .
  have f: "w < c_ways c" if "List.find P (upto_u32 (c_ways c)) = Some w" for P w
    using that by (auto simp: find_Some_iff dest!: nth_mem [of _ "upto_u32 (c_ways c)"] simp: set_upto_u32)
  have r: "(of_nat (n mod unat (c_ways c)) :: u32) < c_ways c" for n
  proof -
    have "n mod unat (c_ways c) < unat (c_ways c)" using pos by simp
    then show ?thesis using unsigned_less [of "c_ways c", where 'a = nat] by (simp add: word_less_nat_alt unat_of_nat)
  qed
  have o: "oldest c s bs 0 (upto_u32 (c_ways c)) < c_ways c" for bs
    using oldest_in [of c s bs 0 "upto_u32 (c_ways c)"] pos by (auto simp: set_upto_u32 word_less_nat_alt)
  show ?thesis using f r o by (simp add: pick_victim_def split: option.split)
qed

end
