(* ===== verification/Cache_Abs.thy ===== *)
theory Cache_Abs
  imports Cache_Geometry
begin

text \<open>
  The specification the cache is refined to.  A cache is, abstractly, a map from (set, way) to the
  content of a resident line (\<open>slots_of\<close>); together with memory it presents one byte per address,
  \<open>view\<close>: the resident byte where the address hits, the memory byte elsewhere.  \<open>shape_ok\<close> says that
  lines sit in their sets, once each; \<open>coherent\<close> says that lines that are not dirty agree with memory.

  The lemmas \<open>clean_slot\<close>, \<open>drop_slot\<close>, \<open>fill_slot\<close>, \<open>store_slot\<close> and \<open>store_around\<close> are the steps a
  cache takes on this state: the first three change nothing the processor can see, the last two
  change it at the address stored to and nowhere else.
\<close>
unbundle bit_operations_syntax

section \<open>The abstract cache\<close>

record content =
  t_tag :: u16
  t_dirty :: bool
  t_base :: u16
  t_data :: "u32 \<Rightarrow> u8"

type_synonym slots = "u32 \<times> u32 \<Rightarrow> content option"

definition slots_of :: "'b cache \<Rightarrow> slots" where
  "slots_of c = (\<lambda>(s, w).
     if s < c_sets c \<and> w < c_ways c \<and> l_valid (line_at c s w)
     then Some \<lparr>t_tag = l_tag (line_at c s w), t_dirty = l_dirty (line_at c s w), t_base = l_base (line_at c s w),
       t_data = (\<lambda>i. if i < c_line_bytes c then data_at c s w i else 0)\<rparr>
     else None)"

text \<open>What accesses never change: geometry, policies, callbacks.\<close>

definition frame :: "'b cache \<Rightarrow> 'b cache" where
  "frame c = c\<lparr>c_line := (\<lambda>_. zero_line), c_store := (\<lambda>_. 0), c_clock := 0, c_reads := 0, c_writes := 0,
     c_read_hit := 0, c_read_miss := 0, c_write_hit := 0, c_write_miss := 0, c_evictions := 0,
     c_writebacks := 0, c_invalidations := 0, c_stall_cycles := 0, c_bytes_in := 0, c_bytes_out := 0\<rparr>"

lemma frame_simps [simp]:
  "c_line_bytes (frame c) = c_line_bytes c" "c_ways (frame c) = c_ways c" "c_sets (frame c) = c_sets c"
  "c_repl (frame c) = c_repl c" "c_wpol (frame c) = c_wpol c" "c_write_alloc (frame c) = c_write_alloc c"
  "c_bs_read (frame c) = c_bs_read c" "c_bs_write (frame c) = c_bs_write c"
  "c_miss_penalty (frame c) = c_miss_penalty c"
  "addr_off (frame c) a = addr_off c a" "addr_set (frame c) a = addr_set c a" "addr_tag (frame c) a = addr_tag c a"
  "addr_base (frame c) a = addr_base c a" "cache_decode (frame c) a = cache_decode c a"
  "geometry_ok (frame c) = geometry_ok c"
  by (simp_all add: frame_def addr_off_def addr_set_def addr_tag_def addr_base_def cache_decode_def geometry_ok_def)

text \<open>The fields an access may change without changing the abstract cache.\<close>

lemma stat_frame [simp]:
  "frame (c\<lparr>c_clock := t\<rparr>) = frame c" "frame (c\<lparr>c_reads := n\<rparr>) = frame c" "frame (c\<lparr>c_writes := n\<rparr>) = frame c"
  "frame (c\<lparr>c_read_hit := n\<rparr>) = frame c" "frame (c\<lparr>c_read_miss := n\<rparr>) = frame c"
  "frame (c\<lparr>c_write_hit := n\<rparr>) = frame c" "frame (c\<lparr>c_write_miss := n\<rparr>) = frame c"
  "frame (c\<lparr>c_evictions := n\<rparr>) = frame c" "frame (c\<lparr>c_writebacks := n\<rparr>) = frame c"
  "frame (c\<lparr>c_invalidations := n\<rparr>) = frame c" "frame (c\<lparr>c_stall_cycles := n\<rparr>) = frame c"
  "frame (c\<lparr>c_bytes_in := n\<rparr>) = frame c" "frame (c\<lparr>c_bytes_out := n\<rparr>) = frame c"
  by (simp_all add: frame_def)

lemma stat_slots [simp]:
  "slots_of (c\<lparr>c_clock := t\<rparr>) = slots_of c" "slots_of (c\<lparr>c_reads := n\<rparr>) = slots_of c" "slots_of (c\<lparr>c_writes := n\<rparr>) = slots_of c"
  "slots_of (c\<lparr>c_read_hit := n\<rparr>) = slots_of c" "slots_of (c\<lparr>c_read_miss := n\<rparr>) = slots_of c"
  "slots_of (c\<lparr>c_write_hit := n\<rparr>) = slots_of c" "slots_of (c\<lparr>c_write_miss := n\<rparr>) = slots_of c"
  "slots_of (c\<lparr>c_evictions := n\<rparr>) = slots_of c" "slots_of (c\<lparr>c_writebacks := n\<rparr>) = slots_of c"
  "slots_of (c\<lparr>c_invalidations := n\<rparr>) = slots_of c" "slots_of (c\<lparr>c_stall_cycles := n\<rparr>) = slots_of c"
  "slots_of (c\<lparr>c_bytes_in := n\<rparr>) = slots_of c" "slots_of (c\<lparr>c_bytes_out := n\<rparr>) = slots_of c"
  by (simp_all add: slots_of_def line_at_def line_index_def data_at_def data_index_def cong: if_cong)

lemma frame_set [simp]: "frame (set_line s w f c) = frame c" "frame (set_data s w i v c) = frame c"
  by (simp_all add: frame_def set_line_def set_data_def)

lemma line_at_set_line:
  assumes "geometry_ok c" "s < c_sets c" "w < c_ways c" "s' < c_sets c" "w' < c_ways c"
  shows "line_at (set_line s w f c) s' w' = (if s' = s \<and> w' = w then f (line_at c s w) else line_at c s' w')"
  using line_index_inj [OF assms]
  by (auto simp: line_at_def set_line_def line_index_def)

lemma slots_set_line:
  assumes "geometry_ok c" "s < c_sets c" "w < c_ways c"
  shows "slots_of (set_line s w f c) = (slots_of c)((s, w) :=
    (let l = f (line_at c s w) in if l_valid l
     then Some \<lparr>t_tag = l_tag l, t_dirty = l_dirty l, t_base = l_base l,
       t_data = (\<lambda>i. if i < c_line_bytes c then data_at c s w i else 0)\<rparr> else None))"
proof -
  have "data_at (set_line s w f c) = data_at c"
    by (simp add: fun_eq_iff data_at_def data_index_def line_index_def set_line_def)
  moreover have "c_sets (set_line s w f c) = c_sets c" "c_ways (set_line s w f c) = c_ways c"
    "c_line_bytes (set_line s w f c) = c_line_bytes c" by (simp_all add: set_line_def)
  ultimately show ?thesis
    using assms by (auto simp: fun_eq_iff slots_of_def line_at_set_line Let_def)
qed

lemma data_at_set_data:
  assumes "geometry_ok c" "s < c_sets c" "w < c_ways c" "s' < c_sets c" "w' < c_ways c"
    "i < c_line_bytes c" "j < c_line_bytes c"
  shows "data_at (set_data s w i v c) s' w' j = (if s' = s \<and> w' = w \<and> j = i then v else data_at c s' w' j)"
  using data_index_inj [OF assms]
  by (auto simp: data_at_def set_data_def data_index_def line_index_def)

lemma slots_set_data:
  assumes "geometry_ok c" "s < c_sets c" "w < c_ways c" "i < c_line_bytes c"
  shows "slots_of (set_data s w i v c) =
    (slots_of c)((s, w) := map_option (\<lambda>t. t\<lparr>t_data := (t_data t)(i := v)\<rparr>) (slots_of c (s, w)))"
proof -
  have "line_at (set_data s w i v c) = line_at c"
    by (simp add: fun_eq_iff line_at_def line_index_def set_data_def)
  moreover have "c_sets (set_data s w i v c) = c_sets c" "c_ways (set_data s w i v c) = c_ways c"
    "c_line_bytes (set_data s w i v c) = c_line_bytes c" by (simp_all add: set_data_def)
  ultimately show ?thesis
    using assms by (auto simp: fun_eq_iff slots_of_def data_at_set_data)
qed

section \<open>Residency and the contents the processor sees\<close>

definition hit :: "'b cache \<Rightarrow> slots \<Rightarrow> u16 \<Rightarrow> u32 \<Rightarrow> content \<Rightarrow> bool" where
  "hit k A a w t \<longleftrightarrow> A (addr_set k a, w) = Some t \<and> t_tag t = addr_tag k a"

definition lookup :: "'b cache \<Rightarrow> slots \<Rightarrow> u16 \<Rightarrow> u32 option" where
  "lookup k A a = List.find
     (\<lambda>w. case A (addr_set k a, w) of Some t \<Rightarrow> t_tag t = addr_tag k a | None \<Rightarrow> False) (upto_u32 (c_ways k))"

definition view :: "'b cache \<Rightarrow> slots \<Rightarrow> (u16 \<Rightarrow> u8) \<Rightarrow> u16 \<Rightarrow> u8" where
  "view k A L a = (case lookup k A a of
     Some w \<Rightarrow> (case A (addr_set k a, w) of Some t \<Rightarrow> t_data t (addr_off k a) | None \<Rightarrow> L a)
   | None \<Rightarrow> L a)"

text \<open>Every resident line sits in the set of its base address, and no set holds a tag twice.\<close>

definition shape_ok :: "'b cache \<Rightarrow> slots \<Rightarrow> bool" where
  "shape_ok k A \<longleftrightarrow>
     (\<forall>s w t. A (s, w) = Some t \<longrightarrow>
        s < c_sets k \<and> w < c_ways k \<and> cache_decode k (t_base t) = (t_tag t, s, 0)) \<and>
     (\<forall>s w w' t t'. A (s, w) = Some t \<and> A (s, w') = Some t' \<and> t_tag t = t_tag t' \<longrightarrow> w = w')"

text \<open>A line that is not dirty holds what memory holds.\<close>

definition coherent :: "'b cache \<Rightarrow> slots \<Rightarrow> (u16 \<Rightarrow> u8) \<Rightarrow> bool" where
  "coherent k A L \<longleftrightarrow> (\<forall>s w t i. A (s, w) = Some t \<and> \<not> t_dirty t \<and> i < c_line_bytes k \<longrightarrow>
     t_data t i = L (t_base t + ucast i))"

lemma shape_okD:
  assumes "shape_ok k A" "A (s, w) = Some t"
  shows "s < c_sets k" "w < c_ways k" "addr_tag k (t_base t) = t_tag t" "addr_set k (t_base t) = s"
    "addr_off k (t_base t) = 0"
  using assms unfolding shape_ok_def cache_decode_def by (simp_all only: prod.inject)

lemma shape_ok_unique:
  "shape_ok k A \<Longrightarrow> A (s, w) = Some t \<Longrightarrow> A (s, w') = Some t' \<Longrightarrow> t_tag t = t_tag t' \<Longrightarrow> w = w'"
  unfolding shape_ok_def by blast

lemma shape_ok_put:
  assumes sh: "shape_ok k A" and u: "s < c_sets k" "w < c_ways k" "cache_decode k (t_base u) = (t_tag u, s, 0)"
    and fresh: "\<And>w' t'. A (s, w') = Some t' \<Longrightarrow> w' \<noteq> w \<Longrightarrow> t_tag t' \<noteq> t_tag u"
  shows "shape_ok k (A((s, w) := Some u))"
  unfolding shape_ok_def
proof (intro conjI allI impI)
  fix s' w' t' assume "(A((s, w) := Some u)) (s', w') = Some t'"
  then show "s' < c_sets k" "w' < c_ways k" "cache_decode k (t_base t') = (t_tag t', s', 0)"
    using u sh unfolding shape_ok_def by (auto split: if_splits)
next
  fix s' w1 w2 t1 t2
  assume "(A((s, w) := Some u)) (s', w1) = Some t1 \<and> (A((s, w) := Some u)) (s', w2) = Some t2 \<and> t_tag t1 = t_tag t2"
  then show "w1 = w2"
    using fresh [of w1 t1] fresh [of w2 t2] shape_ok_unique [OF sh, of s' w1 t1 w2 t2]
    by (auto split: if_splits)
qed

lemma shape_ok_same:
  assumes sh: "shape_ok k A" and t: "A (s, w) = Some t" and u: "t_tag u = t_tag t" "t_base u = t_base t"
  shows "shape_ok k (A((s, w) := Some u))"
proof (rule shape_ok_put [OF sh])
  show "s < c_sets k" "w < c_ways k" "cache_decode k (t_base u) = (t_tag u, s, 0)"
    using sh t u unfolding shape_ok_def by auto
  show "t_tag t' \<noteq> t_tag u" if "A (s, w') = Some t'" "w' \<noteq> w" for w' t'
    using shape_ok_unique [OF sh t that(1)] that(2) u by auto
qed

lemma coherentD:
  "coherent k A L \<Longrightarrow> A (s, w) = Some t \<Longrightarrow> \<not> t_dirty t \<Longrightarrow> i < c_line_bytes k \<Longrightarrow>
    t_data t i = L (t_base t + ucast i)"
  unfolding coherent_def by blast

lemma lookup_Some:
  assumes "shape_ok k A"
  shows "lookup k A a = Some w \<longleftrightarrow> (\<exists>t. hit k A a w t)"
proof
  assume "lookup k A a = Some w"
  then show "\<exists>t. hit k A a w t"
    by (auto simp: lookup_def find_Some_iff hit_def split: option.splits)
next
  assume "\<exists>t. hit k A a w t"
  then obtain t where t: "hit k A a w t" ..
  then have "w \<in> set (upto_u32 (c_ways k))"
    using shape_okD(2) [OF assms] by (auto simp: hit_def set_upto_u32)
  with t have "lookup k A a \<noteq> None"
    unfolding lookup_def find_None_iff by (auto simp: hit_def split: option.splits)
  then obtain w' where w': "lookup k A a = Some w'" by auto
  then obtain t' where "hit k A a w' t'"
    by (auto simp: lookup_def find_Some_iff hit_def split: option.splits)
  with t have "w' = w" using shape_ok_unique [OF assms] by (auto simp: hit_def)
  with w' show "lookup k A a = Some w" by simp
qed

lemma lookup_None: "shape_ok k A \<Longrightarrow> lookup k A a = None \<longleftrightarrow> (\<forall>w t. \<not> hit k A a w t)"
  using lookup_Some [of k A a] by (metis not_None_eq)

lemma hit_unique: "shape_ok k A \<Longrightarrow> hit k A a w t \<Longrightarrow> hit k A a w' t' \<Longrightarrow> w = w' \<and> t = t'"
  unfolding hit_def using shape_ok_unique [of k A "addr_set k a" w t w' t'] by auto

lemma view_hit: "shape_ok k A \<Longrightarrow> hit k A a w t \<Longrightarrow> view k A L a = t_data t (addr_off k a)"
  using lookup_Some [of k A a w] by (auto simp: view_def hit_def)

lemma view_miss: "shape_ok k A \<Longrightarrow> (\<And>w t. \<not> hit k A a w t) \<Longrightarrow> view k A L a = L a"
  using lookup_None [of k A a] by (auto simp: view_def)

lemma view_eqI:
  assumes "shape_ok k A" and "\<And>x w t. hit k A x w t \<Longrightarrow> t_data t (addr_off k x) = V x"
    and "\<And>x. (\<And>w t. \<not> hit k A x w t) \<Longrightarrow> L x = V x"
  shows "view k A L = V"
proof
  fix x show "view k A L x = V x"
    using view_hit [OF assms(1)] view_miss [OF assms(1)] assms(2,3) by (cases "\<exists>w t. hit k A x w t") metis+
qed

lemma hit_base:
  assumes "geometry_ok k" "shape_ok k A" "hit k A a w t"
  shows "t_base t = addr_base k a"
  using assms shape_okD [OF assms(2)] by (intro decode_eqI) (auto simp: hit_def cache_decode_def)

lemma line_addr:
  assumes g: "geometry_ok k" and sh: "shape_ok k A" and t: "A (s, w) = Some t" and i: "i < c_line_bytes k"
  shows "addr_tag k (t_base t + ucast i) = t_tag t" "addr_set k (t_base t + ucast i) = s"
    "addr_off k (t_base t + ucast i) = i" "addr_base k (t_base t + ucast i) = t_base t"
    "hit k A (t_base t + ucast i) w t"
proof -
  have b: "addr_base k (t_base t) = t_base t"
    using shape_okD [OF sh t] by (intro decode_eqI [OF g, symmetric]) (simp add: cache_decode_def)
  show "addr_tag k (t_base t + ucast i) = t_tag t" "addr_set k (t_base t + ucast i) = s"
    "addr_off k (t_base t + ucast i) = i"
    using base_plus [OF g i, of "t_base t"] shape_okD [OF sh t] by (simp_all only: b)
  then show "addr_base k (t_base t + ucast i) = t_base t" "hit k A (t_base t + ucast i) w t"
    using shape_okD [OF sh t] base_eq_iff [OF g, of _ "t_base t"] t by (simp_all add: b hit_def)
qed

lemma hit_coherent:
  assumes "geometry_ok k" "shape_ok k A" "coherent k A L" "hit k A a w t" "\<not> t_dirty t"
  shows "t_data t (addr_off k a) = L a"
proof -
  have "t_data t (addr_off k a) = L (addr_base k a + ucast (addr_off k a))"
    using assms coherentD [OF assms(3)] addr_bounds(2) [OF assms(1)] hit_base [OF assms(1,2,4)]
    by (auto simp: hit_def)
  then show ?thesis by (simp add: base_off assms(1))
qed

text \<open>The line at \<open>(s, w)\<close> covers exactly the addresses with its base.\<close>

lemma hit_at:
  assumes "geometry_ok k" "shape_ok k A" "A (s, w) = Some t" "addr_set k a = s"
  shows "hit k A a w t \<longleftrightarrow> addr_base k a = t_base t"
  using assms hit_base [of k A a w t] shape_okD [OF assms(2,3)] base_decode [OF assms(1), of a]
  by (auto simp: hit_def cache_decode_def)

section \<open>What the operations do to the abstract cache\<close>

definition spill :: "'b cache \<Rightarrow> content \<Rightarrow> (u16 \<Rightarrow> u8) \<Rightarrow> u16 \<Rightarrow> u8" where
  "spill k t L = (\<lambda>a. if addr_base k a = t_base t then t_data t (addr_off k a) else L a)"

lemma clean_slot:
  assumes g: "geometry_ok k" and sh: "shape_ok k A" and co: "coherent k A L" and t: "A (s, w) = Some t"
  defines "A' \<equiv> A((s, w) := Some (t\<lparr>t_dirty := False\<rparr>))"
  shows "shape_ok k A' \<and> coherent k A' (spill k t L) \<and> view k A' (spill k t L) = view k A L"
proof (intro conjI)
  show sh': "shape_ok k A'"
    unfolding A'_def by (rule shape_ok_same [OF sh t]) simp_all
  have other: "s' = s \<and> w' = w" if "A (s', w') = Some t'" "addr_base k (t_base t' + ucast i) = t_base t" "i < c_line_bytes k"
    for s' w' t' i
  proof -
    have "t_base t' = t_base t" using that(2) line_addr(4) [OF g sh that(1,3)] by simp
    with shape_okD [OF sh that(1)] shape_okD [OF sh t] shape_ok_unique [OF sh that(1), of w t] t
    show ?thesis by auto
  qed
  show "coherent k A' (spill k t L)"
    unfolding coherent_def
  proof (intro allI impI, elim conjE)
    fix s' w' t' i assume a: "A' (s', w') = Some t'" "\<not> t_dirty t'" "i < c_line_bytes k"
    show "t_data t' i = spill k t L (t_base t' + ucast i)"
    proof (cases "(s', w') = (s, w)")
      case True
      then have t': "t' = t\<lparr>t_dirty := False\<rparr>" using a by (simp add: A'_def)
      from line_addr(3,4) [OF g sh t a(3)] show ?thesis by (simp add: spill_def t')
    next
      case False
      then have t': "A (s', w') = Some t'" using a by (auto simp: A'_def)
      with other [OF t' _ a(3)] False have "addr_base k (t_base t' + ucast i) \<noteq> t_base t" by blast
      with coherentD [OF co t' a(2,3)] show ?thesis by (simp add: spill_def)
    qed
  qed
  show "view k A' (spill k t L) = view k A L"
  proof (rule view_eqI [OF sh'])
    fix x w' t' assume h: "hit k A' x w' t'"
    then have "\<exists>u. hit k A x w' u \<and> t_data u = t_data t'"
      using t by (auto simp: hit_def A'_def split: if_splits)
    then show "t_data t' (addr_off k x) = view k A L x" using view_hit [OF sh] by metis
  next
    fix x assume n: "\<And>w' t'. \<not> hit k A' x w' t'"
    have "\<not> hit k A x w' t'" for w' t'
    proof
      assume "hit k A x w' t'"
      then have "\<exists>u. hit k A' x w' u" using t by (auto simp: hit_def A'_def)
      with n show False by blast
    qed
    moreover from this have "addr_base k x \<noteq> t_base t"
    proof -
      have "\<not> hit k A x w t" by (rule calculation)
      moreover have "addr_set k x = s" if "addr_base k x = t_base t"
        using that shape_okD [OF sh t] base_decode [OF g, of x] by (simp add: cache_decode_def)
      ultimately show ?thesis using hit_at [OF g sh t] by blast
    qed
    ultimately show "spill k t L x = view k A L x" by (simp add: view_miss [OF sh] spill_def)
  qed
qed

lemma drop_slot:
  assumes g: "geometry_ok k" and sh: "shape_ok k A" and co: "coherent k A L"
    and clean: "\<And>t. A (s, w) = Some t \<Longrightarrow> \<not> t_dirty t"
  defines "A' \<equiv> A((s, w) := None)"
  shows "shape_ok k A' \<and> coherent k A' L \<and> view k A' L = view k A L"
proof (intro conjI)
  show sh': "shape_ok k A'" using sh unfolding shape_ok_def A'_def by (auto split: if_splits)
  show "coherent k A' L" using co unfolding coherent_def A'_def by (auto split: if_splits)
  have hits: "hit k A' x w' t' \<longleftrightarrow> hit k A x w' t' \<and> (addr_set k x, w') \<noteq> (s, w)" for x w' t'
    by (auto simp: hit_def A'_def)
  show "view k A' L = view k A L"
  proof (rule view_eqI [OF sh'])
    fix x w' t' assume "hit k A' x w' t'"
    then show "t_data t' (addr_off k x) = view k A L x" using view_hit [OF sh] hits by metis
  next
    fix x assume n: "\<And>w' t'. \<not> hit k A' x w' t'"
    show "L x = view k A L x"
    proof (cases "\<exists>w' t'. hit k A x w' t'")
      case True
      then obtain w' t' where h: "hit k A x w' t'" by blast
      with n hits have "(addr_set k x, w') = (s, w)" by blast
      with h clean have "\<not> t_dirty t'" by (auto simp: hit_def)
      with h show ?thesis by (simp add: view_hit [OF sh] hit_coherent [OF g sh co])
    next
      case False
      then show ?thesis by (simp add: view_miss [OF sh])
    qed
  qed
qed

definition fetched :: "'b cache \<Rightarrow> u16 \<Rightarrow> (u16 \<Rightarrow> u8) \<Rightarrow> content" where
  "fetched k a L = \<lparr>t_tag = addr_tag k a, t_dirty = False, t_base = addr_base k a,
     t_data = (\<lambda>i. if i < c_line_bytes k then L (addr_base k a + ucast i) else 0)\<rparr>"

lemma fill_slot:
  assumes g: "geometry_ok k" and sh: "shape_ok k A" and co: "coherent k A L"
    and w: "w < c_ways k" and free: "A (addr_set k a, w) = None" and miss: "\<And>w t. \<not> hit k A a w t"
  defines "A' \<equiv> A((addr_set k a, w) := Some (fetched k a L))"
  shows "shape_ok k A' \<and> coherent k A' L \<and> view k A' L = view k A L \<and> hit k A' a w (fetched k a L)"
proof (intro conjI)
  show sh': "shape_ok k A'"
    unfolding A'_def
    by (rule shape_ok_put [OF sh addr_bounds(1) [OF g] w])
      (use miss base_decode [OF g, of a] in \<open>auto simp: fetched_def hit_def\<close>)
  show "coherent k A' L" using co unfolding coherent_def A'_def by (auto simp: fetched_def split: if_splits)
  show "hit k A' a w (fetched k a L)" by (simp add: hit_def A'_def fetched_def)
  have hits: "hit k A' x w' t' \<longleftrightarrow> (if (addr_set k x, w') = (addr_set k a, w)
      then t' = fetched k a L \<and> addr_tag k x = addr_tag k a else hit k A x w' t')" for x w' t'
    by (auto simp: hit_def A'_def fetched_def)
  show "view k A' L = view k A L"
  proof (rule view_eqI [OF sh'])
    fix x w' t' assume h: "hit k A' x w' t'"
    show "t_data t' (addr_off k x) = view k A L x"
    proof (cases "(addr_set k x, w') = (addr_set k a, w)")
      case True
      with h hits have t': "t' = fetched k a L" "addr_tag k x = addr_tag k a" by auto
      with True have b: "addr_base k x = addr_base k a" by (simp add: base_eq_iff g)
      from t' True miss have "\<not> hit k A x w'' t''" for w'' t'' by (auto simp: hit_def)
      moreover have "t_data t' (addr_off k x) = L x"
        using base_off [OF g, of x] addr_bounds(2) [OF g, of x] by (simp add: t'(1) fetched_def b)
      ultimately show ?thesis by (simp add: view_miss [OF sh])
    next
      case False
      with h hits view_hit [OF sh] show ?thesis by metis
    qed
  next
    fix x assume "\<And>w' t'. \<not> hit k A' x w' t'"
    then have "\<not> hit k A x w' t'" for w' t'
      using hits free by (metis hit_def option.distinct(1) prod.inject)
    then show "L x = view k A L x" by (simp add: view_miss [OF sh])
  qed
qed

lemma store_slot:
  fixes v :: u8
  assumes g: "geometry_ok k" and sh: "shape_ok k A" and h: "hit k A a w t"
  defines "t' \<equiv> t\<lparr>t_data := (t_data t)(addr_off k a := v)\<rparr>"
  shows "coherent k A L \<Longrightarrow> shape_ok k (A((addr_set k a, w) := Some (t'\<lparr>t_dirty := True\<rparr>))) \<and>
      coherent k (A((addr_set k a, w) := Some (t'\<lparr>t_dirty := True\<rparr>))) L \<and>
      view k (A((addr_set k a, w) := Some (t'\<lparr>t_dirty := True\<rparr>))) L = (view k A L)(a := v)"
    and "coherent k A L \<Longrightarrow> shape_ok k (A((addr_set k a, w) := Some t')) \<and>
      coherent k (A((addr_set k a, w) := Some t')) (L(a := v)) \<and>
      view k (A((addr_set k a, w) := Some t')) (L(a := v)) = (view k A L)(a := v)"
proof -
  have sh': "shape_ok k (A((addr_set k a, w) := Some u))" if "t_tag u = t_tag t" "t_base u = t_base t" for u
    using h that by (intro shape_ok_same [OF sh]) (auto simp: hit_def)
  have hits: "hit k (A((addr_set k a, w) := Some u)) x w' u' \<longleftrightarrow>
      (if addr_set k x = addr_set k a \<and> w' = w then u' = u \<and> addr_tag k x = addr_tag k a else hit k A x w' u')"
    if "t_tag u = t_tag t" for u x w' u'
    using h that by (auto simp: hit_def)
  have v: "view k (A((addr_set k a, w) := Some u)) L' = (view k A L)(a := v)"
    if u: "t_tag u = t_tag t" "t_base u = t_base t" "t_data u = (t_data t)(addr_off k a := v)"
      and L': "\<And>x. (\<And>w t. \<not> hit k A x w t) \<Longrightarrow> L' x = L x" for u L L'
  proof (rule view_eqI [OF sh' [OF u(1,2)]])
    fix x w' u' assume h': "hit k (A((addr_set k a, w) := Some u)) x w' u'"
    show "t_data u' (addr_off k x) = ((view k A L)(a := v)) x"
    proof (cases "addr_set k x = addr_set k a \<and> w' = w")
      case True
      with h' hits [OF u(1)] have x: "u' = u" "addr_tag k x = addr_tag k a" by auto
      with True h have hx: "hit k A x w t" by (simp add: hit_def)
      have "x = a \<longleftrightarrow> addr_off k x = addr_off k a" using addr_eqI [OF g, of x a] x(2) True by auto
      then show ?thesis using view_hit [OF sh hx, of L] by (auto simp: x(1) u(3))
    next
      case False
      with h' hits [OF u(1)] have "hit k A x w' u'" by auto
      moreover from this False have "x \<noteq> a" using hit_unique [OF sh h] by blast
      ultimately show ?thesis by (simp add: view_hit [OF sh])
    qed
  next
    fix x assume n: "\<And>w' u'. \<not> hit k (A((addr_set k a, w) := Some u)) x w' u'"
    have no: "\<not> hit k A x w' u'" for w' u'
      using n [of w' u'] n [of w u] h unfolding hits [OF u(1)] by (auto simp: hit_def split: if_splits)
    then have "x \<noteq> a" using h by blast
    with no show "L' x = ((view k A L)(a := v)) x" by (simp add: view_miss [OF sh] L')
  qed
  show "shape_ok k (A((addr_set k a, w) := Some (t'\<lparr>t_dirty := True\<rparr>))) \<and>
      coherent k (A((addr_set k a, w) := Some (t'\<lparr>t_dirty := True\<rparr>))) L \<and>
      view k (A((addr_set k a, w) := Some (t'\<lparr>t_dirty := True\<rparr>))) L = (view k A L)(a := v)"
    if co: "coherent k A L"
    using co by (intro conjI sh' v) (auto simp: t'_def coherent_def)
  have L: "(L(a := v)) x = L x" if "\<And>w t. \<not> hit k A x w t" for x
    using that h by auto
  have "coherent k (A((addr_set k a, w) := Some t')) (L(a := v))" if co: "coherent k A L"
    unfolding coherent_def
  proof (intro allI impI, elim conjE)
    fix s' w' u i assume u: "(A((addr_set k a, w) := Some t')) (s', w') = Some u" "\<not> t_dirty u" "i < c_line_bytes k"
    have at: "t_base x + ucast i = a \<longleftrightarrow> s' = addr_set k a \<and> w' = w \<and> i = addr_off k a"
      if x: "A (s', w') = Some x" for x
    proof
      assume e: "t_base x + ucast i = a"
      have "addr_tag k a = t_tag x" "addr_set k a = s'" "addr_off k a = i"
        using line_addr(1-3) [OF g sh x u(3)] unfolding e by simp_all
      with x h hit_unique [OF sh h, of w' x] show "s' = addr_set k a \<and> w' = w \<and> i = addr_off k a"
        by (auto simp: hit_def)
    next
      assume "s' = addr_set k a \<and> w' = w \<and> i = addr_off k a"
      with x h have "x = t" "i = addr_off k a" by (auto simp: hit_def)
      with hit_base [OF g sh h] base_off [OF g, of a] show "t_base x + ucast i = a" by simp
    qed
    show "t_data u i = (L(a := v)) (t_base u + ucast i)"
    proof (cases "(s', w') = (addr_set k a, w)")
      case True
      then have x: "A (s', w') = Some t" "u = t'" using u h by (auto simp: hit_def)
      then have "\<not> t_dirty t" using u(2) by (simp add: t'_def)
      with coherentD [OF co x(1) _ u(3)] at [OF x(1)] True show ?thesis by (auto simp: x(2) t'_def)
    next
      case False
      then have x: "A (s', w') = Some u" using u by auto
      with coherentD [OF co x u(2,3)] at [OF x] False show ?thesis by auto
    qed
  qed
  then show "shape_ok k (A((addr_set k a, w) := Some t')) \<and>
      coherent k (A((addr_set k a, w) := Some t')) (L(a := v)) \<and>
      view k (A((addr_set k a, w) := Some t')) (L(a := v)) = (view k A L)(a := v)" if "coherent k A L"
    using that L by (intro conjI sh' v) (auto simp: t'_def)
qed

lemma store_around:
  assumes g: "geometry_ok k" and sh: "shape_ok k A" and co: "coherent k A L" and miss: "\<And>w t. \<not> hit k A a w t"
  shows "coherent k A (L(a := v)) \<and> view k A (L(a := v)) = (view k A L)(a := v)"
proof
  show "view k A (L(a := v)) = (view k A L)(a := v)"
    using miss by (intro view_eqI [OF sh]) (auto simp: view_hit [OF sh] view_miss [OF sh])
  show "coherent k A (L(a := v))"
    unfolding coherent_def
  proof (intro allI impI, elim conjE)
    fix s w t i assume t: "A (s, w) = Some t" "\<not> t_dirty t" "i < c_line_bytes k"
    have "hit k A (t_base t + ucast i) w t" by (rule line_addr [OF g sh t(1,3)])
    then have "t_base t + ucast i \<noteq> a" using miss by blast
    with coherentD [OF co t] show "t_data t i = (L(a := v)) (t_base t + ucast i)" by simp
  qed
qed
end
