(* ===== verification/Cache_Refine.thy ===== *)
theory Cache_Refine
  imports Cache_Abs
begin

text \<open>
  The programs of \<open>h6502/cache.c\<close> refine the abstract cache.  The locale \<open>backing_store\<close> is the
  contract between a cache and the memory behind its callbacks: a read returns the byte and changes
  nothing, a write changes the one byte.  From it follow, for every geometry, replacement and write
  policy: a read returns the byte the cache and memory present together (\<open>view\<close>) and does not change
  any; a write changes the byte at its address only; cleaning and flushing bring memory up to that
  view without changing it; cleaning or snooping one line brings its bytes to memory.

  \<open>St k A L\<close> is a state with configuration \<open>k\<close>, abstract cache \<open>A\<close> and memory \<open>L\<close>; \<open>Ok k V\<close> a
  well-formed one that presents \<open>V\<close>.
\<close>
unbundle bit_operations_syntax

section \<open>Memory behind a cache\<close>

locale backing_store =
  fixes rd :: "u16 \<Rightarrow> ('b, u8) state" and wr :: "u16 \<Rightarrow> u8 \<Rightarrow> ('b, unit) state" and rnd :: "('b, nat) state"
    and rest :: "'b \<Rightarrow> bool" and look :: "'b \<Rightarrow> u16 \<Rightarrow> u8"
  assumes rd: "rest b \<Longrightarrow> result (rd a) b = look b a \<and> rest (exec (rd a) b) \<and> look (exec (rd a) b) = look b"
    and wr: "rest b \<Longrightarrow> rest (exec (wr a v) b) \<and> look (exec (wr a v) b) = (look b)(a := v)"
    and rnd: "rest b \<Longrightarrow> rest (exec rnd b) \<and> look (exec rnd b) = look b"
begin

definition ready :: "'b cache \<Rightarrow> bool" where
  "ready k \<longleftrightarrow> geometry_ok k \<and> c_bs_read k = rd \<and> c_bs_write k = wr"

definition St :: "'b cache \<Rightarrow> slots \<Rightarrow> (u16 \<Rightarrow> u8) \<Rightarrow> 'b cache \<times> 'b \<Rightarrow> bool" where
  "St k A L p \<longleftrightarrow> frame (fst p) = frame k \<and> slots_of (fst p) = A \<and> rest (snd p) \<and> look (snd p) = L"

lemma St_fields:
  assumes "frame c = frame k"
  shows "c_line_bytes c = c_line_bytes k" "c_ways c = c_ways k" "c_sets c = c_sets k"
    "c_repl c = c_repl k" "c_wpol c = c_wpol k" "c_write_alloc c = c_write_alloc k"
    "c_bs_read c = c_bs_read k" "c_bs_write c = c_bs_write k" "c_miss_penalty c = c_miss_penalty k"
    "addr_off c a = addr_off k a" "addr_set c a = addr_set k a" "addr_tag c a = addr_tag k a"
    "addr_base c a = addr_base k a" "cache_decode c a = cache_decode k a" "geometry_ok c = geometry_ok k"
  using assms frame_simps [of c] frame_simps [of k] by metis+

lemma find_way_lookup:
  assumes "St k A L (c, b)" "ready k"
  shows "find_way c a = lookup k A a"
proof -
  have f: "frame c = frame k" "slots_of c = A" using assms(1) by (simp_all add: St_def)
  have "addr_set k a < c_sets k" using assms(2) addr_bounds(1) [of k a] by (simp add: ready_def)
  then show ?thesis
    unfolding find_way_def lookup_def f(2) [symmetric]
    by (intro find_cong) (auto simp: slots_of_def set_upto_u32 St_fields [OF f(1)])
qed

lemma foldl_upd_other:
  "x \<notin> f ` set xs \<Longrightarrow> foldl (\<lambda>L i. L(f i := d i)) L xs x = L x"
  by (induction xs arbitrary: L) auto

lemma foldl_upd_at:
  "i \<in> set xs \<Longrightarrow> inj_on f (set xs) \<Longrightarrow> foldl (\<lambda>L i. L(f i := d i)) L xs (f i) = d i"
proof (induction xs arbitrary: L)
  case (Cons j xs)
  show ?case
  proof (cases "i \<in> set xs")
    case True
    then show ?thesis using Cons by simp
  next
    case False
    with Cons.prems have i: "i = j" "f i \<notin> f ` set xs" by (auto simp: inj_on_def)
    have "foldl (\<lambda>L i. L(f i := d i)) (L(f i := d i)) xs (f i) = (L(f i := d i)) (f i)"
      by (rule foldl_upd_other) (rule i)
    then show ?thesis by (simp only: foldl.simps i(1) fun_upd_same)
  qed
qed simp

lemma writeback_loop:
  assumes "frame c = frame k" "ready k" "rest b"
  shows "\<exists>b'. run_state (for_each xs (\<lambda>i. do {
         d \<leftarrow> reads (\<lambda>c. data_at c s w i);
         wr \<leftarrow> reads c_bs_write;
         outside (wr (base + ucast i) d) })) (c, b) = ((), (c, b')) \<and> rest b' \<and>
      look b' = foldl (\<lambda>L i. L(base + ucast i := data_at c s w i)) (look b) xs"
  using assms(3)
proof (induction xs arbitrary: b)
  case Nil
  then show ?case by simp
next
  case (Cons i xs)
  define b1 where "b1 = exec (wr (base + ucast i) (data_at c s w i)) b"
  have b1: "rest b1" "look b1 = (look b)(base + ucast i := data_at c s w i)"
    using wr [OF Cons.prems] by (simp_all add: b1_def)
  have "c_bs_write c = wr" using assms(1,2) St_fields [of c k] by (simp add: ready_def)
  then show ?case using Cons.IH [OF b1(1)] by (simp add: b1_def [symmetric] b1(2))
qed

lemma spill_foldl:
  assumes g: "geometry_ok k" and sh: "shape_ok k A" and t: "A (s, w) = Some t"
  shows "foldl (\<lambda>L i. L(t_base t + ucast i := t_data t i)) L (upto_u32 (c_line_bytes k)) = spill k t L"
proof
  fix x
  let ?f = "\<lambda>i :: u32. t_base t + ucast i"
  have inj: "inj_on ?f (set (upto_u32 (c_line_bytes k)))"
    using line_addr(3) [OF g sh t] by (intro inj_onI) (metis mem_Collect_eq set_upto_u32)
  show "foldl (\<lambda>L i. L(?f i := t_data t i)) L (upto_u32 (c_line_bytes k)) x = spill k t L x"
  proof (cases "addr_base k x = t_base t")
    case True
    then have "?f (addr_off k x) = x" using base_off [OF g, of x] by simp
    then show ?thesis
      using foldl_upd_at [OF _ inj, of "addr_off k x" "t_data t" L] addr_bounds(2) [OF g, of x] True
      by (simp add: set_upto_u32 spill_def)
  next
    case False
    then have "x \<notin> ?f ` set (upto_u32 (c_line_bytes k))"
      using line_addr(4) [OF g sh t] by (auto simp: set_upto_u32)
    then show ?thesis using False by (simp add: foldl_upd_other spill_def)
  qed
qed

lemma refill_loop:
  assumes "frame c = frame k" "ready k" "rest b" "s < c_sets k" "w < c_ways k" "\<forall>i\<in>set xs. i < c_line_bytes k"
  shows "\<exists>b' c'. run_state (for_each xs (\<lambda>i. do {
         rd \<leftarrow> reads c_bs_read;
         v \<leftarrow> outside (rd (base + ucast i));
         writes (set_data s w i v) })) (c, b) = ((), (c', b')) \<and> rest b' \<and> look b' = look b \<and>
      frame c' = frame k \<and> (\<forall>p. p \<noteq> (s, w) \<longrightarrow> slots_of c' p = slots_of c p) \<and>
      (\<forall>j < c_line_bytes k. data_at c' s w j = (if j \<in> set xs then look b (base + ucast j) else data_at c s w j))"
  using assms(1,3,6)
proof (induction xs arbitrary: b c)
  case Nil
  then show ?case by simp
next
  case (Cons i xs)
  define b1 where "b1 = exec (rd (base + ucast i)) b"
  define c1 where "c1 = set_data s w i (look b (base + ucast i)) c"
  have b1: "rest b1" "look b1 = look b" "result (rd (base + ucast i)) b = look b (base + ucast i)"
    using rd [OF Cons.prems(2)] by (simp_all add: b1_def)
  have k: "c_bs_read c = rd" "geometry_ok c" "s < c_sets c" "w < c_ways c" "i < c_line_bytes c" "c_line_bytes c = c_line_bytes k"
    using Cons.prems assms(2,4,5) St_fields [of c k] by (simp_all add: ready_def)
  have c1: "frame c1 = frame k" "\<And>p. p \<noteq> (s, w) \<Longrightarrow> slots_of c1 p = slots_of c p"
    using Cons.prems(1) slots_set_data [OF k(2-5)] by (simp_all add: c1_def)
  have d1: "data_at c1 s w j = (if j = i then look b (base + ucast i) else data_at c s w j)" if "j < c_line_bytes k" for j
    using data_at_set_data [OF k(2-4) k(3-5)] that by (simp add: c1_def k(6))
  obtain b' c' where r: "run_state (for_each xs (\<lambda>i. do {
         rd \<leftarrow> reads c_bs_read;
         v \<leftarrow> outside (rd (base + ucast i));
         writes (set_data s w i v) })) (c1, b1) = ((), (c', b'))"
    and p: "rest b'" "look b' = look b1" "frame c' = frame k" "\<forall>p. p \<noteq> (s, w) \<longrightarrow> slots_of c' p = slots_of c1 p"
      "\<forall>j < c_line_bytes k. data_at c' s w j = (if j \<in> set xs then look b1 (base + ucast j) else data_at c1 s w j)"
    using Cons.IH [OF c1(1) b1(1)] Cons.prems(3) by auto
  show ?case
    by (rule exI [of _ b'], rule exI [of _ c'])
      (use p c1 d1 in \<open>auto simp: r k(1) b1(2,3) b1_def [symmetric] c1_def [symmetric]\<close>)
qed

section \<open>The internal steps\<close>

lemma st_writes:
  assumes "\<And>c. frame (f c) = frame c" "\<And>c. slots_of (f c) = slots_of c"
  shows "triple (St k A L) (writes f) (\<lambda>_. St k A L)"
  using assms by (intro triple_writes) (simp add: St_def)

lemma st_reads: "(\<And>c. frame c = frame k \<Longrightarrow> f c = x) \<Longrightarrow> triple (St k A L) (reads f) (\<lambda>r p. r = x \<and> St k A L p)"
  by (intro triple_reads) (simp add: St_def)

lemma slot_line:
  "slots_of c (s, w) = Some t \<Longrightarrow> l_valid (line_at c s w) \<and> t = \<lparr>t_tag = l_tag (line_at c s w),
     t_dirty = l_dirty (line_at c s w), t_base = l_base (line_at c s w),
     t_data = (\<lambda>i. if i < c_line_bytes c then data_at c s w i else 0)\<rparr>"
  by (auto simp: slots_of_def split: if_splits)

lemma slot_None: "slots_of c (s, w) = None \<Longrightarrow> s < c_sets c \<Longrightarrow> w < c_ways c \<Longrightarrow> \<not> l_valid (line_at c s w)"
  by (auto simp: slots_of_def split: if_splits)

lemma St_geometry:
  assumes "St k A L (c, b)" "ready k"
  shows "geometry_ok c" "c_sets c = c_sets k" "c_ways c = c_ways k" "c_line_bytes c = c_line_bytes k"
    "addr_set c a = addr_set k a" "addr_base c a = addr_base k a" "addr_tag c a = addr_tag k a"
  using assms St_fields [of c k] by (auto simp: St_def ready_def)

lemma st_set_line:
  assumes k: "ready k" "s < c_sets k" "w < c_ways k" and t: "A (s, w) = Some t"
  shows "triple (St k A L) (writes (set_line s w (\<lambda>l. l\<lparr>l_stamp := n\<rparr>))) (\<lambda>_. St k A L)"
    and "triple (St k A L) (writes (set_line s w (\<lambda>l. l\<lparr>l_dirty := d\<rparr>)))
      (\<lambda>_. St k (A((s, w) := Some (t\<lparr>t_dirty := d\<rparr>))) L)"
proof (rule_tac [!] triple_writes)
  fix c b assume st: "St k A L (c, b)"
  note g = St_geometry [OF st k(1)]
  have s: "slots_of c (s, w) = Some t" "slots_of c = A" using st t by (simp_all add: St_def)
  note eq = slots_set_line [OF g(1), unfolded g, OF k(2,3)]
  show "St k A L (set_line s w (\<lambda>l. l\<lparr>l_stamp := n\<rparr>) c, b)"
    using st slot_line [OF s(1)] t unfolding St_def by (auto simp: eq g fun_eq_iff)
  show "St k (A((s, w) := Some (t\<lparr>t_dirty := d\<rparr>))) L (set_line s w (\<lambda>l. l\<lparr>l_dirty := d\<rparr>) c, b)"
    using st slot_line [OF s(1)] t unfolding St_def by (auto simp: eq g fun_eq_iff)
qed

lemma st_drop:
  assumes k: "ready k" "s < c_sets k" "w < c_ways k"
  shows "triple (St k A L) (writes (set_line s w (\<lambda>l. l\<lparr>l_valid := False\<rparr>))) (\<lambda>_. St k (A((s, w) := None)) L)"
    "triple (St k A L) (writes (set_line s w (\<lambda>l. l\<lparr>l_valid := False, l_dirty := False\<rparr>)))
       (\<lambda>_. St k (A((s, w) := None)) L)"
proof (rule_tac [!] triple_writes)
  fix c b assume st: "St k A L (c, b)"
  note g = St_geometry [OF st k(1)]
  note eq = slots_set_line [OF g(1), unfolded g, OF k(2,3)]
  show "St k (A((s, w) := None)) L (set_line s w (\<lambda>l. l\<lparr>l_valid := False\<rparr>) c, b)"
    "St k (A((s, w) := None)) L (set_line s w (\<lambda>l. l\<lparr>l_valid := False, l_dirty := False\<rparr>) c, b)"
    using st unfolding St_def by (auto simp: eq)
qed

lemma st_store:
  assumes k: "ready k" "s < c_sets k" "w < c_ways k" "i < c_line_bytes k" and t: "A (s, w) = Some t"
  shows "triple (St k A L) (writes (set_data s w i v))
    (\<lambda>_. St k (A((s, w) := Some (t\<lparr>t_data := (t_data t)(i := v)\<rparr>))) L)"
proof (rule triple_writes)
  fix c b assume st: "St k A L (c, b)"
  note g = St_geometry [OF st k(1)]
  note eq = slots_set_data [OF g(1), unfolded g, OF k(2-4)]
  show "St k (A((s, w) := Some (t\<lparr>t_data := (t_data t)(i := v)\<rparr>))) L (set_data s w i v c, b)"
    using st t unfolding St_def by (auto simp: eq)
qed

lemma st_writeback:
  assumes k: "ready k" and sh: "shape_ok k A" and t: "A (s, w) = Some t"
  shows "triple (St k A L) (writeback s w)
    (\<lambda>_. St k (A((s, w) := Some (t\<lparr>t_dirty := False\<rparr>))) (if t_dirty t then spill k t L else L))"
  unfolding triple_def
proof (intro allI impI)
  fix p assume p: "St k A L p"
  obtain c b where cb: "p = (c, b)" by (cases p)
  note st = p [unfolded cb] and g = St_geometry [OF p [unfolded cb] k]
  have sw: "s < c_sets k" "w < c_ways k" using shape_okD [OF sh t] by simp_all
  have f: "frame c = frame k" "rest b" "look b = L" "slots_of c (s, w) = Some t" using st t by (simp_all add: St_def)
  note l = slot_line [OF f(4)]
  show "St k (A((s, w) := Some (t\<lparr>t_dirty := False\<rparr>))) (if t_dirty t then spill k t L else L) (exec (writeback s w) p)"
  proof (cases "t_dirty t")
    case False
    then have "A((s, w) := Some (t\<lparr>t_dirty := False\<rparr>)) = A" using t by (auto simp: fun_eq_iff)
    with False l st show ?thesis by (simp add: writeback_def cb)
  next
    case True
    let ?b = "l_base (line_at c s w)" and ?n = "upto_u32 (c_line_bytes c)"
    obtain b' where r: "run_state (for_each ?n (\<lambda>i. do {
         d \<leftarrow> reads (\<lambda>c. data_at c s w i);
         wr \<leftarrow> reads c_bs_write;
         outside (wr (?b + ucast i) d) })) (c, b) = ((), (c, b'))" and b': "rest b'"
      "look b' = foldl (\<lambda>L i. L(?b + ucast i := data_at c s w i)) L ?n"
      using writeback_loop [OF f(1) k f(2), of ?n s w ?b] by (auto simp: f(3))
    have "look b' = foldl (\<lambda>L i. L(t_base t + ucast i := t_data t i)) L ?n"
      unfolding b'(2) using l by (intro foldl_cong) (auto simp: set_upto_u32)
    then have L': "look b' = spill k t L"
      using spill_foldl [OF _ sh t] k by (simp add: g ready_def)
    define c1 where "c1 = c\<lparr>c_writebacks := c_writebacks c + 1, c_bytes_out := c_bytes_out c + ucast (c_line_bytes c)\<rparr>"
    have e: "exec (writeback s w) p = exec (writes (set_line s w (\<lambda>l. l\<lparr>l_dirty := False\<rparr>))) (c1, b')"
      using True l r by (simp add: writeback_def cb c1_def)
    have "frame c1 = frame c" "slots_of c1 = slots_of c"
      unfolding c1_def by (simp_all only: stat_frame stat_slots)
    then have st1: "St k A (spill k t L) (c1, b')"
      using st f b' L' by (simp add: St_def)
    from tripleD [OF st_set_line(2) [where A = A and t = t and d = False, OF k sw t] st1]
    show ?thesis unfolding e using True by simp
  qed
qed

lemma st_writeback_None:
  assumes "ready k" "s < c_sets k" "w < c_ways k" "A (s, w) = None"
  shows "triple (St k A L) (writeback s w) (\<lambda>_. St k A L)"
  unfolding triple_def
proof (intro allI impI)
  fix p assume p: "St k A L p"
  obtain c b where cb: "p = (c, b)" by (cases p)
  note g = St_geometry [OF p [unfolded cb] assms(1)]
  have "\<not> l_valid (line_at c s w)"
    using slot_None [of c s w] p assms by (simp add: cb g St_def)
  then show "St k A L (exec (writeback s w) p)" using p by (simp add: writeback_def cb)
qed

lemma st_refill:
  assumes k: "ready k" and w: "w < c_ways k"
  shows "triple (St k A L) (refill (addr_set k a) w a (addr_tag k a))
    (\<lambda>_. St k (A((addr_set k a, w) := Some (fetched k a L))) L)"
  unfolding triple_def
proof (intro allI impI)
  fix p assume p: "St k A L p"
  obtain c b where cb: "p = (c, b)" by (cases p)
  note st = p [unfolded cb] and g = St_geometry [OF p [unfolded cb] k]
  have f: "frame c = frame k" "rest b" "look b = L" "slots_of c = A" using st by (simp_all add: St_def)
  have s: "addr_set k a < c_sets k" using k addr_bounds(1) [of k a] by (simp add: ready_def)
  let ?s = "addr_set k a" and ?b = "addr_base k a" and ?n = "upto_u32 (c_line_bytes k)"
  obtain b' c' where r: "run_state (for_each ?n (\<lambda>i. do {
         rd \<leftarrow> reads c_bs_read;
         v \<leftarrow> outside (rd (?b + ucast i));
         writes (set_data ?s w i v) })) (c, b) = ((), (c', b'))" and b': "rest b'" "look b' = L" "frame c' = frame k"
      "\<forall>p. p \<noteq> (?s, w) \<longrightarrow> slots_of c' p = A p"
      "\<forall>j < c_line_bytes k. data_at c' ?s w j = (if j \<in> set ?n then L (?b + ucast j) else data_at c ?s w j)"
    using refill_loop [OF f(1) k f(2) s w, of ?n ?b] by (auto simp: f(3,4) set_upto_u32)
  have g': "geometry_ok c'" "c_sets c' = c_sets k" "c_ways c' = c_ways k" "c_line_bytes c' = c_line_bytes k"
    using b'(3) k St_fields [of c' k] by (simp_all add: ready_def)
  define c1 where "c1 = set_line ?s w (\<lambda>l. l\<lparr>l_valid := True, l_dirty := False, l_tag := addr_tag k a, l_base := ?b\<rparr>) c'"
  define c2 where "c2 = c1\<lparr>c_clock := c_clock c1 + 1\<rparr>"
  have "slots_of c1 = A((?s, w) := Some (fetched k a L))"
    unfolding c1_def slots_set_line [OF g'(1), unfolded g', OF s w]
    using b'(4,5) by (auto simp: fun_eq_iff fetched_def set_upto_u32)
  then have st2: "St k (A((?s, w) := Some (fetched k a L))) L (c2, b')"
    using b' by (simp add: St_def c2_def c1_def)
  have e: "exec (refill ?s w a (addr_tag k a)) p =
      exec (do { writes (set_line ?s w (\<lambda>l. l\<lparr>l_stamp := c_clock c2\<rparr>));
        writes (\<lambda>c. c\<lparr>c_bytes_in := c_bytes_in c + ucast (c_line_bytes k)\<rparr>) }) (c2, b')"
    using r by (simp add: refill_def cb g c1_def [symmetric] c2_def [symmetric])
  have "triple (St k (A((?s, w) := Some (fetched k a L))) L) (do { writes (set_line ?s w (\<lambda>l. l\<lparr>l_stamp := c_clock c2\<rparr>));
        writes (\<lambda>c. c\<lparr>c_bytes_in := c_bytes_in c + ucast (c_line_bytes k)\<rparr>) })
     (\<lambda>_. St k (A((?s, w) := Some (fetched k a L))) L)"
    by (rule triple_bind, rule st_set_line(1) [OF k s w, where t = "fetched k a L"], simp, rule st_writes, simp, simp)
  from tripleD [OF this st2] show "St k (A((?s, w) := Some (fetched k a L))) L (exec (refill ?s w a (addr_tag k a)) p)"
    unfolding e .
qed

section \<open>Accesses\<close>

text \<open>The invariant of a cache with its memory, and the bytes \<open>V\<close> the two present together.\<close>

definition Ok :: "'b cache \<Rightarrow> (u16 \<Rightarrow> u8) \<Rightarrow> 'b cache \<times> 'b \<Rightarrow> bool" where
  "Ok k V p \<longleftrightarrow> (\<exists>A L. St k A L p \<and> shape_ok k A \<and> coherent k A L \<and> view k A L = V)"

lemma Ok_triple:
  "(\<And>A L. shape_ok k A \<Longrightarrow> coherent k A L \<Longrightarrow> view k A L = V \<Longrightarrow> triple (St k A L) m Q) \<Longrightarrow> triple (Ok k V) m Q"
  by (auto simp: triple_def Ok_def)

lemma St_Ok: "St k A L p \<Longrightarrow> shape_ok k A \<and> coherent k A L \<and> view k A L = V \<Longrightarrow> Ok k V p"
  by (auto simp: Ok_def)

lemma pick_victim_bound:
  assumes "ready k"
  shows "triple (St k A L) (pick_victim rnd s) (\<lambda>w p. w < c_ways k \<and> St k A L p)"
  unfolding triple_def
proof (intro allI impI)
  fix p assume p: "St k A L p"
  obtain c b where cb: "p = (c, b)" by (cases p)
  note g = St_geometry [OF p [unfolded cb] assms]
  have "rest (snd p) \<and> look (snd p) = L" using p by (simp add: St_def)
  then have "St k A L (exec (pick_victim rnd s) p)"
    using p rnd [of b] by (auto simp: pick_victim_def cb St_def split: option.split)
  then show "result (pick_victim rnd s) p < c_ways k \<and> St k A L (exec (pick_victim rnd s) p)"
    using victim_bound [OF g(1), of rnd s b] by (simp add: cb g(3))
qed

text \<open>Memory and cache present \<open>V\<close>, address \<open>a\<close> is not resident, and way \<open>w\<close> of its set may go.\<close>

definition Free :: "'b cache \<Rightarrow> (u16 \<Rightarrow> u8) \<Rightarrow> u16 \<Rightarrow> u32 \<Rightarrow> 'b cache \<times> 'b \<Rightarrow> bool" where
  "Free k V a w p \<longleftrightarrow> (\<exists>A L. St k A L p \<and> shape_ok k A \<and> coherent k A L \<and> view k A L = V \<and>
     (\<forall>t. A (addr_set k a, w) = Some t \<longrightarrow> \<not> t_dirty t) \<and> (\<forall>w t. \<not> hit k A a w t))"

lemma FreeI:
  "St k A L p \<Longrightarrow> shape_ok k A \<Longrightarrow> coherent k A L \<Longrightarrow> view k A L = V \<Longrightarrow>
    (\<And>t. A (addr_set k a, w) = Some t \<Longrightarrow> \<not> t_dirty t) \<Longrightarrow> (\<And>w t. \<not> hit k A a w t) \<Longrightarrow> Free k V a w p"
  unfolding Free_def by blast

text \<open>Memory and cache present \<open>V\<close>, and address \<open>a\<close> is resident in way \<open>w\<close>.\<close>

definition Hit :: "'b cache \<Rightarrow> (u16 \<Rightarrow> u8) \<Rightarrow> u16 \<Rightarrow> u32 \<Rightarrow> 'b cache \<times> 'b \<Rightarrow> bool" where
  "Hit k V a w p \<longleftrightarrow> (\<exists>A L t. St k A L p \<and> shape_ok k A \<and> coherent k A L \<and> view k A L = V \<and> hit k A a w t)"

lemma Hit_Ok: "Hit k V a w p \<Longrightarrow> Ok k V p"
  by (auto simp: Hit_def Ok_def)

lemma evict_Free:
  assumes k: "ready k" and w: "w < c_ways k" and sh: "shape_ok k A" and co: "coherent k A L"
    and miss: "\<And>w t. \<not> hit k A a w t"
  shows "triple (\<lambda>p. (l_valid l \<longleftrightarrow> A (addr_set k a, w) \<noteq> None) \<and> St k A L p)
    (whenever (l_valid l) (do { writes (\<lambda>c. c\<lparr>c_evictions := c_evictions c + 1\<rparr>); writeback (addr_set k a) w }))
    (\<lambda>_. Free k (view k A L) a w)"
proof (rule triple_pure)
  have g: "geometry_ok k" using k by (simp add: ready_def)
  assume l: "l_valid l \<longleftrightarrow> A (addr_set k a, w) \<noteq> None"
  show "triple (St k A L) (whenever (l_valid l) (do { writes (\<lambda>c. c\<lparr>c_evictions := c_evictions c + 1\<rparr>);
      writeback (addr_set k a) w })) (\<lambda>_. Free k (view k A L) a w)"
  proof (cases "A (addr_set k a, w)")
    case None
    then have "Free k (view k A L) a w p" if "St k A L p" for p
      using that by (intro FreeI [OF _ sh co refl]) (auto simp: miss)
    with None l show ?thesis by (simp add: triple_def whenever_def)
  next
    case (Some t)
    let ?A = "A((addr_set k a, w) := Some (t\<lparr>t_dirty := False\<rparr>))"
    let ?L = "if t_dirty t then spill k t L else L"
    have c: "shape_ok k ?A \<and> coherent k ?A ?L \<and> view k ?A ?L = view k A L"
    proof (cases "t_dirty t")
      case True
      then show ?thesis using clean_slot [OF g sh co Some] by simp
    next
      case False
      then have "?A = A" using Some by (auto simp: fun_eq_iff)
      with False sh co show ?thesis by simp
    qed
    have m: "\<not> hit k ?A a w' t'" for w' t'
      using miss Some by (auto simp: hit_def)
    have "triple (St k A L) (do { writes (\<lambda>c. c\<lparr>c_evictions := c_evictions c + 1\<rparr>); writeback (addr_set k a) w })
      (\<lambda>_. St k ?A ?L)"
      by (rule triple_bind, rule st_writes, simp, simp, rule st_writeback [OF k sh Some])
    then have "triple (St k A L) (do { writes (\<lambda>c. c\<lparr>c_evictions := c_evictions c + 1\<rparr>); writeback (addr_set k a) w })
      (\<lambda>_. Free k (view k A L) a w)"
      by (rule triple_weaken) (use c m in \<open>auto intro!: FreeI [where A = ?A and L = ?L]\<close>)
    with Some l show ?thesis by (simp add: whenever_def)
  qed
qed

lemma refill_Hit:
  assumes k: "ready k" and w: "w < c_ways k"
  shows "triple (Free k V a w) (refill (addr_set k a) w a (addr_tag k a)) (\<lambda>_. Hit k V a w)"
  unfolding triple_def
proof (intro allI impI)
  have g: "geometry_ok k" using k by (simp add: ready_def)
  fix p assume "Free k V a w p"
  then obtain A L where st: "St k A L p" and sh: "shape_ok k A" and co: "coherent k A L" and v: "view k A L = V"
    and cl: "\<And>t. A (addr_set k a, w) = Some t \<Longrightarrow> \<not> t_dirty t" and miss: "\<And>w t. \<not> hit k A a w t"
    by (auto simp: Free_def)
  let ?A = "A((addr_set k a, w) := None)"
  have d: "shape_ok k ?A" "coherent k ?A L" "view k ?A L = view k A L"
    using drop_slot [OF g sh co cl] by simp_all
  have "\<not> hit k ?A a w' t'" for w' t' using miss by (auto simp: hit_def)
  then have "Hit k V a w p'" if "St k (A((addr_set k a, w) := Some (fetched k a L))) L p'" for p'
    using fill_slot [OF g d(1,2) w, of a] that v d(3) unfolding Hit_def by auto
  with tripleD [OF st_refill [OF k w] st]
  show "Hit k V a w (exec (refill (addr_set k a) w a (addr_tag k a)) p)" by blast
qed

lemma hit_writes:
  assumes "\<And>c. frame (f c) = frame c" "\<And>c. slots_of (f c) = slots_of c"
  shows "triple (Hit k V a w) (writes f) (\<lambda>_. Hit k V a w)" "triple (Ok k V) (writes f) (\<lambda>_. Ok k V)"
  using assms by (auto simp: triple_def Hit_def Ok_def St_def)

lemma line_read:
  assumes "ready k" "s < c_sets k" "w < c_ways k"
  shows "triple (St k A L) (reads (\<lambda>c. line_at c s w)) (\<lambda>l p. (l_valid l \<longleftrightarrow> A (s, w) \<noteq> None) \<and> St k A L p)"
proof (rule triple_reads)
  fix c b assume st: "St k A L (c, b)"
  then have "slots_of c (s, w) = A (s, w)" by (simp add: St_def)
  moreover have "slots_of c (s, w) \<noteq> None \<longleftrightarrow> l_valid (line_at c s w)"
    using assms(2,3) St_geometry(2,3) [OF st assms(1)] by (simp add: slots_of_def)
  ultimately show "(l_valid (line_at c s w) \<longleftrightarrow> A (s, w) \<noteq> None) \<and> St k A L (c, b)" using st by simp
qed

lemma handle_miss_Hit:
  assumes k: "ready k" and sh: "shape_ok k A" and co: "coherent k A L" and miss: "\<And>w t. \<not> hit k A a w t"
  shows "triple (St k A L) (handle_miss rnd a (addr_tag k a) (addr_set k a) ev) (\<lambda>(w, e). Hit k (view k A L) a w)"
  unfolding handle_miss_def
proof (rule triple_bind [OF pick_victim_bound [OF k]], rule triple_pure)
  fix w assume w: "w < c_ways k"
  have s: "addr_set k a < c_sets k" using k addr_bounds(1) [of k a] by (simp add: ready_def)
  show "triple (St k A L) (do {
        l \<leftarrow> reads (\<lambda>c. line_at c (addr_set k a) w);
        whenever (l_valid l) (do { writes (\<lambda>c. c\<lparr>c_evictions := c_evictions c + 1\<rparr>); writeback (addr_set k a) w });
        let ev = (if l_valid l then ev\<lparr>ev_evicted := True, ev_evicted_base := l_base l, ev_wrote_back := l_dirty l\<rparr> else ev);
        refill (addr_set k a) w a (addr_tag k a);
        writes (\<lambda>c. c\<lparr>c_stall_cycles := c_stall_cycles c + ucast (c_miss_penalty c)\<rparr>);
        p \<leftarrow> reads c_miss_penalty;
        ret (w, ev\<lparr>ev_stall := p\<rparr>) }) (\<lambda>(w, e). Hit k (view k A L) a w)"
    unfolding Let_def
    by (rule triple_bind [OF line_read [OF k s w]], rule triple_bind [OF evict_Free [OF k w sh co miss]],
        rule triple_bind [OF refill_Hit [OF k w]], rule triple_bind [OF hit_writes(1)], simp, simp,
        rule triple_bind [OF triple_reads], assumption, rule triple_ret, simp)
qed

lemma Hit_triple:
  "(\<And>A L t. shape_ok k A \<Longrightarrow> coherent k A L \<Longrightarrow> view k A L = V \<Longrightarrow> hit k A a w t \<Longrightarrow> triple (St k A L) m Q) \<Longrightarrow>
    triple (Hit k V a w) m Q"
  by (auto simp: triple_def Hit_def)

lemma HitI: "St k A L p \<Longrightarrow> shape_ok k A \<Longrightarrow> coherent k A L \<Longrightarrow> view k A L = V \<Longrightarrow> hit k A a w t \<Longrightarrow> Hit k V a w p"
  unfolding Hit_def by blast

lemma OkI: "St k A L p \<Longrightarrow> shape_ok k A \<and> coherent k A L \<and> view k A L = V \<Longrightarrow> Ok k V p"
  unfolding Ok_def by blast

lemma triple_to_Ok:
  "triple P m (\<lambda>_. St k A L) \<Longrightarrow> shape_ok k A \<and> coherent k A L \<and> view k A L = V \<Longrightarrow> triple P m (\<lambda>_. Ok k V)"
  by (auto simp: triple_def intro: OkI)

lemma touch_Hit:
  assumes k: "ready k"
  shows "triple (Hit k V a w) (touch (addr_set k a) w) (\<lambda>_. Hit k V a w)"
proof (rule Hit_triple)
  fix A L t assume sh: "shape_ok k A" and co: "coherent k A L" and v: "view k A L = V" and h: "hit k A a w t"
  have t: "A (addr_set k a, w) = Some t" using h by (simp add: hit_def)
  have stamp: "triple (St k A L) (do {
      writes (\<lambda>c. c\<lparr>c_clock := c_clock c + 1\<rparr>);
      n \<leftarrow> reads c_clock;
      writes (set_line (addr_set k a) w (\<lambda>l. l\<lparr>l_stamp := n\<rparr>)) }) (\<lambda>_. St k A L)"
    by (rule triple_bind, rule st_writes, simp, simp, rule triple_bind [OF triple_reads], assumption,
        rule st_set_line(1) [where A = A and t = t, OF k shape_okD(1,2) [OF sh t] t])
  have "triple (St k A L) (touch (addr_set k a) w) (\<lambda>_. St k A L)"
    unfolding touch_def whenever_def
    by (rule triple_bind [OF triple_reads], assumption) (auto intro: stamp triple_ret)
  then show "triple (St k A L) (touch (addr_set k a) w) (\<lambda>_. Hit k V a w)"
    by (rule triple_weaken) (auto intro: HitI [OF _ sh co v h])
qed

lemma data_read:
  assumes k: "ready k"
  shows "triple (Hit k V a w) (reads (\<lambda>c. data_at c (addr_set k a) w (addr_off k a))) (\<lambda>v p. v = V a \<and> Ok k V p)"
proof (rule Hit_triple, rule triple_reads)
  fix A L t c b assume sh: "shape_ok k A" and co: "coherent k A L" and v: "view k A L = V"
    and h: "hit k A a w t" and st: "St k A L (c, b)"
  have "slots_of c (addr_set k a, w) = Some t" using h st by (simp add: hit_def St_def)
  from slot_line [OF this] have "t_data t (addr_off k a) = data_at c (addr_set k a) w (addr_off k a)"
    using St_geometry(4) [OF st k] addr_bounds(2) [of k a] k by (auto simp: ready_def)
  then show "data_at c (addr_set k a) w (addr_off k a) = V a \<and> Ok k V (c, b)"
    using view_hit [OF sh h, of L] v OkI [OF st, of V] sh co by simp
qed

lemma wr_St:
  assumes "ready k"
  shows "triple (St k A L) (do { wr \<leftarrow> reads c_bs_write; outside (wr a v) }) (\<lambda>_. St k A (L(a := v)))"
  unfolding triple_def
proof (intro allI impI)
  fix p assume p: "St k A L p"
  obtain c b where cb: "p = (c, b)" by (cases p)
  have "c_bs_write c = wr" using p assms St_fields [of c k] by (simp add: cb St_def ready_def)
  then show "St k A (L(a := v)) (exec (do { wr \<leftarrow> reads c_bs_write; outside (wr a v) }) p)"
    using p wr [of b a v] by (simp add: cb St_def)
qed

lemma store_line_Ok:
  assumes k: "ready k"
  shows "triple (Hit k V a w) (store_line (addr_set k a) w (addr_off k a) a v) (\<lambda>_. Ok k (V(a := v)))"
proof (rule Hit_triple)
  fix A L t assume sh: "shape_ok k A" and co: "coherent k A L" and V: "view k A L = V" and h: "hit k A a w t"
  have g: "geometry_ok k" using k by (simp add: ready_def)
  have t: "A (addr_set k a, w) = Some t" using h by (simp add: hit_def)
  let ?t = "t\<lparr>t_data := (t_data t)(addr_off k a := v)\<rparr>"
  let ?A = "A((addr_set k a, w) := Some ?t)"
  note sw = shape_okD(1,2) [OF sh t]
  have A2: "?A((addr_set k a, w) := Some (?t\<lparr>t_dirty := True\<rparr>)) = A((addr_set k a, w) := Some (?t\<lparr>t_dirty := True\<rparr>))"
    by simp
  have wback: "triple (St k ?A L) (writes (set_line (addr_set k a) w (\<lambda>l. l\<lparr>l_dirty := True\<rparr>))) (\<lambda>_. Ok k (V(a := v)))"
  proof (rule triple_to_Ok)
    show "triple (St k ?A L) (writes (set_line (addr_set k a) w (\<lambda>l. l\<lparr>l_dirty := True\<rparr>)))
        (\<lambda>_. St k (?A((addr_set k a, w) := Some (?t\<lparr>t_dirty := True\<rparr>))) L)"
      by (rule st_set_line(2) [OF k sw]) simp
  qed (unfold A2, use store_slot(1) [OF g sh h co] V in blast)
  have through: "triple (St k ?A L) (do {
       wr \<leftarrow> reads c_bs_write;
       outside (wr a v);
       writes (\<lambda>c. c\<lparr>c_bytes_out := c_bytes_out c + 1\<rparr>) }) (\<lambda>_. Ok k (V(a := v)))"
  proof (rule triple_to_Ok)
    show "triple (St k ?A L) (do {
       wr \<leftarrow> reads c_bs_write;
       outside (wr a v);
       writes (\<lambda>c. c\<lparr>c_bytes_out := c_bytes_out c + 1\<rparr>) }) (\<lambda>_. St k ?A (L(a := v)))"
      unfolding bind_assoc [symmetric] by (rule triple_bind [OF wr_St [OF k]], rule st_writes) simp_all
  qed (use store_slot(2) [OF g sh h co] V in blast)
  show "triple (St k A L) (store_line (addr_set k a) w (addr_off k a) a v) (\<lambda>_. Ok k (V(a := v)))"
    unfolding store_line_def
    by (rule triple_bind [OF st_store [where A = A and t = t, OF k sw addr_bounds(2) [OF g] t]],
        rule triple_bind [OF triple_reads], assumption, rule triple_if, rule through, rule wback)
qed

definition Miss :: "'b cache \<Rightarrow> (u16 \<Rightarrow> u8) \<Rightarrow> u16 \<Rightarrow> 'b cache \<times> 'b \<Rightarrow> bool" where
  "Miss k V a p \<longleftrightarrow> (\<exists>A L. St k A L p \<and> shape_ok k A \<and> coherent k A L \<and> view k A L = V \<and> (\<forall>w t. \<not> hit k A a w t))"

lemma decode_read: "ready k \<Longrightarrow> triple (Ok k V) (reads (\<lambda>c. cache_decode c a))
    (\<lambda>r p. r = (addr_tag k a, addr_set k a, addr_off k a) \<and> Ok k V p)"
  by (intro triple_reads) (auto simp: Ok_def St_def cache_decode_def dest: St_fields)

lemma find_read:
  assumes k: "ready k"
  shows "triple (Ok k V) (reads (\<lambda>c. find_way c a)) (\<lambda>r p. case r of
     Some w \<Rightarrow> Hit k V a w p
   | None \<Rightarrow> Miss k V a p)"
proof (rule Ok_triple, rule triple_reads)
  fix A L c b assume sh: "shape_ok k A" and co: "coherent k A L" and v: "view k A L = V" and st: "St k A L (c, b)"
  show "case find_way c a of
     Some w \<Rightarrow> Hit k V a w (c, b)
   | None \<Rightarrow> Miss k V a (c, b)"
  proof (cases "lookup k A a")
    case None
    then have "\<forall>w t. \<not> hit k A a w t" using lookup_None [OF sh] by blast
    with None sh co v st show ?thesis
      by (simp add: find_way_lookup [OF st k] Miss_def) blast
  next
    case (Some w)
    then obtain t where "hit k A a w t" using lookup_Some [OF sh] by blast
    with Some show ?thesis by (simp add: find_way_lookup [OF st k] HitI [OF st sh co v])
  qed
qed

lemma found_triple:
  assumes "\<And>w. triple (Hit k V a w) (f w) Q" "triple (Miss k V a) m Q"
  shows "triple (\<lambda>p. case x of Some w \<Rightarrow> Hit k V a w p | None \<Rightarrow> Miss k V a p)
    (case x of Some w \<Rightarrow> f w | None \<Rightarrow> m) Q"
  using assms by (cases x) simp_all

lemma miss_writes:
  assumes "\<And>c. frame (f c) = frame c" "\<And>c. slots_of (f c) = slots_of c"
  shows "triple (Miss k V a) (writes f) (\<lambda>_. Miss k V a)"
  using assms by (auto simp: triple_def Miss_def St_def)

lemma Miss_triple:
  "(\<And>A L. shape_ok k A \<Longrightarrow> coherent k A L \<Longrightarrow> view k A L = V \<Longrightarrow> (\<And>w t. \<not> hit k A a w t) \<Longrightarrow>
     triple (St k A L) m Q) \<Longrightarrow> triple (Miss k V a) m Q"
  by (auto simp: triple_def Miss_def)

lemma handle_miss_Miss:
  assumes k: "ready k"
  shows "triple (Miss k V a) (handle_miss rnd a (addr_tag k a) (addr_set k a) ev) (\<lambda>(w, e). Hit k V a w)"
proof (rule Miss_triple)
  fix A L assume a: "shape_ok k A" "coherent k A L" "view k A L = V" "\<And>w t. \<not> hit k A a w t"
  show "triple (St k A L) (handle_miss rnd a (addr_tag k a) (addr_set k a) ev) (\<lambda>(w, e). Hit k V a w)"
    unfolding a(3) [symmetric] by (rule handle_miss_Hit [OF k a(1,2,4)])
qed

lemma cache_read_Ok:
  assumes k: "ready k"
  shows "triple (Ok k V) (cache_read rnd a) (\<lambda>(v, e) p. v = V a \<and> Ok k V p)"
  unfolding cache_read_def
proof (rule triple_bind [OF decode_read [OF k]], rule triple_pure, clarsimp simp only: prod.case Let_def,
    rule triple_bind [OF hit_writes(2)], simp, simp, rule triple_bind [OF find_read [OF k]],
    rule found_triple)
  fix w
  show "triple (Hit k V a w) (do {
         writes (\<lambda>c. c\<lparr>c_read_hit := c_read_hit c + 1\<rparr>);
         touch (addr_set k a) w;
         v \<leftarrow> reads (\<lambda>c. data_at c (addr_set k a) w (addr_off k a));
         ret (v, (ev_init (addr_set k a) (addr_tag k a))\<lparr>ev_hit := True, ev_way := w\<rparr>) })
      (\<lambda>(v, e) p. v = V a \<and> Ok k V p)"
    by (rule triple_bind [OF hit_writes(1)], simp, simp, rule triple_bind [OF touch_Hit [OF k]],
        rule triple_bind [OF data_read [OF k]], rule triple_ret, simp)
next
  show "triple (Miss k V a) (do {
         writes (\<lambda>c. c\<lparr>c_read_miss := c_read_miss c + 1\<rparr>);
         (w, ev) \<leftarrow> handle_miss rnd a (addr_tag k a) (addr_set k a) (ev_init (addr_set k a) (addr_tag k a));
         v \<leftarrow> reads (\<lambda>c. data_at c (addr_set k a) w (addr_off k a));
         ret (v, ev\<lparr>ev_way := w\<rparr>) }) (\<lambda>(v, e) p. v = V a \<and> Ok k V p)"
    by (rule triple_bind [OF miss_writes], simp, simp, rule triple_bind [OF handle_miss_Miss [OF k]],
        clarsimp, rule triple_bind [OF data_read [OF k]], rule triple_ret, simp)
qed

lemma miss_around:
  assumes k: "ready k"
  shows "triple (Miss k V a) (do { wr \<leftarrow> reads c_bs_write; outside (wr a v) }) (\<lambda>_. Ok k (V(a := v)))"
  unfolding triple_def
proof (intro allI impI)
  fix p assume "Miss k V a p"
  then obtain A L where st: "St k A L p" and sh: "shape_ok k A" and co: "coherent k A L" and V: "view k A L = V"
    and miss: "\<And>w t. \<not> hit k A a w t" by (auto simp: Miss_def)
  have "geometry_ok k" using k by (simp add: ready_def)
  from store_around [OF this sh co miss, of v] V sh
  show "Ok k (V(a := v)) (exec (do { wr \<leftarrow> reads c_bs_write; outside (wr a v) }) p)"
    by (intro OkI [OF tripleD [OF wr_St [OF k] st]]) simp
qed

lemma cache_write_Ok:
  assumes k: "ready k"
  shows "triple (Ok k V) (cache_write rnd a v) (\<lambda>e. Ok k (V(a := v)))"
  unfolding cache_write_def
proof (rule triple_bind [OF decode_read [OF k]], rule triple_pure, clarsimp simp only: prod.case Let_def,
    rule triple_bind [OF hit_writes(2)], simp, simp, rule triple_bind [OF find_read [OF k]],
    rule found_triple)
  fix w
  show "triple (Hit k V a w) (do {
         writes (\<lambda>c. c\<lparr>c_write_hit := c_write_hit c + 1\<rparr>);
         touch (addr_set k a) w;
         store_line (addr_set k a) w (addr_off k a) a v;
         ret ((ev_init (addr_set k a) (addr_tag k a))\<lparr>ev_hit := True, ev_way := w\<rparr>) })
      (\<lambda>e. Ok k (V(a := v)))"
    by (rule triple_bind [OF hit_writes(1)], simp, simp, rule triple_bind [OF touch_Hit [OF k]],
        rule triple_bind [OF store_line_Ok [OF k]], rule triple_ret)
next
  have around: "triple (Miss k V a) (do {
           wr \<leftarrow> reads c_bs_write;
           outside (wr a v);
           writes (\<lambda>c. c\<lparr>c_bytes_out := c_bytes_out c + 1,
             c_stall_cycles := c_stall_cycles c + ucast (c_miss_penalty c)\<rparr>);
           p \<leftarrow> reads c_miss_penalty;
           ret (ev\<lparr>ev_stall := p\<rparr>) }) (\<lambda>e. Ok k (V(a := v)))" for ev
    unfolding bind_assoc [of "reads c_bs_write" "\<lambda>wr. outside (wr a v)", symmetric]
    by (rule triple_bind [OF miss_around [OF k]], rule triple_bind [OF hit_writes(2)], simp, simp,
        rule triple_bind [OF triple_reads], assumption, rule triple_ret)
  have alloc: "triple (Miss k V a) (do {
           (w, ev) \<leftarrow> handle_miss rnd a (addr_tag k a) (addr_set k a) ev0;
           store_line (addr_set k a) w (addr_off k a) a v;
           ret (ev\<lparr>ev_way := w\<rparr>) }) (\<lambda>e. Ok k (V(a := v)))" for ev0
    by (rule triple_bind [OF handle_miss_Miss [OF k]], clarsimp, rule triple_bind [OF store_line_Ok [OF k]],
        rule triple_ret)
  show "triple (Miss k V a) (do {
         writes (\<lambda>c. c\<lparr>c_write_miss := c_write_miss c + 1\<rparr>);
         alloc \<leftarrow> reads c_write_alloc;
         if \<not> alloc then do {
           wr \<leftarrow> reads c_bs_write;
           outside (wr a v);
           writes (\<lambda>c. c\<lparr>c_bytes_out := c_bytes_out c + 1,
             c_stall_cycles := c_stall_cycles c + ucast (c_miss_penalty c)\<rparr>);
           p \<leftarrow> reads c_miss_penalty;
           ret ((ev_init (addr_set k a) (addr_tag k a))\<lparr>ev_stall := p\<rparr>) }
         else do {
           (w, ev) \<leftarrow> handle_miss rnd a (addr_tag k a) (addr_set k a) (ev_init (addr_set k a) (addr_tag k a));
           store_line (addr_set k a) w (addr_off k a) a v;
           ret (ev\<lparr>ev_way := w\<rparr>) } }) (\<lambda>e. Ok k (V(a := v)))"
    by (rule triple_bind [OF miss_writes], simp, simp, rule triple_bind [OF triple_reads], assumption,
        rule triple_if, rule around, rule alloc)
qed
section \<open>Maintenance\<close>

lemma triple_for_each:
  assumes "\<And>D i. i \<in> set xs \<Longrightarrow> triple (P D) (f i) (\<lambda>_. P (insert i D))"
  shows "triple (P D) (for_each xs f) (\<lambda>_. P (D \<union> set xs))"
  using assms
proof (induction xs arbitrary: D)
  case Nil
  show ?case by (auto simp: triple_def)
next
  case (Cons i xs)
  have "insert i D \<union> set xs = D \<union> set (i # xs)" by auto
  then show ?case
    using triple_bind [OF Cons.prems [of i D] Cons.IH [of "insert i D"]] Cons.prems by simp
qed

lemma all_ways_triple:
  assumes f: "\<And>s w D. s < c_sets k \<Longrightarrow> w < c_ways k \<Longrightarrow> triple (P D) (f s w) (\<lambda>_. P (insert (s, w) D))"
    and fr: "\<And>D p. P D p \<Longrightarrow> frame (fst p) = frame k"
  shows "triple (P {}) (all_ways f) (\<lambda>_. P ({s. s < c_sets k} \<times> {w. w < c_ways k}))"
proof -
  have inner: "triple (P D) (for_each (upto_u32 (c_ways k)) (f s)) (\<lambda>_. P (D \<union> {s} \<times> {w. w < c_ways k}))"
    if "s < c_sets k" for s D
  proof -
    have "insert (s, w) (D \<union> {s} \<times> W) = D \<union> {s} \<times> insert w W" for w W by auto
    then have "triple (P (D \<union> {s} \<times> W)) (f s w) (\<lambda>_. P (D \<union> {s} \<times> insert w W))" if "w \<in> set (upto_u32 (c_ways k))" for w W
      using f [OF \<open>s < c_sets k\<close>, of w "D \<union> {s} \<times> W"] that by (simp add: set_upto_u32)
    from triple_for_each [where P = "\<lambda>W. P (D \<union> {s} \<times> W)" and D = "{}" and f = "f s" and xs = "upto_u32 (c_ways k)", OF this]
    show ?thesis by (simp add: set_upto_u32)
  qed
  have eq: "insert s D \<times> {w. w < c_ways k} = D \<times> {w. w < c_ways k} \<union> {s} \<times> {w. w < c_ways k}" for s D by auto
  have "triple (P (D \<times> {w. w < c_ways k})) (for_each (upto_u32 (c_ways k)) (f s))
      (\<lambda>_. P (insert s D \<times> {w. w < c_ways k}))" if "s \<in> set (upto_u32 (c_sets k))" for s D
    using inner [of s "D \<times> {w. w < c_ways k}"] that unfolding eq [of s D] by (simp only: set_upto_u32 mem_Collect_eq)
  from triple_for_each [where P = "\<lambda>D. P (D \<times> {w. w < c_ways k})" and D = "{}" and xs = "upto_u32 (c_sets k)", OF this]
  have outer: "triple (P {}) (for_each (upto_u32 (c_sets k)) (\<lambda>s. for_each (upto_u32 (c_ways k)) (f s)))
      (\<lambda>_. P ({s. s < c_sets k} \<times> {w. w < c_ways k}))"
    by (simp add: set_upto_u32)
  show ?thesis
    unfolding triple_def
  proof (intro allI impI)
    fix p assume p: "P {} p"
    then have "c_sets (fst p) = c_sets k" "c_ways (fst p) = c_ways k" using St_fields [OF fr] by blast+
    then show "P ({s. s < c_sets k} \<times> {w. w < c_ways k}) (exec (all_ways f) p)"
      using tripleD [OF outer p] by (cases p) (simp add: all_ways_def)
  qed
qed

text \<open>\<open>D\<close> is the set of places the loop has already dealt with.\<close>

definition Clean :: "'b cache \<Rightarrow> (u16 \<Rightarrow> u8) \<Rightarrow> (u32 \<times> u32) set \<Rightarrow> 'b cache \<times> 'b \<Rightarrow> bool" where
  "Clean k V D p \<longleftrightarrow> (\<exists>A L. St k A L p \<and> shape_ok k A \<and> coherent k A L \<and> view k A L = V \<and>
     (\<forall>q\<in>D. \<forall>t. A q = Some t \<longrightarrow> \<not> t_dirty t))"

definition Gone :: "'b cache \<Rightarrow> (u16 \<Rightarrow> u8) \<Rightarrow> (u32 \<times> u32) set \<Rightarrow> 'b cache \<times> 'b \<Rightarrow> bool" where
  "Gone k V D p \<longleftrightarrow> (\<exists>A L. St k A L p \<and> shape_ok k A \<and> coherent k A L \<and> view k A L = V \<and> (\<forall>q\<in>D. A q = None))"

definition Dropped :: "'b cache \<Rightarrow> (u16 \<Rightarrow> u8) \<Rightarrow> (u32 \<times> u32) set \<Rightarrow> 'b cache \<times> 'b \<Rightarrow> bool" where
  "Dropped k L D p \<longleftrightarrow> (\<exists>A. St k A L p \<and> (\<forall>q\<in>D. A q = None))"

text \<open>Writing one line back leaves it clean, or absent.\<close>

definition cleaned :: "slots \<Rightarrow> u32 \<times> u32 \<Rightarrow> slots \<Rightarrow> bool" where
  "cleaned A q A' \<longleftrightarrow> (\<forall>x. x \<noteq> q \<longrightarrow> A' x = A x) \<and> (\<forall>t. A' q = Some t \<longrightarrow> \<not> t_dirty t) \<and>
    (A q = None \<longrightarrow> A' q = None)"

lemma cleanedD:
  assumes "cleaned A q A'"
  shows "x \<noteq> q \<Longrightarrow> A' x = A x" "A' q = Some t \<Longrightarrow> \<not> t_dirty t" "A q = None \<Longrightarrow> A' q = None"
  using assms unfolding cleaned_def by blast+

lemma writeback_cases:
  assumes k: "ready k" and sw: "s < c_sets k" "w < c_ways k"
    and sh: "shape_ok k A" and co: "coherent k A L" and v: "view k A L = V"
  shows "triple (St k A L) (writeback s w) (\<lambda>_ p. \<exists>A' L'. St k A' L' p \<and> shape_ok k A' \<and> coherent k A' L' \<and>
    view k A' L' = V \<and> cleaned A (s, w) A')"
proof (cases "A (s, w)")
  case None
  then have "cleaned A (s, w) A" by (simp add: cleaned_def)
  then show ?thesis
    using sh co v by (intro triple_weaken [OF st_writeback_None [where A = A, OF k sw None]]) blast+
next
  case (Some t)
  have g: "geometry_ok k" using k by (simp add: ready_def)
  let ?A = "A((s, w) := Some (t\<lparr>t_dirty := False\<rparr>))" and ?L = "if t_dirty t then spill k t L else L"
  have "shape_ok k ?A \<and> coherent k ?A ?L \<and> view k ?A ?L = V"
  proof (cases "t_dirty t")
    case True
    then show ?thesis using clean_slot [OF g sh co Some] v by simp
  next
    case False
    then have "?A = A" using Some by (auto simp: fun_eq_iff)
    with False sh co v show ?thesis by simp
  qed
  moreover have "cleaned A (s, w) ?A" using Some by (simp add: cleaned_def)
  ultimately show ?thesis
    by (intro triple_weaken [OF st_writeback [OF k sh Some]]) blast+
qed

lemma writeback_Clean:
  assumes k: "ready k" and sw: "s < c_sets k" "w < c_ways k"
  shows "triple (Clean k V D) (writeback s w) (\<lambda>_. Clean k V (insert (s, w) D))"
  unfolding triple_def
proof (intro allI impI)
  fix p assume "Clean k V D p"
  then obtain A L where st: "St k A L p" and a: "shape_ok k A" "coherent k A L" "view k A L = V"
    and D: "\<forall>q\<in>D. \<forall>t. A q = Some t \<longrightarrow> \<not> t_dirty t" unfolding Clean_def by blast
  from tripleD [OF writeback_cases [OF k sw a] st] obtain A' L' where
    st': "St k A' L' (exec (writeback s w) p)" and a': "shape_ok k A'" "coherent k A' L'" "view k A' L' = V"
    and q: "cleaned A (s, w) A'" by blast
  have "\<not> t_dirty t" if "A' x = Some t" "x \<in> insert (s, w) D" for x t
    using that D cleanedD(1,2) [OF q] by (cases "x = (s, w)") auto
  with st' a' show "Clean k V (insert (s, w) D) (exec (writeback s w) p)"
    unfolding Clean_def by blast
qed

text \<open>Invalidating a line once it is clean.\<close>

lemma drop_Gone:
  assumes k: "ready k" and sw: "s < c_sets k" "w < c_ways k"
    and a: "shape_ok k A" "coherent k A L" "view k A L = V" and cl: "\<And>t. A (s, w) = Some t \<Longrightarrow> \<not> t_dirty t"
  shows "triple (St k A L) (writes (set_line s w (\<lambda>l. l\<lparr>l_valid := False\<rparr>)))
    (\<lambda>_ p. \<exists>A'. St k A' L p \<and> shape_ok k A' \<and> coherent k A' L \<and> view k A' L = V \<and> A' = A((s, w) := None))"
proof -
  have g: "geometry_ok k" using k by (simp add: ready_def)
  from drop_slot [OF g a(1,2) cl] a(3) show ?thesis
    by (intro triple_weaken [OF st_drop(1) [OF k sw]]) blast+
qed

lemma evict_Gone:
  assumes k: "ready k" and sw: "s < c_sets k" "w < c_ways k"
  shows "triple (Gone k V D) (do { writeback s w; writes (set_line s w (\<lambda>l. l\<lparr>l_valid := False\<rparr>)) })
    (\<lambda>_. Gone k V (insert (s, w) D))"
  unfolding triple_def
proof (intro allI impI)
  fix p assume "Gone k V D p"
  then obtain A L where st: "St k A L p" and a: "shape_ok k A" "coherent k A L" "view k A L = V"
    and D: "\<forall>q\<in>D. A q = None" unfolding Gone_def by blast
  from tripleD [OF writeback_cases [OF k sw a] st] obtain A' L' where
    st': "St k A' L' (exec (writeback s w) p)" and a': "shape_ok k A'" "coherent k A' L'" "view k A' L' = V"
    and q: "cleaned A (s, w) A'" by blast
  have cl: "\<not> t_dirty t" if "A' (s, w) = Some t" for t using that q by (simp add: cleaned_def)
  have n: "(A'((s, w) := None)) x = None" if "x \<in> insert (s, w) D" for x
    using that D cleanedD(1) [OF q] by (cases "x = (s, w)") auto
  from tripleD [OF drop_Gone [OF k sw a' cl] st'] obtain A2 where
    "St k A2 L' (exec (writes (set_line s w (\<lambda>l. l\<lparr>l_valid := False\<rparr>))) (exec (writeback s w) p))"
    "shape_ok k A2" "coherent k A2 L'" "view k A2 L' = V" "A2 = A'((s, w) := None)" by blast
  with n show "Gone k V (insert (s, w) D)
      (exec (do { writeback s w; writes (set_line s w (\<lambda>l. l\<lparr>l_valid := False\<rparr>)) }) p)"
    unfolding Gone_def run_bind_split by blast
qed

lemma view_clean:
  assumes g: "geometry_ok k" and sh: "shape_ok k A" and co: "coherent k A L" and "\<And>q t. A q = Some t \<Longrightarrow> \<not> t_dirty t"
  shows "view k A L = L"
  using assms(4) hit_coherent [OF g sh co] by (intro view_eqI [OF sh]) (auto simp: hit_def)

lemma shape_all: "shape_ok k A \<Longrightarrow> A q \<noteq> None \<Longrightarrow> q \<in> {s. s < c_sets k} \<times> {w. w < c_ways k}"
  by (cases q) (auto simp: shape_ok_def)

text \<open>The three whole-cache operations, with what they do to memory.\<close>

lemma cache_clean_Clean:
  assumes k: "ready k"
  shows "triple (Ok k V) cache_clean (\<lambda>_. Clean k V ({s. s < c_sets k} \<times> {w. w < c_ways k}))"
proof (rule triple_weaken)
  show "triple (Clean k V {}) cache_clean (\<lambda>_. Clean k V ({s. s < c_sets k} \<times> {w. w < c_ways k}))"
    unfolding cache_clean_def
    by (rule all_ways_triple [OF writeback_Clean [OF k]]) (auto simp: Clean_def St_def)
qed (auto simp: Clean_def Ok_def)

lemma cache_clean_Ok:
  assumes k: "ready k"
  shows "triple (Ok k V) cache_clean (\<lambda>_ p. Ok k V p \<and> look (snd p) = V)"
proof -
  have g: "geometry_ok k" using k by (simp add: ready_def)
  show ?thesis
  proof (rule triple_weaken [OF cache_clean_Clean [OF k]])
    fix p assume "Clean k V ({s. s < c_sets k} \<times> {w. w < c_ways k}) p"
    then obtain A L where st: "St k A L p" and a: "shape_ok k A" "coherent k A L" "view k A L = V"
      and c: "\<And>q t. q \<in> {s. s < c_sets k} \<times> {w. w < c_ways k} \<Longrightarrow> A q = Some t \<Longrightarrow> \<not> t_dirty t"
      unfolding Clean_def by blast
    have "\<not> t_dirty t" if "A q = Some t" for q t using c shape_all [OF a(1), of q] that by simp
    then have "view k A L = L" by (rule view_clean [OF g a(1,2)])
    with st a OkI [OF st, of V] show "Ok k V p \<and> look (snd p) = V" by (simp add: St_def)
  qed
qed

lemma cache_flush_Ok:
  assumes k: "ready k"
  shows "triple (Ok k V) cache_flush (\<lambda>_ p. Ok k V p \<and> look (snd p) = V \<and> slots_of (fst p) = (\<lambda>_. None))"
proof -
  have g: "geometry_ok k" using k by (simp add: ready_def)
  have "triple (Gone k V {}) cache_flush (\<lambda>_. Gone k V ({s. s < c_sets k} \<times> {w. w < c_ways k}))"
    unfolding cache_flush_def
    by (rule all_ways_triple [OF evict_Gone [OF k]]) (auto simp: Gone_def St_def)
  then show ?thesis
  proof (rule triple_weaken)
    show "Gone k V {} p" if "Ok k V p" for p using that by (auto simp: Gone_def Ok_def)
    fix p assume "Gone k V ({s. s < c_sets k} \<times> {w. w < c_ways k}) p"
    then obtain A L where st: "St k A L p" and a: "shape_ok k A" "coherent k A L" "view k A L = V"
      and c: "\<forall>q\<in>{s. s < c_sets k} \<times> {w. w < c_ways k}. A q = None"
      unfolding Gone_def by blast
    have n: "A q = None" for q using c shape_all [OF a(1), of q] by (cases "A q = None") auto
    then have "view k A L = L" by (intro view_clean [OF g a(1,2)]) simp
    with st a n OkI [OF st, of V] show "Ok k V p \<and> look (snd p) = V \<and> slots_of (fst p) = (\<lambda>_. None)"
      by (simp add: St_def fun_eq_iff)
  qed
qed

lemma Dropped_all:
  assumes k: "ready k" and p: "Dropped k L ({s. s < c_sets k} \<times> {w. w < c_ways k}) p"
  shows "Ok k L p \<and> look (snd p) = L \<and> slots_of (fst p) = (\<lambda>_. None)"
proof -
  obtain A where st: "St k A L p" and c: "\<forall>q\<in>{s. s < c_sets k} \<times> {w. w < c_ways k}. A q = None"
    using p unfolding Dropped_def by blast
  have "A (s, w) = None" for s w
  proof (cases "s < c_sets k \<and> w < c_ways k")
    case True
    then show ?thesis using c by simp
  next
    case False
    have st2: "St k A L (fst p, snd p)" using st by simp
    then have "A = slots_of (fst p)" by (simp add: St_def)
    with False St_geometry(2,3) [OF st2 k] show ?thesis by (auto simp: slots_of_def)
  qed
  then have n: "A = (\<lambda>_. None)" by (auto simp: fun_eq_iff)
  then have "shape_ok k A" "coherent k A L" by (simp_all add: shape_ok_def coherent_def)
  moreover from this n have "view k A L = L" by (intro view_eqI) (auto simp: hit_def)
  ultimately show ?thesis using st n OkI [OF st, of L] by (simp add: St_def)
qed

lemma cache_invalidate_Ok:
  assumes k: "ready k"
  shows "triple (St k A L) cache_invalidate (\<lambda>_ p. Ok k L p \<and> look (snd p) = L \<and> slots_of (fst p) = (\<lambda>_. None))"
proof -
  have drop: "triple (Dropped k L D) (writes (set_line s w (\<lambda>l. l\<lparr>l_valid := False, l_dirty := False\<rparr>)))
      (\<lambda>_. Dropped k L (insert (s, w) D))" if sw: "s < c_sets k" "w < c_ways k" for s w D
    unfolding triple_def
  proof (intro allI impI)
    fix p assume "Dropped k L D p"
    then obtain A where st: "St k A L p" and D: "\<forall>q\<in>D. A q = None" by (auto simp: Dropped_def)
    from tripleD [OF st_drop(2) [OF k sw] st] D
    show "Dropped k L (insert (s, w) D) (exec (writes (set_line s w (\<lambda>l. l\<lparr>l_valid := False, l_dirty := False\<rparr>))) p)"
      unfolding Dropped_def by (auto intro!: exI [of _ "A((s, w) := None)"])
  qed
  have "triple (Dropped k L {}) cache_invalidate (\<lambda>_. Dropped k L ({s. s < c_sets k} \<times> {w. w < c_ways k}))"
    unfolding cache_invalidate_def
    by (rule all_ways_triple [OF drop]) (auto simp: Dropped_def St_def)
  then show ?thesis
  proof (rule triple_weaken)
    show "Dropped k L {} p" if "St k A L p" for p using that by (auto simp: Dropped_def)
  qed (rule Dropped_all [OF k])
qed

text \<open>The operations on the line that covers one address.\<close>

lemma addr_set_read: "ready k \<Longrightarrow> triple (Ok k V) (reads (\<lambda>c. addr_set c a)) (\<lambda>r p. r = addr_set k a \<and> Ok k V p)"
  by (intro triple_reads) (auto simp: Ok_def St_def dest: St_fields)

text \<open>Address \<open>a\<close> is up to date in memory.\<close>

definition Synced :: "'b cache \<Rightarrow> (u16 \<Rightarrow> u8) \<Rightarrow> u16 \<Rightarrow> 'b cache \<times> 'b \<Rightarrow> bool" where
  "Synced k V a p \<longleftrightarrow> Ok k V p \<and> look (snd p) a = V a"

lemma writeback_hit:
  assumes k: "ready k"
  shows "triple (Hit k V a w) (writeback (addr_set k a) w) (\<lambda>_ p. \<exists>A L. St k A L p \<and> shape_ok k A \<and> coherent k A L \<and>
    view k A L = V \<and> (\<exists>t. hit k A a w t \<and> \<not> t_dirty t) \<and> L a = V a)"
proof (rule Hit_triple)
  have g: "geometry_ok k" using k by (simp add: ready_def)
  fix A L t assume sh: "shape_ok k A" and co: "coherent k A L" and V: "view k A L = V" and h: "hit k A a w t"
  have t: "A (addr_set k a, w) = Some t" using h by (simp add: hit_def)
  let ?t = "t\<lparr>t_dirty := False\<rparr>"
  let ?A = "A((addr_set k a, w) := Some ?t)" and ?L = "if t_dirty t then spill k t L else L"
  have c: "shape_ok k ?A \<and> coherent k ?A ?L \<and> view k ?A ?L = V"
  proof (cases "t_dirty t")
    case True
    then show ?thesis using clean_slot [OF g sh co t] V by simp
  next
    case False
    then have "?A = A" using t by (auto simp: fun_eq_iff)
    with False sh co V show ?thesis by simp
  qed
  have h': "hit k ?A a w ?t" using h by (simp add: hit_def)
  then have "?L a = V a"
    using hit_coherent [OF g _ _ h', of ?L] view_hit [OF _ h', of ?L] c by simp
  with c h' show "triple (St k A L) (writeback (addr_set k a) w) (\<lambda>_ p. \<exists>A L. St k A L p \<and> shape_ok k A \<and> coherent k A L \<and>
    view k A L = V \<and> (\<exists>t. hit k A a w t \<and> \<not> t_dirty t) \<and> L a = V a)"
    by (intro triple_weaken [OF st_writeback [OF k sh t]]) (auto intro!: exI [of _ ?A] exI [of _ ?L] exI [of _ ?t])
qed

lemma Miss_Synced: "Miss k V a p \<Longrightarrow> Synced k V a p"
  unfolding Miss_def Synced_def Ok_def by (auto simp: view_miss St_def) 

lemma cache_clean_addr_Ok:
  assumes k: "ready k"
  shows "triple (Ok k V) (cache_clean_addr a) (\<lambda>_. Synced k V a)"
  unfolding cache_clean_addr_def
proof (rule triple_bind [OF addr_set_read [OF k]], rule triple_pure, clarify, rule triple_bind [OF find_read [OF k]],
    rule found_triple)
  fix w
  show "triple (Hit k V a w) (do { writeback (addr_set k a) w; ret True }) (\<lambda>_. Synced k V a)"
    by (rule triple_bind [OF writeback_hit [OF k]], rule triple_ret) (auto simp: Synced_def Ok_def St_def)
  show "triple (Miss k V a) (ret False) (\<lambda>_. Synced k V a)"
    by (rule triple_ret) (rule Miss_Synced)
qed

lemma cache_snoop_Ok:
  assumes k: "ready k"
  shows "triple (Ok k V) (cache_snoop a) (\<lambda>_ p. Synced k V a p \<and> Miss k V a p)"
  unfolding cache_snoop_def
proof (rule triple_bind [OF addr_set_read [OF k]], rule triple_pure, clarify, rule triple_bind [OF find_read [OF k]],
    rule found_triple)
  fix w
  show "triple (Miss k V a) (ret False) (\<lambda>_ p. Synced k V a p \<and> Miss k V a p)"
    by (rule triple_ret) (simp add: Miss_Synced)
  have g: "geometry_ok k" using k by (simp add: ready_def)
  have drop: "triple (\<lambda>p. \<exists>A L. St k A L p \<and> shape_ok k A \<and> coherent k A L \<and>
    view k A L = V \<and> (\<exists>t. hit k A a w t \<and> \<not> t_dirty t) \<and> L a = V a)
     (writes (set_line (addr_set k a) w (\<lambda>l. l\<lparr>l_valid := False\<rparr>))) (\<lambda>_. Miss k V a)"
    unfolding triple_def
  proof (intro allI impI, elim exE conjE)
    fix p A L t assume st: "St k A L p" and a: "shape_ok k A" "coherent k A L" "view k A L = V"
      and h: "hit k A a w t" "\<not> t_dirty t"
    have t: "A (addr_set k a, w) = Some t" using h by (simp add: hit_def)
    then have cl: "\<not> t_dirty u" if "A (addr_set k a, w) = Some u" for u using that h by simp
    have "\<not> hit k (A((addr_set k a, w) := None)) a w' t'" for w' t'
      using hit_unique [OF a(1) h(1), of w' t'] by (auto simp: hit_def)
    with tripleD [OF drop_Gone [OF k shape_okD(1,2) [OF a(1) t] a cl] st]
    show "Miss k V a (exec (writes (set_line (addr_set k a) w (\<lambda>l. l\<lparr>l_valid := False\<rparr>))) p)"
      unfolding Miss_def by blast
  qed
  show "triple (Hit k V a w) (do {
         writeback (addr_set k a) w;
         writes (set_line (addr_set k a) w (\<lambda>l. l\<lparr>l_valid := False\<rparr>));
         writes (\<lambda>c. c\<lparr>c_invalidations := c_invalidations c + 1\<rparr>);
         ret True }) (\<lambda>_ p. Synced k V a p \<and> Miss k V a p)"
    by (rule triple_bind [OF writeback_hit [OF k]], rule triple_bind [OF drop], rule triple_bind [OF miss_writes],
        simp, simp, rule triple_ret) (simp add: Miss_Synced)
qed

end
end
