(* ===== verification/Cache_Lines.thy ===== *)
theory Cache_Lines
  imports Cache_Refine
begin

text \<open>
  Which lines a cache can hold.  \<open>lines_in C n I\<close> bounds the lines resident at the indices \<open>I\<close> of a cache
  with \<open>n\<close>-byte lines by a set \<open>C\<close> of base addresses; every operation keeps the bound as long as it is asked for addresses
  whose line \<open>C\<close> admits.  Together with the invariant of \<open>Cache_Refine\<close> this is \<open>Safe\<close>: an address
  outside the bound can be read and stored in memory directly, past the cache, as the uncached
  device page is.
\<close>
unbundle bit_operations_syntax

section \<open>Which lines can be resident\<close>

definition lines_in :: "(u16 \<Rightarrow> bool) \<Rightarrow> u32 \<Rightarrow> nat set \<Rightarrow> 'b cache \<Rightarrow> bool" where
  "lines_in C n I c \<longleftrightarrow> c_line_bytes c = n \<and> (\<forall>i\<in>I. l_valid (c_line c i) \<longrightarrow> C (l_base (c_line c i)))"

text \<open>The indices a cache uses.\<close>

definition indices :: "'b cache \<Rightarrow> nat set" where
  "indices k = {line_index k s w | s w. s < c_sets k \<and> w < c_ways k}"

lemma lines_in_set_line:
  "lines_in C n I c \<Longrightarrow> (\<And>l. l_valid l \<longrightarrow> C (l_base l) \<Longrightarrow> l_valid (f l) \<longrightarrow> C (l_base (f l))) \<Longrightarrow>
    lines_in C n I (set_line s w f c)"
  by (simp add: lines_in_def set_line_def line_at_def line_index_def)

lemma lines_in_other [simp]:
  "lines_in C n I (set_data s w i v c) = lines_in C n I c"
  "lines_in C n I (c\<lparr>c_clock := t\<rparr>) = lines_in C n I c"
  "lines_in C n I (c\<lparr>c_reads := m\<rparr>) = lines_in C n I c" "lines_in C n I (c\<lparr>c_writes := m\<rparr>) = lines_in C n I c"
  "lines_in C n I (c\<lparr>c_read_hit := m\<rparr>) = lines_in C n I c" "lines_in C n I (c\<lparr>c_read_miss := m\<rparr>) = lines_in C n I c"
  "lines_in C n I (c\<lparr>c_write_hit := m\<rparr>) = lines_in C n I c" "lines_in C n I (c\<lparr>c_write_miss := m\<rparr>) = lines_in C n I c"
  "lines_in C n I (c\<lparr>c_evictions := m\<rparr>) = lines_in C n I c" "lines_in C n I (c\<lparr>c_writebacks := m\<rparr>) = lines_in C n I c"
  "lines_in C n I (c\<lparr>c_invalidations := m\<rparr>) = lines_in C n I c" "lines_in C n I (c\<lparr>c_stall_cycles := m\<rparr>) = lines_in C n I c"
  "lines_in C n I (c\<lparr>c_bytes_in := m\<rparr>) = lines_in C n I c" "lines_in C n I (c\<lparr>c_bytes_out := m\<rparr>) = lines_in C n I c"
  by (simp_all add: lines_in_def set_data_def)

lemma writeback_lines: "keeps (on_struct (lines_in C n I)) (writeback si w)"
  unfolding writeback_def by (intro keeps_rules) (simp_all add: lines_in_set_line)

lemma pick_victim_lines: "keeps (on_struct (lines_in C n I)) (pick_victim rnd si)"
  unfolding pick_victim_def by (intro keeps_rules)

lemma touch_lines: "keeps (on_struct (lines_in C n I)) (touch si w)"
  unfolding touch_def by (intro keeps_rules) (simp_all add: lines_in_set_line)

lemma store_line_lines: "keeps (on_struct (lines_in C n I)) (store_line si w off a v)"
  unfolding store_line_def by (intro keeps_rules) (simp_all add: lines_in_set_line)

lemma keeps_reads_bind:
  "(\<And>s. Q s \<Longrightarrow> keeps (on_struct Q) (g (f s))) \<Longrightarrow> keeps (on_struct Q) (reads f \<bind> g)"
  by (auto simp: keeps_def)

lemma refill_lines:
  assumes "C (a AND NOT (ucast (n - 1)))"
  shows "keeps (on_struct (lines_in C n I)) (refill si w a tag)"
  unfolding refill_def
proof (rule keeps_reads_bind)
  fix c :: "'a cache" assume "lines_in C n I c"
  then have "addr_base c a = a AND NOT (ucast (n - 1))" by (simp add: lines_in_def addr_base_def)
  then have "C (addr_base c a)" using assms by simp
  then show "keeps (on_struct (lines_in C n I)) (do {
     k \<leftarrow> reads c_line_bytes;
     for_each (upto_u32 k) (\<lambda>i. do {
       rd \<leftarrow> reads c_bs_read;
       v \<leftarrow> outside (rd (addr_base c a + ucast i));
       writes (set_data si w i v) });
     writes (set_line si w (\<lambda>l. l\<lparr>l_valid := True, l_dirty := False, l_tag := tag, l_base := addr_base c a\<rparr>));
     writes (\<lambda>c. c\<lparr>c_clock := c_clock c + 1\<rparr>);
     t \<leftarrow> reads c_clock;
     writes (set_line si w (\<lambda>l. l\<lparr>l_stamp := t\<rparr>));
     writes (\<lambda>c. c\<lparr>c_bytes_in := c_bytes_in c + ucast k\<rparr>) })"
    by (intro keeps_rules) (simp_all add: lines_in_set_line)
qed

lemma handle_miss_lines:
  assumes "C (a AND NOT (ucast (n - 1)))"
  shows "keeps (on_struct (lines_in C n I)) (handle_miss rnd a tag si ev)"
  unfolding handle_miss_def Let_def
  by (intro keeps_rules writeback_lines pick_victim_lines refill_lines [where C = C and a = a and n = n, OF assms]) simp_all

lemma access_lines:
  assumes "C (a AND NOT (ucast (n - 1)))"
  shows "keeps (on_struct (lines_in C n I)) (cache_read rnd a)" "keeps (on_struct (lines_in C n I)) (cache_write rnd a v)"
  unfolding cache_read_def cache_write_def Let_def
  by (intro keeps_rules handle_miss_lines [where C = C and a = a and n = n, OF assms] touch_lines store_line_lines; simp)+

lemma maintenance_lines:
  "keeps (on_struct (lines_in C n I)) cache_clean" "keeps (on_struct (lines_in C n I)) cache_flush"
  "keeps (on_struct (lines_in C n I)) cache_invalidate" "keeps (on_struct (lines_in C n I)) (cache_clean_addr a)"
  "keeps (on_struct (lines_in C n I)) (cache_snoop a)" "keeps (on_struct (lines_in C n I)) cache_reset_stats"
  unfolding cache_clean_def cache_flush_def cache_invalidate_def cache_clean_addr_def cache_snoop_def
    cache_reset_stats_def all_ways_def
  by (intro keeps_rules writeback_lines; simp add: lines_in_set_line)+

section \<open>Caching some addresses only\<close>

context backing_store
begin

definition Safe :: "(u16 \<Rightarrow> bool) \<Rightarrow> 'b cache \<Rightarrow> (u16 \<Rightarrow> u8) \<Rightarrow> 'b cache \<times> 'b \<Rightarrow> bool" where
  "Safe C k V p \<longleftrightarrow> Ok k V p \<and> lines_in C (c_line_bytes k) (indices k) (fst p)"

lemma Safe_triple:
  assumes "triple (Ok k V) m Q" "keeps (on_struct (lines_in C (c_line_bytes k) (indices k))) m"
  shows "triple (Safe C k V) m (\<lambda>r p. Q r p \<and> lines_in C (c_line_bytes k) (indices k) (fst p))"
  using assms by (simp add: triple_def keeps_def Safe_def)

lemma cache_read_Safe:
  assumes "ready k" "C (addr_base k a)"
  shows "triple (Safe C k V) (cache_read rnd a) (\<lambda>(v, e) p. v = V a \<and> Safe C k V p)"
proof -
  have "C (a AND NOT (ucast (c_line_bytes k - 1)))" using assms(2) by (simp add: addr_base_def)
  from Safe_triple [OF cache_read_Ok [OF assms(1)] access_lines(1) [where C = C and n = "c_line_bytes k" and I = "indices k", OF this]]
  show ?thesis by (rule triple_weaken) (auto simp: Safe_def)
qed

lemma cache_write_Safe:
  assumes "ready k" "C (addr_base k a)"
  shows "triple (Safe C k V) (cache_write rnd a v) (\<lambda>e. Safe C k (V(a := v)))"
proof -
  have "C (a AND NOT (ucast (c_line_bytes k - 1)))" using assms(2) by (simp add: addr_base_def)
  from Safe_triple [OF cache_write_Ok [OF assms(1)] access_lines(2) [where C = C and n = "c_line_bytes k" and I = "indices k", OF this]]
  show ?thesis by (rule triple_weaken) (auto simp: Safe_def)
qed

lemma reset_stats_Ok: "triple (Ok k V) cache_reset_stats (\<lambda>_. Ok k V)"
  unfolding cache_reset_stats_def by (intro Ok_triple triple_to_Ok [OF st_writes]) simp_all

lemma maintenance_Safe:
  assumes "ready k"
  shows "triple (Safe C k V) cache_clean (\<lambda>_ p. Safe C k V p \<and> look (snd p) = V)"
    "triple (Safe C k V) cache_flush (\<lambda>_ p. Safe C k V p \<and> look (snd p) = V)"
    "triple (Safe C k V) cache_reset_stats (\<lambda>_. Safe C k V)"
proof -
  note rules = Safe_triple [OF cache_clean_Ok [OF assms] maintenance_lines(1), of C V]
    Safe_triple [OF cache_flush_Ok [OF assms] maintenance_lines(2), of C V]
    Safe_triple [OF reset_stats_Ok maintenance_lines(6), of C k V]
  show "triple (Safe C k V) cache_clean (\<lambda>_ p. Safe C k V p \<and> look (snd p) = V)"
    by (rule triple_weaken [OF rules(1)]) (simp_all add: Safe_def)
  show "triple (Safe C k V) cache_flush (\<lambda>_ p. Safe C k V p \<and> look (snd p) = V)"
    by (rule triple_weaken [OF rules(2)]) (simp_all add: Safe_def)
  show "triple (Safe C k V) cache_reset_stats (\<lambda>_. Safe C k V)"
    by (rule triple_weaken [OF rules(3)]) (simp_all add: Safe_def)
qed

lemma Safe_empty:
  assumes k: "ready k" and s: "Ok k V (c, b)" and e: "slots_of c = Map.empty"
  shows "Safe C k V (c, b)"
proof -
  have f: "frame c = frame k" using s by (auto simp: Ok_def St_def)
  note g = St_fields(1-3) [OF f]
  have "\<not> l_valid (line_at c s w)" if "s < c_sets k" "w < c_ways k" for s w
    using slot_None [of c s w] e that g by simp
  then have "lines_in C (c_line_bytes k) (indices k) c"
    using g by (auto simp: lines_in_def indices_def line_at_def line_index_def)
  then show ?thesis using s by (simp add: Safe_def)
qed

lemma lines_none:
  assumes "lines_in (\<lambda>_. False) n (indices k) c" "frame c = frame k"
  shows "slots_of c = Map.empty"
proof
  fix q :: "u32 \<times> u32" obtain s w where q: "q = (s, w)" by (cases q)
  note g = St_fields(2,3) [OF assms(2)]
  have "\<not> l_valid (line_at c s w)" if "s < c_sets c" "w < c_ways c"
  proof -
    have "line_index c s w \<in> indices k" using that g by (auto simp: indices_def line_index_def)
    then show ?thesis using assms(1) by (simp add: lines_in_def line_at_def)
  qed
  then show "slots_of c q = None" by (simp add: q slots_of_def)
qed

lemma flush_empties:
  assumes "ready k"
  shows "triple (Safe C k V) cache_flush (\<lambda>_. Safe (\<lambda>_. False) k V)"
  unfolding triple_def
proof (intro allI impI)
  fix p assume "Safe C k V p"
  then have "Ok k V (exec cache_flush p)" "slots_of (fst (exec cache_flush p)) = Map.empty"
    using tripleD [OF cache_flush_Ok [OF assms], of V p] by (simp_all add: Safe_def)
  then show "Safe (\<lambda>_. False) k V (exec cache_flush p)"
    using Safe_empty [OF assms, of V "fst (exec cache_flush p)" "snd (exec cache_flush p)"] by simp
qed

lemma Safe_Miss:
  assumes "ready k" "Safe C k V (c, b)" "\<not> C (addr_base k a)"
  shows "Miss k V a (c, b)"
proof -
  have g: "geometry_ok k" using assms(1) by (simp add: ready_def)
  obtain A L where st: "St k A L (c, b)" and sh: "shape_ok k A" and rest: "coherent k A L" "view k A L = V"
    using assms(2) by (auto simp: Safe_def Ok_def)
  have "\<not> hit k A a w t" for w t
  proof
    assume h: "hit k A a w t"
    then have "slots_of c (addr_set k a, w) = Some t" using st by (simp add: hit_def St_def)
    from slot_line [OF this] have "l_valid (line_at c (addr_set k a) w)" "t_base t = l_base (line_at c (addr_set k a) w)"
      by simp_all
    moreover have "addr_set k a < c_sets k" "w < c_ways k" using sh h unfolding shape_ok_def hit_def by blast+
    then have "line_index c (addr_set k a) w \<in> indices k"
      using st St_fields(2) [of c k] by (auto simp: indices_def line_index_def St_def)
    ultimately have "C (t_base t)" using assms(2) by (auto simp: Safe_def lines_in_def line_at_def)
    with assms(3) show False using hit_base [OF g sh h] by simp
  qed
  with st sh rest show ?thesis by (auto simp: Miss_def)
qed

lemma Safe_past:
  assumes k: "ready k" and s: "Safe C k V (c, b)" and a: "\<not> C (addr_base k a)"
  shows "look b a = V a" "Safe C k (V(a := v)) (c, exec (wr a v) b)"
proof -
  have g: "geometry_ok k" using k by (simp add: ready_def)
  obtain A L where st: "St k A L (c, b)" and sh: "shape_ok k A" and co: "coherent k A L" and V: "view k A L = V"
    and miss: "\<And>w t. \<not> hit k A a w t" using Safe_Miss [OF assms] by (auto simp: Miss_def)
  have "lookup k A a = None" using lookup_None [OF sh, of a] miss by blast
  then show "look b a = V a" using st V by (auto simp: view_def St_def)
  have "St k A (L(a := v)) (c, exec (wr a v) b)" using st wr [of b a v] by (simp add: St_def)
  moreover from store_around [OF g sh co miss, of v] V sh
  have "shape_ok k A \<and> coherent k A (L(a := v)) \<and> view k A (L(a := v)) = V(a := v)" by simp
  ultimately have "Ok k (V(a := v)) (c, exec (wr a v) b)" by (rule OkI)
  then show "Safe C k (V(a := v)) (c, exec (wr a v) b)" using s by (simp add: Safe_def)
qed

lemma Safe_none: "ready k \<Longrightarrow> Safe (\<lambda>_. False) k V (c, b) \<Longrightarrow> look b = V"
  using Safe_past(1) [of k "\<lambda>_. False" V c b] by (auto simp: fun_eq_iff)

end

end
