(* ===== verification/Cache_Stale.thy ===== *)
theory Cache_Stale
  imports Cache_Lines
begin

text \<open>
  A cache whose memory changes behind its back, as the instruction cache of the modified Harvard model.
  As long as it holds no dirty line (\<open>clean_in\<close>) it stays a well-formed cache: a read returns the resident
  byte, however old, or the byte of memory; memory is never written; a flush or an invalidation brings it
  back to what memory holds.  The second half is about clean caches and the write policy: a clean cache
  presents memory, write-through keeps a cache clean, and write-back holds a store back.
\<close>
unbundle bit_operations_syntax

section \<open>Clean caches\<close>

definition clean_in :: "cache_wpol \<Rightarrow> nat set \<Rightarrow> 'b cache \<Rightarrow> bool" where
  "clean_in p I c \<longleftrightarrow> c_wpol c = p \<and> (\<forall>i\<in>I. l_valid (c_line c i) \<longrightarrow> \<not> l_dirty (c_line c i))"

lemma clean_in_set_line:
  "clean_in p I c \<Longrightarrow> (\<And>l. (l_valid l \<longrightarrow> \<not> l_dirty l) \<Longrightarrow> l_valid (f l) \<longrightarrow> \<not> l_dirty (f l)) \<Longrightarrow>
    clean_in p I (set_line s w f c)"
  by (simp add: clean_in_def set_line_def line_at_def line_index_def)

lemma clean_in_other [simp]:
  "clean_in p I (set_data s w i v c) = clean_in p I c"
  "clean_in p I (c\<lparr>c_clock := t\<rparr>) = clean_in p I c"
  "clean_in p I (c\<lparr>c_reads := m\<rparr>) = clean_in p I c" "clean_in p I (c\<lparr>c_writes := m\<rparr>) = clean_in p I c"
  "clean_in p I (c\<lparr>c_read_hit := m\<rparr>) = clean_in p I c" "clean_in p I (c\<lparr>c_read_miss := m\<rparr>) = clean_in p I c"
  "clean_in p I (c\<lparr>c_write_hit := m\<rparr>) = clean_in p I c" "clean_in p I (c\<lparr>c_write_miss := m\<rparr>) = clean_in p I c"
  "clean_in p I (c\<lparr>c_evictions := m\<rparr>) = clean_in p I c" "clean_in p I (c\<lparr>c_writebacks := m\<rparr>) = clean_in p I c"
  "clean_in p I (c\<lparr>c_invalidations := m\<rparr>) = clean_in p I c" "clean_in p I (c\<lparr>c_stall_cycles := m\<rparr>) = clean_in p I c"
  "clean_in p I (c\<lparr>c_bytes_in := m\<rparr>) = clean_in p I c" "clean_in p I (c\<lparr>c_bytes_out := m\<rparr>) = clean_in p I c"
  by (simp_all add: clean_in_def set_data_def)

lemma steps_clean:
  "keeps (on_struct (clean_in p I)) (writeback si w)" "keeps (on_struct (clean_in p I)) (pick_victim rnd si)"
  "keeps (on_struct (clean_in p I)) (touch si w)" "keeps (on_struct (clean_in p I)) (refill si w a tag)"
  unfolding writeback_def pick_victim_def touch_def refill_def
  by (intro keeps_rules; simp add: clean_in_set_line)+

lemma handle_miss_clean: "keeps (on_struct (clean_in p I)) (handle_miss rnd a tag si ev)"
  unfolding handle_miss_def Let_def by (intro keeps_rules steps_clean) simp_all

lemma cache_read_clean: "keeps (on_struct (clean_in p I)) (cache_read rnd a)"
  unfolding cache_read_def Let_def by (intro keeps_rules handle_miss_clean steps_clean; simp)

lemma store_line_clean: "keeps (on_struct (clean_in WPOL_THROUGH I)) (store_line si w off a v)"
  unfolding store_line_def keeps_def by (auto simp: clean_in_def set_data_def)

lemma cache_write_clean: "keeps (on_struct (clean_in WPOL_THROUGH I)) (cache_write rnd a v)"
  unfolding cache_write_def Let_def
  by (intro keeps_rules handle_miss_clean steps_clean store_line_clean; simp)

lemma maintenance_clean:
  "keeps (on_struct (clean_in p I)) cache_clean" "keeps (on_struct (clean_in p I)) cache_flush"
  "keeps (on_struct (clean_in p I)) (cache_clean_addr a)" "keeps (on_struct (clean_in p I)) (cache_snoop a)"
  "keeps (on_struct (clean_in p I)) cache_reset_stats"
  unfolding cache_clean_def cache_flush_def cache_clean_addr_def cache_snoop_def cache_reset_stats_def all_ways_def
  by (intro keeps_rules steps_clean; simp add: clean_in_set_line)+

text \<open>Writing a clean line back does nothing.\<close>

lemma writeback_nop:
  assumes "clean_in p I (fst x)" "line_index (fst x) si w \<in> I"
  shows "run_state (writeback si w) x = ((), x)"
  using assms by (cases x) (auto simp: writeback_def clean_in_def line_at_def)

section \<open>What a fill does to a stale cache\<close>

lemma fill_stale:
  fixes L :: "u16 \<Rightarrow> u8"
  assumes g: "geometry_ok k" and sh: "shape_ok k A" and w: "w < c_ways k" and miss: "\<And>w t. \<not> hit k A a w t"
  defines "A' \<equiv> A((addr_set k a, w) := Some (fetched k a L))"
  shows "shape_ok k A'" "hit k A' a w (fetched k a L)" "view k A' L x = view k A L x \<or> view k A' L x = L x"
    and "view k A' L a = L a"
proof -
  show sh': "shape_ok k A'"
    unfolding A'_def
    by (rule shape_ok_put [OF sh addr_bounds(1) [OF g] w])
      (use miss base_decode [OF g, of a] in \<open>auto simp: fetched_def hit_def\<close>)
  show h: "hit k A' a w (fetched k a L)" by (simp add: hit_def A'_def fetched_def)
  have at: "t_data (fetched k a L) (addr_off k y) = L y" if "addr_base k y = addr_base k a" for y
    using base_off [OF g, of y] addr_bounds(2) [OF g, of y] that by (simp add: fetched_def)
  show "view k A' L a = L a" using view_hit [OF sh' h] at [of a] by simp
  show "view k A' L x = view k A L x \<or> view k A' L x = L x"
  proof (cases "\<exists>w' t'. hit k A' x w' t'")
    case False
    then show ?thesis using view_miss [OF sh'] by blast
  next
    case True
    then obtain w' t' where h': "hit k A' x w' t'" by blast
    show ?thesis
    proof (cases "(addr_set k x, w') = (addr_set k a, w)")
      case True
      with h' have "t' = fetched k a L" "addr_base k x = addr_base k a"
        by (auto simp: hit_def A'_def fetched_def base_eq_iff g)
      with view_hit [OF sh' h'] at show ?thesis by simp
    next
      case False
      with h' have "hit k A x w' t'" by (auto simp: hit_def A'_def)
      with view_hit [OF sh' h'] view_hit [OF sh] show ?thesis by simp
    qed
  qed
qed

context backing_store
begin

section \<open>Reading through a stale cache\<close>

abbreviation clean :: "'b cache \<Rightarrow> 'b cache \<times> 'b \<Rightarrow> bool" where
  "clean k p \<equiv> clean_in (c_wpol k) (indices k) (fst p)"

lemma clean_slot_dirty:
  assumes "St k A L p" "clean k p" "A (s, w) = Some t"
  shows "\<not> t_dirty t"
proof -
  obtain c b where p: "p = (c, b)" by (cases p)
  have f: "frame c = frame k" "slots_of c (s, w) = Some t" using assms by (auto simp: p St_def)
  have "s < c_sets c" "w < c_ways c" using f(2) by (auto simp: slots_of_def split: if_splits)
  then have "line_index c s w \<in> indices k" using St_fields(2,3) [OF f(1)] by (auto simp: indices_def line_index_def)
  then show ?thesis using slot_line [OF f(2)] assms(2) by (simp add: p clean_in_def line_at_def)
qed

lemma clean_from_slots:
  assumes "frame (fst p) = frame k" and "\<And>q t. slots_of (fst p) q = Some t \<Longrightarrow> \<not> t_dirty t"
  shows "clean k p"
  unfolding clean_in_def
proof (intro conjI ballI impI)
  obtain c b where p: "p = (c, b)" by (cases p)
  have f: "frame c = frame k" using assms(1) by (simp add: p)
  note g = St_fields(2,3) [OF f]
  show "c_wpol (fst p) = c_wpol k" using St_fields(5) [OF f] by (simp add: p)
  fix i assume i: "i \<in> indices k" and v: "l_valid (c_line (fst p) i)"
  obtain s w where sw: "i = line_index k s w" "s < c_sets k" "w < c_ways k" using i by (auto simp: indices_def)
  then have at: "line_at c s w = c_line c i" using g by (simp add: line_at_def line_index_def)
  show "\<not> l_dirty (c_line (fst p) i)"
    using assms(2) [of "(s, w)"] v sw(2,3) g by (auto simp: p slots_of_def at)
qed

lemma cache_clean_cleans:
  assumes k: "ready k" and s: "Ok k V p"
  shows "clean k (exec cache_clean p)"
proof -
  obtain A where st: "frame (fst (exec cache_clean p)) = frame k" "slots_of (fst (exec cache_clean p)) = A" "shape_ok k A"
    and c: "\<And>q t. q \<in> {s. s < c_sets k} \<times> {w. w < c_ways k} \<Longrightarrow> A q = Some t \<Longrightarrow> \<not> t_dirty t"
    using tripleD [OF cache_clean_Clean [OF k] s] unfolding Clean_def St_def by blast
  show ?thesis
  proof (rule clean_from_slots [OF st(1)])
    fix q t assume t: "slots_of (fst (exec cache_clean p)) q = Some t"
    then have "A q = Some t" using st(2) by simp
    with c shape_all [OF st(3), of q] show "\<not> t_dirty t" by simp
  qed
qed

text \<open>A clean cache that need not agree with the memory \<open>L\<close>; together they present \<open>V\<close>.\<close>

definition Stale :: "'b cache \<Rightarrow> (u16 \<Rightarrow> u8) \<Rightarrow> (u16 \<Rightarrow> u8) \<Rightarrow> 'b cache \<times> 'b \<Rightarrow> bool" where
  "Stale k L V p \<longleftrightarrow> clean k p \<and> (\<exists>A. St k A L p \<and> shape_ok k A \<and> view k A L = V)"

lemma Stale_coherent:
  assumes "ready k" "St k A L p" "clean k p" "shape_ok k A"
  shows "coherent k A (view k A L)"
  unfolding coherent_def
proof (intro allI impI, elim conjE)
  have g: "geometry_ok k" using assms(1) by (simp add: ready_def)
  fix s w t i assume t: "A (s, w) = Some t" and i: "i < c_line_bytes k"
  from view_hit [OF assms(4) line_addr(5) [OF g assms(4) t i], of L] line_addr(3) [OF g assms(4) t i]
  show "t_data t i = view k A L (t_base t + ucast i)" by simp
qed

text \<open>A well-formed cache that is clean presents memory.\<close>

lemma Ok_clean:
  assumes k: "ready k" and s: "Ok k V p" "clean k p"
  shows "look (snd p) = V"
proof -
  obtain A L where st: "St k A L p" and a: "shape_ok k A" "coherent k A L" "view k A L = V" using s by (auto simp: Ok_def)
  have "\<not> t_dirty t" if "A q = Some t" for q t using clean_slot_dirty [OF st s(2)] that by (cases q) simp
  then have "view k A L = L" using k by (intro view_clean a) (simp_all add: ready_def)
  with a st show ?thesis by (simp add: St_def)
qed

lemma Stale_Ok: "Ok k V p \<Longrightarrow> clean k p \<Longrightarrow> Stale k (look (snd p)) V p"
  by (auto simp: Ok_def Stale_def St_def)

text \<open>The way \<open>w\<close> holds \<open>a\<close>; what the cache presents is as before or fresh from memory.\<close>

definition Found :: "'b cache \<Rightarrow> (u16 \<Rightarrow> u8) \<Rightarrow> (u16 \<Rightarrow> u8) \<Rightarrow> u16 \<Rightarrow> u32 \<Rightarrow> 'b cache \<times> 'b \<Rightarrow> bool" where
  "Found k L V a w p \<longleftrightarrow> (\<exists>A t. St k A L p \<and> shape_ok k A \<and> hit k A a w t \<and> t_data t (addr_off k a) = V a \<and>
     (\<forall>x. view k A L x = V x \<or> view k A L x = L x))"

definition Absent :: "'b cache \<Rightarrow> (u16 \<Rightarrow> u8) \<Rightarrow> (u16 \<Rightarrow> u8) \<Rightarrow> u16 \<Rightarrow> 'b cache \<times> 'b \<Rightarrow> bool" where
  "Absent k L V a p \<longleftrightarrow> clean k p \<and> (\<exists>A. St k A L p \<and> shape_ok k A \<and> view k A L = V \<and> (\<forall>w t. \<not> hit k A a w t))"

lemma stale_writes:
  assumes "\<And>c. frame (f c) = frame c" "\<And>c. slots_of (f c) = slots_of c"
    "\<And>c p I. clean_in p I (f c) = clean_in p I c"
  shows "triple (Stale k L V) (writes f) (\<lambda>_. Stale k L V)" "triple (Absent k L V a) (writes f) (\<lambda>_. Absent k L V a)"
    and "triple (Found k L V a w) (writes f) (\<lambda>_. Found k L V a w)"
  using assms by (auto simp: triple_def Stale_def Absent_def Found_def St_def)

lemma find_stale:
  assumes k: "ready k"
  shows "triple (Stale k L V) (reads (\<lambda>c. find_way c a)) (\<lambda>r p. case r of
     Some w \<Rightarrow> Found k L V a w p
   | None \<Rightarrow> Absent k L V a p)"
proof (rule triple_reads)
  fix c b assume "Stale k L V (c, b)"
  then obtain A where cl: "clean k (c, b)" and st: "St k A L (c, b)" and a: "shape_ok k A" "view k A L = V"
    by (auto simp: Stale_def)
  show "case find_way c a of Some w \<Rightarrow> Found k L V a w (c, b) | None \<Rightarrow> Absent k L V a (c, b)"
  proof (cases "lookup k A a")
    case None
    then have "\<forall>w t. \<not> hit k A a w t" using lookup_None [OF a(1)] by blast
    with None cl st a show ?thesis by (simp add: find_way_lookup [OF st k] Absent_def) blast
  next
    case (Some w)
    then obtain t where "hit k A a w t" using lookup_Some [OF a(1)] by blast
    moreover from this have "t_data t (addr_off k a) = V a" using view_hit [OF a(1), of a w t L] a(2) by simp
    ultimately show ?thesis using Some st a by (simp add: find_way_lookup [OF st k] Found_def) blast
  qed
qed

lemma data_found:
  assumes "ready k"
  shows "triple (Found k L V a w) (reads (\<lambda>c. data_at c (addr_set k a) w (addr_off k a))) (\<lambda>v p. v = V a \<and> Found k L V a w p)"
proof (rule triple_reads)
  fix c b assume f: "Found k L V a w (c, b)"
  then obtain A t where st: "St k A L (c, b)" and h: "hit k A a w t" and t: "t_data t (addr_off k a) = V a"
    by (auto simp: Found_def)
  have "slots_of c (addr_set k a, w) = Some t" using h st by (simp add: hit_def St_def)
  from slot_line [OF this] have "t_data t (addr_off k a) = data_at c (addr_set k a) w (addr_off k a)"
    using St_geometry(4) [OF st assms] addr_bounds(2) [of k a] assms by (auto simp: ready_def)
  with f t show "data_at c (addr_set k a) w (addr_off k a) = V a \<and> Found k L V a w (c, b)" by simp
qed

lemma triple_Found:
  "(\<And>A t. shape_ok k A \<Longrightarrow> hit k A a w t \<Longrightarrow> t_data t (addr_off k a) = V a \<Longrightarrow>
     (\<forall>x. view k A L x = V x \<or> view k A L x = L x) \<Longrightarrow> triple (St k A L) m Q) \<Longrightarrow> triple (Found k L V a w) m Q"
  by (auto simp: triple_def Found_def)

lemma touch_St:
  assumes k: "ready k" "s < c_sets k" "w < c_ways k" and t: "A (s, w) = Some t"
  shows "triple (St k A L) (touch s w) (\<lambda>_. St k A L)"
proof -
  have stamp: "triple (St k A L) (do {
      writes (\<lambda>c. c\<lparr>c_clock := c_clock c + 1\<rparr>);
      n \<leftarrow> reads c_clock;
      writes (set_line s w (\<lambda>l. l\<lparr>l_stamp := n\<rparr>)) }) (\<lambda>_. St k A L)"
    by (rule triple_bind, rule st_writes, simp, simp, rule triple_bind [OF triple_reads], assumption,
        rule st_set_line(1) [where A = A and t = t, OF k t])
  show ?thesis
    unfolding touch_def whenever_def
    by (rule triple_bind [OF triple_reads], assumption) (auto intro: stamp triple_ret)
qed

lemma touch_found:
  assumes k: "ready k"
  shows "triple (Found k L V a w) (touch (addr_set k a) w) (\<lambda>_. Found k L V a w)"
proof (rule triple_Found)
  fix A t assume a: "shape_ok k A" "hit k A a w t" "t_data t (addr_off k a) = V a"
    "\<forall>x. view k A L x = V x \<or> view k A L x = L x"
  have t: "A (addr_set k a, w) = Some t" using a(2) by (simp add: hit_def)
  show "triple (St k A L) (touch (addr_set k a) w) (\<lambda>_. Found k L V a w)"
    by (rule triple_weaken [OF touch_St [where A = A and t = t, OF k shape_okD(1,2) [OF a(1) t] t]])
      (use a in \<open>auto simp: Found_def\<close>)
qed

text \<open>The victim of a clean cache goes without a write to memory.\<close>

lemma evict_stale:
  assumes k: "ready k" and w: "w < c_ways k" and sh: "shape_ok k A" and cl: "\<And>t. A (addr_set k a, w) = Some t \<Longrightarrow> \<not> t_dirty t"
  shows "triple (\<lambda>p. (l_valid l \<longleftrightarrow> A (addr_set k a, w) \<noteq> None) \<and> St k A L p)
    (whenever (l_valid l) (do { writes (\<lambda>c. c\<lparr>c_evictions := c_evictions c + 1\<rparr>); writeback (addr_set k a) w }))
    (\<lambda>_. St k A L)"
proof (rule triple_pure)
  assume l: "l_valid l \<longleftrightarrow> A (addr_set k a, w) \<noteq> None"
  show "triple (St k A L) (whenever (l_valid l) (do { writes (\<lambda>c. c\<lparr>c_evictions := c_evictions c + 1\<rparr>);
      writeback (addr_set k a) w })) (\<lambda>_. St k A L)"
  proof (cases "A (addr_set k a, w)")
    case None
    with l show ?thesis by (simp add: triple_def whenever_def)
  next
    case (Some t)
    then have e: "A((addr_set k a, w) := Some (t\<lparr>t_dirty := False\<rparr>)) = A" "(if t_dirty t then spill k t L else L) = L"
      using cl by (auto simp: fun_eq_iff)
    have "triple (St k A L) (do { writes (\<lambda>c. c\<lparr>c_evictions := c_evictions c + 1\<rparr>); writeback (addr_set k a) w }) (\<lambda>_. St k A L)"
      by (rule triple_bind, rule st_writes, simp, simp, rule st_writeback [OF k sh Some, of L, unfolded e])
    with Some l show ?thesis by (simp add: whenever_def)
  qed
qed

lemma refill_found:
  assumes k: "ready k" and w: "w < c_ways k" and sh: "shape_ok k A" and V: "view k A L = V" and miss: "\<And>w t. \<not> hit k A a w t"
  shows "triple (St k A L) (refill (addr_set k a) w a (addr_tag k a)) (\<lambda>_. Found k L V a w)"
proof (rule triple_weaken [OF st_refill [OF k w]])
  have g: "geometry_ok k" using k by (simp add: ready_def)
  note f = fill_stale [OF g sh w miss, of L]
  have "t_data (fetched k a L) (addr_off k a) = V a"
    using view_hit [OF f(1,2), of L] f(4) view_miss [OF sh miss, of L] V by auto
  then show "Found k L V a w p" if "St k (A((addr_set k a, w) := Some (fetched k a L))) L p" for p
    using that f V unfolding Found_def by blast
qed

lemma handle_miss_found:
  assumes k: "ready k"
  shows "triple (Absent k L V a) (handle_miss rnd a (addr_tag k a) (addr_set k a) ev) (\<lambda>(w, e). Found k L V a w)"
  unfolding triple_def
proof (intro allI impI)
  fix p assume "Absent k L V a p"
  then obtain A where cl: "clean k p" and st: "St k A L p" and a: "shape_ok k A" "view k A L = V"
    and miss: "\<And>w t. \<not> hit k A a w t" by (auto simp: Absent_def)
  have dirty: "\<not> t_dirty t" if "A (s, w) = Some t" for s w t by (rule clean_slot_dirty [OF st cl that])
  have s: "addr_set k a < c_sets k" using k addr_bounds(1) [of k a] by (simp add: ready_def)
  have "triple (St k A L) (handle_miss rnd a (addr_tag k a) (addr_set k a) ev) (\<lambda>(w, e). Found k L V a w)"
    unfolding handle_miss_def Let_def
    by (rule triple_bind [OF pick_victim_bound [OF k]], rule triple_pure, rule triple_bind [OF line_read [OF k s]], assumption,
        rule triple_bind [OF evict_stale [OF k _ a(1) dirty]], assumption, assumption,
        rule triple_bind [OF refill_found [OF k _ a miss]], assumption, rule triple_bind [OF stale_writes(3)], simp, simp, simp,
        rule triple_bind [OF triple_reads], assumption, rule triple_ret, simp)
  from tripleD [OF this st]
  show "(\<lambda>(w, e). Found k L V a w) (result (handle_miss rnd a (addr_tag k a) (addr_set k a) ev) p)
      (exec (handle_miss rnd a (addr_tag k a) (addr_set k a) ev) p)" .
qed

text \<open>The read itself.\<close>

lemma decode_stale: "ready k \<Longrightarrow> triple (Stale k L V) (reads (\<lambda>c. cache_decode c a))
    (\<lambda>r p. r = (addr_tag k a, addr_set k a, addr_off k a) \<and> Stale k L V p)"
  by (intro triple_reads) (auto simp: Stale_def St_def cache_decode_def dest: St_fields)

lemma found_cases:
  assumes "\<And>w. triple (Found k L V a w) (f w) Q" "triple (Absent k L V a) m Q"
  shows "triple (\<lambda>p. case x of Some w \<Rightarrow> Found k L V a w p | None \<Rightarrow> Absent k L V a p)
    (case x of Some w \<Rightarrow> f w | None \<Rightarrow> m) Q"
  using assms by (cases x) simp_all

lemma cache_read_found:
  assumes k: "ready k"
  shows "triple (Stale k L V) (cache_read rnd a) (\<lambda>(v, e) p. v = V a \<and> (\<exists>w. Found k L V a w p))"
  unfolding cache_read_def
proof (rule triple_bind [OF decode_stale [OF k]], rule triple_pure, clarsimp simp only: prod.case Let_def,
    rule triple_bind [OF stale_writes(1)], simp, simp, simp, rule triple_bind [OF find_stale [OF k]],
    rule found_cases)
  fix w
  show "triple (Found k L V a w) (do {
         writes (\<lambda>c. c\<lparr>c_read_hit := c_read_hit c + 1\<rparr>);
         touch (addr_set k a) w;
         v \<leftarrow> reads (\<lambda>c. data_at c (addr_set k a) w (addr_off k a));
         ret (v, (ev_init (addr_set k a) (addr_tag k a))\<lparr>ev_hit := True, ev_way := w\<rparr>) })
      (\<lambda>(v, e) p. v = V a \<and> (\<exists>w. Found k L V a w p))"
    by (rule triple_bind [OF stale_writes(3)], simp, simp, simp, rule triple_bind [OF touch_found [OF k]],
        rule triple_bind [OF data_found [OF k]], rule triple_ret, auto)
next
  show "triple (Absent k L V a) (do {
         writes (\<lambda>c. c\<lparr>c_read_miss := c_read_miss c + 1\<rparr>);
         (w, ev) \<leftarrow> handle_miss rnd a (addr_tag k a) (addr_set k a) (ev_init (addr_set k a) (addr_tag k a));
         v \<leftarrow> reads (\<lambda>c. data_at c (addr_set k a) w (addr_off k a));
         ret (v, ev\<lparr>ev_way := w\<rparr>) }) (\<lambda>(v, e) p. v = V a \<and> (\<exists>w. Found k L V a w p))"
    by (rule triple_bind [OF stale_writes(2)], simp, simp, simp, rule triple_bind [OF handle_miss_found [OF k]],
        clarsimp, rule triple_bind [OF data_found [OF k]], rule triple_ret, auto)
qed

lemma cache_read_stale:
  assumes k: "ready k"
  shows "triple (Stale k L V) (cache_read rnd a)
    (\<lambda>r p. fst r = V a \<and> (\<exists>V'. Stale k L V' p \<and> (\<forall>x. V' x = V x \<or> V' x = L x)))"
  unfolding triple_def
proof (intro allI impI)
  fix p assume s: "Stale k L V p"
  then have "clean k (exec (cache_read rnd a) p)"
    using keepsD [OF cache_read_clean, of "c_wpol k" "indices k" p rnd a] by (simp add: Stale_def)
  with tripleD [OF cache_read_found [OF k] s, of a]
  show "fst (result (cache_read rnd a) p) = V a \<and>
      (\<exists>V'. Stale k L V' (exec (cache_read rnd a) p) \<and> (\<forall>x. V' x = V x \<or> V' x = L x))"
    by (fastforce simp: Stale_def Found_def case_prod_beta)
qed

section \<open>Bringing a stale cache up to date\<close>

text \<open>On a clean cache the write back of an eviction or a flush does nothing.\<close>

lemma writeback_clean:
  assumes k: "ready k" and sw: "s < c_sets k" "w < c_ways k" and st: "St k A L p" and cl: "clean k p"
  shows "run_state (writeback s w) p = ((), p)"
proof -
  obtain c b where p: "p = (c, b)" by (cases p)
  have "line_index c s w \<in> indices k" using sw St_fields(2) [of c k] st by (auto simp: p indices_def line_index_def St_def)
  then show ?thesis using cl by (intro writeback_nop) (auto simp: p)
qed

lemma cache_flush_stale:
  assumes k: "ready k"
  shows "triple (Stale k L V) cache_flush (\<lambda>_ p. Ok k L p \<and> look (snd p) = L \<and> slots_of (fst p) = (\<lambda>_. None))"
proof -
  let ?P = "\<lambda>D p. clean k p \<and> Dropped k L D p"
  have drop: "triple (?P D) (do { writeback s w; writes (set_line s w (\<lambda>l. l\<lparr>l_valid := False\<rparr>)) }) (\<lambda>_. ?P (insert (s, w) D))"
    if sw: "s < c_sets k" "w < c_ways k" for s w D
    unfolding triple_def
  proof (intro allI impI)
    fix p assume p: "?P D p"
    then obtain A where st: "St k A L p" and D: "\<forall>q\<in>D. A q = None" by (auto simp: Dropped_def)
    have e: "exec (do { writeback s w; writes (set_line s w (\<lambda>l. l\<lparr>l_valid := False\<rparr>)) }) p =
        exec (writes (set_line s w (\<lambda>l. l\<lparr>l_valid := False\<rparr>))) p"
      using p by (simp add: run_bind_split writeback_clean [OF k sw st])
    have "clean k (exec (writes (set_line s w (\<lambda>l. l\<lparr>l_valid := False\<rparr>))) p)"
      using p by (cases p) (simp add: clean_in_set_line)
    with tripleD [OF st_drop(1) [OF k sw] st] D show "?P (insert (s, w) D)
        (exec (do { writeback s w; writes (set_line s w (\<lambda>l. l\<lparr>l_valid := False\<rparr>)) }) p)"
      unfolding e Dropped_def by (auto intro!: exI [of _ "A((s, w) := None)"])
  qed
  have "triple (?P {}) cache_flush (\<lambda>_. ?P ({s. s < c_sets k} \<times> {w. w < c_ways k}))"
    unfolding cache_flush_def
    by (rule all_ways_triple [where P = ?P, OF drop]) (auto simp: Dropped_def St_def)
  then show ?thesis
  proof (rule triple_weaken)
    show "?P {} p" if "Stale k L V p" for p using that by (auto simp: Stale_def Dropped_def)
    show "Ok k L p \<and> look (snd p) = L \<and> slots_of (fst p) = (\<lambda>_. None)"
      if "?P ({s. s < c_sets k} \<times> {w. w < c_ways k}) p" for p
      using Dropped_all [OF k conjunct2 [OF that]] .
  qed
qed

text \<open>Snooping one address drops its line; if the cache is stale there only, it is coherent again.\<close>

lemma cache_snoop_stale:
  assumes k: "ready k"
  shows "triple (Stale k L V) (cache_snoop a) (\<lambda>_ p. \<exists>V'. Stale k L V' p \<and>
    (\<forall>x. V' x = (if addr_base k x = addr_base k a then L x else V x)))"
  unfolding triple_def
proof (intro allI impI)
  have g: "geometry_ok k" using k by (simp add: ready_def)
  fix p assume s: "Stale k L V p"
  obtain c b where p: "p = (c, b)" by (cases p)
  obtain A where cl: "clean k p" and st: "St k A L p" and a: "shape_ok k A" "view k A L = V" using s by (auto simp: Stale_def)
  have cl': "clean k (exec (cache_snoop a) p)" using keepsD [OF maintenance_clean(4), of "c_wpol k" "indices k" p a] cl by simp
  note fw = find_way_lookup [OF st [unfolded p] k, of a]
  have set: "addr_set c a = addr_set k a" using St_geometry(5) [OF st [unfolded p] k] .
  show "\<exists>V'. Stale k L V' (exec (cache_snoop a) p) \<and> (\<forall>x. V' x = (if addr_base k x = addr_base k a then L x else V x))"
  proof (cases "lookup k A a")
    case None
    then have miss: "\<not> hit k A x w t" if "addr_base k x = addr_base k a" for x w t
      using lookup_None [OF a(1), of a] that base_eq_iff [OF g, of x a] by (auto simp: hit_def)
    have "V x = L x" if "addr_base k x = addr_base k a" for x using view_miss [OF a(1), of x L] miss [OF that] a(2) by simp
    moreover have "exec (cache_snoop a) p = p" using None fw by (simp add: cache_snoop_def p)
    ultimately show ?thesis using s by (intro exI [of _ V]) auto
  next
    case (Some w)
    then obtain t where h: "hit k A a w t" using lookup_Some [OF a(1)] by blast
    then have t: "A (addr_set k a, w) = Some t" by (simp add: hit_def)
    note sw = shape_okD(1,2) [OF a(1) t]
    let ?A = "A((addr_set k a, w) := None)"
    let ?drop = "do { writes (set_line (addr_set k a) w (\<lambda>l. l\<lparr>l_valid := False\<rparr>));
         writes (\<lambda>c. c\<lparr>c_invalidations := c_invalidations c + 1\<rparr>) }"
    have step: "triple (St k A L) ?drop (\<lambda>_. St k ?A L)"
      by (rule triple_bind [OF st_drop(1) [OF k sw]], rule st_writes) simp_all
    have e: "exec (cache_snoop a) p = exec ?drop p"
      using Some fw writeback_clean [OF k sw st cl] by (simp add: cache_snoop_def p set)
    have st': "St k ?A L (exec (cache_snoop a) p)" unfolding e by (rule tripleD [OF step st])
    have sh': "shape_ok k ?A" using a(1) unfolding shape_ok_def by (auto split: if_splits)
    have hits: "hit k ?A x w' t' \<longleftrightarrow> hit k A x w' t' \<and> (addr_set k x, w') \<noteq> (addr_set k a, w)" for x w' t'
      by (auto simp: hit_def)
    have at: "addr_base k x = addr_base k a" if "hit k A x w t'" "addr_set k x = addr_set k a" for x t'
      using that h by (simp add: base_eq_iff [OF g] hit_def)
    have "view k ?A L x = (if addr_base k x = addr_base k a then L x else V x)" for x
    proof (cases "addr_base k x = addr_base k a")
      case True
      then have "hit k A x w t" using h by (simp add: base_eq_iff [OF g] hit_def)
      then have "\<not> hit k ?A x w' t'" for w' t'
        using hit_unique [OF a(1), of x w t w' t'] True by (auto simp: hits base_eq_iff [OF g])
      then show ?thesis using view_miss [OF sh', of x L] True by simp
    next
      case False
      then have same: "hit k ?A x w' t' \<longleftrightarrow> hit k A x w' t'" for w' t' using at by (auto simp: hits)
      show ?thesis
      proof (cases "\<exists>w' t'. hit k A x w' t'")
        case True
        then obtain w' t' where h': "hit k A x w' t'" by blast
        with view_hit [OF sh', of x w' t' L] view_hit [OF a(1) h', of L] same a(2) False show ?thesis by simp
      next
        case absent: False
        then show ?thesis using view_miss [OF sh', of x L] view_miss [OF a(1), of x L] same a(2) False by simp
      qed
    qed
    with st' sh' cl' show ?thesis by (auto simp: Stale_def intro!: exI [of _ "view k ?A L"])
  qed
qed

lemma Stale_fresh:
  assumes k: "ready k" and s: "Stale k L L p"
  shows "Ok k L p"
proof -
  obtain A where a: "St k A L p" "clean k p" "shape_ok k A" "view k A L = L" using s by (auto simp: Stale_def)
  from Stale_coherent [OF k a(1-3)] a show ?thesis by (intro OkI [OF a(1)]) simp
qed

section \<open>A store into a clean write-back cache\<close>

text \<open>The byte goes into the line only: memory does not change.\<close>

lemma store_held_back:
  assumes k: "ready k" and p: "c_wpol k = WPOL_BACK" "c_write_alloc k" and s: "Stale k L V x"
  shows "look (snd (exec (cache_write rnd a v) x)) = L"
proof -
  have store: "triple (Found k L V a w) (store_line (addr_set k a) w off a v) (\<lambda>_ p. look (snd p) = L)" for w off
    unfolding triple_def
  proof (intro allI impI)
    fix q assume "Found k L V a w q"
    then obtain A where st: "St k A L q" by (auto simp: Found_def)
    then have "c_wpol (fst q) = WPOL_BACK" "look (snd q) = L" using p St_fields(5) [of "fst q" k] by (auto simp: St_def)
    then show "look (snd (exec (store_line (addr_set k a) w off a v) q)) = L"
      by (cases q) (simp add: store_line_def set_data_def)
  qed
  have alloc: "triple (Absent k L V a) (reads c_write_alloc) (\<lambda>r p. r \<and> Absent k L V a p)"
  proof (rule triple_reads)
    fix c b assume m: "Absent k L V a (c, b)"
    then have "frame c = frame k" by (auto simp: Absent_def St_def)
    from St_fields(6) [OF this] show "c_write_alloc c \<and> Absent k L V a (c, b)" using m p by simp
  qed
  have "triple (Stale k L V) (cache_write rnd a v) (\<lambda>_ p. look (snd p) = L)"
    unfolding cache_write_def
  proof (rule triple_bind [OF decode_stale [OF k]], rule triple_pure, clarsimp simp only: prod.case Let_def,
      rule triple_bind [OF stale_writes(1)], simp, simp, simp, rule triple_bind [OF find_stale [OF k]],
      rule found_cases)
    fix w
    show "triple (Found k L V a w) (do {
           writes (\<lambda>c. c\<lparr>c_write_hit := c_write_hit c + 1\<rparr>);
           touch (addr_set k a) w;
           store_line (addr_set k a) w (addr_off k a) a v;
           ret ((ev_init (addr_set k a) (addr_tag k a))\<lparr>ev_hit := True, ev_way := w\<rparr>) }) (\<lambda>_ p. look (snd p) = L)"
      by (rule triple_bind [OF stale_writes(3)], simp, simp, simp, rule triple_bind [OF touch_found [OF k]],
          rule triple_bind [OF store], rule triple_ret, assumption)
  next
    show "triple (Absent k L V a) (do {
           writes (\<lambda>c. c\<lparr>c_write_miss := c_write_miss c + 1\<rparr>);
           alloc \<leftarrow> reads c_write_alloc;
           if \<not> alloc then do {
             wr \<leftarrow> reads c_bs_write;
             outside (wr a v);
             writes (\<lambda>c. c\<lparr>c_bytes_out := c_bytes_out c + 1,
               c_stall_cycles := c_stall_cycles c + ucast (c_miss_penalty c)\<rparr>);
             p \<leftarrow> reads c_miss_penalty;
             ret ((ev_init (addr_set k a) (addr_tag k a))\<lparr>ev_stall := p\<rparr>) }
           else do {
             (w, ev) \<leftarrow> handle_miss rnd a (addr_tag k a) (addr_set k a) (ev_init (addr_set k a) (addr_tag k a));
             store_line (addr_set k a) w (addr_off k a) a v;
             ret (ev\<lparr>ev_way := w\<rparr>) } }) (\<lambda>_ p. look (snd p) = L)"
      by (rule triple_bind [OF stale_writes(2)], simp, simp, simp, rule triple_bind [OF alloc], rule triple_pure,
          simp only: not_True_eq_False if_False, rule triple_bind [OF handle_miss_found [OF k]], clarsimp,
          rule triple_bind [OF store], rule triple_ret, assumption)
  qed
  from tripleD [OF this s] show ?thesis .
qed

end

end
