(* ===== verification/Cache_Policy.thy ===== *)
theory Cache_Policy
  imports Cache_Lines
begin

text \<open>
  Replacement.  The victim of a miss is an invalid line if the set has one, else, under LRU and FIFO, one
  with the least stamp.  Under LRU the line an access used is the newest of its set afterwards, so it is
  not the next victim.
\<close>
unbundle bit_operations_syntax

section \<open>The victim of a miss\<close>

lemma oldest_least:
  "l_stamp (line_at c si best) \<le> bs \<Longrightarrow>
    l_stamp (line_at c si (oldest c si bs best ws)) \<le> bs \<and>
    (\<forall>w\<in>set ws. l_stamp (line_at c si (oldest c si bs best ws)) \<le> l_stamp (line_at c si w))"
proof (induction ws arbitrary: bs best)
  case (Cons w ws)
  show ?case
  proof (cases "l_stamp (line_at c si w) < bs")
    case True
    with Cons.IH [of w "l_stamp (line_at c si w)"] show ?thesis by (auto intro: order_trans less_imp_le)
  next
    case False
    with Cons.IH [OF Cons.prems] show ?thesis by (auto intro: order_trans)
  qed
qed simp

lemma find_least: "List.find P (upto_u32 n) = Some w \<Longrightarrow> w < n \<and> P w"
  using set_upto_u32 [of n] by (auto simp: find_Some_iff dest: nth_mem)

lemma find_none: "List.find P (upto_u32 n) = None \<longleftrightarrow> (\<forall>w<n. \<not> P w)"
  by (auto simp: find_None_iff set_upto_u32)

lemma pick_victim_result:
  fixes c :: "'b cache" and rnd :: "('b, nat) state" and si :: u32 and b :: 'b
  assumes "0 < c_ways c"
  defines "w \<equiv> result (pick_victim rnd si) (c, b)"
  shows "w < c_ways c" "(\<exists>v<c_ways c. \<not> l_valid (line_at c si v)) \<Longrightarrow> \<not> l_valid (line_at c si w)"
    "(\<forall>v<c_ways c. l_valid (line_at c si v)) \<Longrightarrow> c_repl c \<noteq> REPL_RANDOM \<Longrightarrow>
      (\<forall>v<c_ways c. l_stamp (line_at c si w) \<le> l_stamp (line_at c si v))"
proof -
  let ?free = "List.find (\<lambda>w. \<not> l_valid (line_at c si w)) (upto_u32 (c_ways c))"
  have run: "w = (case ?free of Some w \<Rightarrow> w | None \<Rightarrow>
      if c_repl c = REPL_RANDOM then of_nat (result rnd b mod unat (c_ways c))
      else oldest c si 0xffffffff 0 (upto_u32 (c_ways c)))"
    by (simp add: w_def pick_victim_def split: option.split)
  have top: "x \<le> 0xffffffff" for x :: u32 using unsigned_less [of x, where 'a = nat] by (simp add: word_le_nat_alt)
  have "unat (of_nat (result rnd b mod unat (c_ways c)) :: u32) < unat (c_ways c)"
    using assms(1) unsigned_less [of "c_ways c", where 'a = nat]
    by (simp add: unat_of_nat word_less_nat_alt) (meson mod_less_divisor mod_less_eq_dividend order_le_less_trans)
  then have r: "of_nat (result rnd b mod unat (c_ways c)) < c_ways c" by (simp add: word_less_nat_alt)
  have o: "oldest c si 0xffffffff 0 (upto_u32 (c_ways c)) < c_ways c"
    using oldest_in [of c si "0xffffffff" 0 "upto_u32 (c_ways c)"] assms(1) by (auto simp: set_upto_u32)
  show "w < c_ways c"
    unfolding run using r o by (auto split: option.split dest: find_least)
  show "\<not> l_valid (line_at c si w)" if "\<exists>v<c_ways c. \<not> l_valid (line_at c si v)"
  proof (cases ?free)
    case None
    then show ?thesis using that unfolding find_none by blast
  next
    case (Some v)
    then show ?thesis unfolding run by (auto dest: find_least)
  qed
  show "\<forall>v<c_ways c. l_stamp (line_at c si w) \<le> l_stamp (line_at c si v)"
    if "\<forall>v<c_ways c. l_valid (line_at c si v)" "c_repl c \<noteq> REPL_RANDOM"
  proof -
    have "?free = None" unfolding find_none using that by blast
    then have "w = oldest c si 0xffffffff 0 (upto_u32 (c_ways c))" using that(2) by (simp add: run)
    then show ?thesis using oldest_least [of c si 0 "0xffffffff" "upto_u32 (c_ways c)", OF top] by (simp add: set_upto_u32)
  qed
qed

section \<open>Least recently used\<close>

text \<open>Every stamp is at most \<open>t\<close> and the clock stands at \<open>t\<close>; the geometry is that of \<open>k\<close>.\<close>

definition aged :: "'b cache \<Rightarrow> u32 \<Rightarrow> 'b cache \<Rightarrow> bool" where
  "aged k t c \<longleftrightarrow> c_clock c = t \<and> (\<forall>i. l_stamp (c_line c i) \<le> t) \<and>
     c_ways c = c_ways k \<and> c_repl c = c_repl k"

text \<open>The line at \<open>(si, w)\<close> is valid and newer than every other.\<close>

definition newest :: "'b cache \<Rightarrow> u32 \<Rightarrow> u32 \<Rightarrow> 'b cache \<Rightarrow> bool" where
  "newest k si w c \<longleftrightarrow> l_valid (line_at c si w) \<and>
     (\<forall>i. i \<noteq> line_index k si w \<longrightarrow> l_stamp (c_line c i) < l_stamp (c_line c (line_index k si w))) \<and>
     c_ways c = c_ways k \<and> c_repl c = c_repl k"

lemma newest_not_victim:
  assumes k: "geometry_ok k" "si < c_sets k" "w < c_ways k" "2 \<le> c_ways k" "c_repl k = REPL_LRU"
    and n: "newest k si w c"
  shows "result (pick_victim rnd si) (c, b) \<noteq> w"
proof
  assume eq: "result (pick_victim rnd si) (c, b) = w"
  have c: "c_ways c = c_ways k" "c_repl c = REPL_LRU" "l_valid (line_at c si w)" using n k by (simp_all add: newest_def)
  have li: "line_index c = line_index k" by (simp add: fun_eq_iff line_index_def c)
  have "0 < c_ways c" using k(3) c(1) by (simp add: word_less_nat_alt)
  note v = pick_victim_result [OF this, where rnd = rnd and si = si and b = b, unfolded eq]
  have all: "\<forall>v<c_ways c. l_valid (line_at c si v)" using v(2) c(3) by blast
  obtain u where u: "u < c_ways k" "u \<noteq> w"
  proof (cases "w = 0")
    case True
    have "1 < c_ways k" using k(4) by (simp add: word_less_nat_alt word_le_nat_alt)
    then show ?thesis using that [of 1] True by simp
  next
    case False
    have "0 < c_ways k" using k(3) by (simp add: word_less_nat_alt)
    then show ?thesis using that [of 0] False by simp
  qed
  have "line_index k si u \<noteq> line_index k si w" using line_index_inj [OF k(1,2) u(1) k(2,3)] u(2) by blast
  then have "l_stamp (line_at c si u) < l_stamp (line_at c si w)" using n by (simp add: newest_def line_at_def li)
  moreover have "l_stamp (line_at c si w) \<le> l_stamp (line_at c si u)" using v(3) [OF all] c u(1) by simp
  ultimately show False by simp
qed

lemma aged_set_line:
  "aged k t c \<Longrightarrow> (\<And>l. l_stamp (f l) = l_stamp l) \<Longrightarrow> aged k t (set_line s w f c)"
  by (simp add: aged_def set_line_def line_at_def)

lemma keeps_aged:
  "keeps (on_struct (aged k t)) (writeback si w)" "keeps (on_struct (aged k t)) (pick_victim rnd si)"
  unfolding writeback_def pick_victim_def
  by (intro keeps_rules; simp add: aged_set_line; simp add: aged_def)+

lemma refill_newest:
  assumes "unat t + 1 < 2 ^ 32"
  shows "triple (on_struct (aged k t)) (refill si w a tag) (\<lambda>_. on_struct (newest k si w))"
proof -
  have lt: "x \<le> t \<Longrightarrow> x < t + 1" for x
    using assms by (simp add: word_less_nat_alt word_le_nat_alt unat_word_ariths)
  have loop: "keeps (on_struct (aged k t)) (for_each xs (\<lambda>i. do {
       rd \<leftarrow> reads c_bs_read; v \<leftarrow> outside (rd (base + ucast i)); writes (set_data si w i v) }))" for xs base
    by (intro keeps_rules) (simp add: aged_def set_data_def)
  show ?thesis
    unfolding refill_def
  proof (rule triple_bind [OF triple_reads], assumption, rule triple_bind [OF triple_reads], assumption, rule triple_bind)
    fix base n
    show "triple (on_struct (aged k t)) (for_each (upto_u32 n) (\<lambda>i. do {
       rd \<leftarrow> reads c_bs_read; v \<leftarrow> outside (rd (base + ucast i)); writes (set_data si w i v) })) (\<lambda>_. on_struct (aged k t))"
      using loop unfolding triple_def keeps_def by blast
    show "triple (on_struct (aged k t)) (do {
       writes (set_line si w (\<lambda>l. l\<lparr>l_valid := True, l_dirty := False, l_tag := tag, l_base := base\<rparr>));
       writes (\<lambda>c. c\<lparr>c_clock := c_clock c + 1\<rparr>);
       t \<leftarrow> reads c_clock;
       writes (set_line si w (\<lambda>l. l\<lparr>l_stamp := t\<rparr>));
       writes (\<lambda>c. c\<lparr>c_bytes_in := c_bytes_in c + ucast n\<rparr>) }) (\<lambda>_. on_struct (newest k si w))"
      by (auto simp: triple_def aged_def newest_def set_line_def line_at_def line_index_def lt)
  qed
qed

lemma touch_newest:
  assumes "unat t + 1 < 2 ^ 32" "c_repl k = REPL_LRU"
  shows "triple (\<lambda>p. aged k t (fst p) \<and> l_valid (line_at (fst p) si w)) (touch si w) (\<lambda>_. on_struct (newest k si w))"
proof -
  have lt: "x \<le> t \<Longrightarrow> x < t + 1" for x
    using assms(1) by (simp add: word_less_nat_alt word_le_nat_alt unat_word_ariths)
  show ?thesis using assms(2)
    by (auto simp: triple_def touch_def whenever_def aged_def newest_def set_line_def line_at_def line_index_def lt)
qed

lemma newest_cong:
  assumes "\<And>i. l_stamp (c_line c' i) = l_stamp (c_line c i)" "\<And>i. l_valid (c_line c' i) = l_valid (c_line c i)"
    "c_ways c' = c_ways c" "c_repl c' = c_repl c"
  shows "newest k si w c' = newest k si w c"
  unfolding newest_def line_at_def line_index_def assms ..

lemma newest_stats [simp]:
  "newest k si w (c\<lparr>c_stall_cycles := n\<rparr>) = newest k si w c" "newest k si w (c\<lparr>c_bytes_out := n\<rparr>) = newest k si w c"
  "newest k si w (set_data s v i x c) = newest k si w c"
  "newest k si w (set_line s v (\<lambda>l. l\<lparr>l_dirty := d\<rparr>) c) = newest k si w c"
  by (rule newest_cong; simp add: line_at_def set_data_def set_line_def)+

lemma aged_stats [simp]:
  "aged k t (c\<lparr>c_reads := n\<rparr>) = aged k t c" "aged k t (c\<lparr>c_writes := n\<rparr>) = aged k t c"
  "aged k t (c\<lparr>c_read_hit := n\<rparr>) = aged k t c" "aged k t (c\<lparr>c_read_miss := n\<rparr>) = aged k t c"
  "aged k t (c\<lparr>c_write_hit := n\<rparr>) = aged k t c" "aged k t (c\<lparr>c_write_miss := n\<rparr>) = aged k t c"
  "aged k t (c\<lparr>c_evictions := n\<rparr>) = aged k t c"
  by (simp_all add: aged_def)

lemma keeps_triple: "keeps P m \<Longrightarrow> triple P m (\<lambda>_. P)"
  by (simp add: keeps_def triple_def)

lemma handle_miss_newest:
  fixes k :: "'b cache"
  assumes "unat t + 1 < 2 ^ 32" "0 < c_ways k"
  shows "triple (on_struct (aged k t)) (handle_miss rnd a tag si ev) (\<lambda>(w, e) p. w < c_ways k \<and> newest k si w (fst p))"
  unfolding handle_miss_def Let_def
proof (rule triple_bind)
  show "triple (on_struct (aged k t)) (pick_victim rnd si) (\<lambda>w p. w < c_ways k \<and> aged k t (fst p))"
    unfolding triple_def
  proof (intro allI impI)
    fix p :: "'b cache \<times> 'b" assume p: "on_struct (aged k t) p"
    obtain c b where cb: "p = (c, b)" by (cases p)
    have "c_ways c = c_ways k" using p by (simp add: cb aged_def)
    then show "result (pick_victim rnd si) p < c_ways k \<and> aged k t (fst (exec (pick_victim rnd si) p))"
      using pick_victim_result(1) [of c rnd si b] keepsD [OF keeps_aged(2) [where rnd = rnd and si = si and k = k and t = t] p] assms(2) by (simp add: cb)
  qed
  fix w
  have wb: "triple (on_struct (aged k t)) (whenever (l_valid l) (do {
       writes (\<lambda>c. c\<lparr>c_evictions := c_evictions c + 1\<rparr>); writeback si w })) (\<lambda>_. on_struct (aged k t))" for l
    by (rule keeps_triple) (intro keeps_rules keeps_aged; simp)
  show "triple (\<lambda>p. w < c_ways k \<and> aged k t (fst p)) (do {
     l \<leftarrow> reads (\<lambda>c. line_at c si w);
     whenever (l_valid l) (do { writes (\<lambda>c. c\<lparr>c_evictions := c_evictions c + 1\<rparr>); writeback si w });
     refill si w a tag;
     writes (\<lambda>c. c\<lparr>c_stall_cycles := c_stall_cycles c + ucast (c_miss_penalty c)\<rparr>);
     p \<leftarrow> reads c_miss_penalty;
     ret (w, (if l_valid l then ev\<lparr>ev_evicted := True, ev_evicted_base := l_base l, ev_wrote_back := l_dirty l\<rparr> else ev)
       \<lparr>ev_stall := p\<rparr>) }) (\<lambda>(w, e) p. w < c_ways k \<and> newest k si w (fst p))"
    by (rule triple_pure, rule triple_bind [OF triple_reads], assumption, rule triple_bind [OF wb],
        rule triple_bind [OF refill_newest [OF assms(1)]], rule triple_bind [OF triple_writes [where Q = "\<lambda>_. on_struct (newest k si w)"]],
        simp, rule triple_bind [OF triple_reads], assumption, rule triple_ret, simp)
qed

lemma store_line_newest: "triple (on_struct (newest k si w)) (store_line si v off a x) (\<lambda>_. on_struct (newest k si w))"
  unfolding store_line_def by (intro keeps_triple keeps_rules) simp_all

lemma exec_reads: "exec (reads f) p = p" "exec (writes g) p = (g (fst p), snd p)"
  by (cases p; simp)+

text \<open>An access that allocates leaves the line it used newest in its set.\<close>

lemma access_newest:
  assumes "unat (c_clock k) + 1 < 2 ^ 32" "0 < c_ways k" "c_repl k = REPL_LRU" "\<forall>i. l_stamp (c_line k i) \<le> c_clock k"
  shows "newest k (addr_set k a) (ev_way (snd (result (cache_read rnd a) (k, b)))) (fst (exec (cache_read rnd a) (k, b))) \<and>
      ev_way (snd (result (cache_read rnd a) (k, b))) < c_ways k"
    and "c_write_alloc k \<Longrightarrow> newest k (addr_set k a) (ev_way (result (cache_write rnd a v) (k, b))) (fst (exec (cache_write rnd a v) (k, b))) \<and>
      ev_way (result (cache_write rnd a v) (k, b)) < c_ways k"
proof -
  have ag: "aged k (c_clock k) k" using assms(4) by (simp add: aged_def)
  let ?si = "addr_set k a" and ?tag = "addr_tag k a" and ?off = "addr_off k a"
  have fw: "find_way (k\<lparr>c_reads := n\<rparr>) a = find_way k a" "find_way (k\<lparr>c_writes := n\<rparr>) a = find_way k a" for n
    by (simp_all add: find_way_def addr_set_def addr_tag_def line_at_def line_index_def)
  have hit: "w < c_ways k \<and> l_valid (line_at k ?si w)" if "find_way k a = Some w" for w
    using find_least that unfolding find_way_def by blast
  have touched: "newest k ?si w (fst (exec (touch ?si w) (c, b)))" if "find_way k a = Some w" "aged k (c_clock k) c" "c_line c = c_line k" for w c b
    using tripleD [OF touch_newest [OF assms(1,3)], of "(c, b)" ?si w] hit [OF that(1)] that(2,3)
    by (simp add: aged_def line_at_def line_index_def)
  note missed = tripleD [OF handle_miss_newest [where k = k and t = "c_clock k" and rnd = rnd and a = a and tag = ?tag and si = ?si and ev = "ev_init ?si ?tag", OF assms(1,2)]]
  show "newest k ?si (ev_way (snd (result (cache_read rnd a) (k, b)))) (fst (exec (cache_read rnd a) (k, b))) \<and>
      ev_way (snd (result (cache_read rnd a) (k, b))) < c_ways k"
  proof (cases "find_way k a")
    case None
    show ?thesis
      using missed [of "(k\<lparr>c_reads := c_reads k + 1, c_read_miss := c_read_miss k + 1\<rparr>, b)"] ag None
      by (auto simp: cache_read_def cache_decode_def fw case_prod_beta Let_def exec_reads)
  next
    case (Some w)
    show ?thesis
      using touched [OF Some, of "k\<lparr>c_reads := c_reads k + 1, c_read_hit := c_read_hit k + 1\<rparr>" b] ag hit [OF Some] Some
      by (auto simp: cache_read_def cache_decode_def fw case_prod_beta Let_def exec_reads)
  qed
  assume al: "c_write_alloc k"
  have st: "newest k ?si w (fst (exec (store_line ?si w ?off a v) p))" if "newest k ?si w (fst p)" for w p
    using tripleD [OF store_line_newest that] .
  show "newest k ?si (ev_way (result (cache_write rnd a v) (k, b))) (fst (exec (cache_write rnd a v) (k, b))) \<and>
      ev_way (result (cache_write rnd a v) (k, b)) < c_ways k"
  proof (cases "find_way k a")
    case None
    show ?thesis
      using missed [of "(k\<lparr>c_writes := c_writes k + 1, c_write_miss := c_write_miss k + 1\<rparr>, b)"] ag None al
      by (auto simp: cache_write_def cache_decode_def fw case_prod_beta Let_def exec_reads intro: st)
  next
    case (Some w)
    show ?thesis
      using touched [OF Some, of "k\<lparr>c_writes := c_writes k + 1, c_write_hit := c_write_hit k + 1\<rparr>" b] ag hit [OF Some] Some
      by (auto simp: cache_write_def cache_decode_def fw case_prod_beta Let_def exec_reads intro: st)
  qed
qed

end
