(* ===== verification/Cache_Stats.thy ===== *)
theory Cache_Stats
  imports Cache_Lines
begin

text \<open>
  The event counters of a cache.  Between the operations every read and write is counted once as a hit
  or a miss, and the stall cycles are the misses times the penalty.  Inside an operation the counters
  owe each other; \<open>owes\<close> keeps the account.
\<close>
unbundle bit_operations_syntax

section \<open>The account\<close>

text \<open>
  \<open>owes r w m\<close>: the counters balance up to \<open>r\<close> reads and \<open>w\<close> writes not yet told hit or miss, and
  \<open>m\<close> misses whose penalty is not yet charged.
\<close>

definition owes :: "u64 \<Rightarrow> u64 \<Rightarrow> u64 \<Rightarrow> 'b cache \<Rightarrow> bool" where
  "owes r w m c \<longleftrightarrow> c_reads c = c_read_hit c + c_read_miss c + r \<and> c_writes c = c_write_hit c + c_write_miss c + w \<and>
     c_stall_cycles c + ucast (c_miss_penalty c) * m = ucast (c_miss_penalty c) * (c_read_miss c + c_write_miss c)"

definition balanced :: "'b cache \<Rightarrow> bool" where
  "balanced c \<longleftrightarrow> c_reads c = c_read_hit c + c_read_miss c \<and> c_writes c = c_write_hit c + c_write_miss c \<and>
     c_stall_cycles c = ucast (c_miss_penalty c) * (c_read_miss c + c_write_miss c)"

lemma balanced_owes: "balanced c \<longleftrightarrow> owes 0 0 0 c"
  by (simp add: balanced_def owes_def)

lemma owes_other [simp]:
  "owes r w m (set_line s v f c) = owes r w m c" "owes r w m (set_data s v i x c) = owes r w m c"
  "owes r w m (c\<lparr>c_clock := t\<rparr>) = owes r w m c" "owes r w m (c\<lparr>c_evictions := n\<rparr>) = owes r w m c"
  "owes r w m (c\<lparr>c_writebacks := n\<rparr>) = owes r w m c" "owes r w m (c\<lparr>c_invalidations := n\<rparr>) = owes r w m c"
  "owes r w m (c\<lparr>c_bytes_in := n\<rparr>) = owes r w m c" "owes r w m (c\<lparr>c_bytes_out := n\<rparr>) = owes r w m c"
  by (simp_all add: owes_def set_line_def set_data_def)

lemma keeps_owes [keeps_rules]:
  "keeps (on_struct (owes r w m)) (writeback si v)" "keeps (on_struct (owes r w m)) (pick_victim rnd si)"
  "keeps (on_struct (owes r w m)) (refill si v a tag)" "keeps (on_struct (owes r w m)) (touch si v)"
  "keeps (on_struct (owes r w m)) (store_line si v off a x)"
  unfolding writeback_def pick_victim_def refill_def touch_def store_line_def
  by (intro keeps_rules; simp)+

lemma hoare_writes_owes:
  "(\<And>c. owes r w m c \<Longrightarrow> owes r' w' m' (f c)) \<Longrightarrow> hoare (on_struct (owes r w m)) (writes f) (on_struct (owes r' w' m'))"
  by (auto simp: hoare_def)

lemma keeps_then: "keeps P m \<Longrightarrow> hoare P m P"
  by (simp add: keeps_iff_hoare)

lemma hoare_then_keeps: "hoare P m Q \<Longrightarrow> (\<And>x. keeps Q (f x)) \<Longrightarrow> hoare P (m \<bind> f) Q"
  by (rule hoare_bind) (auto simp: keeps_iff_hoare)

lemma hoare_if: "(b \<Longrightarrow> hoare P m Q) \<Longrightarrow> (\<not> b \<Longrightarrow> hoare P n Q) \<Longrightarrow> hoare P (if b then m else n) Q"
  by simp

lemma handle_miss_owes: "hoare (on_struct (owes r w 1)) (handle_miss rnd a tag si ev) (on_struct (owes r w 0))"
  unfolding handle_miss_def Let_def
  by (rule hoare_keeps_bind [OF keeps_owes(2)], rule hoare_reads_then,
      rule hoare_keeps_bind, intro keeps_rules, simp,
      rule hoare_keeps_bind [OF keeps_owes(3)], rule hoare_then_keeps, rule hoare_writes_owes)
    (auto simp: owes_def algebra_simps intro: keeps_rules)

lemma read_counters:
  "hoare (on_struct (owes 0 0 0)) (cache_read rnd a) (on_struct (owes 0 0 0))"
proof -
  have start: "hoare (on_struct (owes 0 0 0)) (writes (\<lambda>c. c\<lparr>c_reads := c_reads c + 1\<rparr>)) (on_struct (owes 1 0 0))"
    by (rule hoare_writes_owes) (simp add: owes_def)
  have hit: "hoare (on_struct (owes 1 0 0)) (writes (\<lambda>c. c\<lparr>c_read_hit := c_read_hit c + 1\<rparr>)) (on_struct (owes 0 0 0))"
    and miss: "hoare (on_struct (owes 1 0 0)) (writes (\<lambda>c. c\<lparr>c_read_miss := c_read_miss c + 1\<rparr>)) (on_struct (owes 0 0 1))"
    by (rule hoare_writes_owes, simp add: owes_def algebra_simps)+
  show ?thesis
    unfolding cache_read_def Let_def
  proof (rule hoare_reads_then, simp only: split_paired_all prod.case, rule hoare_bind [OF start], rule hoare_reads_then)
    fix tag si off and found :: "u32 option"
    show "hoare (on_struct (owes 1 0 0)) (case found of
       Some w \<Rightarrow> do {
         writes (\<lambda>c. c\<lparr>c_read_hit := c_read_hit c + 1\<rparr>);
         touch si w;
         v \<leftarrow> reads (\<lambda>c. data_at c si w off);
         ret (v, (ev_init si tag)\<lparr>ev_hit := True, ev_way := w\<rparr>) }
     | None \<Rightarrow> do {
         writes (\<lambda>c. c\<lparr>c_read_miss := c_read_miss c + 1\<rparr>);
         (w, ev) \<leftarrow> handle_miss rnd a tag si (ev_init si tag);
         v \<leftarrow> reads (\<lambda>c. data_at c si w off);
         ret (v, ev\<lparr>ev_way := w\<rparr>) }) (on_struct (owes 0 0 0))"
    proof (cases found)
      case None
      show ?thesis unfolding None option.case
        by (rule hoare_bind [OF miss], rule hoare_then_keeps [OF handle_miss_owes]) (intro keeps_rules)
    next
      case (Some w)
      show ?thesis unfolding Some option.case
        by (rule hoare_then_keeps [OF hit]) (intro keeps_rules)
    qed
  qed
qed

lemma write_counters:
  "hoare (on_struct (owes 0 0 0)) (cache_write rnd a v) (on_struct (owes 0 0 0))"
proof -
  have start: "hoare (on_struct (owes 0 0 0)) (writes (\<lambda>c. c\<lparr>c_writes := c_writes c + 1\<rparr>)) (on_struct (owes 0 1 0))"
    by (rule hoare_writes_owes) (simp add: owes_def)
  have hit: "hoare (on_struct (owes 0 1 0)) (writes (\<lambda>c. c\<lparr>c_write_hit := c_write_hit c + 1\<rparr>)) (on_struct (owes 0 0 0))"
    and miss: "hoare (on_struct (owes 0 1 0)) (writes (\<lambda>c. c\<lparr>c_write_miss := c_write_miss c + 1\<rparr>)) (on_struct (owes 0 0 1))"
    and pay: "hoare (on_struct (owes 0 0 1)) (writes (\<lambda>c. c\<lparr>c_bytes_out := c_bytes_out c + 1,
             c_stall_cycles := c_stall_cycles c + ucast (c_miss_penalty c)\<rparr>)) (on_struct (owes 0 0 0))"
    by (rule hoare_writes_owes, simp add: owes_def algebra_simps)+
  show ?thesis
    unfolding cache_write_def Let_def
  proof (rule hoare_reads_then, simp only: split_paired_all prod.case, rule hoare_bind [OF start], rule hoare_reads_then)
    fix tag si off and found :: "u32 option"
    show "hoare (on_struct (owes 0 1 0)) (case found of
       Some w \<Rightarrow> do {
         writes (\<lambda>c. c\<lparr>c_write_hit := c_write_hit c + 1\<rparr>);
         touch si w;
         store_line si w off a v;
         ret ((ev_init si tag)\<lparr>ev_hit := True, ev_way := w\<rparr>) }
     | None \<Rightarrow> do {
         writes (\<lambda>c. c\<lparr>c_write_miss := c_write_miss c + 1\<rparr>);
         alloc \<leftarrow> reads c_write_alloc;
         if \<not> alloc then do {
           wr \<leftarrow> reads c_bs_write;
           outside (wr a v);
           writes (\<lambda>c. c\<lparr>c_bytes_out := c_bytes_out c + 1,
             c_stall_cycles := c_stall_cycles c + ucast (c_miss_penalty c)\<rparr>);
           p \<leftarrow> reads c_miss_penalty;
           ret ((ev_init si tag)\<lparr>ev_stall := p\<rparr>) }
         else do {
           (w, ev) \<leftarrow> handle_miss rnd a tag si (ev_init si tag);
           store_line si w off a v;
           ret (ev\<lparr>ev_way := w\<rparr>) } }) (on_struct (owes 0 0 0))"
    proof (cases found)
      case (Some w)
      show ?thesis unfolding Some option.case
        by (rule hoare_then_keeps [OF hit]) (intro keeps_rules)
    next
      case None
      show ?thesis unfolding None option.case
        by (rule hoare_bind [OF miss], rule hoare_reads_then, rule hoare_if)
          ((rule hoare_reads_then, rule hoare_keeps_bind [OF keeps_outside], rule hoare_then_keeps [OF pay], intro keeps_rules),
           (rule hoare_then_keeps [OF handle_miss_owes], intro keeps_rules))
    qed
  qed
qed

lemma maintenance_counters:
  "keeps (on_struct (owes r w m)) cache_clean" "keeps (on_struct (owes r w m)) cache_flush"
  "keeps (on_struct (owes r w m)) cache_invalidate" "keeps (on_struct (owes r w m)) (cache_clean_addr a)"
  "keeps (on_struct (owes r w m)) (cache_snoop a)"
  unfolding cache_clean_def cache_flush_def cache_invalidate_def cache_clean_addr_def cache_snoop_def all_ways_def
  by (intro keeps_rules; simp)+

lemma reset_counters: "keeps (on_struct (owes 0 0 0)) cache_reset_stats"
  unfolding cache_reset_stats_def by (intro keeps_rules) (simp add: owes_def)

end
