(* ===== verification/Cache_Lists.thy ===== *)
theory Cache_Lists
  imports Cache_Policy Cache_Stats
begin

text \<open>
  The complete specification of a deterministic cache, and its refinement.  A set is a list of its resident
  lines, newest first: each entry is the base address of a line and whether the line is dirty.  Under LRU a hit
  moves its entry to the front, under FIFO it moves nothing; a fill pushes a clean entry and, when the set is
  full, drops the last one, which is written back if it is dirty.  Beside the lists stand the bytes the
  processor sees, the bytes of memory and the twelve counters.  There are no ways, stamps, clocks, tags or line
  buffers: \<open>tracks\<close> relates all of these to the lists.
\<close>
unbundle bit_operations_syntax

section \<open>The specification\<close>

record tally =
  n_reads :: u64
  n_writes :: u64
  n_read_hit :: u64
  n_read_miss :: u64
  n_write_hit :: u64
  n_write_miss :: u64
  n_evictions :: u64
  n_writebacks :: u64
  n_invalidations :: u64
  n_stall_cycles :: u64
  n_bytes_in :: u64
  n_bytes_out :: u64

record lists =
  r_row :: "u32 \<Rightarrow> (u16 \<times> bool) list"
  r_seen :: "u16 \<Rightarrow> u8"
  r_mem :: "u16 \<Rightarrow> u8"
  r_tally :: tally

definition no_tally :: tally where
  "no_tally = \<lparr>n_reads = 0, n_writes = 0, n_read_hit = 0, n_read_miss = 0, n_write_hit = 0, n_write_miss = 0,
     n_evictions = 0, n_writebacks = 0, n_invalidations = 0, n_stall_cycles = 0, n_bytes_in = 0, n_bytes_out = 0\<rparr>"

definition tally_by :: "(tally \<Rightarrow> tally) \<Rightarrow> lists \<Rightarrow> lists" where
  "tally_by f S = S\<lparr>r_tally := f (r_tally S)\<rparr>"

text \<open>The configuration \<open>k\<close> gives the parameters: line size, sets, ways, policies and the miss penalty.\<close>

definition resident :: "'b cache \<Rightarrow> lists \<Rightarrow> u16 \<Rightarrow> bool" where
  "resident k S a \<longleftrightarrow> addr_base k a \<in> fst ` set (r_row S (addr_set k a))"

definition promote :: "cache_repl \<Rightarrow> u16 \<Rightarrow> (u16 \<times> bool) list \<Rightarrow> (u16 \<times> bool) list" where
  "promote pol x q = (if pol = REPL_LRU then (x, (x, True) \<in> set q) # filter (\<lambda>e. fst e \<noteq> x) q else q)"

definition list_use :: "'b cache \<Rightarrow> u16 \<Rightarrow> lists \<Rightarrow> lists" where
  "list_use k a S = S\<lparr>r_row := (r_row S)(addr_set k a := promote (c_repl k) (addr_base k a) (r_row S (addr_set k a)))\<rparr>"

text \<open>The line with base \<open>x\<close> goes to memory if it is dirty.\<close>

definition list_put_back :: "'b cache \<Rightarrow> u16 \<times> bool \<Rightarrow> lists \<Rightarrow> lists" where
  "list_put_back k e S = (if snd e then S\<lparr>r_mem := (\<lambda>y. if addr_base k y = fst e then r_seen S y else r_mem S y),
     r_tally := (r_tally S)\<lparr>n_writebacks := n_writebacks (r_tally S) + 1,
       n_bytes_out := n_bytes_out (r_tally S) + ucast (c_line_bytes k)\<rparr>\<rparr> else S)"

definition full :: "'b cache \<Rightarrow> u16 \<Rightarrow> lists \<Rightarrow> bool" where
  "full k a S \<longleftrightarrow> length (r_row S (addr_set k a)) = unat (c_ways k)"

definition list_evict :: "'b cache \<Rightarrow> u16 \<Rightarrow> lists \<Rightarrow> lists" where
  "list_evict k a S = (if full k a S
     then (list_put_back k (last (r_row S (addr_set k a))) (tally_by (\<lambda>t. t\<lparr>n_evictions := n_evictions t + 1\<rparr>) S))
       \<lparr>r_row := (r_row S)(addr_set k a := butlast (r_row S (addr_set k a)))\<rparr>
     else S)"

definition list_fill :: "'b cache \<Rightarrow> u16 \<Rightarrow> lists \<Rightarrow> lists" where
  "list_fill k a S = (let S = list_evict k a S in
     tally_by (\<lambda>t. t\<lparr>n_bytes_in := n_bytes_in t + ucast (c_line_bytes k),
         n_stall_cycles := n_stall_cycles t + ucast (c_miss_penalty k)\<rparr>)
       (S\<lparr>r_row := (r_row S)(addr_set k a := (addr_base k a, False) # r_row S (addr_set k a))\<rparr>))"

definition list_store :: "'b cache \<Rightarrow> u16 \<Rightarrow> u8 \<Rightarrow> lists \<Rightarrow> lists" where
  "list_store k a v S = (let S = S\<lparr>r_seen := (r_seen S)(a := v)\<rparr> in
     if c_wpol k = WPOL_THROUGH
     then tally_by (\<lambda>t. t\<lparr>n_bytes_out := n_bytes_out t + 1\<rparr>) (S\<lparr>r_mem := (r_mem S)(a := v)\<rparr>)
     else S\<lparr>r_row := (r_row S)(addr_set k a := map (\<lambda>(x, d). (x, d \<or> x = addr_base k a)) (r_row S (addr_set k a)))\<rparr>)"

text \<open>The events, with the way, which the lists do not have, left 0.\<close>

definition hit_event :: "'b cache \<Rightarrow> u16 \<Rightarrow> cache_event" where
  "hit_event k a = (ev_init (addr_set k a) (addr_tag k a))\<lparr>ev_hit := True\<rparr>"

definition miss_event :: "'b cache \<Rightarrow> u16 \<Rightarrow> lists \<Rightarrow> cache_event" where
  "miss_event k a S = (let ev = ev_init (addr_set k a) (addr_tag k a); e = last (r_row S (addr_set k a)) in
     (if full k a S then ev\<lparr>ev_evicted := True, ev_evicted_base := fst e, ev_wrote_back := snd e\<rparr> else ev)
       \<lparr>ev_stall := c_miss_penalty k\<rparr>)"

definition list_read :: "'b cache \<Rightarrow> u16 \<Rightarrow> lists \<Rightarrow> (u8 \<times> cache_event) \<times> lists" where
  "list_read k a S = (if resident k S a
     then ((r_seen S a, hit_event k a),
       list_use k a (tally_by (\<lambda>t. t\<lparr>n_reads := n_reads t + 1, n_read_hit := n_read_hit t + 1\<rparr>) S))
     else ((r_seen S a, miss_event k a S),
       list_fill k a (tally_by (\<lambda>t. t\<lparr>n_reads := n_reads t + 1, n_read_miss := n_read_miss t + 1\<rparr>) S)))"

definition list_write :: "'b cache \<Rightarrow> u16 \<Rightarrow> u8 \<Rightarrow> lists \<Rightarrow> cache_event \<times> lists" where
  "list_write k a v S = (if resident k S a
     then (hit_event k a, list_store k a v (list_use k a
       (tally_by (\<lambda>t. t\<lparr>n_writes := n_writes t + 1, n_write_hit := n_write_hit t + 1\<rparr>) S)))
     else let S = tally_by (\<lambda>t. t\<lparr>n_writes := n_writes t + 1, n_write_miss := n_write_miss t + 1\<rparr>) S in
     if c_write_alloc k then (miss_event k a S, list_store k a v (list_fill k a S))
     else ((ev_init (addr_set k a) (addr_tag k a))\<lparr>ev_stall := c_miss_penalty k\<rparr>,
       tally_by (\<lambda>t. t\<lparr>n_bytes_out := n_bytes_out t + 1, n_stall_cycles := n_stall_cycles t + ucast (c_miss_penalty k)\<rparr>)
         (S\<lparr>r_seen := (r_seen S)(a := v), r_mem := (r_mem S)(a := v)\<rparr>)))"

text \<open>The dirty lines of all sets, which \<open>clean\<close> and \<open>flush\<close> write back.\<close>

definition dirty_lines :: "'b cache \<Rightarrow> lists \<Rightarrow> nat" where
  "dirty_lines k S = (\<Sum>s\<leftarrow>upto_u32 (c_sets k). length (filter snd (r_row S s)))"

definition list_settle :: "'b cache \<Rightarrow> lists \<Rightarrow> lists" where
  "list_settle k S = tally_by (\<lambda>t. t\<lparr>n_writebacks := n_writebacks t + of_nat (dirty_lines k S),
     n_bytes_out := n_bytes_out t + of_nat (dirty_lines k S) * ucast (c_line_bytes k)\<rparr>) (S\<lparr>r_mem := r_seen S\<rparr>)"

definition list_clean :: "'b cache \<Rightarrow> lists \<Rightarrow> lists" where
  "list_clean k S = (list_settle k S)\<lparr>r_row := (\<lambda>s. map (\<lambda>(x, d). (x, False)) (r_row S s))\<rparr>"

definition list_flush :: "'b cache \<Rightarrow> lists \<Rightarrow> lists" where
  "list_flush k S = (list_settle k S)\<lparr>r_row := (\<lambda>_. [])\<rparr>"

definition list_invalidate :: "lists \<Rightarrow> lists" where
  "list_invalidate S = S\<lparr>r_row := (\<lambda>_. []), r_seen := r_mem S\<rparr>"

text \<open>The entry of the line that covers \<open>a\<close>.\<close>

definition entry :: "'b cache \<Rightarrow> u16 \<Rightarrow> lists \<Rightarrow> u16 \<times> bool" where
  "entry k a S = (addr_base k a, (addr_base k a, True) \<in> set (r_row S (addr_set k a)))"

definition list_clean_addr :: "'b cache \<Rightarrow> u16 \<Rightarrow> lists \<Rightarrow> bool \<times> lists" where
  "list_clean_addr k a S = (resident k S a, if resident k S a
     then (list_put_back k (entry k a S) S)\<lparr>r_row := (r_row S)(addr_set k a :=
       map (\<lambda>(x, d). (x, d \<and> x \<noteq> addr_base k a)) (r_row S (addr_set k a)))\<rparr>
     else S)"

definition list_snoop :: "'b cache \<Rightarrow> u16 \<Rightarrow> lists \<Rightarrow> bool \<times> lists" where
  "list_snoop k a S = (resident k S a, if resident k S a
     then tally_by (\<lambda>t. t\<lparr>n_invalidations := n_invalidations t + 1\<rparr>)
       ((list_put_back k (entry k a S) S)\<lparr>r_row := (r_row S)(addr_set k a :=
         filter (\<lambda>e. fst e \<noteq> addr_base k a) (r_row S (addr_set k a)))\<rparr>)
     else S)"

definition list_reset_stats :: "lists \<Rightarrow> lists" where
  "list_reset_stats = tally_by (\<lambda>_. no_tally)"

lemmas list_steps = list_read_def list_write_def list_use_def list_fill_def list_evict_def list_put_back_def list_store_def
  promote_def full_def resident_def tally_by_def hit_event_def miss_event_def ev_init_def no_tally_def

end
