(* ===== verification/Cache_Ways.thy ===== *)
theory Cache_Ways
  imports Cache_Lists
begin

text \<open>
  From ways and stamps to rows.  \<open>stamped k n W\<close> says that the ways \<open>W s\<close> of each set have decreasing stamps,
  \<open>rows_of k A W R\<close> that the row \<open>R s\<close> lists the lines in those ways, and \<open>At\<close> joins the stamps and the
  counters to the abstract cache of \<open>Cache_Abs\<close>.  The lemmas say what the steps of an access, \<open>writeback\<close>,
  \<open>refill\<close>, \<open>touch\<close> and \<open>store_line\<close>, do to each of them.
\<close>
unbundle bit_operations_syntax

section \<open>Stamps\<close>

text \<open>
  \<open>stamped k n W\<close>: the cache has the configuration of \<open>k\<close>, its clock is at most \<open>n\<close>, and the ways \<open>W s\<close> of
  the set \<open>s\<close> have decreasing stamps that the clock has reached.
\<close>

definition stamped :: "'b cache \<Rightarrow> nat \<Rightarrow> (u32 \<Rightarrow> u32 list) \<Rightarrow> 'b cache \<Rightarrow> bool" where
  "stamped k n W c \<longleftrightarrow> frame c = frame k \<and> unat (c_clock c) \<le> n \<and> (\<forall>s<c_sets k.
     (\<forall>w\<in>set (W s). w < c_ways k \<and> l_stamp (line_at c s w) \<le> c_clock c) \<and>
     sorted_wrt (\<lambda>v w. l_stamp (line_at c s w) < l_stamp (line_at c s v)) (W s))"

lemma stamped_cong:
  assumes "frame c' = frame c" "c_clock c' = c_clock c" "\<And>i. l_stamp (c_line c' i) = l_stamp (c_line c i)"
  shows "stamped k n W c' = stamped k n W c"
proof -
  have "c_ways c' = c_ways c" using assms(1) frame_simps(2) by metis
  then show ?thesis by (simp add: stamped_def line_at_def line_index_def assms)
qed

lemma stamped_other [simp]:
  "stamped k n W (set_data s w i v c) = stamped k n W c"
  "(\<And>l. l_stamp (f l) = l_stamp l) \<Longrightarrow> stamped k n W (set_line s w f c) = stamped k n W c"
  "stamped k n W (c\<lparr>c_reads := m\<rparr>) = stamped k n W c" "stamped k n W (c\<lparr>c_writes := m\<rparr>) = stamped k n W c"
  "stamped k n W (c\<lparr>c_read_hit := m\<rparr>) = stamped k n W c" "stamped k n W (c\<lparr>c_read_miss := m\<rparr>) = stamped k n W c"
  "stamped k n W (c\<lparr>c_write_hit := m\<rparr>) = stamped k n W c" "stamped k n W (c\<lparr>c_write_miss := m\<rparr>) = stamped k n W c"
  "stamped k n W (c\<lparr>c_evictions := m\<rparr>) = stamped k n W c" "stamped k n W (c\<lparr>c_writebacks := m\<rparr>) = stamped k n W c"
  "stamped k n W (c\<lparr>c_invalidations := m\<rparr>) = stamped k n W c" "stamped k n W (c\<lparr>c_stall_cycles := m\<rparr>) = stamped k n W c"
  "stamped k n W (c\<lparr>c_bytes_in := m\<rparr>) = stamped k n W c" "stamped k n W (c\<lparr>c_bytes_out := m\<rparr>) = stamped k n W c"
  by (rule stamped_cong; (simp; fail | simp add: set_data_def set_line_def line_at_def))+

lemma stamped_steps:
  "keeps (on_struct (stamped k n W)) (writeback s w)" "keeps (on_struct (stamped k n W)) (pick_victim rnd s)"
  "keeps (on_struct (stamped k n W)) (store_line s w off a v)"
  unfolding writeback_def pick_victim_def store_line_def by (intro keeps_rules; simp)+

text \<open>The two places that stamp a line move its way to the front.\<close>

definition newest_first :: "u32 \<Rightarrow> u32 \<Rightarrow> (u32 \<Rightarrow> u32 list) \<Rightarrow> u32 \<Rightarrow> u32 list" where
  "newest_first s w W = W(s := w # removeAll w (W s))"

lemma stamp_way:
  assumes k: "geometry_ok k" "s < c_sets k" "w < c_ways k" and n: "n + 1 < 2 ^ 32" and c: "stamped k n W c"
  shows "stamped k (n + 1) (newest_first s w W)
    (set_line s w (\<lambda>l. l\<lparr>l_stamp := c_clock c + 1\<rparr>) (c\<lparr>c_clock := c_clock c + 1\<rparr>))"
proof -
  let ?c = "set_line s w (\<lambda>l. l\<lparr>l_stamp := c_clock c + 1\<rparr>) (c\<lparr>c_clock := c_clock c + 1\<rparr>)"
  have f: "frame c = frame k" "unat (c_clock c) \<le> n" using c by (simp_all add: stamped_def)
  have u: "unat (c_clock c + 1) = unat (c_clock c) + 1" using n f(2) by (simp add: unat_word_ariths)
  then have lt: "x \<le> c_clock c \<Longrightarrow> x < c_clock c + 1" for x by (simp add: word_less_nat_alt word_le_nat_alt)
  have g: "geometry_ok (c\<lparr>c_clock := c_clock c + 1\<rparr>)" "c_sets c = c_sets k" "c_ways c = c_ways k"
    using f(1) k(1) frame_simps(15,2,3) stat_frame(1) by metis+
  have l: "line_at ?c s' v = (if s' = s \<and> v = w then (line_at c s w)\<lparr>l_stamp := c_clock c + 1\<rparr> else line_at c s' v)"
    if "s' < c_sets k" "v < c_ways k" for s' v
    using line_at_set_line [OF g(1), of s w s' v "\<lambda>l. l\<lparr>l_stamp := c_clock c + 1\<rparr>"] that k(2,3)
    by (simp add: g line_at_def line_index_def)
  have ck: "c_clock ?c = c_clock c + 1" by (simp add: set_line_def)
  show ?thesis
    unfolding stamped_def
  proof (intro conjI allI impI)
    show "frame ?c = frame k" using f(1) by simp
    show "unat (c_clock ?c) \<le> n + 1" using u f(2) by (simp add: ck)
    fix s' assume s': "s' < c_sets k"
    note old = c [unfolded stamped_def, THEN conjunct2, THEN conjunct2, rule_format, OF s']
    show "\<forall>v\<in>set (newest_first s w W s'). v < c_ways k \<and> l_stamp (line_at ?c s' v) \<le> c_clock ?c"
      using old k(3) s' lt by (auto simp: newest_first_def l ck less_imp_le split: if_splits)
    have srt: "sorted_wrt (\<lambda>v w. l_stamp (line_at ?c s' w) < l_stamp (line_at ?c s' v)) vs"
      if "set vs \<subseteq> set (W s')" "s' = s \<Longrightarrow> w \<notin> set vs"
        "sorted_wrt (\<lambda>v w. l_stamp (line_at c s' w) < l_stamp (line_at c s' v)) vs" for vs
      using that(3)
    proof (rule sorted_wrt_mono_rel [rotated])
      fix x y assume xy: "x \<in> set vs" "y \<in> set vs" "l_stamp (line_at c s' y) < l_stamp (line_at c s' x)"
      then have "x < c_ways k" "y < c_ways k" using that(1) old by auto
      with xy that(2) show "l_stamp (line_at ?c s' y) < l_stamp (line_at ?c s' x)" by (auto simp: l [OF s'])
    qed
    show "sorted_wrt (\<lambda>v w. l_stamp (line_at ?c s' w) < l_stamp (line_at ?c s' v)) (newest_first s w W s')"
    proof (cases "s' = s")
      case False
      with srt [of "W s'"] old show ?thesis by (simp add: newest_first_def)
    next
      case True
      have "sorted_wrt (\<lambda>v w. l_stamp (line_at ?c s' w) < l_stamp (line_at ?c s' v)) (removeAll w (W s'))"
        using old by (intro srt) (auto simp: removeAll_filter_not_eq sorted_wrt_filter)
      moreover have "l_stamp (line_at ?c s' v) < l_stamp (line_at ?c s' w)" if "v \<in> set (removeAll w (W s'))" for v
        using that old s' True k(3) lt by (auto simp: l)
      ultimately show ?thesis using True by (simp add: newest_first_def)
    qed
  qed
qed

lemma touch_stamped:
  assumes "geometry_ok k" "s < c_sets k" "w < c_ways k" "n + 1 < 2 ^ 32"
  shows "triple (on_struct (stamped k n W)) (touch s w)
    (\<lambda>_. on_struct (stamped k (n + 1) (if c_repl k = REPL_LRU then newest_first s w W else W)))"
proof -
  have "c_repl c = c_repl k" if "stamped k n W c" for c using that frame_simps(4) unfolding stamped_def by metis
  moreover have "stamped k (n + 1) W c" if "stamped k n W c" for c using that by (auto simp: stamped_def)
  ultimately show ?thesis using stamp_way [OF assms] by (auto simp: triple_def touch_def)
qed

lemma refill_stamped:
  assumes "geometry_ok k" "s < c_sets k" "w < c_ways k" "n + 1 < 2 ^ 32"
  shows "triple (on_struct (stamped k n W)) (refill s w a tag) (\<lambda>_. on_struct (stamped k (n + 1) (newest_first s w W)))"
  unfolding refill_def
proof (rule triple_bind [OF triple_reads], assumption, rule triple_bind [OF triple_reads], assumption, rule triple_bind)
  fix base m
  show "triple (on_struct (stamped k n W)) (for_each (upto_u32 m) (\<lambda>i. do {
     rd \<leftarrow> reads c_bs_read; v \<leftarrow> outside (rd (base + ucast i)); writes (set_data s w i v) })) (\<lambda>_. on_struct (stamped k n W))"
    unfolding triple_keeps [symmetric] by (intro keeps_rules) simp
  show "triple (on_struct (stamped k n W)) (do {
     writes (set_line s w (\<lambda>l. l\<lparr>l_valid := True, l_dirty := False, l_tag := tag, l_base := base\<rparr>));
     writes (\<lambda>c. c\<lparr>c_clock := c_clock c + 1\<rparr>);
     t \<leftarrow> reads c_clock;
     writes (set_line s w (\<lambda>l. l\<lparr>l_stamp := t\<rparr>));
     writes (\<lambda>c. c\<lparr>c_bytes_in := c_bytes_in c + ucast m\<rparr>) }) (\<lambda>_. on_struct (stamped k (n + 1) (newest_first s w W)))"
    unfolding triple_def
  proof (intro allI impI)
    fix p assume p: "on_struct (stamped k n W) p"
    obtain c b where cb: "p = (c, b)" by (rule prod.exhaust)
    let ?c = "set_line s w (\<lambda>l. l\<lparr>l_valid := True, l_dirty := False, l_tag := tag, l_base := base\<rparr>) c"
    have "stamped k n W ?c" using p by (simp add: cb)
    from stamp_way [OF assms this] show "on_struct (stamped k (n + 1) (newest_first s w W)) (exec (do {
     writes (set_line s w (\<lambda>l. l\<lparr>l_valid := True, l_dirty := False, l_tag := tag, l_base := base\<rparr>));
     writes (\<lambda>c. c\<lparr>c_clock := c_clock c + 1\<rparr>);
     t \<leftarrow> reads c_clock;
     writes (set_line s w (\<lambda>l. l\<lparr>l_stamp := t\<rparr>));
     writes (\<lambda>c. c\<lparr>c_bytes_in := c_bytes_in c + ucast m\<rparr>) }) p)"
      by (simp add: cb)
  qed
qed

section \<open>Counters\<close>

definition tally_of :: "'b cache \<Rightarrow> tally" where
  "tally_of c = \<lparr>n_reads = c_reads c, n_writes = c_writes c, n_read_hit = c_read_hit c, n_read_miss = c_read_miss c,
     n_write_hit = c_write_hit c, n_write_miss = c_write_miss c, n_evictions = c_evictions c,
     n_writebacks = c_writebacks c, n_invalidations = c_invalidations c, n_stall_cycles = c_stall_cycles c,
     n_bytes_in = c_bytes_in c, n_bytes_out = c_bytes_out c\<rparr>"

lemma tally_fields:
  "c_reads c = n_reads (tally_of c)" "c_writes c = n_writes (tally_of c)" "c_read_hit c = n_read_hit (tally_of c)"
  "c_read_miss c = n_read_miss (tally_of c)" "c_write_hit c = n_write_hit (tally_of c)"
  "c_write_miss c = n_write_miss (tally_of c)" "c_evictions c = n_evictions (tally_of c)"
  "c_writebacks c = n_writebacks (tally_of c)" "c_invalidations c = n_invalidations (tally_of c)"
  "c_stall_cycles c = n_stall_cycles (tally_of c)" "c_bytes_in c = n_bytes_in (tally_of c)"
  "c_bytes_out c = n_bytes_out (tally_of c)"
  by (simp_all add: tally_of_def)

lemma tally_same [simp]:
  "tally_of (set_line s w f c) = tally_of c" "tally_of (set_data s w i v c) = tally_of c"
  "tally_of (c\<lparr>c_clock := t\<rparr>) = tally_of c"
  by (simp_all add: tally_of_def set_line_def set_data_def)

lemma tally_write [simp]:
  "tally_of (c\<lparr>c_reads := m\<rparr>) = (tally_of c)\<lparr>n_reads := m\<rparr>"
  "tally_of (c\<lparr>c_writes := m\<rparr>) = (tally_of c)\<lparr>n_writes := m\<rparr>"
  "tally_of (c\<lparr>c_read_hit := m\<rparr>) = (tally_of c)\<lparr>n_read_hit := m\<rparr>"
  "tally_of (c\<lparr>c_read_miss := m\<rparr>) = (tally_of c)\<lparr>n_read_miss := m\<rparr>"
  "tally_of (c\<lparr>c_write_hit := m\<rparr>) = (tally_of c)\<lparr>n_write_hit := m\<rparr>"
  "tally_of (c\<lparr>c_write_miss := m\<rparr>) = (tally_of c)\<lparr>n_write_miss := m\<rparr>"
  "tally_of (c\<lparr>c_evictions := m\<rparr>) = (tally_of c)\<lparr>n_evictions := m\<rparr>"
  "tally_of (c\<lparr>c_writebacks := m\<rparr>) = (tally_of c)\<lparr>n_writebacks := m\<rparr>"
  "tally_of (c\<lparr>c_invalidations := m\<rparr>) = (tally_of c)\<lparr>n_invalidations := m\<rparr>"
  "tally_of (c\<lparr>c_stall_cycles := m\<rparr>) = (tally_of c)\<lparr>n_stall_cycles := m\<rparr>"
  "tally_of (c\<lparr>c_bytes_in := m\<rparr>) = (tally_of c)\<lparr>n_bytes_in := m\<rparr>"
  "tally_of (c\<lparr>c_bytes_out := m\<rparr>) = (tally_of c)\<lparr>n_bytes_out := m\<rparr>"
  by (simp_all add: tally_of_def)

definition put_back_tally :: "u32 \<Rightarrow> tally \<Rightarrow> tally" where
  "put_back_tally n t = t\<lparr>n_writebacks := n_writebacks t + 1, n_bytes_out := n_bytes_out t + ucast n\<rparr>"

lemma list_put_back_tally: "list_put_back k e S = (if snd e then S\<lparr>r_mem := (\<lambda>y. if addr_base k y = fst e then r_seen S y else r_mem S y),
    r_tally := put_back_tally (c_line_bytes k) (r_tally S)\<rparr> else S)"
  by (simp add: list_put_back_def put_back_tally_def)

lemma keeps_tally:
  "keeps (on_struct (\<lambda>c. tally_of c = t)) (touch s w)" "keeps (on_struct (\<lambda>c. tally_of c = t)) (pick_victim rnd s)"
  unfolding touch_def pick_victim_def by (intro keeps_rules; simp)+

lemma set_data_wpol [simp]: "c_wpol (set_data s w i v c) = c_wpol c"
  by (simp add: set_data_def)

lemma writeback_tally:
  fixes s w :: u32 and t :: tally
  shows "triple (on_struct (\<lambda>c. tally_of c = t \<and> (l_valid (line_at c s w) \<and> l_dirty (line_at c s w)) = d \<and> c_line_bytes c = m))
     (writeback s w) (\<lambda>_. on_struct (\<lambda>c. tally_of c = (if d then put_back_tally m t else t)))"
  unfolding triple_def
proof (intro allI impI)
  fix p :: "'b cache \<times> 'b" assume p: "on_struct (\<lambda>c. tally_of c = t \<and> (l_valid (line_at c s w) \<and> l_dirty (line_at c s w)) = d \<and> c_line_bytes c = m) p"
  obtain c b where cb: "p = (c, b)" by (rule prod.exhaust)
  let ?loop = "for_each (upto_u32 (c_line_bytes c)) (\<lambda>i. do {
         d \<leftarrow> reads (\<lambda>c. data_at c s w i);
         wr \<leftarrow> reads c_bs_write;
         outside (wr (l_base (line_at c s w) + ucast i) d) })"
  have "keeps (on_struct (\<lambda>x. x = c)) ?loop" by (intro keeps_rules)
  from keepsD [OF this, of "(c, b)"] have "exec ?loop (c, b) = (c, snd (exec ?loop (c, b)))" by (simp add: prod_eq_iff)
  then obtain b' where "exec ?loop (c, b) = (c, b')" by blast
  then show "on_struct (\<lambda>c. tally_of c = (if d then put_back_tally m t else t)) (exec (writeback s w) p)"
    using p by (auto simp: cb writeback_def case_prod_beta put_back_tally_def tally_fields)
qed

lemma refill_tally:
  "triple (on_struct (\<lambda>c. tally_of c = t \<and> c_line_bytes c = m)) (refill s w a tag)
     (\<lambda>_. on_struct (\<lambda>c. tally_of c = t\<lparr>n_bytes_in := n_bytes_in t + ucast m\<rparr>))"
  unfolding refill_def
proof (rule triple_bind [OF triple_reads], assumption, rule triple_bind
    [OF triple_reads [where Q = "\<lambda>n p. n = m \<and> tally_of (fst p) = t"]], simp, rule triple_pure, clarify, rule triple_bind)
  fix base
  show "triple (on_struct (\<lambda>c. tally_of c = t)) (for_each (upto_u32 m) (\<lambda>i. do {
     rd \<leftarrow> reads c_bs_read; v \<leftarrow> outside (rd (base + ucast i)); writes (set_data s w i v) })) (\<lambda>_. on_struct (\<lambda>c. tally_of c = t))"
    unfolding triple_keeps [symmetric] by (intro keeps_rules) simp
  show "triple (on_struct (\<lambda>c. tally_of c = t)) (do {
     writes (set_line s w (\<lambda>l. l\<lparr>l_valid := True, l_dirty := False, l_tag := tag, l_base := base\<rparr>));
     writes (\<lambda>c. c\<lparr>c_clock := c_clock c + 1\<rparr>);
     t \<leftarrow> reads c_clock;
     writes (set_line s w (\<lambda>l. l\<lparr>l_stamp := t\<rparr>));
     writes (\<lambda>c. c\<lparr>c_bytes_in := c_bytes_in c + ucast m\<rparr>) })
    (\<lambda>_. on_struct (\<lambda>c. tally_of c = t\<lparr>n_bytes_in := n_bytes_in t + ucast m\<rparr>))"
    by (auto simp: triple_def tally_fields)
qed

lemma store_line_tally:
  "triple (on_struct (\<lambda>c. tally_of c = t \<and> c_wpol c = pol)) (store_line s w off a v)
     (\<lambda>_. on_struct (\<lambda>c. tally_of c = (if pol = WPOL_THROUGH then t\<lparr>n_bytes_out := n_bytes_out t + 1\<rparr> else t)))"
  by (auto simp: triple_def store_line_def tally_fields)

section \<open>The rows\<close>

text \<open>The row of a set: the base and the dirty bit of the line in each of the ways \<open>W s\<close>, which are all that are resident.\<close>

definition tagged :: "slots \<Rightarrow> u32 \<Rightarrow> u32 \<Rightarrow> u16 \<times> bool" where
  "tagged A s w = (t_base (the (A (s, w))), t_dirty (the (A (s, w))))"

definition rows_of :: "'b cache \<Rightarrow> slots \<Rightarrow> (u32 \<Rightarrow> u32 list) \<Rightarrow> (u32 \<Rightarrow> (u16 \<times> bool) list) \<Rightarrow> bool" where
  "rows_of k A W R \<longleftrightarrow> (\<forall>s<c_sets k. set (W s) = {w. A (s, w) \<noteq> None} \<and> distinct (W s) \<and> R s = map (tagged A s) (W s))"

lemma rows_ofD:
  assumes "rows_of k A W R" "s < c_sets k"
  shows "set (W s) = {w. A (s, w) \<noteq> None}" "distinct (W s)" "R s = map (tagged A s) (W s)"
  using assms by (simp_all add: rows_of_def)

lemma stamped_distinct: "stamped k n W c \<Longrightarrow> s < c_sets k \<Longrightarrow> distinct (W s)"
proof -
  have "distinct ws" if "sorted_wrt (\<lambda>v w. (f w :: u32) < f v) ws" for f and ws :: "u32 list"
    using that by (induction ws) auto
  from this [of "\<lambda>w. l_stamp (line_at c s w)" "W s"]
  show "stamped k n W c \<Longrightarrow> s < c_sets k \<Longrightarrow> distinct (W s)" by (simp add: stamped_def)
qed

text \<open>In a set the base of a line determines its way.\<close>

lemma base_way:
  assumes sh: "shape_ok k A" and t: "A (s, w) = Some t" "A (s, w') = Some t'"
  shows "t_base t' = t_base t \<longleftrightarrow> w' = w"
proof
  assume "t_base t' = t_base t"
  then have "t_tag t' = t_tag t" using shape_okD(3) [OF sh t(1)] shape_okD(3) [OF sh t(2)] by simp
  then show "w' = w" by (rule shape_ok_unique [OF sh t(2,1)])
qed (use t in simp)

lemma hit_set: "geometry_ok k \<Longrightarrow> shape_ok k A \<Longrightarrow> A (s, w) = Some t \<Longrightarrow> hit k A a w t \<Longrightarrow> addr_set k a = s"
  using hit_base [of k A a w t] shape_okD(4) [of k A s w t] base_decode [of k a] by (auto simp: cache_decode_def)

lemma resident_hit:
  assumes g: "geometry_ok k" and sh: "shape_ok k A" and r: "rows_of k A W (r_row S)"
  shows "resident k S a \<longleftrightarrow> (\<exists>w t. hit k A a w t)"
proof
  note rw = rows_ofD [OF r addr_bounds(1) [OF g, of a]]
  assume "resident k S a"
  then obtain w where "w \<in> set (W (addr_set k a))" and b: "addr_base k a = fst (tagged A (addr_set k a) w)"
    unfolding resident_def rw(3) by auto
  then obtain t where t: "A (addr_set k a, w) = Some t" using rw(1) by auto
  with b have "hit k A a w t" using hit_at [OF g sh t, of a] by (simp add: tagged_def)
  then show "\<exists>w t. hit k A a w t" by blast
next
  note rw = rows_ofD [OF r addr_bounds(1) [OF g, of a]]
  assume "\<exists>w t. hit k A a w t"
  then obtain w t where h: "hit k A a w t" by blast
  then have "w \<in> set (W (addr_set k a))" "fst (tagged A (addr_set k a) w) = addr_base k a"
    using rw(1) hit_base [OF g sh h] by (auto simp: hit_def tagged_def)
  then show "resident k S a" unfolding resident_def rw(3) by force
qed

lemma entry_hit:
  assumes g: "geometry_ok k" and sh: "shape_ok k A" and r: "rows_of k A W (r_row S)" and h: "hit k A a w t"
  shows "entry k a S = tagged A (addr_set k a) w" "tagged A (addr_set k a) w = (addr_base k a, t_dirty t)"
proof -
  note rw = rows_ofD [OF r addr_bounds(1) [OF g, of a]]
  have t: "A (addr_set k a, w) = Some t" using h by (simp add: hit_def)
  then show e: "tagged A (addr_set k a) w = (addr_base k a, t_dirty t)" using hit_base [OF g sh h] by (simp add: tagged_def)
  have "(addr_base k a, True) \<in> set (r_row S (addr_set k a)) \<longleftrightarrow> t_dirty t"
  proof
    assume "(addr_base k a, True) \<in> set (r_row S (addr_set k a))"
    then obtain v where v: "v \<in> set (W (addr_set k a))" "tagged A (addr_set k a) v = (addr_base k a, True)"
      unfolding rw(3) by auto
    then obtain u where u: "A (addr_set k a, v) = Some u" using rw(1) by auto
    with v(2) e have "t_base u = t_base t" "t_dirty u" by (simp_all add: tagged_def t)
    with base_way [OF sh t u] t u show "t_dirty t" by auto
  next
    assume "t_dirty t"
    with e have "tagged A (addr_set k a) w = (addr_base k a, True)" by simp
    moreover have "w \<in> set (W (addr_set k a))" using t rw(1) by simp
    ultimately show "(addr_base k a, True) \<in> set (r_row S (addr_set k a))" unfolding rw(3) by force
  qed
  then show "entry k a S = tagged A (addr_set k a) w" by (simp add: entry_def e)
qed

text \<open>What the steps do to the rows.\<close>

lemma filter_base:
  assumes sh: "shape_ok k A" and r: "rows_of k A W R" and s: "s < c_sets k" and t: "A (s, w) = Some t"
  shows "filter (\<lambda>e. fst e \<noteq> t_base t) (R s) = map (tagged A s) (removeAll w (W s))"
proof -
  note rw = rows_ofD [OF r s]
  have "fst (tagged A s v) \<noteq> t_base t \<longleftrightarrow> v \<noteq> w" if "v \<in> set (W s)" for v
    using that rw(1) base_way [OF sh t] by (auto simp: tagged_def)
  then show ?thesis unfolding rw(3) removeAll_filter_not_eq filter_map
    by (intro arg_cong [where f = "map (tagged A s)"] filter_cong) auto
qed

lemma rows_drop:
  assumes sh: "shape_ok k A" and r: "rows_of k A W R" and t: "A (s, w) = Some t"
  shows "rows_of k (A((s, w) := None)) (W(s := removeAll w (W s))) (R(s := filter (\<lambda>e. fst e \<noteq> t_base t) (R s)))"
  using filter_base [OF sh r shape_okD(1) [OF sh t] t] r unfolding rows_of_def
  by (auto simp: tagged_def distinct_removeAll)

lemma rows_push:
  assumes r: "rows_of k (A((s, w) := None)) (W(s := removeAll w (W s))) R"
  shows "rows_of k (A((s, w) := Some t)) (newest_first s w W) (R(s := (t_base t, t_dirty t) # R s))"
  unfolding rows_of_def
proof (intro allI impI)
  fix s' assume "s' < c_sets k"
  note rw = rows_ofD [OF r this]
  show "set (newest_first s w W s') = {v. (A((s, w) := Some t)) (s', v) \<noteq> None} \<and> distinct (newest_first s w W s') \<and>
      (R(s := (t_base t, t_dirty t) # R s)) s' = map (tagged (A((s, w) := Some t)) s') (newest_first s w W s')"
  proof (cases "s' = s")
    case True
    then have "set (removeAll w (W s)) = {v. A (s, v) \<noteq> None} - {w}" using rw(1) by auto
    with True rw(2,3) show ?thesis by (auto simp: newest_first_def tagged_def)
  next
    case False
    with rw show ?thesis by (auto simp: newest_first_def tagged_def)
  qed
qed

lemma rows_alter:
  assumes sh: "shape_ok k A" and r: "rows_of k A W R" and t: "A (s, w) = Some t" and u: "t_base u = t_base t"
  shows "rows_of k (A((s, w) := Some u)) W (R(s := map (\<lambda>(x, d). (x, if x = t_base t then t_dirty u else d)) (R s)))"
proof -
  note s = shape_okD(1) [OF sh t]
  note rw = rows_ofD [OF r s]
  have "map (\<lambda>(x, d). (x, if x = t_base t then t_dirty u else d)) (R s) = map (tagged (A((s, w) := Some u)) s) (W s)"
    unfolding rw(3) map_map
  proof (rule map_cong [OF refl])
    fix v assume "v \<in> set (W s)"
    then obtain u' where "A (s, v) = Some u'" using rw(1) by auto
    then show "((\<lambda>(x, d). (x, if x = t_base t then t_dirty u else d)) \<circ> tagged A s) v = tagged (A((s, w) := Some u)) s v"
      using base_way [OF sh t, of v u'] u t by (auto simp: tagged_def)
  qed
  then show ?thesis using r t unfolding rows_of_def by (auto simp: tagged_def)
qed

lemma rows_promote:
  assumes sh: "shape_ok k A" and r: "rows_of k A W R" and t: "A (s, w) = Some t"
  shows "rows_of k A (newest_first s w W) (R(s := (t_base t, t_dirty t) # filter (\<lambda>e. fst e \<noteq> t_base t) (R s)))"
proof -
  have "A((s, w) := Some t) = A" using t by (simp add: fun_upd_idem)
  with rows_push [OF rows_drop [OF sh r t], of t] show ?thesis by simp
qed

lemma spill_view:
  assumes g: "geometry_ok k" and sh: "shape_ok k A" and t: "A (s, w) = Some t"
  shows "spill k t L = (\<lambda>y. if addr_base k y = t_base t then view k A L y else L y)"
proof
  fix y
  show "spill k t L y = (if addr_base k y = t_base t then view k A L y else L y)"
  proof (cases "addr_base k y = t_base t")
    case True
    then have "addr_set k y = s" using shape_okD(4) [OF sh t] base_decode [OF g, of y] by (auto simp: cache_decode_def)
    then have "hit k A y w t" using hit_at [OF g sh t] True by blast
    from view_hit [OF sh this] True show ?thesis by (simp add: spill_def)
  qed (simp add: spill_def)
qed

lemma rows_full:
  assumes r: "rows_of k A W R" and sh: "shape_ok k A" and s: "s < c_sets k"
  shows "length (R s) = unat (c_ways k) \<longleftrightarrow> (\<forall>w<c_ways k. A (s, w) \<noteq> None)"
proof -
  note rw = rows_ofD [OF r s]
  have "card {w. w < c_ways k} = unat (c_ways k)"
    using distinct_card [OF distinct_upto_u32, of "c_ways k", unfolded set_upto_u32] by (simp add: upto_u32_def)
  moreover have sub: "set (W s) \<subseteq> {w. w < c_ways k}" using rw(1) shape_okD(2) [OF sh] by auto
  moreover have "length (R s) = card (set (W s))" using distinct_card [OF rw(2)] by (simp add: rw(3))
  ultimately have "length (R s) = unat (c_ways k) \<longleftrightarrow> set (W s) = {w. w < c_ways k}"
    by (metis card_subset_eq finite)
  with sub show ?thesis unfolding rw(1) by blast
qed

lemma triple_both: "triple P m Q \<Longrightarrow> triple P' m Q' \<Longrightarrow> triple (\<lambda>p. P p \<and> P' p) m (\<lambda>x p. Q x p \<and> Q' x p)"
  by (simp add: triple_def)

section \<open>The steps of an access\<close>

context backing_store
begin

text \<open>A state with abstract cache \<open>A\<close>, memory \<open>L\<close>, clock at most \<open>n\<close>, ways in the order \<open>W\<close> and counters \<open>t\<close>.\<close>

definition At :: "'b cache \<Rightarrow> slots \<Rightarrow> (u16 \<Rightarrow> u8) \<Rightarrow> nat \<Rightarrow> (u32 \<Rightarrow> u32 list) \<Rightarrow> tally \<Rightarrow> 'b cache \<times> 'b \<Rightarrow> bool" where
  "At k A L n W t p \<longleftrightarrow> St k A L p \<and> stamped k n W (fst p) \<and> tally_of (fst p) = t"

lemma At_triple:
  assumes "triple (St k A L) m (\<lambda>_. St k A' L')" "triple (on_struct (stamped k n W)) m (\<lambda>_. on_struct (stamped k n' W'))"
    "triple (\<lambda>p. St k A L p \<and> tally_of (fst p) = t) m (\<lambda>_. on_struct (\<lambda>c. tally_of c = t'))"
  shows "triple (At k A L n W t) m (\<lambda>_. At k A' L' n' W' t')"
  using assms unfolding triple_def At_def by blast

lemma step_writes:
  assumes "\<And>c. frame (f c) = frame c" "\<And>c. slots_of (f c) = slots_of c" "\<And>c. stamped k n W (f c) = stamped k n W c"
    "\<And>c. frame c = frame k \<Longrightarrow> tally_of (f c) = g (tally_of c)"
  shows "triple (At k A L n W t) (writes f) (\<lambda>_. At k A L n W (g t))"
  by (auto simp: triple_def At_def St_def assms)

lemma at_writeback:
  assumes k: "ready k" and sh: "shape_ok k A" and t: "A (s, w) = Some u"
  shows "triple (At k A L n W t) (writeback s w) (\<lambda>_. At k (A((s, w) := Some (u\<lparr>t_dirty := False\<rparr>)))
    (if t_dirty u then spill k u L else L) n W (if t_dirty u then put_back_tally (c_line_bytes k) t else t))"
proof (rule At_triple [OF st_writeback [where A = A, OF k sh t] stamped_steps(1) [unfolded triple_keeps]])
  show "triple (\<lambda>p. St k A L p \<and> tally_of (fst p) = t) (writeback s w)
     (\<lambda>_. on_struct (\<lambda>c. tally_of c = (if t_dirty u then put_back_tally (c_line_bytes k) t else t)))"
  proof (rule triple_weaken [OF writeback_tally])
    fix p assume p: "St k A L p \<and> tally_of (fst p) = t"
    have l: "slots_of (fst p) (s, w) = Some u" using p t by (simp add: St_def)
    have "c_line_bytes (fst p) = c_line_bytes k" using p St_fields(1) unfolding St_def by blast
    then show "tally_of (fst p) = t \<and> (l_valid (line_at (fst p) s w) \<and> l_dirty (line_at (fst p) s w)) = t_dirty u \<and>
        c_line_bytes (fst p) = c_line_bytes k"
      using p slot_line [OF l] by simp
  qed
qed

lemma at_writeback_None:
  assumes "ready k" "s < c_sets k" "w < c_ways k" "A (s, w) = None"
  shows "triple (At k A L n W t) (writeback s w) (\<lambda>_. At k A L n W t)"
proof (rule At_triple [OF st_writeback_None [where A = A, OF assms] stamped_steps(1) [unfolded triple_keeps]])
  show "triple (\<lambda>p. St k A L p \<and> tally_of (fst p) = t) (writeback s w) (\<lambda>_. on_struct (\<lambda>c. tally_of c = t))"
  proof (rule triple_weaken [OF writeback_tally [where d = False]])
    fix p assume p: "St k A L p \<and> tally_of (fst p) = t"
    then have "St k A L (fst p, snd p)" by simp
    note g = St_geometry(2-4) [OF this assms(1)]
    have "\<not> l_valid (line_at (fst p) s w)" using slot_None [of "fst p" s w] p assms(2-4) g by (simp add: St_def)
    then show "tally_of (fst p) = t \<and> (l_valid (line_at (fst p) s w) \<and> l_dirty (line_at (fst p) s w)) = False \<and>
        c_line_bytes (fst p) = c_line_bytes k"
      using p g by simp
  qed simp
qed

lemma St_bytes: "St k A L p \<Longrightarrow> c_line_bytes (fst p) = c_line_bytes k \<and> c_wpol (fst p) = c_wpol k"
  using St_fields(1,5) [of "fst p" k] by (simp add: St_def)

lemma at_refill:
  assumes k: "ready k" and w: "w < c_ways k" and n: "n + 1 < 2 ^ 32"
  shows "triple (At k A L n W t) (refill (addr_set k a) w a (addr_tag k a))
    (\<lambda>_. At k (A((addr_set k a, w) := Some (fetched k a L))) L (n + 1) (newest_first (addr_set k a) w W)
       (t\<lparr>n_bytes_in := n_bytes_in t + ucast (c_line_bytes k)\<rparr>))"
proof -
  have g: "geometry_ok k" using k by (simp add: ready_def)
  show ?thesis
    by (rule At_triple [OF st_refill [OF k w] refill_stamped [OF g addr_bounds(1) [OF g] w n]], rule triple_weaken [OF refill_tally])
      (auto dest: St_bytes)
qed

lemma st_touch:
  assumes k: "ready k" and sh: "shape_ok k A" and t: "A (s, w) = Some u"
  shows "triple (St k A L) (touch s w) (\<lambda>_. St k A L)"
proof -
  have "triple (St k A L) (do {
      writes (\<lambda>c. c\<lparr>c_clock := c_clock c + 1\<rparr>);
      n \<leftarrow> reads c_clock;
      writes (set_line s w (\<lambda>l. l\<lparr>l_stamp := n\<rparr>)) }) (\<lambda>_. St k A L)"
    by (rule triple_bind, rule st_writes, simp, simp, rule triple_bind [OF triple_reads], assumption,
        rule st_set_line(1) [where A = A and t = u, OF k shape_okD(1,2) [OF sh t] t])
  then show ?thesis
    unfolding touch_def whenever_def by (intro triple_bind [OF triple_reads]) (assumption, auto intro: triple_ret)
qed

lemma at_touch:
  assumes k: "ready k" and sh: "shape_ok k A" and t: "A (s, w) = Some u" and n: "n + 1 < 2 ^ 32"
  shows "triple (At k A L n W t) (touch s w)
    (\<lambda>_. At k A L (n + 1) (if c_repl k = REPL_LRU then newest_first s w W else W) t)"
proof -
  have g: "geometry_ok k" using k by (simp add: ready_def)
  show ?thesis
    by (rule At_triple [OF st_touch [where A = A, OF k sh t] touch_stamped [OF g shape_okD(1,2) [OF sh t] n]])
      (rule triple_weaken [OF keeps_tally(1) [unfolded triple_keeps]], auto)
qed

lemma st_store_line:
  fixes v :: u8
  assumes k: "ready k" and sh: "shape_ok k A" and h: "hit k A a w u"
  defines "u' \<equiv> u\<lparr>t_data := (t_data u)(addr_off k a := v)\<rparr>"
  shows "triple (St k A L) (store_line (addr_set k a) w (addr_off k a) a v)
    (\<lambda>_. if c_wpol k = WPOL_THROUGH then St k (A((addr_set k a, w) := Some u')) (L(a := v))
       else St k (A((addr_set k a, w) := Some (u'\<lparr>t_dirty := True\<rparr>))) L)"
proof -
  have g: "geometry_ok k" using k by (simp add: ready_def)
  have t: "A (addr_set k a, w) = Some u" using h by (simp add: hit_def)
  let ?A = "A((addr_set k a, w) := Some u')"
  note sw = shape_okD(1,2) [OF sh t]
  have eq: "?A((addr_set k a, w) := Some (u'\<lparr>t_dirty := True\<rparr>)) = A((addr_set k a, w) := Some (u'\<lparr>t_dirty := True\<rparr>))"
    by simp
  have wback: "triple (St k ?A L) (writes (set_line (addr_set k a) w (\<lambda>l. l\<lparr>l_dirty := True\<rparr>)))
      (\<lambda>_. St k (A((addr_set k a, w) := Some (u'\<lparr>t_dirty := True\<rparr>))) L)"
    unfolding eq [symmetric] by (rule st_set_line(2) [OF k sw]) simp
  have through: "triple (St k ?A L) (do {
       wr \<leftarrow> reads c_bs_write;
       outside (wr a v);
       writes (\<lambda>c. c\<lparr>c_bytes_out := c_bytes_out c + 1\<rparr>) }) (\<lambda>_. St k ?A (L(a := v)))"
    unfolding bind_assoc [symmetric] by (rule triple_bind [OF wr_St [OF k]], rule st_writes) simp_all
  have rest: "triple (St k ?A L) (do {
       p \<leftarrow> reads c_wpol;
       if p = WPOL_THROUGH then do {
         wr \<leftarrow> reads c_bs_write;
         outside (wr a v);
         writes (\<lambda>c. c\<lparr>c_bytes_out := c_bytes_out c + 1\<rparr>) }
       else writes (set_line (addr_set k a) w (\<lambda>l. l\<lparr>l_dirty := True\<rparr>)) })
      (\<lambda>_. if c_wpol k = WPOL_THROUGH then St k ?A (L(a := v)) else St k (A((addr_set k a, w) := Some (u'\<lparr>t_dirty := True\<rparr>))) L)"
    by (rule triple_bind [OF triple_reads [where Q = "\<lambda>r p. r = c_wpol k \<and> St k ?A L p"]],
        use St_bytes in fastforce, rule triple_pure) (use through wback in simp)
  have "triple (St k A L) (writes (set_data (addr_set k a) w (addr_off k a) v)) (\<lambda>_. St k ?A L)"
    unfolding u'_def by (rule st_store [where A = A and t = u, OF k sw addr_bounds(2) [OF g] t])
  then show ?thesis unfolding store_line_def by (rule triple_bind) (rule rest)
qed

lemma at_store_line:
  fixes v :: u8
  assumes k: "ready k" and sh: "shape_ok k A" and h: "hit k A a w u"
  defines "u' \<equiv> u\<lparr>t_data := (t_data u)(addr_off k a := v)\<rparr>"
  shows "triple (At k A L n W t) (store_line (addr_set k a) w (addr_off k a) a v)
    (\<lambda>_. if c_wpol k = WPOL_THROUGH
       then At k (A((addr_set k a, w) := Some u')) (L(a := v)) n W (t\<lparr>n_bytes_out := n_bytes_out t + 1\<rparr>)
       else At k (A((addr_set k a, w) := Some (u'\<lparr>t_dirty := True\<rparr>))) L n W t)"
proof -
  have s: "triple (on_struct (stamped k n W)) (store_line (addr_set k a) w (addr_off k a) a v) (\<lambda>_. on_struct (stamped k n W))"
    by (rule stamped_steps(3) [unfolded triple_keeps])
  have t: "triple (\<lambda>p. St k A L p \<and> tally_of (fst p) = t) (store_line (addr_set k a) w (addr_off k a) a v)
     (\<lambda>_. on_struct (\<lambda>c. tally_of c = (if c_wpol k = WPOL_THROUGH then t\<lparr>n_bytes_out := n_bytes_out t + 1\<rparr> else t)))"
    by (rule triple_weaken [OF store_line_tally]) (auto dest: St_bytes)
  show ?thesis
  proof (cases "c_wpol k = WPOL_THROUGH")
    case True
    show ?thesis unfolding if_P [OF True]
      by (rule At_triple [OF _ s]) (use st_store_line [where v = v and L = L, OF k sh h] t True in \<open>simp_all add: u'_def\<close>)
  next
    case False
    show ?thesis unfolding if_not_P [OF False]
      by (rule At_triple [OF _ s]) (use st_store_line [where v = v and L = L, OF k sh h] t False in \<open>simp_all add: u'_def\<close>)
  qed
qed

end

end
