(* ===== verification/Cache_Recency.thy ===== *)
theory Cache_Recency
  imports Cache_Ways
begin

text \<open>
  \<open>h6502/cache.c\<close> refines the lists of \<open>Cache_Lists\<close>.  \<open>tracks k n S\<close> holds of a cache with the configuration
  \<open>k\<close> and its memory when the lists \<open>S\<close> describe them and the clock is at most \<open>n\<close>; as long as the clock does
  not wrap, every operation of the interface does to the cache what its counterpart does to the lists, with
  the same result, event, counters and memory.
\<close>
unbundle bit_operations_syntax

section \<open>The relation\<close>

text \<open>The abstract cache \<open>A\<close>, with its ways in the order \<open>W\<close>, is what the lists \<open>S\<close> describe.\<close>

definition pictures :: "'b cache \<Rightarrow> slots \<Rightarrow> (u32 \<Rightarrow> u32 list) \<Rightarrow> lists \<Rightarrow> bool" where
  "pictures k A W S \<longleftrightarrow> shape_ok k A \<and> coherent k A (r_mem S) \<and> view k A (r_mem S) = r_seen S \<and> rows_of k A W (r_row S)"

lemma tally_by_simps [simp]:
  "r_row (tally_by f S) = r_row S" "r_seen (tally_by f S) = r_seen S" "r_mem (tally_by f S) = r_mem S"
  "r_tally (tally_by f S) = f (r_tally S)" "pictures k A W (tally_by f S) = pictures k A W S"
  by (simp_all add: tally_by_def pictures_def)

context backing_store
begin

definition tracks :: "'b cache \<Rightarrow> nat \<Rightarrow> lists \<Rightarrow> 'b cache \<times> 'b \<Rightarrow> bool" where
  "tracks k n S p \<longleftrightarrow> (\<exists>A W. pictures k A W S \<and> At k A (r_mem S) n W (r_tally S) p)"

text \<open>The line of \<open>a\<close> is resident in way \<open>w\<close>; it is not resident; it is not, and way \<open>w\<close> is about to be filled.\<close>

definition Hits :: "'b cache \<Rightarrow> u16 \<Rightarrow> u32 \<Rightarrow> nat \<Rightarrow> lists \<Rightarrow> 'b cache \<times> 'b \<Rightarrow> bool" where
  "Hits k a w n S p \<longleftrightarrow> (\<exists>A W t. pictures k A W S \<and> At k A (r_mem S) n W (r_tally S) p \<and> hit k A a w t)"

definition Misses :: "'b cache \<Rightarrow> u16 \<Rightarrow> nat \<Rightarrow> lists \<Rightarrow> 'b cache \<times> 'b \<Rightarrow> bool" where
  "Misses k a n S p \<longleftrightarrow> (\<exists>A W. pictures k A W S \<and> At k A (r_mem S) n W (r_tally S) p \<and> (\<forall>w t. \<not> hit k A a w t))"

definition Room :: "'b cache \<Rightarrow> u16 \<Rightarrow> u32 \<Rightarrow> nat \<Rightarrow> lists \<Rightarrow> 'b cache \<times> 'b \<Rightarrow> bool" where
  "Room k a w n S p \<longleftrightarrow> (\<exists>A W. shape_ok k A \<and> coherent k A (r_mem S) \<and> view k A (r_mem S) = r_seen S \<and>
     At k A (r_mem S) n W (r_tally S) p \<and> (\<forall>w t. \<not> hit k A a w t) \<and>
     (\<forall>t. A (addr_set k a, w) = Some t \<longrightarrow> \<not> t_dirty t) \<and>
     rows_of k (A((addr_set k a, w) := None)) (W(addr_set k a := removeAll w (W (addr_set k a)))) (r_row S))"

lemma Hits_tracks: "Hits k a w n S p \<Longrightarrow> tracks k n S p"
  by (auto simp: Hits_def tracks_def)

lemma HitsI: "pictures k A W S \<Longrightarrow> At k A (r_mem S) n W (r_tally S) p \<Longrightarrow> hit k A a w t \<Longrightarrow> Hits k a w n S p"
  unfolding Hits_def by blast

lemma tracksI: "pictures k A W S \<Longrightarrow> At k A (r_mem S) n W (r_tally S) p \<Longrightarrow> tracks k n S p"
  unfolding tracks_def by blast

lemma tracks_triple:
  "(\<And>A W. pictures k A W S \<Longrightarrow> triple (At k A (r_mem S) n W (r_tally S)) m Q) \<Longrightarrow> triple (tracks k n S) m Q"
  "(\<And>A W t. pictures k A W S \<Longrightarrow> hit k A a w t \<Longrightarrow> triple (At k A (r_mem S) n W (r_tally S)) m Q) \<Longrightarrow>
    triple (Hits k a w n S) m Q"
  "(\<And>A W. pictures k A W S \<Longrightarrow> (\<And>w t. \<not> hit k A a w t) \<Longrightarrow> triple (At k A (r_mem S) n W (r_tally S)) m Q) \<Longrightarrow>
    triple (Misses k a n S) m Q"
  unfolding triple_def tracks_def Hits_def Misses_def by blast+

lemma tracks_writes:
  assumes "\<And>c. frame (f c) = frame c" "\<And>c. slots_of (f c) = slots_of c" "\<And>c n W. stamped k n W (f c) = stamped k n W c"
    "\<And>c. frame c = frame k \<Longrightarrow> tally_of (f c) = g (tally_of c)"
  shows "triple (tracks k n S) (writes f) (\<lambda>_. tracks k n (tally_by g S))"
    "triple (Hits k a w n S) (writes f) (\<lambda>_. Hits k a w n (tally_by g S))"
    "triple (Misses k a n S) (writes f) (\<lambda>_. Misses k a n (tally_by g S))"
proof -
  have at: "triple (At k A L n W t) (writes f) (\<lambda>_. At k A L n W (g t))" for A L n W t
    by (rule step_writes) (simp_all add: assms)
  show "triple (tracks k n S) (writes f) (\<lambda>_. tracks k n (tally_by g S))"
    by (rule tracks_triple(1), rule triple_weaken [OF at], assumption, rule tracksI) auto
  show "triple (Hits k a w n S) (writes f) (\<lambda>_. Hits k a w n (tally_by g S))"
    by (rule tracks_triple(2), rule triple_weaken [OF at], assumption, rule HitsI) auto
  show "triple (Misses k a n S) (writes f) (\<lambda>_. Misses k a n (tally_by g S))"
    by (rule tracks_triple(3), rule triple_weaken [OF at], assumption) (auto simp: Misses_def)
qed

section \<open>Hits\<close>

lemma ready_geometry: "ready k \<Longrightarrow> geometry_ok k"
  by (simp add: ready_def)

lemma touch_Hits:
  assumes k: "ready k" and n: "n + 1 < 2 ^ 32"
  shows "triple (Hits k a w n S) (touch (addr_set k a) w) (\<lambda>_. Hits k a w (n + 1) (list_use k a S))"
proof (rule tracks_triple(2))
  fix A W t assume p: "pictures k A W S" and h: "hit k A a w t"
  note g = ready_geometry [OF k]
  have t: "A (addr_set k a, w) = Some t" using h by (simp add: hit_def)
  have sh: "shape_ok k A" and r: "rows_of k A W (r_row S)" using p by (simp_all add: pictures_def)
  let ?W = "if c_repl k = REPL_LRU then newest_first (addr_set k a) w W else W"
  have "rows_of k A ?W (r_row (list_use k a S))"
    using rows_promote [OF sh r t] r entry_hit [OF g sh r h] hit_base [OF g sh h]
    by (auto simp: list_use_def promote_def entry_def)
  with p have "pictures k A ?W (list_use k a S)" by (simp add: pictures_def list_use_def)
  then show "triple (At k A (r_mem S) n W (r_tally S)) (touch (addr_set k a) w) (\<lambda>_. Hits k a w (n + 1) (list_use k a S))"
    by (intro triple_weaken [OF at_touch [where A = A, OF k sh t n]]) (auto intro!: HitsI [OF _ _ h] simp: list_use_def)
qed

lemma data_Hits:
  assumes k: "ready k"
  shows "triple (Hits k a w n S) (reads (\<lambda>c. data_at c (addr_set k a) w (addr_off k a))) (\<lambda>v p. v = r_seen S a \<and> tracks k n S p)"
proof (rule tracks_triple(2), rule triple_reads)
  fix A W t c b assume p: "pictures k A W S" and h: "hit k A a w t" and at: "At k A (r_mem S) n W (r_tally S) (c, b)"
  have st: "St k A (r_mem S) (c, b)" using at by (simp add: At_def)
  have "slots_of c (addr_set k a, w) = Some t" using h st by (simp add: hit_def St_def)
  from slot_line [OF this] have "t_data t (addr_off k a) = data_at c (addr_set k a) w (addr_off k a)"
    using St_geometry(4) [OF st k] addr_bounds(2) [OF ready_geometry [OF k], of a] by auto
  then show "data_at c (addr_set k a) w (addr_off k a) = r_seen S a \<and> tracks k n S (c, b)"
    using view_hit [OF _ h, of "r_mem S"] p tracksI [OF p at] by (simp add: pictures_def)
qed

lemma store_Hits:
  assumes k: "ready k"
  shows "triple (Hits k a w n S) (store_line (addr_set k a) w (addr_off k a) a v) (\<lambda>_. tracks k n (list_store k a v S))"
proof (rule tracks_triple(2))
  fix A W t assume p: "pictures k A W S" and h: "hit k A a w t"
  note g = ready_geometry [OF k]
  have t: "A (addr_set k a, w) = Some t" using h by (simp add: hit_def)
  have sh: "shape_ok k A" and r: "rows_of k A W (r_row S)" and co: "coherent k A (r_mem S)"
    and V: "view k A (r_mem S) = r_seen S" using p by (simp_all add: pictures_def)
  let ?t = "t\<lparr>t_data := (t_data t)(addr_off k a := v)\<rparr>"
  let ?s = "addr_set k a" and ?T = "list_store k a v S"
  have b: "t_base t = addr_base k a" by (rule hit_base [OF g sh h])
  have rw: "rows_of k (A((?s, w) := Some u)) W (r_row ?T)"
    if "t_base u = t_base t" "t_dirty u = (if c_wpol k = WPOL_THROUGH then t_dirty t else True)" for u
  proof (cases "c_wpol k = WPOL_THROUGH")
    case True
    have "tagged (A((?s, w) := Some u)) s = tagged A s" for s
      using that True t by (auto simp: fun_eq_iff tagged_def)
    then have "rows_of k (A((?s, w) := Some u)) W (r_row S)" using r t unfolding rows_of_def by auto
    with True show ?thesis by (simp add: list_store_def)
  next
    case False
    have e: "(\<lambda>(x, d). (x, if x = t_base t then t_dirty u else d)) = (\<lambda>(x, d). (x, d \<or> x = addr_base k a))"
      using that False by (auto simp: b fun_eq_iff)
    from rows_alter [OF sh r t that(1), unfolded e] False show ?thesis by (simp add: list_store_def)
  qed
  show "triple (At k A (r_mem S) n W (r_tally S)) (store_line ?s w (addr_off k a) a v) (\<lambda>_. tracks k n ?T)"
  proof (cases "c_wpol k = WPOL_THROUGH")
    case True
    have "pictures k (A((?s, w) := Some ?t)) W ?T"
      using store_slot(2) [OF g sh h co] V rw [of ?t] True by (simp add: pictures_def list_store_def)
    from tracksI [OF this] show ?thesis
      by (intro triple_weaken [OF at_store_line [OF k sh h]]) (auto simp: list_store_def True)
  next
    case False
    have "pictures k (A((?s, w) := Some (?t\<lparr>t_dirty := True\<rparr>))) W ?T"
      using store_slot(1) [OF g sh h co] V rw [of "?t\<lparr>t_dirty := True\<rparr>"] False by (simp add: pictures_def list_store_def)
    from tracksI [OF this] show ?thesis
      by (intro triple_weaken [OF at_store_line [OF k sh h]]) (auto simp: list_store_def False)
  qed
qed

end

section \<open>Misses\<close>

context backing_store
begin

text \<open>Under LRU and FIFO the victim of a full set is the last in the order of the ways.\<close>

lemma victim_At:
  assumes k: "ready k" and r: "rows_of k A W R" and sh: "shape_ok k A" and s: "s < c_sets k" and det: "c_repl k \<noteq> REPL_RANDOM"
  shows "triple (At k A L n W t) (pick_victim rnd s) (\<lambda>w p. At k A L n W t p \<and> w < c_ways k \<and>
    (if length (R s) = unat (c_ways k) then A (s, w) \<noteq> None \<and> w = last (W s) else A (s, w) = None))"
  unfolding triple_def
proof (intro allI impI)
  fix p assume at: "At k A L n W t p"
  obtain c b where cb: "p = (c, b)" by (rule prod.exhaust)
  note g = ready_geometry [OF k]
  have st: "St k A L (c, b)" and sm: "stamped k n W c" using at by (simp_all add: At_def cb)
  have f: "frame c = frame k" "slots_of c = A" using st by (simp_all add: St_def)
  note fs = St_fields(1-4) [OF f(1)]
  have pos: "0 < c_ways c" using geometry_bounds(4) [OF g] fs by (simp add: word_less_nat_alt)
  let ?w = "result (pick_victim rnd s) (c, b)"
  note v = pick_victim_result [OF pos, where rnd = rnd and si = s and b = b]
  have valid: "l_valid (line_at c s v) \<longleftrightarrow> A (s, v) \<noteq> None" if "v < c_ways k" for v
    using that s fs unfolding f(2) [symmetric] by (simp add: slots_of_def)
  have w: "?w < c_ways k" using v(1) fs by simp
  have "At k A L n W t (exec (pick_victim rnd s) p)"
    using tripleD [OF pick_victim_bound [OF k] st, of s] sm at by (simp add: At_def cb victim_struct)
  moreover have "if length (R s) = unat (c_ways k) then A (s, ?w) \<noteq> None \<and> ?w = last (W s) else A (s, ?w) = None"
  proof (cases "\<forall>v<c_ways k. A (s, v) \<noteq> None")
    case False
    then have "\<exists>v<c_ways c. \<not> l_valid (line_at c s v)" using valid fs by auto
    then show ?thesis using v(2) valid [OF w] False rows_full [OF r sh s] by auto
  next
    case True
    then have all: "\<forall>v<c_ways c. l_valid (line_at c s v)" using valid fs by auto
    have least: "l_stamp (line_at c s ?w) \<le> l_stamp (line_at c s v)" if "v < c_ways k" for v
      using v(3) [OF all] det fs that by simp
    note rw = rows_ofD [OF r s]
    have mem: "?w \<in> set (W s)" using rw(1) True w by simp
    have "?w = last (W s)"
    proof (rule ccontr)
      assume ne: "?w \<noteq> last (W s)"
      have ap: "W s = butlast (W s) @ [last (W s)]" using mem by (metis append_butlast_last_id empty_iff empty_set)
      then have "?w \<in> set (butlast (W s))" using mem ne by (metis in_set_butlast_appendI in_set_conv_decomp set_ConsD rotate1.simps(2) set_rotate1)
      moreover have "sorted_wrt (\<lambda>v w. l_stamp (line_at c s w) < l_stamp (line_at c s v)) (butlast (W s) @ [last (W s)])"
        using sm s unfolding stamped_def ap [symmetric] by blast
      ultimately have "l_stamp (line_at c s (last (W s))) < l_stamp (line_at c s ?w)" by (simp add: sorted_wrt_append)
      moreover have "last (W s) < c_ways k" using sm s mem unfolding stamped_def by (metis last_in_set list.set_cases neq_Nil_conv)
      ultimately show False using least by (metis leD)
    qed
    then show ?thesis using True w rows_full [OF r sh s] by auto
  qed
  ultimately show "At k A L n W t (exec (pick_victim rnd s) p) \<and> result (pick_victim rnd s) p < c_ways k \<and>
      (if length (R s) = unat (c_ways k) then A (s, result (pick_victim rnd s) p) \<noteq> None \<and> result (pick_victim rnd s) p = last (W s)
       else A (s, result (pick_victim rnd s) p) = None)"
    using w unfolding cb by blast
qed

text \<open>What \<open>handle_miss\<close> reads of the victim.\<close>

lemma victim_line:
  assumes "ready k" "s < c_sets k" "w < c_ways k"
  shows "triple (At k A L n W t) (reads (\<lambda>c. line_at c s w)) (\<lambda>l p. (case A (s, w) of None \<Rightarrow> \<not> l_valid l
    | Some u \<Rightarrow> l_valid l \<and> l_base l = t_base u \<and> l_dirty l = t_dirty u) \<and> At k A L n W t p)"
proof (rule triple_reads)
  fix c b assume at: "At k A L n W t (c, b)"
  then have st: "St k A L (c, b)" by (simp add: At_def)
  then have sl: "slots_of c (s, w) = A (s, w)" by (simp add: St_def)
  note g = St_geometry(2,3) [OF st assms(1)]
  show "(case A (s, w) of None \<Rightarrow> \<not> l_valid (line_at c s w)
    | Some u \<Rightarrow> l_valid (line_at c s w) \<and> l_base (line_at c s w) = t_base u \<and> l_dirty (line_at c s w) = t_dirty u) \<and> At k A L n W t (c, b)"
  proof (cases "A (s, w)")
    case None
    with slot_None [of c s w] sl g assms(2,3) at show ?thesis by simp
  next
    case (Some u)
    with slot_line [of c s w u] sl at show ?thesis by simp
  qed
qed

lemma evict_Room:
  assumes k: "ready k" and p: "pictures k A W S" and miss: "\<And>w t. \<not> hit k A a w t" and w: "w < c_ways k"
    and v: "if full k a S then A (addr_set k a, w) \<noteq> None \<and> w = last (W (addr_set k a)) else A (addr_set k a, w) = None"
  shows "triple (\<lambda>p. (l_valid l \<longleftrightarrow> A (addr_set k a, w) \<noteq> None) \<and> At k A (r_mem S) n W (r_tally S) p)
    (whenever (l_valid l) (do { writes (\<lambda>c. c\<lparr>c_evictions := c_evictions c + 1\<rparr>); writeback (addr_set k a) w }))
    (\<lambda>_. Room k a w n (list_evict k a S))"
proof (rule triple_pure)
  assume l: "l_valid l \<longleftrightarrow> A (addr_set k a, w) \<noteq> None"
  let ?s = "addr_set k a"
  note g = ready_geometry [OF k]
  note s = addr_bounds(1) [OF g, of a]
  have sh: "shape_ok k A" and r: "rows_of k A W (r_row S)" and co: "coherent k A (r_mem S)"
    and V: "view k A (r_mem S) = r_seen S" using p by (simp_all add: pictures_def)
  note rw = rows_ofD [OF r s]
  show "triple (At k A (r_mem S) n W (r_tally S))
    (whenever (l_valid l) (do { writes (\<lambda>c. c\<lparr>c_evictions := c_evictions c + 1\<rparr>); writeback ?s w }))
    (\<lambda>_. Room k a w n (list_evict k a S))"
  proof (cases "A (?s, w)")
    case None
    then have "\<not> full k a S" using v by (auto split: if_splits)
    then have e: "list_evict k a S = S" by (simp add: list_evict_def)
    have "A((?s, w) := None) = A" using None by (simp add: fun_upd_idem)
    moreover have "w \<notin> set (W ?s)" using rw(1) None by simp
    then have "W(?s := removeAll w (W ?s)) = W" by simp
    ultimately have "Room k a w n S q" if "At k A (r_mem S) n W (r_tally S) q" for q
      using that sh co V miss r None unfolding Room_def by (intro exI [of _ A] exI [of _ W]) simp
    then show ?thesis using l None by (simp add: triple_def whenever_def e)
  next
    case (Some t)
    then have fl: "full k a S" "w = last (W ?s)" using v by (auto split: if_splits)
    have ne: "W ?s \<noteq> []" using Some rw(1) by auto
    have lst: "last (r_row S ?s) = (t_base t, t_dirty t)"
      using Some fl(2) ne by (simp add: rw(3) last_map tagged_def)
    let ?A = "A((?s, w) := Some (t\<lparr>t_dirty := False\<rparr>))"
    let ?L = "if t_dirty t then spill k t (r_mem S) else r_mem S"
    let ?S = "list_evict k a S"
    have L: "r_mem ?S = ?L" "r_seen ?S = r_seen S"
      using spill_view [OF g sh Some, of "r_mem S"] V fl(1) by (auto simp: list_evict_def lst list_put_back_def fun_eq_iff)
    have c: "shape_ok k ?A \<and> coherent k ?A ?L \<and> view k ?A ?L = r_seen S"
    proof (cases "t_dirty t")
      case True
      then show ?thesis using clean_slot [OF g sh co Some] V by simp
    next
      case False
      then have "?A = A" using Some by (auto simp: fun_eq_iff)
      with False sh co V show ?thesis by simp
    qed
    have m: "\<not> hit k ?A a w' t'" for w' t' using miss Some by (auto simp: hit_def)
    have rm: "removeAll w (W ?s) = butlast (W ?s)"
    proof -
      have ap: "W ?s = butlast (W ?s) @ [w]" using ne by (simp add: fl(2))
      then have "distinct (butlast (W ?s) @ [w])" using rw(2) by simp
      then show ?thesis by (subst ap) (simp add: removeAll_id)
    qed
    have base: "filter (\<lambda>e. fst e \<noteq> t_base t) (r_row S ?s) = butlast (r_row S ?s)"
      using filter_base [OF sh r s Some] by (simp add: rm map_butlast rw(3))
    have "rows_of k (?A((?s, w) := None)) (W(?s := removeAll w (W ?s))) (r_row ?S)"
      using rows_drop [OF sh r Some] fl(1) by (simp add: base list_evict_def)
    moreover have T: "r_tally ?S = (if t_dirty t then put_back_tally (c_line_bytes k) ((r_tally S)\<lparr>n_evictions := n_evictions (r_tally S) + 1\<rparr>)
        else (r_tally S)\<lparr>n_evictions := n_evictions (r_tally S) + 1\<rparr>)"
      using fl(1) by (simp add: list_evict_def lst list_put_back_tally)
    ultimately have room: "Room k a w n ?S q" if "At k ?A ?L n W (r_tally ?S) q" for q
      using that c m unfolding Room_def L by (intro exI [of _ ?A] exI [of _ W]) auto
    have "triple (At k A (r_mem S) n W (r_tally S)) (do { writes (\<lambda>c. c\<lparr>c_evictions := c_evictions c + 1\<rparr>); writeback ?s w })
      (\<lambda>_. At k ?A ?L n W (r_tally ?S))"
      unfolding T
      by (rule triple_bind, rule step_writes [where g = "\<lambda>t. t\<lparr>n_evictions := n_evictions t + 1\<rparr>"],
          simp, simp, simp, simp add: tally_fields, rule at_writeback [OF k sh Some])
    then have "triple (At k A (r_mem S) n W (r_tally S)) (do { writes (\<lambda>c. c\<lparr>c_evictions := c_evictions c + 1\<rparr>); writeback ?s w })
      (\<lambda>_. Room k a w n ?S)"
      by (rule triple_weaken) (auto intro: room)
    with Some l show ?thesis by (simp add: whenever_def)
  qed
qed

lemma refill_Room:
  assumes k: "ready k" and w: "w < c_ways k" and n: "n + 1 < 2 ^ 32"
  shows "triple (Room k a w n S) (refill (addr_set k a) w a (addr_tag k a))
    (\<lambda>_. Hits k a w (n + 1) (tally_by (\<lambda>t. t\<lparr>n_bytes_in := n_bytes_in t + ucast (c_line_bytes k)\<rparr>)
      (S\<lparr>r_row := (r_row S)(addr_set k a := (addr_base k a, False) # r_row S (addr_set k a))\<rparr>)))"
  unfolding triple_def
proof (intro allI impI)
  note g = ready_geometry [OF k]
  let ?s = "addr_set k a"
  fix p assume "Room k a w n S p"
  then obtain A W where sh: "shape_ok k A" and co: "coherent k A (r_mem S)" and V: "view k A (r_mem S) = r_seen S"
    and at: "At k A (r_mem S) n W (r_tally S) p" and miss: "\<And>w t. \<not> hit k A a w t"
    and cl: "\<And>t. A (?s, w) = Some t \<Longrightarrow> \<not> t_dirty t"
    and r: "rows_of k (A((?s, w) := None)) (W(?s := removeAll w (W ?s))) (r_row S)" unfolding Room_def by blast
  let ?A = "A((?s, w) := None)" and ?f = "fetched k a (r_mem S)"
  have d: "shape_ok k ?A" "coherent k ?A (r_mem S)" "view k ?A (r_mem S) = r_seen S"
    using drop_slot [OF g sh co cl] V by simp_all
  have "\<not> hit k ?A a w' t'" for w' t' using miss by (auto simp: hit_def)
  from fill_slot [OF g d(1,2) w _ this]
  have f: "shape_ok k (A((?s, w) := Some ?f)) \<and> coherent k (A((?s, w) := Some ?f)) (r_mem S) \<and>
      view k (A((?s, w) := Some ?f)) (r_mem S) = r_seen S \<and> hit k (A((?s, w) := Some ?f)) a w ?f" using d(3) by simp
  have "rows_of k (A((?s, w) := Some ?f)) (newest_first ?s w W) ((r_row S)(?s := (addr_base k a, False) # r_row S ?s))"
    using rows_push [OF r, of ?f] by (simp add: fetched_def)
  with f have "pictures k (A((?s, w) := Some ?f)) (newest_first ?s w W)
      (S\<lparr>r_row := (r_row S)(?s := (addr_base k a, False) # r_row S ?s)\<rparr>)" by (simp add: pictures_def)
  then show "Hits k a w (n + 1) (tally_by (\<lambda>t. t\<lparr>n_bytes_in := n_bytes_in t + ucast (c_line_bytes k)\<rparr>)
      (S\<lparr>r_row := (r_row S)(?s := (addr_base k a, False) # r_row S ?s)\<rparr>)) (exec (refill ?s w a (addr_tag k a)) p)"
    using tripleD [OF at_refill [OF k w n] at] f by (intro HitsI) auto
qed

end

section \<open>Accesses\<close>

context backing_store
begin

text \<open>The penalty of a miss.\<close>

lemma penalty_read:
  "triple (tracks k n S) (reads c_miss_penalty) (\<lambda>x p. x = c_miss_penalty k \<and> tracks k n S p)"
  "triple (Hits k a w n S) (reads c_miss_penalty) (\<lambda>x p. x = c_miss_penalty k \<and> Hits k a w n S p)"
  by (rule triple_reads; auto simp: tracks_def Hits_def At_def St_def dest: St_fields(9))+

lemma charge_Hits:
  "triple (Hits k a w n S) (writes (\<lambda>c. c\<lparr>c_stall_cycles := c_stall_cycles c + ucast (c_miss_penalty c)\<rparr>))
    (\<lambda>_. Hits k a w n (tally_by (\<lambda>t. t\<lparr>n_stall_cycles := n_stall_cycles t + ucast (c_miss_penalty k)\<rparr>) S))"
  by (rule tracks_writes(2)) (auto simp: tally_fields dest: St_fields(9))

lemma list_fill_steps: "list_fill k a S = tally_by (\<lambda>t. t\<lparr>n_stall_cycles := n_stall_cycles t + ucast (c_miss_penalty k)\<rparr>)
    (tally_by (\<lambda>t. t\<lparr>n_bytes_in := n_bytes_in t + ucast (c_line_bytes k)\<rparr>) ((list_evict k a S)\<lparr>r_row := (r_row (list_evict k a S))
      (addr_set k a := (addr_base k a, False) # r_row (list_evict k a S) (addr_set k a))\<rparr>))"
  by (simp add: list_fill_def Let_def tally_by_def)

lemma miss_event_line:
  assumes k: "ready k" and p: "pictures k A W S"
    and v: "if full k a S then A (addr_set k a, w) \<noteq> None \<and> w = last (W (addr_set k a)) else A (addr_set k a, w) = None"
    and l: "case A (addr_set k a, w) of None \<Rightarrow> \<not> l_valid l | Some u \<Rightarrow> l_valid l \<and> l_base l = t_base u \<and> l_dirty l = t_dirty u"
  defines "ev \<equiv> ev_init (addr_set k a) (addr_tag k a)"
  shows "((if l_valid l then ev\<lparr>ev_evicted := True, ev_evicted_base := l_base l, ev_wrote_back := l_dirty l\<rparr> else ev)
    \<lparr>ev_stall := c_miss_penalty k\<rparr>)\<lparr>ev_way := 0\<rparr> = miss_event k a S"
proof (cases "A (addr_set k a, w)")
  case None
  with v l have "\<not> full k a S" "\<not> l_valid l" by (auto split: if_splits)
  then show ?thesis by (simp add: miss_event_def Let_def ev_init_def ev_def)
next
  case (Some t)
  with v have fl: "full k a S" "w = last (W (addr_set k a))" by (auto split: if_splits)
  have "rows_of k A W (r_row S)" using p by (simp add: pictures_def)
  note rw = rows_ofD [OF this addr_bounds(1) [OF ready_geometry [OF k], of a]]
  have "W (addr_set k a) \<noteq> []" using Some rw(1) by auto
  then have "last (r_row S (addr_set k a)) = (t_base t, t_dirty t)" using Some fl(2) by (simp add: rw(3) last_map tagged_def)
  then show ?thesis using l Some fl(1) by (simp add: miss_event_def Let_def ev_init_def ev_def)
qed

lemma miss_Hits:
  assumes k: "ready k" and n: "n + 1 < 2 ^ 32" and det: "c_repl k \<noteq> REPL_RANDOM"
  shows "triple (Misses k a n S) (handle_miss rnd a (addr_tag k a) (addr_set k a) (ev_init (addr_set k a) (addr_tag k a)))
    (\<lambda>(w, e) p. e\<lparr>ev_way := 0\<rparr> = miss_event k a S \<and> Hits k a w (n + 1) (list_fill k a S) p)"
proof (rule tracks_triple(3))
  fix A W assume p: "pictures k A W S" and miss: "\<And>w t. \<not> hit k A a w t"
  let ?s = "addr_set k a" and ?ev = "ev_init (addr_set k a) (addr_tag k a)"
  let ?At = "At k A (r_mem S) n W (r_tally S)"
  let ?victim = "\<lambda>w. if full k a S then A (?s, w) \<noteq> None \<and> w = last (W ?s) else A (?s, w) = None"
  let ?Post = "\<lambda>(w, e) p. e\<lparr>ev_way := 0\<rparr> = miss_event k a S \<and> Hits k a w (n + 1) (list_fill k a S) p"
  let ?rest = "\<lambda>w l. do {
        whenever (l_valid l) (do { writes (\<lambda>c. c\<lparr>c_evictions := c_evictions c + 1\<rparr>); writeback ?s w });
        refill ?s w a (addr_tag k a);
        writes (\<lambda>c. c\<lparr>c_stall_cycles := c_stall_cycles c + ucast (c_miss_penalty c)\<rparr>);
        p \<leftarrow> reads c_miss_penalty;
        ret (w, (if l_valid l then ?ev\<lparr>ev_evicted := True, ev_evicted_base := l_base l, ev_wrote_back := l_dirty l\<rparr> else ?ev)
          \<lparr>ev_stall := p\<rparr>) }"
  note s = addr_bounds(1) [OF ready_geometry [OF k], of a]
  have sh: "shape_ok k A" and r: "rows_of k A W (r_row S)" using p by (simp_all add: pictures_def)
  have rest: "triple ?At (reads (\<lambda>c. line_at c ?s w) \<bind> ?rest w) ?Post" if w: "w < c_ways k" and v: "?victim w" for w
  proof (rule triple_bind [OF victim_line [OF k s w]], rule triple_pure)
    fix l assume l: "case A (?s, w) of None \<Rightarrow> \<not> l_valid l | Some u \<Rightarrow> l_valid l \<and> l_base l = t_base u \<and> l_dirty l = t_dirty u"
    then have "l_valid l \<longleftrightarrow> A (?s, w) \<noteq> None" by (auto split: option.splits)
    then have evict: "triple ?At
        (whenever (l_valid l) (do { writes (\<lambda>c. c\<lparr>c_evictions := c_evictions c + 1\<rparr>); writeback ?s w }))
        (\<lambda>_. Room k a w n (list_evict k a S))"
      using evict_Room [OF k p miss w v, of l] by simp
    show "triple ?At (?rest w l) ?Post"
      by (rule triple_bind [OF evict], rule triple_bind [OF refill_Room [OF k w n]], rule triple_bind [OF charge_Hits],
          rule triple_bind [OF penalty_read(2)], rule triple_ret)
        (use miss_event_line [OF k p v l] in \<open>simp add: list_fill_steps\<close>)
  qed
  have "triple (\<lambda>p. (w < c_ways k \<and> ?victim w) \<and> ?At p) (reads (\<lambda>c. line_at c ?s w) \<bind> ?rest w) ?Post" for w
    by (rule triple_pure) (use rest in blast)
  then have "triple (\<lambda>p. ?At p \<and> w < c_ways k \<and> (if length (r_row S ?s) = unat (c_ways k) then A (?s, w) \<noteq> None \<and> w = last (W ?s)
      else A (?s, w) = None)) (reads (\<lambda>c. line_at c ?s w) \<bind> ?rest w) ?Post" for w
    by (rule triple_weaken) (unfold full_def, blast+)
  then show "triple ?At (handle_miss rnd a (addr_tag k a) ?s ?ev) ?Post"
    unfolding handle_miss_def Let_def by (rule triple_bind [OF victim_At [OF k r sh s det]])
qed

lemma found_read:
  assumes k: "ready k"
  shows "triple (tracks k n S) (reads (\<lambda>c. find_way c a)) (\<lambda>r p. case r of
     Some w \<Rightarrow> resident k S a \<and> Hits k a w n S p
   | None \<Rightarrow> \<not> resident k S a \<and> Misses k a n S p)"
proof (rule tracks_triple(1), rule triple_reads)
  fix A W c b assume p: "pictures k A W S" and at: "At k A (r_mem S) n W (r_tally S) (c, b)"
  have sh: "shape_ok k A" and r: "rows_of k A W (r_row S)" using p by (simp_all add: pictures_def)
  have st: "St k A (r_mem S) (c, b)" using at by (simp add: At_def)
  note res = resident_hit [OF ready_geometry [OF k] sh r]
  show "case find_way c a of Some w \<Rightarrow> resident k S a \<and> Hits k a w n S (c, b)
    | None \<Rightarrow> \<not> resident k S a \<and> Misses k a n S (c, b)"
  proof (cases "lookup k A a")
    case None
    then have "\<forall>w t. \<not> hit k A a w t" using lookup_None [OF sh] by blast
    with None p at show ?thesis by (simp add: find_way_lookup [OF st k] Misses_def res) blast
  next
    case (Some w)
    then obtain t where "hit k A a w t" using lookup_Some [OF sh] by blast
    with Some p at show ?thesis by (auto simp: find_way_lookup [OF st k] res intro: HitsI)
  qed
qed

lemma residence_cases:
  assumes "\<And>w. resident k S a \<Longrightarrow> triple (Hits k a w n S) (f w) Q" "\<not> resident k S a \<Longrightarrow> triple (Misses k a n S) m Q"
  shows "triple (\<lambda>p. case x of Some w \<Rightarrow> resident k S a \<and> Hits k a w n S p | None \<Rightarrow> \<not> resident k S a \<and> Misses k a n S p)
    (case x of Some w \<Rightarrow> f w | None \<Rightarrow> m) Q"
  using assms by (cases x) (auto simp: triple_def)

lemma decode_tracks:
  assumes "ready k"
  shows "triple (tracks k n S) (reads (\<lambda>c. cache_decode c a))
    (\<lambda>r p. r = (addr_tag k a, addr_set k a, addr_off k a) \<and> tracks k n S p)"
  by (rule triple_reads) (auto simp: tracks_def At_def St_def cache_decode_def dest: St_fields(10-12))

lemma resident_tally [simp]: "resident k (tally_by f S) a = resident k S a"
  by (simp add: resident_def)

end

text \<open>Reads and writes.\<close>

context backing_store
begin

lemma tracks_later: "tracks k n S p \<Longrightarrow> n \<le> m \<Longrightarrow> tracks k m S p"
proof -
  assume "n \<le> m"
  then have "stamped k n W c \<Longrightarrow> stamped k m W c" for W c by (simp add: stamped_def)
  then show "tracks k n S p \<Longrightarrow> tracks k m S p" unfolding tracks_def At_def by blast
qed

lemma read_tracks:
  assumes k: "ready k" and n: "n + 1 < 2 ^ 32" and det: "c_repl k \<noteq> REPL_RANDOM"
  shows "triple (tracks k n S) (cache_read rnd a)
    (\<lambda>(v, e) p. (v, e\<lparr>ev_way := 0\<rparr>) = fst (list_read k a S) \<and> tracks k (n + 1) (snd (list_read k a S)) p)"
  unfolding cache_read_def
proof (rule triple_bind [OF decode_tracks [OF k]], rule triple_pure, clarsimp simp only: prod.case Let_def,
    rule triple_bind [OF tracks_writes(1) [where g = "\<lambda>t. t\<lparr>n_reads := n_reads t + 1\<rparr>"]],
    simp, simp, simp, simp add: tally_fields, rule triple_bind [OF found_read [OF k]], rule residence_cases, unfold resident_tally)
  let ?S = "tally_by (\<lambda>t. t\<lparr>n_reads := n_reads t + 1\<rparr>) S"
  fix w assume r: "resident k S a"
  show "triple (Hits k a w n ?S) (do {
         writes (\<lambda>c. c\<lparr>c_read_hit := c_read_hit c + 1\<rparr>);
         touch (addr_set k a) w;
         v \<leftarrow> reads (\<lambda>c. data_at c (addr_set k a) w (addr_off k a));
         ret (v, (ev_init (addr_set k a) (addr_tag k a))\<lparr>ev_hit := True, ev_way := w\<rparr>) })
      (\<lambda>(v, e) p. (v, e\<lparr>ev_way := 0\<rparr>) = fst (list_read k a S) \<and> tracks k (n + 1) (snd (list_read k a S)) p)"
    by (rule triple_bind [OF tracks_writes(2) [where g = "\<lambda>t. t\<lparr>n_read_hit := n_read_hit t + 1\<rparr>"]],
        simp, simp, simp, simp add: tally_fields, rule triple_bind [OF touch_Hits [OF k n]],
        rule triple_bind [OF data_Hits [OF k]], rule triple_ret)
      (use r in \<open>simp add: list_read_def list_use_def tally_by_def hit_event_def ev_init_def\<close>)
next
  let ?S = "tally_by (\<lambda>t. t\<lparr>n_reads := n_reads t + 1\<rparr>) S"
  assume r: "\<not> resident k S a"
  let ?T = "tally_by (\<lambda>t. t\<lparr>n_read_miss := n_read_miss t + 1\<rparr>) ?S"
  have T: "?T = tally_by (\<lambda>t. t\<lparr>n_reads := n_reads t + 1, n_read_miss := n_read_miss t + 1\<rparr>) S" by (simp add: tally_by_def)
  have seen: "r_seen (list_fill k a ?T) = r_seen S" "miss_event k a ?T = miss_event k a S"
    by (simp_all add: list_fill_def list_evict_def list_put_back_def miss_event_def full_def Let_def)
  show "triple (Misses k a n ?S) (do {
         writes (\<lambda>c. c\<lparr>c_read_miss := c_read_miss c + 1\<rparr>);
         (w, ev) \<leftarrow> handle_miss rnd a (addr_tag k a) (addr_set k a) (ev_init (addr_set k a) (addr_tag k a));
         v \<leftarrow> reads (\<lambda>c. data_at c (addr_set k a) w (addr_off k a));
         ret (v, ev\<lparr>ev_way := w\<rparr>) })
      (\<lambda>(v, e) p. (v, e\<lparr>ev_way := 0\<rparr>) = fst (list_read k a S) \<and> tracks k (n + 1) (snd (list_read k a S)) p)"
    by (rule triple_bind [OF tracks_writes(3) [where g = "\<lambda>t. t\<lparr>n_read_miss := n_read_miss t + 1\<rparr>"]],
        simp, simp, simp, simp add: tally_fields, rule triple_bind [OF miss_Hits [OF k n det]], clarify, rule triple_pure,
        rule triple_bind [OF data_Hits [OF k]], rule triple_ret)
      (use r in \<open>simp add: list_read_def T [symmetric] seen\<close>)
qed

lemma around_Misses:
  assumes k: "ready k"
  shows "triple (Misses k a n S) (do { wr \<leftarrow> reads c_bs_write; outside (wr a v) })
    (\<lambda>_. tracks k n (S\<lparr>r_seen := (r_seen S)(a := v), r_mem := (r_mem S)(a := v)\<rparr>))"
proof (rule tracks_triple(3))
  fix A W assume p: "pictures k A W S" and miss: "\<And>w t. \<not> hit k A a w t"
  let ?T = "S\<lparr>r_seen := (r_seen S)(a := v), r_mem := (r_mem S)(a := v)\<rparr>"
  let ?out = "do { wr \<leftarrow> reads c_bs_write; outside (wr a v) }"
  have "pictures k A W ?T" using store_around [OF ready_geometry [OF k] _ _ miss, of "r_mem S" v] p by (simp add: pictures_def)
  moreover have "triple (At k A (r_mem S) n W (r_tally S)) ?out (\<lambda>_. At k A (r_mem ?T) n W (r_tally ?T))"
  proof (rule At_triple)
    show "triple (St k A (r_mem S)) ?out (\<lambda>_. St k A (r_mem ?T))" using wr_St [OF k] by simp
    show "triple (on_struct (stamped k n W)) ?out (\<lambda>_. on_struct (stamped k n W))"
      unfolding triple_keeps [symmetric] by (intro keeps_rules)
    show "triple (\<lambda>p. St k A (r_mem S) p \<and> tally_of (fst p) = r_tally S) ?out (\<lambda>_. on_struct (\<lambda>c. tally_of c = r_tally ?T))"
      by (auto simp: triple_def)
  qed
  ultimately show "triple (At k A (r_mem S) n W (r_tally S)) ?out (\<lambda>_. tracks k n ?T)"
    by (auto elim!: triple_weaken intro: tracksI)
qed

lemma write_tracks:
  assumes k: "ready k" and n: "n + 1 < 2 ^ 32" and det: "c_repl k \<noteq> REPL_RANDOM"
  shows "triple (tracks k n S) (cache_write rnd a v)
    (\<lambda>e p. e\<lparr>ev_way := 0\<rparr> = fst (list_write k a v S) \<and> tracks k (n + 1) (snd (list_write k a v S)) p)"
  unfolding cache_write_def
proof (rule triple_bind [OF decode_tracks [OF k]], rule triple_pure, clarsimp simp only: prod.case Let_def,
    rule triple_bind [OF tracks_writes(1) [where g = "\<lambda>t. t\<lparr>n_writes := n_writes t + 1\<rparr>"]],
    simp, simp, simp, simp add: tally_fields, rule triple_bind [OF found_read [OF k]], rule residence_cases, unfold resident_tally)
  let ?S = "tally_by (\<lambda>t. t\<lparr>n_writes := n_writes t + 1\<rparr>) S"
  fix w assume r: "resident k S a"
  show "triple (Hits k a w n ?S) (do {
         writes (\<lambda>c. c\<lparr>c_write_hit := c_write_hit c + 1\<rparr>);
         touch (addr_set k a) w;
         store_line (addr_set k a) w (addr_off k a) a v;
         ret ((ev_init (addr_set k a) (addr_tag k a))\<lparr>ev_hit := True, ev_way := w\<rparr>) })
      (\<lambda>e p. e\<lparr>ev_way := 0\<rparr> = fst (list_write k a v S) \<and> tracks k (n + 1) (snd (list_write k a v S)) p)"
    by (rule triple_bind [OF tracks_writes(2) [where g = "\<lambda>t. t\<lparr>n_write_hit := n_write_hit t + 1\<rparr>"]],
        simp, simp, simp, simp add: tally_fields, rule triple_bind [OF touch_Hits [OF k n]],
        rule triple_bind [OF store_Hits [OF k]], rule triple_ret)
      (use r in \<open>simp add: list_write_def list_use_def tally_by_def hit_event_def ev_init_def\<close>)
next
  let ?S = "tally_by (\<lambda>t. t\<lparr>n_writes := n_writes t + 1\<rparr>) S"
  let ?T = "tally_by (\<lambda>t. t\<lparr>n_write_miss := n_write_miss t + 1\<rparr>) ?S"
  assume r: "\<not> resident k S a"
  have T: "?T = tally_by (\<lambda>t. t\<lparr>n_writes := n_writes t + 1, n_write_miss := n_write_miss t + 1\<rparr>) S" by (simp add: tally_by_def)
  let ?P = "\<lambda>e p. e\<lparr>ev_way := 0\<rparr> = fst (list_write k a v S) \<and> tracks k (n + 1) (snd (list_write k a v S)) p"
  let ?ev = "ev_init (addr_set k a) (addr_tag k a)"
  have around: "triple (Misses k a n ?T) (do {
           wr \<leftarrow> reads c_bs_write;
           outside (wr a v);
           writes (\<lambda>c. c\<lparr>c_bytes_out := c_bytes_out c + 1,
             c_stall_cycles := c_stall_cycles c + ucast (c_miss_penalty c)\<rparr>);
           p \<leftarrow> reads c_miss_penalty;
           ret (?ev\<lparr>ev_stall := p\<rparr>) }) ?P" if al: "\<not> c_write_alloc k"
    unfolding bind_assoc [of "reads c_bs_write" "\<lambda>wr. outside (wr a v)", symmetric]
    by (rule triple_bind [OF around_Misses [OF k]],
        rule triple_bind [OF tracks_writes(1) [where g = "\<lambda>t. t\<lparr>n_bytes_out := n_bytes_out t + 1,
          n_stall_cycles := n_stall_cycles t + ucast (c_miss_penalty k)\<rparr>"]], simp, simp, simp,
        (auto simp: tally_fields dest: St_fields(9))[], rule triple_bind [OF penalty_read(1)], rule triple_ret)
      (use r al in \<open>auto simp: list_write_def T [symmetric] ev_init_def intro: tracks_later\<close>)
  have alloc: "triple (Misses k a n ?T) (do {
           (w, ev) \<leftarrow> handle_miss rnd a (addr_tag k a) (addr_set k a) ?ev;
           store_line (addr_set k a) w (addr_off k a) a v;
           ret (ev\<lparr>ev_way := w\<rparr>) }) ?P" if al: "c_write_alloc k"
    by (rule triple_bind [OF miss_Hits [OF k n det]], clarify, rule triple_pure, rule triple_bind [OF store_Hits [OF k]], rule triple_ret)
      (use r al in \<open>simp add: list_write_def T [symmetric] Let_def\<close>)
  have policy: "triple (Misses k a n ?T) (reads c_write_alloc) (\<lambda>x p. x = c_write_alloc k \<and> Misses k a n ?T p)"
    by (rule triple_reads) (auto simp: Misses_def At_def St_def dest: St_fields(6))
  show "triple (Misses k a n ?S) (do {
         writes (\<lambda>c. c\<lparr>c_write_miss := c_write_miss c + 1\<rparr>);
         alloc \<leftarrow> reads c_write_alloc;
         if \<not> alloc then do {
           wr \<leftarrow> reads c_bs_write;
           outside (wr a v);
           writes (\<lambda>c. c\<lparr>c_bytes_out := c_bytes_out c + 1,
             c_stall_cycles := c_stall_cycles c + ucast (c_miss_penalty c)\<rparr>);
           p \<leftarrow> reads c_miss_penalty;
           ret (?ev\<lparr>ev_stall := p\<rparr>) }
         else do {
           (w, ev) \<leftarrow> handle_miss rnd a (addr_tag k a) (addr_set k a) ?ev;
           store_line (addr_set k a) w (addr_off k a) a v;
           ret (ev\<lparr>ev_way := w\<rparr>) } }) ?P"
    by (rule triple_bind [OF tracks_writes(3) [where g = "\<lambda>t. t\<lparr>n_write_miss := n_write_miss t + 1\<rparr>"]],
        simp, simp, simp, simp add: tally_fields, rule triple_bind [OF policy], rule triple_pure)
      (use around alloc in auto)
qed

end

section \<open>Maintenance\<close>

text \<open>The dirty lines of an abstract cache, and the counters once they are written back.\<close>

definition dirties :: "slots \<Rightarrow> nat" where
  "dirties A = card {q. \<exists>t. A q = Some t \<and> t_dirty t}"

definition settled :: "u32 \<Rightarrow> nat \<Rightarrow> tally \<Rightarrow> tally" where
  "settled l m t = t\<lparr>n_writebacks := n_writebacks t + of_nat m, n_bytes_out := n_bytes_out t + of_nat m * ucast l\<rparr>"

lemma settled_put_back: "settled l m (put_back_tally l t) = settled l (m + 1) t"
  by (simp add: settled_def put_back_tally_def algebra_simps)

lemma settled_0 [simp]: "settled l 0 t = t"
  by (simp add: settled_def)

lemma dirties_clean:
  assumes "A q = Some t"
  shows "dirties A = dirties (A(q := Some (t\<lparr>t_dirty := False\<rparr>))) + (if t_dirty t then 1 else 0)"
proof -
  let ?D = "{q. \<exists>t. A q = Some t \<and> t_dirty t}"
  have "{x. \<exists>u. (A(q := Some (t\<lparr>t_dirty := False\<rparr>))) x = Some u \<and> t_dirty u} = ?D - {q}" by (auto split: if_splits)
  moreover have "q \<in> ?D \<longleftrightarrow> t_dirty t" using assms by simp
  moreover have "card ?D = Suc (card (?D - {q}))" if "q \<in> ?D" by (rule card.remove) (use that in simp_all)
  ultimately show ?thesis unfolding dirties_def by simp
qed

lemma dirties_drop: "(\<And>t. A q = Some t \<Longrightarrow> \<not> t_dirty t) \<Longrightarrow> dirties (A(q := None)) = dirties A"
  unfolding dirties_def by (rule arg_cong [where f = card]) (auto split: if_splits)

lemma dirties_none: "(\<And>q t. A q = Some t \<Longrightarrow> \<not> t_dirty t) \<Longrightarrow> dirties A = 0"
  by (auto simp: dirties_def)

lemma dirties_lines:
  assumes p: "pictures k A W S"
  shows "dirties A = dirty_lines k S"
proof -
  have sh: "shape_ok k A" and r: "rows_of k A W (r_row S)" using p by (simp_all add: pictures_def)
  let ?d = "\<lambda>s. {w. \<exists>t. A (s, w) = Some t \<and> t_dirty t}"
  have row: "card (?d s) = length (filter snd (r_row S s))" if "s < c_sets k" for s
  proof -
    note rw = rows_ofD [OF r that]
    have "?d s = set (filter (snd \<circ> tagged A s) (W s))" using rw(1) by (auto simp: tagged_def)
    then have "card (?d s) = length (filter (snd \<circ> tagged A s) (W s))"
      using distinct_card [OF distinct_filter [OF rw(2)], of "snd \<circ> tagged A s"] by simp
    then show ?thesis by (simp add: rw(3) filter_map)
  qed
  have "{q. \<exists>t. A q = Some t \<and> t_dirty t} = Sigma {s. s < c_sets k} ?d" using shape_okD(1) [OF sh] by auto
  then have "dirties A = (\<Sum>s\<in>{s. s < c_sets k}. card (?d s))" by (simp add: dirties_def card_SigmaI)
  also have "\<dots> = (\<Sum>s\<in>set (upto_u32 (c_sets k)). length (filter snd (r_row S s)))"
    unfolding set_upto_u32 using row by (intro sum.cong) auto
  finally show ?thesis
    unfolding dirty_lines_def by (simp only: sum_list_distinct_conv_sum_set [OF distinct_upto_u32])
qed

lemma stamped_remove: "stamped k n W c \<Longrightarrow> stamped k n (W(s := removeAll w (W s))) c"
  by (auto simp: stamped_def removeAll_filter_not_eq sorted_wrt_filter)

context backing_store
begin

text \<open>Writing a place back: it is clean afterwards, no base changes and the counters are settled.\<close>

lemma writeback_paid:
  assumes k: "ready k" and sw: "s < c_sets k" "w < c_ways k"
    and a: "shape_ok k A" "coherent k A L" "view k A L = V"
  shows "triple (At k A L n W t) (writeback s w) (\<lambda>_ p. \<exists>A' L' t'. At k A' L' n W t' p \<and> shape_ok k A' \<and> coherent k A' L' \<and>
    view k A' L' = V \<and> cleaned A (s, w) A' \<and> (\<forall>q. map_option t_base (A' q) = map_option t_base (A q)) \<and>
    settled (c_line_bytes k) (dirties A') t' = settled (c_line_bytes k) (dirties A) t)"
proof (cases "A (s, w)")
  case None
  then have "cleaned A (s, w) A" by (simp add: cleaned_def)
  then show ?thesis
    using a by (intro triple_weaken [OF at_writeback_None [where A = A, OF k sw None]]) blast+
next
  case (Some u)
  let ?A = "A((s, w) := Some (u\<lparr>t_dirty := False\<rparr>))" and ?L = "if t_dirty u then spill k u L else L"
  let ?t = "if t_dirty u then put_back_tally (c_line_bytes k) t else t"
  have "shape_ok k ?A \<and> coherent k ?A ?L \<and> view k ?A ?L = V"
  proof (cases "t_dirty u")
    case True
    then show ?thesis using clean_slot [OF ready_geometry [OF k] a(1,2) Some] a(3) by simp
  next
    case False
    then have "?A = A" using Some by (auto simp: fun_eq_iff)
    with False a show ?thesis by simp
  qed
  moreover have "cleaned A (s, w) ?A" "\<forall>q. map_option t_base (?A q) = map_option t_base (A q)"
    using Some by (simp_all add: cleaned_def)
  moreover have "settled (c_line_bytes k) (dirties ?A) ?t = settled (c_line_bytes k) (dirties A) t"
    using dirties_clean [where A = A and q = "(s, w)" and t = u] Some by (simp add: settled_put_back)
  ultimately show ?thesis
    by (intro triple_weaken [OF at_writeback [OF k a(1) Some]]) blast+
qed

text \<open>The loops of \<open>cache_clean\<close> and \<open>cache_flush\<close>, with the places already dealt with.\<close>

definition Cleaning :: "'b cache \<Rightarrow> nat \<Rightarrow> slots \<Rightarrow> (u32 \<Rightarrow> u32 list) \<Rightarrow> lists \<Rightarrow> (u32 \<times> u32) set \<Rightarrow> 'b cache \<times> 'b \<Rightarrow> bool" where
  "Cleaning k n A0 W S D p \<longleftrightarrow> (\<exists>A L t. At k A L n W t p \<and> shape_ok k A \<and> coherent k A L \<and> view k A L = r_seen S \<and>
     (\<forall>q. map_option t_base (A q) = map_option t_base (A0 q)) \<and> (\<forall>q\<in>D. \<forall>u. A q = Some u \<longrightarrow> \<not> t_dirty u) \<and>
     settled (c_line_bytes k) (dirties A) t = settled (c_line_bytes k) (dirties A0) (r_tally S))"

definition Emptying :: "'b cache \<Rightarrow> nat \<Rightarrow> nat \<Rightarrow> lists \<Rightarrow> (u32 \<times> u32) set \<Rightarrow> 'b cache \<times> 'b \<Rightarrow> bool" where
  "Emptying k n m S D p \<longleftrightarrow> (\<exists>A L t. At k A L n (\<lambda>_. []) t p \<and> shape_ok k A \<and> coherent k A L \<and> view k A L = r_seen S \<and>
     (\<forall>q\<in>D. A q = None) \<and> settled (c_line_bytes k) (dirties A) t = settled (c_line_bytes k) m (r_tally S))"

lemma list_settle_tally: "list_settle k S = (S\<lparr>r_mem := r_seen S\<rparr>)\<lparr>r_tally := settled (c_line_bytes k) (dirty_lines k S) (r_tally S)\<rparr>"
  by (simp add: list_settle_def settled_def tally_by_def)

lemma clean_tracks:
  assumes k: "ready k"
  shows "triple (tracks k n S) cache_clean (\<lambda>_. tracks k n (list_clean k S))"
proof (rule tracks_triple(1))
  fix A0 W assume p: "pictures k A0 W S"
  have r: "rows_of k A0 W (r_row S)" using p by (simp add: pictures_def)
  have step: "triple (Cleaning k n A0 W S D) (writeback s w) (\<lambda>_. Cleaning k n A0 W S (insert (s, w) D))"
    if sw: "s < c_sets k" "w < c_ways k" for s w D
    unfolding triple_def
  proof (intro allI impI)
    fix p assume "Cleaning k n A0 W S D p"
    then obtain A L t where at: "At k A L n W t p" and a: "shape_ok k A" "coherent k A L" "view k A L = r_seen S"
      and D: "\<forall>q\<in>D. \<forall>u. A q = Some u \<longrightarrow> \<not> t_dirty u" and c: "\<forall>q. map_option t_base (A q) = map_option t_base (A0 q)"
        "settled (c_line_bytes k) (dirties A) t = settled (c_line_bytes k) (dirties A0) (r_tally S)"
      unfolding Cleaning_def by blast
    from tripleD [OF writeback_paid [OF k sw a] at] obtain A' L' t' where at': "At k A' L' n W t' (exec (writeback s w) p)"
      and a': "shape_ok k A'" "coherent k A' L'" "view k A' L' = r_seen S" and q: "cleaned A (s, w) A'"
      and c': "\<forall>q. map_option t_base (A' q) = map_option t_base (A q)"
        "settled (c_line_bytes k) (dirties A') t' = settled (c_line_bytes k) (dirties A) t" by blast
    have "\<not> t_dirty u" if "A' x = Some u" "x \<in> insert (s, w) D" for x u
      using that D cleanedD(1,2) [OF q] by (cases "x = (s, w)") auto
    with at' a' c c' show "Cleaning k n A0 W S (insert (s, w) D) (exec (writeback s w) p)"
      unfolding Cleaning_def by (intro exI [of _ A'] exI [of _ L'] exI [of _ t']) simp
  qed
  show "triple (At k A0 (r_mem S) n W (r_tally S)) cache_clean (\<lambda>_. tracks k n (list_clean k S))"
  proof (rule triple_weaken)
    show "triple (Cleaning k n A0 W S {}) cache_clean (\<lambda>_. Cleaning k n A0 W S ({s. s < c_sets k} \<times> {w. w < c_ways k}))"
      unfolding cache_clean_def by (rule all_ways_triple [OF step]) (auto simp: Cleaning_def At_def St_def)
    show "Cleaning k n A0 W S {} q" if "At k A0 (r_mem S) n W (r_tally S) q" for q
      using p that unfolding Cleaning_def pictures_def by (intro exI [of _ A0] exI [of _ "r_mem S"] exI [of _ "r_tally S"]) simp
    fix q assume "Cleaning k n A0 W S ({s. s < c_sets k} \<times> {w. w < c_ways k}) q"
    then obtain A L t where at: "At k A L n W t q" and a: "shape_ok k A" "coherent k A L" "view k A L = r_seen S"
      and D: "\<And>q u. q \<in> {s. s < c_sets k} \<times> {w. w < c_ways k} \<Longrightarrow> A q = Some u \<Longrightarrow> \<not> t_dirty u"
      and c: "\<forall>q. map_option t_base (A q) = map_option t_base (A0 q)"
        "settled (c_line_bytes k) (dirties A) t = settled (c_line_bytes k) (dirties A0) (r_tally S)"
      unfolding Cleaning_def by blast
    have cl: "\<not> t_dirty u" if "A q = Some u" for q u using D shape_all [OF a(1), of q] that by simp
    have L: "L = r_seen S" using view_clean [OF ready_geometry [OF k] a(1,2) cl] a(3) by simp
    have t: "t = settled (c_line_bytes k) (dirty_lines k S) (r_tally S)"
      using c(2) dirties_none [of A, OF cl] dirties_lines [OF p] by simp
    have tg: "tagged A s w = (fst (tagged A0 s w), False)" if "A0 (s, w) \<noteq> None" for s w
      using c(1) [rule_format, of "(s, w)"] that cl by (auto simp: tagged_def)
    have "A q = None \<longleftrightarrow> A0 q = None" for q using c(1) [rule_format, of q] by (metis map_option_is_None)
    then have "rows_of k A W (\<lambda>s. map (\<lambda>(x, d). (x, False)) (r_row S s))"
      using r tg unfolding rows_of_def by (auto simp: case_prod_beta)
    with a have "pictures k A W (list_clean k S)" by (simp add: pictures_def list_clean_def list_settle_tally L)
    then show "tracks k n (list_clean k S) q" by (rule tracksI) (use at in \<open>simp add: list_clean_def list_settle_tally L t\<close>)
  qed
qed

lemma at_drop:
  assumes k: "ready k" "s < c_sets k" "w < c_ways k"
  shows "triple (At k A L n W t) (writes (set_line s w (\<lambda>l. l\<lparr>l_valid := False\<rparr>))) (\<lambda>_. At k (A((s, w) := None)) L n W t)"
    "triple (At k A L n W t) (writes (set_line s w (\<lambda>l. l\<lparr>l_valid := False, l_dirty := False\<rparr>))) (\<lambda>_. At k (A((s, w) := None)) L n W t)"
  by (rule At_triple [OF st_drop(1) [OF k]] At_triple [OF st_drop(2) [OF k]]; rule triple_writes; simp)+

lemma At_no_ways: "At k A L n W t p \<Longrightarrow> At k A L n (\<lambda>_. []) t p"
  by (simp add: At_def stamped_def)

lemma emptied:
  assumes k: "ready k" and at: "At k A L n (\<lambda>_. []) t p" and n: "\<And>q. A q = None"
  shows "tracks k n \<lparr>r_row = (\<lambda>_. []), r_seen = L, r_mem = L, r_tally = t\<rparr> p"
proof (rule tracksI)
  have "view k A L = L" by (rule ext) (simp add: view_def lookup_def n find_None_iff split: option.split)
  then show "pictures k A (\<lambda>_. []) \<lparr>r_row = (\<lambda>_. []), r_seen = L, r_mem = L, r_tally = t\<rparr>"
    by (simp add: pictures_def shape_ok_def coherent_def rows_of_def n)
qed (use at in simp)

lemma slots_outside:
  assumes "ready k" "At k A L n W t p" "\<forall>q\<in>{s. s < c_sets k} \<times> {w. w < c_ways k}. A q = None"
  shows "A q = None"
proof (cases "q \<in> {s. s < c_sets k} \<times> {w. w < c_ways k}")
  case False
  have st: "St k A L (fst p, snd p)" using assms(2) by (simp add: At_def)
  then have "A = slots_of (fst p)" by (simp add: St_def)
  with False St_geometry(2,3) [OF st assms(1)] show ?thesis by (cases q) (auto simp: slots_of_def)
qed (rule bspec [OF assms(3)])

lemma flush_tracks:
  assumes k: "ready k"
  shows "triple (tracks k n S) cache_flush (\<lambda>_. tracks k n (list_flush k S))"
proof (rule tracks_triple(1))
  fix A0 W assume p: "pictures k A0 W S"
  let ?E = "Emptying k n (dirties A0) S"
  have step: "triple (?E D) (do { writeback s w; writes (set_line s w (\<lambda>l. l\<lparr>l_valid := False\<rparr>)) }) (\<lambda>_. ?E (insert (s, w) D))"
    if sw: "s < c_sets k" "w < c_ways k" for s w D
    unfolding triple_def
  proof (intro allI impI)
    fix p assume "?E D p"
    then obtain A L t where at: "At k A L n (\<lambda>_. []) t p" and a: "shape_ok k A" "coherent k A L" "view k A L = r_seen S"
      and D: "\<forall>q\<in>D. A q = None" and c: "settled (c_line_bytes k) (dirties A) t = settled (c_line_bytes k) (dirties A0) (r_tally S)"
      unfolding Emptying_def by blast
    from tripleD [OF writeback_paid [OF k sw a] at] obtain A' L' t' where at': "At k A' L' n (\<lambda>_. []) t' (exec (writeback s w) p)"
      and a': "shape_ok k A'" "coherent k A' L'" "view k A' L' = r_seen S" and q: "cleaned A (s, w) A'"
      and c': "settled (c_line_bytes k) (dirties A') t' = settled (c_line_bytes k) (dirties A) t" by blast
    have cl: "\<not> t_dirty u" if "A' (s, w) = Some u" for u using that q by (simp add: cleaned_def)
    have "(A'((s, w) := None)) x = None" if "x \<in> insert (s, w) D" for x
      using that D cleanedD(1) [OF q] by (cases "x = (s, w)") auto
    with tripleD [OF at_drop(1) [OF k sw] at'] drop_slot [OF ready_geometry [OF k] a'(1,2) cl] a'(3) dirties_drop [OF cl] c c'
    show "?E (insert (s, w) D) (exec (do { writeback s w; writes (set_line s w (\<lambda>l. l\<lparr>l_valid := False\<rparr>)) }) p)"
      unfolding Emptying_def run_bind_split
      by (intro exI [of _ "A'((s, w) := None)"] exI [of _ L'] exI [of _ t']) simp
  qed
  show "triple (At k A0 (r_mem S) n W (r_tally S)) cache_flush (\<lambda>_. tracks k n (list_flush k S))"
  proof (rule triple_weaken)
    show "triple (?E {}) cache_flush (\<lambda>_. ?E ({s. s < c_sets k} \<times> {w. w < c_ways k}))"
      unfolding cache_flush_def by (rule all_ways_triple [OF step]) (auto simp: Emptying_def At_def St_def)
    show "?E {} q" if "At k A0 (r_mem S) n W (r_tally S) q" for q
      using p At_no_ways [OF that] unfolding Emptying_def pictures_def
      by (intro exI [of _ A0] exI [of _ "r_mem S"] exI [of _ "r_tally S"]) simp
    fix q assume "?E ({s. s < c_sets k} \<times> {w. w < c_ways k}) q"
    then obtain A L t where at: "At k A L n (\<lambda>_. []) t q" and a: "shape_ok k A" "coherent k A L" "view k A L = r_seen S"
      and D: "\<forall>q\<in>{s. s < c_sets k} \<times> {w. w < c_ways k}. A q = None"
      and c: "settled (c_line_bytes k) (dirties A) t = settled (c_line_bytes k) (dirties A0) (r_tally S)"
      unfolding Emptying_def by blast
    note none = slots_outside [OF k at D]
    have L: "L = r_seen S" using view_clean [OF ready_geometry [OF k] a(1,2)] a(3) none by simp
    have t: "t = settled (c_line_bytes k) (dirty_lines k S) (r_tally S)"
      using c dirties_none [of A] none dirties_lines [OF p] by simp
    have "list_flush k S = \<lparr>r_row = (\<lambda>_. []), r_seen = L, r_mem = L, r_tally = t\<rparr>"
      by (simp add: list_flush_def list_settle_tally L t)
    then show "tracks k n (list_flush k S) q" using emptied [OF k at none] by simp
  qed
qed

lemma invalidate_tracks:
  assumes k: "ready k"
  shows "triple (tracks k n S) cache_invalidate (\<lambda>_. tracks k n (list_invalidate S))"
proof (rule tracks_triple(1))
  fix A0 W
  let ?E = "\<lambda>D p. \<exists>A. At k A (r_mem S) n (\<lambda>_. []) (r_tally S) p \<and> (\<forall>q\<in>D. A q = None)"
  have step: "triple (?E D) (writes (set_line s w (\<lambda>l. l\<lparr>l_valid := False, l_dirty := False\<rparr>))) (\<lambda>_. ?E (insert (s, w) D))"
    if sw: "s < c_sets k" "w < c_ways k" for s w D
    unfolding triple_def
  proof (intro allI impI)
    fix p assume "?E D p"
    then obtain A where at: "At k A (r_mem S) n (\<lambda>_. []) (r_tally S) p" and D: "\<forall>q\<in>D. A q = None" by blast
    with tripleD [OF at_drop(2) [OF k sw] at]
    show "?E (insert (s, w) D) (exec (writes (set_line s w (\<lambda>l. l\<lparr>l_valid := False, l_dirty := False\<rparr>))) p)"
      by (intro exI [of _ "A((s, w) := None)"]) simp
  qed
  have "triple (?E {}) cache_invalidate (\<lambda>_. ?E ({s. s < c_sets k} \<times> {w. w < c_ways k}))"
    unfolding cache_invalidate_def by (rule all_ways_triple [where P = ?E, OF step]) (auto simp: At_def St_def)
  then show "triple (At k A0 (r_mem S) n W (r_tally S)) cache_invalidate (\<lambda>_. tracks k n (list_invalidate S))"
  proof (rule triple_weaken)
    show "?E {} q" if "At k A0 (r_mem S) n W (r_tally S) q" for q using At_no_ways [OF that] by blast
    fix q assume "?E ({s. s < c_sets k} \<times> {w. w < c_ways k}) q"
    then obtain A where at: "At k A (r_mem S) n (\<lambda>_. []) (r_tally S) q" and D: "\<forall>q\<in>{s. s < c_sets k} \<times> {w. w < c_ways k}. A q = None"
      by blast
    have "list_invalidate S = \<lparr>r_row = (\<lambda>_. []), r_seen = r_mem S, r_mem = r_mem S, r_tally = r_tally S\<rparr>"
      by (simp add: list_invalidate_def)
    with emptied [OF k at slots_outside [OF k at D]] show "tracks k n (list_invalidate S) q" by simp
  qed
qed

end

text \<open>The operations on the line of one address.\<close>

context backing_store
begin

lemma set_tracks:
  "ready k \<Longrightarrow> triple (tracks k n S) (reads (\<lambda>c. addr_set c a)) (\<lambda>r p. r = addr_set k a \<and> tracks k n S p)"
  by (rule triple_reads) (auto simp: tracks_def At_def St_def dest: St_fields(11))

lemma put_back_Hits:
  assumes k: "ready k"
  shows "triple (Hits k a w n S) (writeback (addr_set k a) w)
    (\<lambda>_ p. \<exists>A W t. hit k A a w t \<and> \<not> t_dirty t \<and> pictures k A W ((list_put_back k (entry k a S) S)\<lparr>r_row := (r_row S)(addr_set k a :=
         map (\<lambda>(x, d). (x, d \<and> x \<noteq> addr_base k a)) (r_row S (addr_set k a)))\<rparr>) \<and>
       At k A (r_mem (list_put_back k (entry k a S) S)) n W (r_tally (list_put_back k (entry k a S) S)) p)"
proof (rule tracks_triple(2))
  fix A W t assume p: "pictures k A W S" and h: "hit k A a w t"
  let ?s = "addr_set k a" and ?S = "list_put_back k (entry k a S) S"
  note g = ready_geometry [OF k]
  have t: "A (?s, w) = Some t" using h by (simp add: hit_def)
  have sh: "shape_ok k A" and r: "rows_of k A W (r_row S)" and co: "coherent k A (r_mem S)"
    and V: "view k A (r_mem S) = r_seen S" using p by (simp_all add: pictures_def)
  have b: "t_base t = addr_base k a" by (rule hit_base [OF g sh h])
  have e: "entry k a S = (t_base t, t_dirty t)" using entry_hit [OF g sh r h] b by simp
  let ?A = "A((?s, w) := Some (t\<lparr>t_dirty := False\<rparr>))" and ?L = "if t_dirty t then spill k t (r_mem S) else r_mem S"
  have L: "r_mem ?S = ?L" "r_seen ?S = r_seen S"
      "r_tally ?S = (if t_dirty t then put_back_tally (c_line_bytes k) (r_tally S) else r_tally S)"
    using spill_view [OF g sh t, of "r_mem S"] V by (auto simp: list_put_back_tally e fun_eq_iff)
  have c: "shape_ok k ?A \<and> coherent k ?A ?L \<and> view k ?A ?L = r_seen S"
  proof (cases "t_dirty t")
    case True
    then show ?thesis using clean_slot [OF g sh co t] V by simp
  next
    case False
    then have "?A = A" using t by (auto simp: fun_eq_iff)
    with False sh co V show ?thesis by simp
  qed
  have "(\<lambda>(x, d). (x, if x = t_base t then t_dirty (t\<lparr>t_dirty := False\<rparr>) else d)) = (\<lambda>(x, d). (x, d \<and> x \<noteq> addr_base k a))"
    by (auto simp: b fun_eq_iff)
  with rows_alter [OF sh r t, of "t\<lparr>t_dirty := False\<rparr>"] c
  have "pictures k ?A W (?S\<lparr>r_row := (r_row S)(?s := map (\<lambda>(x, d). (x, d \<and> x \<noteq> addr_base k a)) (r_row S ?s))\<rparr>)"
    by (simp add: pictures_def L)
  moreover have "hit k ?A a w (t\<lparr>t_dirty := False\<rparr>)" using h by (simp add: hit_def)
  ultimately show "triple (At k A (r_mem S) n W (r_tally S)) (writeback ?s w)
    (\<lambda>_ p. \<exists>A W t. hit k A a w t \<and> \<not> t_dirty t \<and> pictures k A W (?S\<lparr>r_row := (r_row S)(?s :=
         map (\<lambda>(x, d). (x, d \<and> x \<noteq> addr_base k a)) (r_row S ?s))\<rparr>) \<and> At k A (r_mem ?S) n W (r_tally ?S) p)"
    unfolding L by (intro triple_weaken [OF at_writeback [OF k sh t]])
      (assumption, intro exI [of _ ?A] exI [of _ W] exI [of _ "t\<lparr>t_dirty := False\<rparr>"], simp)
qed

lemma clean_addr_tracks:
  assumes k: "ready k"
  shows "triple (tracks k n S) (cache_clean_addr a)
    (\<lambda>r p. r = fst (list_clean_addr k a S) \<and> tracks k n (snd (list_clean_addr k a S)) p)"
  unfolding cache_clean_addr_def
proof (rule triple_bind [OF set_tracks [OF k]], rule triple_pure, clarify, rule triple_bind [OF found_read [OF k]], rule residence_cases)
  fix w assume r: "resident k S a"
  show "triple (Hits k a w n S) (do { writeback (addr_set k a) w; ret True })
    (\<lambda>r p. r = fst (list_clean_addr k a S) \<and> tracks k n (snd (list_clean_addr k a S)) p)"
    by (rule triple_bind [OF put_back_Hits [OF k]], rule triple_ret)
      (use r in \<open>auto simp: list_clean_addr_def intro!: tracksI\<close>)
next
  assume r: "\<not> resident k S a"
  have "Misses k a n S p \<Longrightarrow> tracks k n S p" for p by (auto simp: Misses_def tracks_def)
  then show "triple (Misses k a n S) (ret False) (\<lambda>r p. r = fst (list_clean_addr k a S) \<and> tracks k n (snd (list_clean_addr k a S)) p)"
    using r by (intro triple_ret) (simp add: list_clean_addr_def)
qed

text \<open>A clean line taken out.\<close>

lemma drop_Hits:
  assumes k: "ready k" and t: "hit k A a w t" "\<not> t_dirty t" and p: "pictures k A W S"
  shows "triple (At k A (r_mem S) n W (r_tally S)) (writes (set_line (addr_set k a) w (\<lambda>l. l\<lparr>l_valid := False\<rparr>)))
    (\<lambda>_. tracks k n (S\<lparr>r_row := (r_row S)(addr_set k a := filter (\<lambda>e. fst e \<noteq> addr_base k a) (r_row S (addr_set k a)))\<rparr>))"
proof -
  let ?s = "addr_set k a"
  note g = ready_geometry [OF k]
  have a: "A (?s, w) = Some t" using t by (simp add: hit_def)
  have sh: "shape_ok k A" and r: "rows_of k A W (r_row S)" and co: "coherent k A (r_mem S)"
    and V: "view k A (r_mem S) = r_seen S" using p by (simp_all add: pictures_def)
  have "pictures k (A((?s, w) := None)) (W(?s := removeAll w (W ?s)))
      (S\<lparr>r_row := (r_row S)(?s := filter (\<lambda>e. fst e \<noteq> addr_base k a) (r_row S ?s))\<rparr>)"
    using rows_drop [OF sh r a] drop_slot [OF g sh co, of ?s w] a t(2) V hit_base [OF g sh t(1)] by (simp add: pictures_def)
  moreover have "At k B L n (W(?s := removeAll w (W ?s))) u q" if "At k B L n W u q" for B L u q
    using that stamped_remove [of k n W "fst q" ?s w] by (simp add: At_def)
  ultimately show ?thesis
    by (intro triple_weaken [OF at_drop(1) [OF k shape_okD(1,2) [OF sh a]]]) (auto intro: tracksI)
qed

lemma snoop_tracks:
  assumes k: "ready k"
  shows "triple (tracks k n S) (cache_snoop a)
    (\<lambda>r p. r = fst (list_snoop k a S) \<and> tracks k n (snd (list_snoop k a S)) p)"
  unfolding cache_snoop_def
proof (rule triple_bind [OF set_tracks [OF k]], rule triple_pure, clarify, rule triple_bind [OF found_read [OF k]], rule residence_cases)
  fix w assume r: "resident k S a"
  let ?s = "addr_set k a"
  let ?S = "(list_put_back k (entry k a S) S)\<lparr>r_row := (r_row S)(?s := filter (\<lambda>e. fst e \<noteq> addr_base k a) (r_row S ?s))\<rparr>"
  have q: "filter (\<lambda>e. fst e \<noteq> addr_base k a) (map (\<lambda>(x, d). (x, d \<and> x \<noteq> addr_base k a)) q) = filter (\<lambda>e. fst e \<noteq> addr_base k a) q" for q
    by (induction q) auto
  have drop: "triple (\<lambda>p. \<exists>A W t. hit k A a w t \<and> \<not> t_dirty t \<and> pictures k A W ((list_put_back k (entry k a S) S)\<lparr>r_row := (r_row S)(?s :=
         map (\<lambda>(x, d). (x, d \<and> x \<noteq> addr_base k a)) (r_row S ?s))\<rparr>) \<and>
       At k A (r_mem (list_put_back k (entry k a S) S)) n W (r_tally (list_put_back k (entry k a S) S)) p)
     (writes (set_line ?s w (\<lambda>l. l\<lparr>l_valid := False\<rparr>))) (\<lambda>_. tracks k n ?S)"
    unfolding triple_def
  proof (intro allI impI, elim exE conjE)
    fix p A W t assume h: "hit k A a w t" "\<not> t_dirty t" and pic: "pictures k A W ((list_put_back k (entry k a S) S)\<lparr>r_row := (r_row S)(?s :=
         map (\<lambda>(x, d). (x, d \<and> x \<noteq> addr_base k a)) (r_row S ?s))\<rparr>)" (is "pictures k A W ?T")
      and at: "At k A (r_mem (list_put_back k (entry k a S) S)) n W (r_tally (list_put_back k (entry k a S) S)) p"
    have "At k A (r_mem ?T) n W (r_tally ?T) p" using at by simp
    from tripleD [OF drop_Hits [OF k h pic] this]
    show "tracks k n ?S (exec (writes (set_line ?s w (\<lambda>l. l\<lparr>l_valid := False\<rparr>))) p)" by (simp add: q)
  qed
  show "triple (Hits k a w n S) (do {
         writeback ?s w;
         writes (set_line ?s w (\<lambda>l. l\<lparr>l_valid := False\<rparr>));
         writes (\<lambda>c. c\<lparr>c_invalidations := c_invalidations c + 1\<rparr>);
         ret True })
    (\<lambda>r p. r = fst (list_snoop k a S) \<and> tracks k n (snd (list_snoop k a S)) p)"
    by (rule triple_bind [OF put_back_Hits [OF k]], rule triple_bind [OF drop],
        rule triple_bind [OF tracks_writes(1) [where g = "\<lambda>t. t\<lparr>n_invalidations := n_invalidations t + 1\<rparr>"]],
        simp, simp, simp, simp add: tally_fields, rule triple_ret) (use r in \<open>simp add: list_snoop_def\<close>)
next
  assume r: "\<not> resident k S a"
  have "Misses k a n S p \<Longrightarrow> tracks k n S p" for p by (auto simp: Misses_def tracks_def)
  then show "triple (Misses k a n S) (ret False) (\<lambda>r p. r = fst (list_snoop k a S) \<and> tracks k n (snd (list_snoop k a S)) p)"
    using r by (intro triple_ret) (simp add: list_snoop_def)
qed

lemma reset_tracks: "triple (tracks k n S) cache_reset_stats (\<lambda>_. tracks k n (list_reset_stats S))"
proof -
  have s: "stamped k n W (c\<lparr>c_reads := 0, c_writes := 0, c_read_hit := 0, c_read_miss := 0,
     c_write_hit := 0, c_write_miss := 0, c_evictions := 0, c_writebacks := 0, c_invalidations := 0,
     c_stall_cycles := 0, c_bytes_in := 0, c_bytes_out := 0\<rparr>) = stamped k n W c" for n W c by simp
  show ?thesis unfolding cache_reset_stats_def list_reset_stats_def
    by (rule tracks_writes(1)) (simp_all add: s no_tally_def tally_of_def)
qed

lemma probe_tracks:
  assumes "ready k" "tracks k n S (c, b)"
  shows "cache_probe c a \<noteq> None \<longleftrightarrow> resident k S a"
  using tripleD [OF found_read [OF assms(1)] assms(2), of a] by (auto simp: cache_probe_def split: option.splits)

lemma tallies_tracks: "tracks k n S p \<Longrightarrow> tally_of (fst p) = r_tally S \<and> look (snd p) = r_mem S"
  by (auto simp: tracks_def At_def St_def)

text \<open>An empty cache.\<close>

lemma fresh_tracks:
  assumes "ready c" "rest b" "\<forall>i. \<not> l_valid (c_line c i)" "unat (c_clock c) \<le> n"
  shows "tracks c n \<lparr>r_row = (\<lambda>_. []), r_seen = look b, r_mem = look b, r_tally = tally_of c\<rparr> (c, b)"
proof (rule emptied [OF assms(1)])
  have n: "slots_of c q = None" for q using assms(3) by (cases q) (simp add: slots_of_def line_at_def)
  then show "slots_of c q = None" for q .
  show "At c (slots_of c) (look b) n (\<lambda>_. []) (tally_of c) (c, b)"
    using assms(2,4) by (simp add: At_def St_def stamped_def)
qed

end

end
