(* ===== verification/Memsys_Refine.thy ===== *)
theory Memsys_Refine
  imports Memsys_Contract Cache_Stale Cache_Recency
begin

text \<open>
  The memory system refines the machine without caches of \<open>Memsys_Spec\<close>: in the von Neumann and the
  Harvard model with the caches on or off, and in the modified Harvard model with the caches off.
  (With the caches on, the modified model does so only under the conditions of \<open>Memsys_Coherence\<close>.)

  The two backing stores of \<open>memsys.c\<close> are interpretations of \<open>backing_store\<close>; \<open>presents m Vc Vd\<close> says
  that the machine \<open>m\<close> shows the code memory \<open>Vc\<close> and the data memory \<open>Vd\<close> through its caches; every
  operation on the bus acts on these as the specification acts on its memories.
\<close>

unbundle bit_operations_syntax

section \<open>The two backing stores\<close>

text \<open>
  A cache serves one memory: the data cache the one \<open>dmem\<close> points to, the others the one of \<open>imem\<close>.
  In a \<open>still\<close> state the space pointers are \<open>p\<close> and \<open>q\<close>, and the memories the cache \<open>n\<close> does not serve
  hold \<open>M\<close>.
\<close>

definition own :: "cache_name \<Rightarrow> mem_name \<Rightarrow> mem_name \<Rightarrow> mem_name" where
  "own n p q = (if n = CD then q else p)"

definition bs_rd :: "cache_name \<Rightarrow> u16 \<Rightarrow> (phys, u8) state" where
  "bs_rd n = (if n = CD then bs_read_d else bs_read_i)"

definition bs_wr :: "cache_name \<Rightarrow> u16 \<Rightarrow> u8 \<Rightarrow> (phys, unit) state" where
  "bs_wr n = (if n = CD then bs_write_d else bs_write_i)"

definition still :: "cache_name \<Rightarrow> mem_name \<Rightarrow> mem_name \<Rightarrow> (mem_name \<Rightarrow> u16 \<Rightarrow> u8) \<Rightarrow> phys \<Rightarrow> bool" where
  "still n p q M b \<longleftrightarrow> imem b = p \<and> dmem b = q \<and> (\<forall>x. x \<noteq> own n p q \<longrightarrow> space b x = M x)"

lemma space_set_space [simp]:
  "space (set_space p a v b) q = (if q = p then (space b q)(a := v) else space b q)"
  "imem (set_space p a v b) = imem b" "dmem (set_space p a v b) = dmem b"
  by (auto simp: space_def set_space_def split: mem_name.splits)

lemma space_other [simp]: "space (b\<lparr>rand_n := n\<rparr>) x = space b x" "space (b\<lparr>imem := p, dmem := q\<rparr>) x = space b x"
  by (simp_all add: space_def split: mem_name.splits)

lemma exec_bs_wr: "exec (bs_wr n a v) b = set_space (own n (imem b) (dmem b)) a v b"
  by (simp add: bs_wr_def own_def bs_write_i_def bs_write_d_def)

interpretation backing: backing_store "bs_rd n" "bs_wr n" rand "still n p q M" "\<lambda>b. space b (own n p q)" for n p q M
  by unfold_locales (auto simp: exec_bs_wr bs_rd_def bs_read_i_def bs_read_d_def rand_def still_def own_def)

section \<open>What a cache and its memory present\<close>

definition held :: "cache_name \<Rightarrow> mem_name \<Rightarrow> mem_name \<Rightarrow> (mem_name \<Rightarrow> u16 \<Rightarrow> u8) \<Rightarrow> bool \<Rightarrow> (u16 \<Rightarrow> u8) \<Rightarrow>
    phys cache \<times> phys \<Rightarrow> bool" where
  "held n p q M on V s \<longleftrightarrow> (\<exists>k. backing.ready n k \<and> backing.Safe n p q M (\<lambda>a. on \<and> \<not> io_page a) k V s)"

text \<open>A line never straddles the device page.\<close>

lemma io_page_iff: "io_page a \<longleftrightarrow> unat a div 256 = 0xF0"
proof -
  have "io_page a \<longleftrightarrow> 0xF000 \<le> unat a \<and> unat a \<le> 0xF0FF"
    by (simp add: io_page_def MS_IO_LO_def MS_IO_HI_def word_le_nat_alt)
  also have "\<dots> \<longleftrightarrow> unat a div 256 = 0xF0" by linarith
  finally show ?thesis .
qed

lemma io_page_base:
  assumes g: "geometry_ok k"
  shows "io_page (addr_base k a) \<longleftrightarrow> io_page a"
proof -
  define n where "n = unat (c_line_bytes k)"
  have e: "n = 2 ^ unat (c_off_bits k)" "unat (c_off_bits k) \<le> 8" using g by (simp_all add: geometry_ok_def n_def)
  have "n dvd 2 ^ 8" unfolding e(1) by (rule le_imp_power_dvd) (rule e(2))
  then obtain d where "2 ^ 8 = n * d" by (rule dvdE)
  then have d: "256 = n * d" by simp
  have n: "0 < n" using geometry_bounds(1) [OF g] by (simp add: n_def)
  have "unat a div n * n div 256 = unat a div n div d" unfolding d using n by simp
  also have "\<dots> = unat a div 256" unfolding d by (simp add: div_mult2_eq)
  finally show ?thesis by (simp add: io_page_iff unat_addr_base [OF g] n_def [symmetric])
qed

lemma held_triple:
  assumes "\<And>k. backing.ready n k \<Longrightarrow> triple (backing.Safe n p q M (\<lambda>a. on \<and> \<not> io_page a) k V) m
    (\<lambda>r s. Q r s \<and> backing.Safe n p q M (\<lambda>a. on \<and> \<not> io_page a) k V' s)"
  shows "triple (held n p q M on V) m (\<lambda>r s. Q r s \<and> held n p q M on V' s)"
  using assms unfolding triple_def held_def by blast

lemma held_read:
  assumes "\<not> io_page a"
  shows "triple (held n p q M True V) (cache_read rand a) (\<lambda>r s. fst r = V a \<and> held n p q M True V s)"
proof (rule held_triple)
  fix k assume k: "backing.ready n k"
  then have "\<not> io_page (addr_base k a)" using assms by (simp add: backing.ready_def io_page_base)
  then have "triple (backing.Safe n p q M (\<lambda>a. True \<and> \<not> io_page a) k V) (cache_read rand a)
      (\<lambda>(v, e) s. v = V a \<and> backing.Safe n p q M (\<lambda>a. True \<and> \<not> io_page a) k V s)"
    by (intro backing.cache_read_Safe [OF k]) simp
  then show "triple (backing.Safe n p q M (\<lambda>a. True \<and> \<not> io_page a) k V) (cache_read rand a)
      (\<lambda>r s. fst r = V a \<and> backing.Safe n p q M (\<lambda>a. True \<and> \<not> io_page a) k V s)"
    by (rule triple_weaken) auto
qed

lemma held_write:
  assumes "\<not> io_page a"
  shows "triple (held n p q M True V) (cache_write rand a v) (\<lambda>r s. True \<and> held n p q M True (V(a := v)) s)"
proof (rule held_triple)
  fix k assume k: "backing.ready n k"
  then have "\<not> io_page (addr_base k a)" using assms by (simp add: backing.ready_def io_page_base)
  then show "triple (backing.Safe n p q M (\<lambda>a. True \<and> \<not> io_page a) k V) (cache_write rand a v)
      (\<lambda>r s. True \<and> backing.Safe n p q M (\<lambda>a. True \<and> \<not> io_page a) k (V(a := v)) s)"
    unfolding simp_thms by (intro backing.cache_write_Safe [OF k]) simp
qed

lemma held_maintenance:
  assumes "m = cache_clean \<or> m = cache_flush \<or> m = cache_reset_stats"
  shows "triple (held n p q M on V) m (\<lambda>r s. True \<and> held n p q M on V s)"
proof (rule held_triple)
  fix k assume k: "backing.ready n k"
  show "triple (backing.Safe n p q M (\<lambda>a. on \<and> \<not> io_page a) k V) m
      (\<lambda>r s. True \<and> backing.Safe n p q M (\<lambda>a. on \<and> \<not> io_page a) k V s)"
  proof -
    note rules = backing.maintenance_Safe [OF k, of p q M "\<lambda>a. on \<and> \<not> io_page a" V]
    consider "m = cache_clean" | "m = cache_flush" | "m = cache_reset_stats" using assms by blast
    then show ?thesis
    proof cases
      case 1
      show ?thesis unfolding 1 by (rule triple_weaken [OF rules(1)]) simp_all
    next
      case 2
      show ?thesis unfolding 2 by (rule triple_weaken [OF rules(2)]) simp_all
    next
      case 3
      show ?thesis unfolding 3 by (rule triple_weaken [OF rules(3)]) simp_all
    qed
  qed
qed

lemma held_still: "held n p q M on V (c, b) \<Longrightarrow> still n p q M b"
  by (auto simp: held_def backing.Safe_def backing.Ok_def backing.St_def)

lemma held_past:
  assumes h: "held n p q M on V (c, b)" and a: "on \<longrightarrow> io_page a"
  shows "space b (own n p q) a = V a" "held n p q M on (V(a := v)) (c, set_space (own n p q) a v b)"
proof -
  obtain k where k: "backing.ready n k" and s: "backing.Safe n p q M (\<lambda>a. on \<and> \<not> io_page a) k V (c, b)"
    using h by (auto simp: held_def)
  have "geometry_ok k" using k by (simp add: backing.ready_def)
  then have "\<not> (on \<and> \<not> io_page (addr_base k a))" using a by (simp add: io_page_base)
  note past = backing.Safe_past [where C = "\<lambda>a. on \<and> \<not> io_page a", OF k s this]
  show "space b (own n p q) a = V a" by (rule past)
  have "exec (bs_wr n a v) b = set_space (own n p q) a v b"
    using held_still [OF h] by (simp add: exec_bs_wr still_def)
  then show "held n p q M on (V(a := v)) (c, set_space (own n p q) a v b)"
    using past(2) [of v] k by (auto simp: held_def)
qed

lemma held_off: "held n p q M False V (c, b) \<Longrightarrow> space b (own n p q) = V"
  using held_past(1) [of n p q M False V c b] by (auto simp: fun_eq_iff)

text \<open>What happens in the other memory, and what an empty cache sees of its own.\<close>

lemma held_elsewhere:
  assumes "held n p q M on V (c, b)" "still n p q M' b'" "space b' (own n p q) = space b (own n p q)"
  shows "held n p q M' on V (c, b')"
  using assms unfolding held_def backing.Safe_def backing.Ok_def backing.St_def by fastforce

lemma held_empty:
  assumes "held n p q M False V (c, b)" "still n p' q' M' b'"
  shows "held n p' q' M' False (space b' (own n p' q')) (c, b')"
proof -
  obtain k where k: "backing.ready n k" and s: "backing.Safe n p q M (\<lambda>a. False) k V (c, b)"
    using assms(1) by (auto simp: held_def)
  obtain A L where st: "backing.St n p q M k A L (c, b)" and A: "lines_in (\<lambda>a. False) (c_line_bytes k) (indices k) c"
    using s by (auto simp: backing.Safe_def backing.Ok_def)
  have "A = slots_of c" using st by (simp add: backing.St_def)
  then have none: "A = Map.empty" using backing.lines_none [OF A] st by (simp add: backing.St_def)
  have "List.find (\<lambda>w. False) ws = None" for ws :: "u32 list" by (simp add: find_None_iff)
  then have "shape_ok k A \<and> coherent k A L' \<and> view k A L' = L'" for L'
    by (simp add: none shape_ok_def coherent_def view_def lookup_def fun_eq_iff)
  moreover have "backing.St n p' q' M' k A (space b' (own n p' q')) (c, b')"
    using st assms(2) by (simp add: backing.St_def)
  ultimately have "backing.Ok n p' q' M' k (space b' (own n p' q')) (c, b')"
    unfolding backing.Ok_def by blast
  then show ?thesis using k A by (auto simp: held_def backing.Safe_def)
qed

section \<open>What the machine presents\<close>

text \<open>The caches that serve accesses; the others are empty.\<close>

definition serves :: "memsys \<Rightarrow> cache_name \<Rightarrow> bool" where
  "serves m n \<longleftrightarrow> caches_on m \<and> (if ms_mode m = MODE_VONNEUMANN then n = CU else n \<noteq> CU)"

text \<open>The bytes that the cache \<open>n\<close> is to present: a cache out of service presents its memory.\<close>

definition shows_bytes :: "memsys \<Rightarrow> cache_name \<Rightarrow> (u16 \<Rightarrow> u8) \<Rightarrow> (u16 \<Rightarrow> u8) \<Rightarrow> (u16 \<Rightarrow> u8)" where
  "shows_bytes m n Vc Vd = (if serves m n then (if n = CD then Vd else Vc)
     else space (ms_phys m) (own n (imem (ms_phys m)) (dmem (ms_phys m))))"

definition presents :: "(u16 \<Rightarrow> u8) \<Rightarrow> (u16 \<Rightarrow> u8) \<Rightarrow> memsys \<Rightarrow> bool" where
  "presents Vc Vd m \<longleftrightarrow>
     imem (ms_phys m) = MEM_I \<and> dmem (ms_phys m) = (if ms_mode m = MODE_HARVARD then MEM_D else MEM_I) \<and>
     (ms_mode m \<noteq> MODE_HARVARD \<longrightarrow> Vc = Vd) \<and> (ms_mode m = MODE_MODIFIED \<longrightarrow> \<not> caches_on m) \<and>
     (\<not> caches_on m \<longrightarrow> Vc = space (ms_phys m) (imem (ms_phys m)) \<and> Vd = space (ms_phys m) (dmem (ms_phys m))) \<and>
     (\<forall>n. held n (imem (ms_phys m)) (dmem (ms_phys m)) (space (ms_phys m)) (serves m n) (shows_bytes m n Vc Vd)
        (the_cache n m, ms_phys m))"

lemma the_put_cache [simp]: "the_cache k (put_cache n c m) = (if k = n then c else the_cache k m)"
  by (cases k; cases n; simp add: the_cache_def put_cache_def)

lemma put_cache_fields [simp]:
  "ms_phys (put_cache n c m) = ms_phys m" "ms_mode (put_cache n c m) = ms_mode m" "caches_on (put_cache n c m) = caches_on m"
  "trace (put_cache n c m) = trace m" "snoop (put_cache n c m) = snoop m"
  by (cases n; simp add: put_cache_def)+

lemma the_cache_phys [simp]: "the_cache k (m\<lparr>ms_phys := b\<rparr>) = the_cache k m"
  by (cases k; simp add: the_cache_def)

lemma serves_fields [simp]: "serves (m\<lparr>ms_phys := b\<rparr>) = serves m" "serves (put_cache n c m) = serves m"
  by (auto simp: serves_def fun_eq_iff)

text \<open>Fields outside the memory hierarchy do not matter.\<close>

lemma presents_cong:
  assumes "ms_mode m' = ms_mode m" "caches_on m' = caches_on m" "ms_phys m' = ms_phys m" "\<And>n. the_cache n m' = the_cache n m"
  shows "presents Vc Vd m' \<longleftrightarrow> presents Vc Vd m"
  unfolding presents_def shows_bytes_def serves_def assms ..

lemma presents_held:
  "presents Vc Vd m \<Longrightarrow> held n (imem (ms_phys m)) (dmem (ms_phys m)) (space (ms_phys m)) (serves m n) (shows_bytes m n Vc Vd)
     (the_cache n m, ms_phys m)"
  unfolding presents_def by blast

lemma presentsD:
  assumes "presents Vc Vd m"
  shows "imem (ms_phys m) = MEM_I" "dmem (ms_phys m) = (if ms_mode m = MODE_HARVARD then MEM_D else MEM_I)"
    "ms_mode m \<noteq> MODE_HARVARD \<longrightarrow> Vc = Vd" "ms_mode m = MODE_MODIFIED \<longrightarrow> \<not> caches_on m"
    "\<not> caches_on m \<longrightarrow> Vc = space (ms_phys m) (imem (ms_phys m)) \<and> Vd = space (ms_phys m) (dmem (ms_phys m))"
  using assms unfolding presents_def by blast+

text \<open>One cache and its memory change; the others in service stand still, those out of service are empty.\<close>

lemma presents_step:
  assumes pr: "presents Vc Vd m"
    and c: "held n (imem (ms_phys m)) (dmem (ms_phys m)) (space (ms_phys m)) (serves m n)
        (shows_bytes (m\<lparr>ms_phys := b\<rparr>) n Wc Wd) (c, b)"
    and W: "ms_mode m \<noteq> MODE_HARVARD \<longrightarrow> Wc = Wd"
      "\<not> caches_on m \<longrightarrow> Wc = space b (imem (ms_phys m)) \<and> Wd = space b (dmem (ms_phys m))"
    and others: "\<And>k. k \<noteq> n \<Longrightarrow> serves m k \<Longrightarrow> (if k = CD then Wd = Vd else Wc = Vc) \<and>
        space b (own k (imem (ms_phys m)) (dmem (ms_phys m))) = space (ms_phys m) (own k (imem (ms_phys m)) (dmem (ms_phys m)))"
  shows "presents Wc Wd (put_cache n c (m\<lparr>ms_phys := b\<rparr>))"
proof -
  let ?p = "imem (ms_phys m)" and ?q = "dmem (ms_phys m)" and ?m = "put_cache n c (m\<lparr>ms_phys := b\<rparr>)"
  have b: "still n ?p ?q (space (ms_phys m)) b" by (rule held_still [OF c])
  then have pq: "imem b = ?p" "dmem b = ?q" by (simp_all add: still_def)
  then have any: "still k ?p ?q (space b) b" for k by (simp add: still_def)
  have all: "held k ?p ?q (space (ms_phys m)) (serves m k) (shows_bytes m k Vc Vd) (the_cache k m, ms_phys m)" for k
    by (rule presents_held [OF pr])
  have "held k ?p ?q (space b) (serves m k) (shows_bytes (m\<lparr>ms_phys := b\<rparr>) k Wc Wd) (the_cache k ?m, b)" for k
  proof (cases "k = n")
    case True
    then show ?thesis using held_elsewhere [OF c any] by simp
  next
    case other: False
    show ?thesis
    proof (cases "serves m k")
      case True
      have "shows_bytes (m\<lparr>ms_phys := b\<rparr>) k Wc Wd = shows_bytes m k Vc Vd"
        using others [OF other True] True by (simp add: shows_bytes_def serves_def)
      moreover have "held k ?p ?q (space b) (serves m k) (shows_bytes m k Vc Vd) (the_cache k m, b)"
        by (rule held_elsewhere [OF all any]) (use others [OF other True] in simp)
      ultimately show ?thesis using other by simp
    next
      case False
      then have "held k ?p ?q (space b) False (space b (own k ?p ?q)) (the_cache k m, b)"
        using held_empty [OF _ any] all [of k] by simp
      then show ?thesis using False other pq by (simp add: shows_bytes_def)
    qed
  qed
  moreover have "serves ?m k = serves m k" "shows_bytes ?m k Wc Wd = shows_bytes (m\<lparr>ms_phys := b\<rparr>) k Wc Wd" for k
    by (simp_all add: shows_bytes_def)
  ultimately show ?thesis using pr W pq by (simp add: presents_def)
qed

text \<open>A store past the caches.\<close>

lemma presents_poke:
  assumes pr: "presents Vc Vd m" and a: "caches_on m \<longrightarrow> io_page a"
  shows "presents (if ms_mode m = MODE_HARVARD then Vc else Vc(a := v)) (Vd(a := v))
    (m\<lparr>ms_phys := set_space (dmem (ms_phys m)) a v (ms_phys m)\<rparr>)"
proof -
  let ?p = "imem (ms_phys m)" and ?q = "dmem (ms_phys m)"
  let ?b = "set_space ?q a v (ms_phys m)"
  let ?m = "m\<lparr>ms_phys := ?b\<rparr>"
  let ?Vc = "if ms_mode m = MODE_HARVARD then Vc else Vc(a := v)"
  note pq = presentsD [OF pr]
  have any: "still k ?p ?q (space ?b) ?b" for k by (simp add: still_def)
  have all: "held k ?p ?q (space (ms_phys m)) (serves m k) (shows_bytes m k Vc Vd) (the_cache k m, ms_phys m)" for k
    by (rule presents_held [OF pr])
  have "held k ?p ?q (space ?b) (serves m k) (shows_bytes ?m k ?Vc (Vd(a := v))) (the_cache k m, ?b)" for k
  proof (cases "serves m k")
    case False
    then have "held k ?p ?q (space ?b) False (space ?b (own k ?p ?q)) (the_cache k m, ?b)"
      using held_empty [OF _ any] all [of k] by simp
    then show ?thesis using False by (simp add: shows_bytes_def)
  next
    case s: True
    show ?thesis
    proof (cases "own k ?p ?q = ?q")
      case True
      have "held k ?p ?q (space (ms_phys m)) (serves m k) ((shows_bytes m k Vc Vd)(a := v)) (the_cache k m, set_space (own k ?p ?q) a v (ms_phys m))"
        by (rule held_past(2) [OF all]) (use a s in \<open>simp add: serves_def\<close>)
      then have "held k ?p ?q (space ?b) (serves m k) ((shows_bytes m k Vc Vd)(a := v)) (the_cache k m, ?b)"
        unfolding True by (rule held_elsewhere [OF _ any]) simp
      moreover have "(shows_bytes m k Vc Vd)(a := v) = shows_bytes ?m k ?Vc (Vd(a := v))"
        using True s pq by (auto simp: shows_bytes_def serves_def own_def split: if_splits)
      ultimately show ?thesis by simp
    next
      case False
      then have "held k ?p ?q (space ?b) (serves m k) (shows_bytes m k Vc Vd) (the_cache k m, ?b)"
        by (intro held_elsewhere [OF all any]) simp
      moreover have "shows_bytes m k Vc Vd = shows_bytes ?m k ?Vc (Vd(a := v))"
        using False s pq by (auto simp: shows_bytes_def serves_def own_def split: if_splits)
      ultimately show ?thesis by simp
    qed
  qed
  moreover have "serves ?m k = serves m k" for k by (simp add: serves_def)
  ultimately show ?thesis using pr pq by (auto simp: presents_def)
qed

section \<open>Programs of the memory system\<close>

text \<open>The invariant of a run: the bytes presented, no bus trace, and the other half of the world.\<close>

definition sees :: "(u16 \<Rightarrow> u8) \<Rightarrow> (u16 \<Rightarrow> u8) \<Rightarrow> bool \<Rightarrow> hmon \<times> terminal \<Rightarrow> world \<Rightarrow> bool" where
  "sees Vc Vd split h w \<longleftrightarrow> presents Vc Vd (fst w) \<and> \<not> trace (fst w) \<and> split = (ms_mode (fst w) = MODE_HARVARD) \<and> snd w = h"

lemma memory_apart:
  assumes "presents Vc Vd m" "serves m n" "serves m k" "k \<noteq> n"
  shows "own k (imem (ms_phys m)) (dmem (ms_phys m)) \<noteq> own n (imem (ms_phys m)) (dmem (ms_phys m))"
  using presentsD [OF assms(1)] assms(2-4)
  by (cases "ms_mode m"; cases n; cases k) (simp_all add: serves_def own_def)

lemma on_cache_step:
  assumes pr: "presents Vc Vd m"
    and tr: "triple (held n (imem (ms_phys m)) (dmem (ms_phys m)) (space (ms_phys m)) (serves m n) (shows_bytes m n Vc Vd)) prog
      (\<lambda>r s. Q r \<and> held n (imem (ms_phys m)) (dmem (ms_phys m)) (space (ms_phys m)) (serves m n) V s)"
    and V: "serves m n \<or> V = shows_bytes m n Vc Vd"
    and run: "run_state (on_cache n prog) (m, w) = (r, (m', w'))"
  shows "w' = w" "Q r" "trace m' = trace m" "ms_mode m' = ms_mode m" "caches_on m' = caches_on m"
    and "presents (if serves m n \<and> (n \<noteq> CD \<or> ms_mode m \<noteq> MODE_HARVARD) then V else Vc)
      (if serves m n \<and> (n = CD \<or> ms_mode m \<noteq> MODE_HARVARD) then V else Vd) m'"
proof -
  let ?p = "imem (ms_phys m)" and ?q = "dmem (ms_phys m)" and ?L = "space (ms_phys m)"
  obtain c b where cb: "run_state prog (the_cache n m, ms_phys m) = (r, (c, b))"
    and m': "m' = put_cache n c (m\<lparr>ms_phys := b\<rparr>)" "w' = w"
    using run by (auto simp: on_cache_def split: prod.splits)
  have post: "Q r" "held n ?p ?q ?L (serves m n) V (c, b)"
    using tripleD [OF tr presents_held [OF pr]] cb by simp_all
  show "w' = w" "Q r" "trace m' = trace m" "ms_mode m' = ms_mode m" "caches_on m' = caches_on m"
    using m' post by simp_all
  let ?Wc = "if serves m n \<and> (n \<noteq> CD \<or> ms_mode m \<noteq> MODE_HARVARD) then V else Vc"
  let ?Wd = "if serves m n \<and> (n = CD \<or> ms_mode m \<noteq> MODE_HARVARD) then V else Vd"
  note D = presentsD [OF pr]
  have st: "still n ?p ?q ?L b" by (rule held_still [OF post(2)])
  then have pq: "imem b = ?p" "dmem b = ?q" and away: "\<And>x. x \<noteq> own n ?p ?q \<Longrightarrow> space b x = ?L x" by (simp_all add: still_def)
  have same: "space b x = ?L x" if "\<not> serves m n" for x
  proof (cases "x = own n ?p ?q")
    case True
    have "V = ?L (own n ?p ?q)" using V that by (simp add: shows_bytes_def)
    moreover have "space b (own n ?p ?q) = V" using post(2) that by (intro held_off) simp
    ultimately show ?thesis using True by simp
  qed (rule away)
  show "presents ?Wc ?Wd m'"
    unfolding m'
  proof (rule presents_step [OF pr])
    show "held n ?p ?q ?L (serves m n) (shows_bytes (m\<lparr>ms_phys := b\<rparr>) n ?Wc ?Wd) (c, b)"
    proof (cases "serves m n")
      case True
      then have "shows_bytes (m\<lparr>ms_phys := b\<rparr>) n ?Wc ?Wd = V" by (simp add: shows_bytes_def)
      then show ?thesis using post(2) by simp
    next
      case False
      then have "shows_bytes (m\<lparr>ms_phys := b\<rparr>) n ?Wc ?Wd = space b (own n ?p ?q)" using pq by (simp add: shows_bytes_def)
      also have "\<dots> = V" using post(2) False by (intro held_off) simp
      finally show ?thesis using post(2) by simp
    qed
    show "ms_mode m \<noteq> MODE_HARVARD \<longrightarrow> ?Wc = ?Wd" using D(3) by auto
    show "\<not> caches_on m \<longrightarrow> ?Wc = space b ?p \<and> ?Wd = space b ?q"
    proof
      assume off: "\<not> caches_on m"
      then have "\<not> serves m n" by (simp add: serves_def)
      then show "?Wc = space b ?p \<and> ?Wd = space b ?q" using D(5) off same by simp
    qed
  next
    fix k assume k: "k \<noteq> n" "serves m k"
    show "(if k = CD then ?Wd = Vd else ?Wc = Vc) \<and> space b (own k ?p ?q) = ?L (own k ?p ?q)"
    proof (cases "serves m n")
      case False
      then show ?thesis using same by simp
    next
      case True
      from memory_apart [OF pr True k(2,1)] have "space b (own k ?p ?q) = ?L (own k ?p ?q)" by (rule away)
      moreover have "ms_mode m = MODE_HARVARD" "n = CD \<longleftrightarrow> k \<noteq> CD"
        using k True D(4) by (cases "ms_mode m"; cases n; cases k; simp add: serves_def)+
      ultimately show ?thesis by simp
    qed
  qed
qed

lemma maintenance_step:
  assumes prog: "prog = cache_clean \<or> prog = cache_flush \<or> prog = cache_reset_stats"
    and pr: "presents Vc Vd m" and run: "run_state (on_cache n prog) (m, w) = (r, (m', w'))"
  shows "w' = w" "trace m' = trace m" "ms_mode m' = ms_mode m" "caches_on m' = caches_on m" "presents Vc Vd m'"
proof -
  note step = on_cache_step [OF pr held_maintenance [OF prog] _ run, simplified]
  show "w' = w" "trace m' = trace m" "ms_mode m' = ms_mode m" "caches_on m' = caches_on m" by (rule step)+
  have "(if serves m n \<and> (n \<noteq> CD \<or> ms_mode m \<noteq> MODE_HARVARD) then shows_bytes m n Vc Vd else Vc) = Vc"
    "(if serves m n \<and> (n = CD \<or> ms_mode m \<noteq> MODE_HARVARD) then shows_bytes m n Vc Vd else Vd) = Vd"
    using presentsD(3) [OF pr] by (auto simp: shows_bytes_def)
  then show "presents Vc Vd m'" using step(6) by simp
qed

lemma on_cache_maintenance:
  assumes "prog = cache_clean \<or> prog = cache_flush \<or> prog = cache_reset_stats"
  shows "triple (sees Vc Vd sp h) (on_cache n prog) (\<lambda>_. sees Vc Vd sp h)"
  unfolding triple_def
proof (intro allI impI)
  fix w assume s: "sees Vc Vd sp h w"
  obtain m h' where w: "w = (m, h')" by (cases w)
  obtain r m' h'' where run: "run_state (on_cache n prog) (m, h') = (r, (m', h''))" by (metis prod.exhaust)
  have pr: "presents Vc Vd m" using s w by (simp add: sees_def)
  from maintenance_step [OF assms pr run] show "sees Vc Vd sp h (exec (on_cache n prog) w)"
    using s w run by (simp add: sees_def)
qed

lemma on_cache_read:
  assumes c: "ms_cache_for m (side_of kind) = Some n" and a: "\<not> io_page a" and s: "sees Vc Vd sp h (m, h')"
  shows "fst (result (on_cache n (cache_read rand a)) (m, h')) = (if side_of kind = SIDE_CODE then Vc else Vd) a \<and>
    sees Vc Vd sp h (exec (on_cache n (cache_read rand a)) (m, h'))"
proof -
  obtain r m' h'' where run: "run_state (on_cache n (cache_read rand a)) (m, h') = (r, (m', h''))" by (metis prod.exhaust)
  have pr: "presents Vc Vd m" using s by (simp add: sees_def)
  have n: "serves m n" "shows_bytes m n Vc Vd = (if side_of kind = SIDE_CODE then Vc else Vd)"
    using c presentsD [OF pr] by (auto simp: ms_cache_for_def serves_def shows_bytes_def split: if_splits)
  have "(if serves m n \<and> (n \<noteq> CD \<or> ms_mode m \<noteq> MODE_HARVARD) then shows_bytes m n Vc Vd else Vc) = Vc"
    "(if serves m n \<and> (n = CD \<or> ms_mode m \<noteq> MODE_HARVARD) then shows_bytes m n Vc Vd else Vd) = Vd"
    using presentsD(3) [OF pr] by (auto simp: shows_bytes_def)
  moreover have "triple (held n (imem (ms_phys m)) (dmem (ms_phys m)) (space (ms_phys m)) (serves m n) (shows_bytes m n Vc Vd))
      (cache_read rand a) (\<lambda>r s. fst r = shows_bytes m n Vc Vd a \<and>
        held n (imem (ms_phys m)) (dmem (ms_phys m)) (space (ms_phys m)) (serves m n) (shows_bytes m n Vc Vd) s)"
    using held_read [OF a] n(1) by simp
  ultimately show ?thesis
    using on_cache_step [OF pr _ _ run, of "\<lambda>r. fst r = shows_bytes m n Vc Vd a" "shows_bytes m n Vc Vd"] n s run
    by (simp add: sees_def)
qed

lemma on_cache_write:
  assumes c: "ms_cache_for m SIDE_DATA = Some n" and a: "\<not> io_page a" and s: "sees Vc Vd sp h (m, h')"
  shows "sees (stored sp Vc a v) (Vd(a := v)) sp h (exec (on_cache n (cache_write rand a v)) (m, h'))"
proof -
  obtain r m' h'' where run: "run_state (on_cache n (cache_write rand a v)) (m, h') = (r, (m', h''))" by (metis prod.exhaust)
  have pr: "presents Vc Vd m" and sp: "sp = (ms_mode m = MODE_HARVARD)" using s by (simp_all add: sees_def)
  have n: "serves m n" "shows_bytes m n Vc Vd = Vd"
    using c presentsD [OF pr] by (auto simp: ms_cache_for_def serves_def shows_bytes_def split: if_splits)
  have e: "(if serves m n \<and> (n \<noteq> CD \<or> ms_mode m \<noteq> MODE_HARVARD) then Vd(a := v) else Vc) = stored sp Vc a v"
    "(if serves m n \<and> (n = CD \<or> ms_mode m \<noteq> MODE_HARVARD) then Vd(a := v) else Vd) = Vd(a := v)"
    using c n(1) sp presentsD(3) [OF pr] by (auto simp: ms_cache_for_def stored_def split: if_splits)
  have "triple (held n (imem (ms_phys m)) (dmem (ms_phys m)) (space (ms_phys m)) (serves m n) (shows_bytes m n Vc Vd))
      (cache_write rand a v) (\<lambda>r s. True \<and>
        held n (imem (ms_phys m)) (dmem (ms_phys m)) (space (ms_phys m)) (serves m n) (Vd(a := v)) s)"
    unfolding n(2) using held_write [OF a] n(1) by simp
  from on_cache_step [OF pr this _ run, unfolded e] n(1) s run
  show ?thesis by (simp add: sees_def)
qed

lemma sees_writes:
  assumes "\<And>m. ms_mode (f m) = ms_mode m" "\<And>m. caches_on (f m) = caches_on m" "\<And>m. ms_phys (f m) = ms_phys m"
    "\<And>n m. the_cache n (f m) = the_cache n m" "\<And>m. trace (f m) = trace m"
  shows "triple (sees Vc Vd sp h) (writes f) (\<lambda>_. sees Vc Vd sp h)"
  using presents_cong [OF assms(1-4)] assms by (intro triple_writes) (simp add: sees_def)

lemma ms_clean_sees: "triple (sees Vc Vd sp h) ms_clean (\<lambda>_. sees Vc Vd sp h)"
  unfolding ms_clean_def
  by (rule triple_bind [OF triple_reads], assumption, rule triple_if; rule on_cache_maintenance; simp)

lemma ms_flush_sees: "triple (sees Vc Vd sp h) (ms_flush code data) (\<lambda>_. sees Vc Vd sp h)"
  unfolding ms_flush_def
  by (rule triple_bind [OF triple_reads], assumption, rule triple_if, (rule triple_whenever, rule on_cache_maintenance, simp),
      rule triple_bind, (rule triple_whenever, rule on_cache_maintenance, simp), rule triple_whenever, rule on_cache_maintenance, simp)

lemma ms_reset_stats_sees: "triple (sees Vc Vd sp h) ms_reset_stats (\<lambda>_. sees Vc Vd sp h)"
  unfolding ms_reset_stats_def
  by (rule triple_bind [OF on_cache_maintenance], simp, rule triple_bind [OF on_cache_maintenance], simp,
      rule triple_bind [OF on_cache_maintenance], simp, rule sees_writes) (simp_all add: the_cache_def split: cache_name.split)

lemma count_access_sees: "triple (sees Vc Vd sp h) (count_access kind) (\<lambda>_. sees Vc Vd sp h)"
  unfolding count_access_def Let_def
  by (rule triple_bind [OF sees_writes]; (rule triple_if; rule sees_writes)?) (simp_all add: the_cache_def split: cache_name.split)

lemma trace_line_sees: "triple (sees Vc Vd sp h) (trace_line op kind a v ce) (\<lambda>_. sees Vc Vd sp h)"
proof -
  have "exec (trace_line op kind a v ce) w = w" if "\<not> trace (fst w)" for w
    using that by (cases w) (simp add: trace_line_def)
  then show ?thesis by (simp add: triple_def sees_def)
qed

lemma space_get_sees:
  assumes s: "sees Vc Vd sp h (m, h')" and a: "caches_on m \<longrightarrow> io_page a"
  shows "result (space_get side a) (m, h') = (if side = SIDE_CODE then Vc else Vd) a"
    "exec (space_get side a) (m, h') = (m, h')"
proof -
  have pr: "presents Vc Vd m" using s by (simp add: sees_def)
  define n where "n = (if side = SIDE_CODE then CI else CD)"
  define k where "k = (if serves m n then n else CU)"
  have r: "result (space_get side a) (m, h') = space (ms_phys m) (space_for m side) a" by (simp add: space_get_def)
  show "result (space_get side a) (m, h') = (if side = SIDE_CODE then Vc else Vd) a"
  proof (cases "serves m k")
    case True
    have "shows_bytes m k Vc Vd a = space (ms_phys m) (own k (imem (ms_phys m)) (dmem (ms_phys m))) a"
      using held_past(1) [OF presents_held [OF pr], of k a] a by (simp add: serves_def)
    moreover have "space_for m side = own k (imem (ms_phys m)) (dmem (ms_phys m))"
      using True presentsD [OF pr] by (auto simp: space_for_def k_def n_def own_def serves_def split: if_splits)
    moreover have "shows_bytes m k Vc Vd = (if side = SIDE_CODE then Vc else Vd)"
      using True presentsD [OF pr] by (auto simp: shows_bytes_def k_def n_def serves_def split: if_splits)
    ultimately show ?thesis using r by simp
  next
    case False
    then have "\<not> caches_on m"
      using presentsD(4) [OF pr] by (cases "ms_mode m") (auto simp: k_def n_def serves_def split: if_splits)
    then show ?thesis using presentsD(5) [OF pr] r by (simp add: space_for_def)
  qed
  show "exec (space_get side a) (m, h') = (m, h')" by (simp add: space_get_def)
qed

lemma space_put_sees:
  assumes s: "sees Vc Vd sp h (m, h')" and a: "caches_on m \<longrightarrow> io_page a"
  shows "sees (stored sp Vc a v) (Vd(a := v)) sp h (exec (space_put SIDE_DATA a v) (m, h'))"
  using presents_poke [of Vc Vd m a v] s a by (auto simp: sees_def space_put_def space_for_def stored_def)

section \<open>The bus refines the specification\<close>

text \<open>A fetch or load.\<close>

lemma ms_load_sees:
  assumes a: "\<not> io_page a"
  shows "triple (sees Vc Vd sp h) (ms_load kind a)
    (\<lambda>r w. r = (if side_of kind = SIDE_CODE then Vc else Vd) a \<and> sees Vc Vd sp h w)"
  unfolding triple_def
proof (intro allI impI)
  fix w :: world assume "sees Vc Vd sp h w"
  moreover obtain m h' where w: "w = (m, h')" by (cases w)
  ultimately have s: "sees Vc Vd sp h (m, h')" by simp
  show "result (ms_load kind a) w = (if side_of kind = SIDE_CODE then Vc else Vd) a \<and> sees Vc Vd sp h (exec (ms_load kind a) w)"
  proof (cases "ms_cache_for m (side_of kind)")
    case None
    then have "\<not> caches_on m" by (auto simp: ms_cache_for_def split: if_splits)
    then show ?thesis
      using space_get_sees [OF s, of a "side_of kind"] None tripleD [OF trace_line_sees s]
      by (simp add: ms_load_def w case_prod_beta)
  next
    case (Some n)
    note rd = on_cache_read [OF Some a s]
    then show ?thesis
      using Some tripleD [OF trace_line_sees conjunct2 [OF rd]] by (simp add: ms_load_def w case_prod_beta)
  qed
qed

text \<open>A store.\<close>

lemma ms_store_sees:
  assumes a: "\<not> io_page a" and k: "side_of kind = SIDE_DATA"
  shows "triple (sees Vc Vd sp h) (ms_store kind a v) (\<lambda>_. sees (stored sp Vc a v) (Vd(a := v)) sp h)"
  unfolding triple_def
proof (intro allI impI)
  fix w :: world assume s0: "sees Vc Vd sp h w"
  obtain m0 h' where w: "w = (m0, h')" by (cases w)
  define m where "m = (if code_known m0 \<and> code_lo m0 \<le> a \<and> a \<le> code_hi m0 then m0\<lparr>code_stores := code_stores m0 + 1\<rparr> else m0)"
  have s: "sees Vc Vd sp h (m, h')"
    using s0 presents_cong [of m m0] by (auto simp: w m_def sees_def the_cache_def split: cache_name.split)
  have pr: "presents Vc Vd m" using s by (simp add: sees_def)
  have co: "\<not> coherence m SIDE_DATA a" using presentsD(4) [OF pr] by (auto simp: coherence_def)
  let ?tail = "\<lambda>c. case c of
       None \<Rightarrow> do { space_put SIDE_DATA a v; trace_line ''write'' kind a v None }
     | Some n \<Rightarrow> do { ev \<leftarrow> on_cache n (cache_write rand a v); trace_line ''write'' kind a v (Some (n, ev)) }"
  have run: "run_state (ms_store kind a v) w = run_state (?tail (ms_cache_for m SIDE_DATA)) (m, h')"
  proof (cases "code_known m0 \<and> code_lo m0 \<le> a \<and> a \<le> code_hi m0")
    case True
    then have m: "m = m0\<lparr>code_stores := code_stores m0 + 1\<rparr>" unfolding m_def by (rule if_P)
    show ?thesis
      using co True unfolding m by (auto simp: ms_store_def k w Let_def case_prod_beta split: option.split)
  next
    case False
    then have m: "m = m0" by (simp only: m_def if_False)
    show ?thesis
      using co False unfolding m by (auto simp: ms_store_def k w Let_def case_prod_beta split: option.split)
  qed
  have "sees (stored sp Vc a v) (Vd(a := v)) sp h (exec (?tail (ms_cache_for m SIDE_DATA)) (m, h'))"
  proof (cases "ms_cache_for m SIDE_DATA")
    case None
    then have "caches_on m \<longrightarrow> io_page a" by (auto simp: ms_cache_for_def split: if_splits)
    from tripleD [OF trace_line_sees space_put_sees [OF s this, of v]] None show ?thesis by (simp add: case_prod_beta fun_upd_def)
  next
    case (Some n)
    from tripleD [OF trace_line_sees on_cache_write [OF Some a s, of v]] Some show ?thesis by (simp add: case_prod_beta fun_upd_def)
  qed
  then show "sees (stored sp Vc a v) (Vd(a := v)) sp h (exec (ms_store kind a v) w)" by (simp add: run)
qed

interpretation cached: memory_contract sees
proof
  fix Vc Vd :: "u16 \<Rightarrow> u8" and sp :: bool and h g :: "hmon \<times> terminal" and a :: u16 and kind v :: u8
    and side :: MemSide and m :: memsys
  show "sees Vc Vd sp h (m, g) \<Longrightarrow> g = h" "sees Vc Vd sp h (m, h) \<Longrightarrow> sees Vc Vd sp g (m, g)" by (simp_all add: sees_def)
  show "triple (sees Vc Vd sp h) (writes (\<lambda>m. m\<lparr>n_uncached := n_uncached m + 1\<rparr>)) (\<lambda>_. sees Vc Vd sp h)"
    by (rule sees_writes) (simp_all add: the_cache_def split: cache_name.split)
  assume a: "io_page a"
  show "triple (sees Vc Vd sp h) (space_get side a)
      (\<lambda>r w. r = (if side = SIDE_CODE then Vc else Vd) a \<and> sees Vc Vd sp h w)"
    using space_get_sees [of Vc Vd sp h _ _ a side] a by (auto simp: triple_def split_paired_all)
  show "triple (sees Vc Vd sp h) (space_put SIDE_DATA a v) (\<lambda>_. sees (stored sp Vc a v) (Vd(a := v)) sp h)"
    using space_put_sees [of Vc Vd sp h _ _ a v] a by (auto simp: triple_def split_paired_all)
qed (intro count_access_sees trace_line_sees ms_clean_sees ms_flush_sees ms_reset_stats_sees ms_load_sees ms_store_sees; assumption)+

definition refines :: "world \<Rightarrow> iworld \<Rightarrow> bool" where
  "refines w i \<longleftrightarrow> sees (i_code (fst i)) (i_data (fst i)) (i_split (fst i)) (snd i) w"

lemma refines_cached: "refines = cached.refines"
  by (simp add: fun_eq_iff refines_def cached.refines_def)

interpretation h6502: bus_sim h6502_bus ideal_bus refines
  unfolding refines_cached by (rule cached.bus_simulates)

end
