(* ===== verification/Memsys_Init.thy ===== *)
theory Memsys_Init
  imports Memsys_Refine
begin

text \<open>
  How the memory system gets into and between the states \<open>presents\<close> describes: \<open>ms_init\<close> establishes
  it, with both address spaces on the one memory, when the caches get theirs, and \<open>ms_set_mode\<close> leads from one model to another
  without losing a byte, because it flushes all three caches before it moves the space pointers.
\<close>
unbundle bit_operations_syntax

section \<open>The initial state\<close>

lemma held_fresh:
  assumes "geometry_ok c" "c_bs_read c = bs_rd n" "c_bs_write c = bs_wr n" "\<And>i. \<not> l_valid (c_line c i)" "still n p q M b"
  shows "held n p q M on (space b (own n p q)) (c, b)"
proof -
  have none: "slots_of c = Map.empty" using assms(4) by (auto simp: slots_of_def line_at_def fun_eq_iff)
  have "List.find (\<lambda>w. False) ws = None" for ws :: "u32 list" by (simp add: find_None_iff)
  then have "backing.Ok n p q M c (space b (own n p q)) (c, b)"
    using assms(5) unfolding backing.Ok_def backing.St_def
    by (intro exI [of _ "slots_of c"] exI [of _ "space b (own n p q)"])
      (simp add: none shape_ok_def coherent_def view_def lookup_def fun_eq_iff)
  moreover have "lines_in (\<lambda>a. on \<and> \<not> io_page a) (c_line_bytes c) (indices c) c" using assms(4) by (simp add: lines_in_def)
  ultimately show ?thesis using assms(1-3) by (auto simp: held_def backing.Safe_def backing.ready_def)
qed

definition default_cache :: "string \<Rightarrow> phys cache" where
  "default_cache nm = zero_cache\<lparr>c_name := take 3 nm, c_line_bytes := 16, c_ways := 2, c_sets := 8, c_capacity := 256,
     c_off_bits := 4, c_idx_bits := 3, c_write_alloc := True, c_miss_penalty := 8\<rparr>"

lemma cache_defaults_run: "exec (cache_defaults True nm) (c, b) = (default_cache nm, b)"
  by (simp add: cache_defaults_def cache_config_def small_powers CACHE_MAX_LINES_def default_cache_def zero_cache_def)

lemma default_geometry: "geometry_ok (default_cache nm)"
  by (simp add: geometry_ok_def default_cache_def)

lemma exec_on_cache:
  "exec (on_cache n p) (m, w) = (let (c, b) = exec p (the_cache n m, ms_phys m) in (put_cache n c (m\<lparr>ms_phys := b\<rparr>), w))"
  by (simp add: on_cache_def Let_def case_prod_beta)

definition init_memsys :: "phys \<Rightarrow> memsys" where
  "init_memsys b = (zero_memsys (b\<lparr>imem := MEM_I, dmem := MEM_I\<rparr>))\<lparr>caches_on := True, warn_stale := True, stale_warn_left := 8,
     ci := (default_cache ''I$'')\<lparr>c_bs_read := bs_read_i, c_bs_write := bs_write_i\<rparr>,
     cd := (default_cache ''D$'')\<lparr>c_bs_read := bs_read_d, c_bs_write := bs_write_d\<rparr>,
     cu := (default_cache ''U$'')\<lparr>c_bs_read := bs_read_i, c_bs_write := bs_write_i\<rparr>\<rparr>"

lemma ms_init_run: "\<forall>k. room k \<Longrightarrow> exec (ms_init room) (m, h) = (init_memsys (ms_phys m), h)"
  by (simp add: ms_init_def exec_on_cache cache_defaults_run cache_attach_def the_cache_def put_cache_def
      init_memsys_def zero_memsys_def case_prod_beta)

text \<open>Without memory the cache stays without sets, ways and bytes, and nobody notices: it is attached and switched on.\<close>

lemma init_without_room:
  fixes m :: memsys and h :: "hmon \<times> terminal"
  assumes "\<not> room k"
  defines "m' \<equiv> fst (exec (ms_init room) (m, h))"
  shows "caches_on m' \<and> c_sets (the_cache k m') = 0 \<and> c_ways (the_cache k m') = 0 \<and> c_capacity (the_cache k m') = 0"
  using assms by (cases k) (simp_all add: ms_init_def exec_on_cache cache_defaults_def cache_config_def small_powers CACHE_MAX_LINES_def
      cache_attach_def the_cache_def put_cache_def case_prod_beta zero_cache_def zero_memsys_def Let_def)

lemma init_presents: "presents (mem_i b) (mem_i b) (init_memsys b)"
proof -
  have sp: "space (b\<lparr>imem := MEM_I, dmem := MEM_I\<rparr>) MEM_I = mem_i b" by (simp add: space_def)
  have "held n MEM_I MEM_I (space (b\<lparr>imem := MEM_I, dmem := MEM_I\<rparr>)) (serves (init_memsys b) n) (mem_i b)
      (the_cache n (init_memsys b), b\<lparr>imem := MEM_I, dmem := MEM_I\<rparr>)" for n
  proof -
    have "own n MEM_I MEM_I = MEM_I" by (simp add: own_def)
    moreover have "geometry_ok (the_cache n (init_memsys b))"
      by (cases n) (simp_all add: the_cache_def init_memsys_def geometry_ok_def default_cache_def)
    ultimately show ?thesis
      using held_fresh [of "the_cache n (init_memsys b)" n MEM_I MEM_I "space (b\<lparr>imem := MEM_I, dmem := MEM_I\<rparr>)"
          "b\<lparr>imem := MEM_I, dmem := MEM_I\<rparr>" "serves (init_memsys b) n"] sp
      by (cases n) (simp_all add: the_cache_def init_memsys_def default_cache_def zero_cache_def zero_line_def bs_rd_def bs_wr_def still_def)
  qed
  moreover have "shows_bytes (init_memsys b) n (mem_i b) (mem_i b) = mem_i b" for n
    using sp by (simp add: shows_bytes_def init_memsys_def zero_memsys_def own_def)
  ultimately show ?thesis
    by (simp add: presents_def init_memsys_def zero_memsys_def)
qed

section \<open>Changing the model\<close>

definition idle :: "cache_name \<Rightarrow> memsys \<Rightarrow> bool" where
  "idle n m \<longleftrightarrow> held n (imem (ms_phys m)) (dmem (ms_phys m)) (space (ms_phys m)) False
     (space (ms_phys m) (own n (imem (ms_phys m)) (dmem (ms_phys m)))) (the_cache n m, ms_phys m)"

lemma held_flush: "triple (held n p q M on V) cache_flush (\<lambda>_. held n p q M False V)"
  unfolding triple_def
proof (intro allI impI)
  fix s assume "held n p q M on V s"
  then obtain k where k: "backing.ready n k" "backing.Safe n p q M (\<lambda>a. on \<and> \<not> io_page a) k V s"
    by (auto simp: held_def)
  from tripleD [OF backing.flush_empties [OF k(1)] k(2)] k(1) show "held n p q M False V (exec cache_flush s)"
    by (auto simp: held_def)
qed

lemma held_none:
  assumes "held n p q M on V (c, b)" "slots_of c = Map.empty"
  shows "V = space b (own n p q)"
proof -
  have "List.find (\<lambda>w. False) ws = None" for ws :: "u32 list" by (simp add: find_None_iff)
  moreover obtain k where "backing.Ok n p q M k V (c, b)" using assms(1) by (auto simp: held_def backing.Safe_def)
  ultimately show ?thesis using assms(2) by (auto simp: backing.Ok_def backing.St_def view_def lookup_def)
qed

lemma idle_none: "idle n m \<Longrightarrow> slots_of (the_cache n m) = Map.empty"
proof -
  assume "idle n m"
  then obtain k where "backing.ready n k" and s: "backing.Safe n (imem (ms_phys m)) (dmem (ms_phys m)) (space (ms_phys m)) (\<lambda>a. False) k
      (space (ms_phys m) (own n (imem (ms_phys m)) (dmem (ms_phys m)))) (the_cache n m, ms_phys m)"
    by (auto simp: idle_def held_def)
  then show ?thesis using backing.lines_none by (auto simp: backing.Safe_def backing.Ok_def backing.St_def)
qed

text \<open>What a flush does to the machine: its cache is empty, the others that were stay so, and the memory behind it holds \<open>W\<close>.\<close>

definition flushed :: "cache_name \<Rightarrow> (u16 \<Rightarrow> u8) \<Rightarrow> memsys \<Rightarrow> memsys \<Rightarrow> bool" where
  "flushed n W m m' \<longleftrightarrow> idle n m' \<and> (\<forall>k. idle k m \<longrightarrow> idle k m') \<and>
     imem (ms_phys m') = imem (ms_phys m) \<and> dmem (ms_phys m') = dmem (ms_phys m) \<and>
     space (ms_phys m') (own n (imem (ms_phys m)) (dmem (ms_phys m))) = W \<and>
     (\<forall>x. x \<noteq> own n (imem (ms_phys m)) (dmem (ms_phys m)) \<longrightarrow> space (ms_phys m') x = space (ms_phys m) x) \<and>
     ms_mode m' = ms_mode m \<and> caches_on m' = caches_on m \<and> trace m' = trace m"

lemma flushed_by:
  assumes e: "held n (imem (ms_phys m)) (dmem (ms_phys m)) (space (ms_phys m)) False W (c, b)"
  shows "flushed n W m (put_cache n c (m\<lparr>ms_phys := b\<rparr>))"
proof -
  let ?p = "imem (ms_phys m)" and ?q = "dmem (ms_phys m)" and ?m = "put_cache n c (m\<lparr>ms_phys := b\<rparr>)"
  have st: "still n ?p ?q (space (ms_phys m)) b" using e by (rule held_still)
  then have pq: "imem b = ?p" "dmem b = ?q" by (simp_all add: still_def)
  have any: "still k ?p ?q (space b) b" for k using pq by (simp add: still_def)
  have n: "idle n ?m" using held_empty [OF e any] by (simp add: idle_def pq)
  have "idle k ?m" if "idle k m" for k
    using held_empty [OF that [unfolded idle_def] any] n by (cases "k = n") (simp_all add: idle_def pq)
  moreover have "slots_of c = Map.empty" using idle_none [OF n] by simp
  then have "space b (own n ?p ?q) = W" using held_none [OF e] by simp
  ultimately show ?thesis using st n pq by (simp add: flushed_def still_def)
qed

lemma flush_held:
  assumes "held n (imem (ms_phys m)) (dmem (ms_phys m)) (space (ms_phys m)) on W (the_cache n m, ms_phys m)"
  shows "\<exists>m'. exec (on_cache n cache_flush) (m, h) = (m', h) \<and> flushed n W m m'"
proof -
  obtain c b where cb: "exec cache_flush (the_cache n m, ms_phys m) = (c, b)" by (metis prod.exhaust)
  have "held n (imem (ms_phys m)) (dmem (ms_phys m)) (space (ms_phys m)) False W (c, b)"
    using tripleD [OF held_flush assms] cb by simp
  from flushed_by [OF this] show ?thesis by (auto simp: exec_on_cache cb)
qed

lemma held_on: "held n p q M False V s \<Longrightarrow> held n p q M on V s"
  by (auto simp: held_def backing.Safe_def lines_in_def)

text \<open>With every cache empty, what the machine presents is what the memories hold.\<close>

lemma idle_bytes:
  assumes pr: "presents Vc Vd m" and idle: "\<And>n. idle n m"
  shows "Vc = space (ms_phys m) (imem (ms_phys m))" "Vd = space (ms_phys m) (dmem (ms_phys m))"
proof -
  have e: "shows_bytes m n Vc Vd = space (ms_phys m) (own n (imem (ms_phys m)) (dmem (ms_phys m)))" for n
    by (rule held_none [OF presents_held [OF pr] idle_none [OF idle]])
  show "Vc = space (ms_phys m) (imem (ms_phys m))" "Vd = space (ms_phys m) (dmem (ms_phys m))"
    using e [of CI] e [of CD] e [of CU] presentsD [OF pr] 
    by (cases "caches_on m"; cases "ms_mode m"; simp add: shows_bytes_def own_def serves_def)+
qed

lemma idle_presents:
  assumes idle: "\<And>n. idle n m" and p: "imem (ms_phys m) = MEM_I"
    "dmem (ms_phys m) = (if ms_mode m = MODE_HARVARD then MEM_D else MEM_I)" and md: "ms_mode m = MODE_MODIFIED \<longrightarrow> \<not> caches_on m"
  shows "presents (mem_i (ms_phys m)) (if ms_mode m = MODE_HARVARD then mem_d (ms_phys m) else mem_i (ms_phys m)) m"
proof -
  have sp: "space (ms_phys m) MEM_I = mem_i (ms_phys m)" "space (ms_phys m) MEM_D = mem_d (ms_phys m)"
    by (simp_all add: space_def)
  let ?Vd = "if ms_mode m = MODE_HARVARD then mem_d (ms_phys m) else mem_i (ms_phys m)"
  have "held n (imem (ms_phys m)) (dmem (ms_phys m)) (space (ms_phys m)) (serves m n) (shows_bytes m n (mem_i (ms_phys m)) ?Vd)
      (the_cache n m, ms_phys m)" for n
  proof -
    have s: "shows_bytes m n (mem_i (ms_phys m)) ?Vd = space (ms_phys m) (own n (imem (ms_phys m)) (dmem (ms_phys m)))"
      using sp p by (auto simp: shows_bytes_def own_def)
    show ?thesis
      unfolding s by (rule held_on [OF idle [unfolded idle_def]])
  qed
  then show ?thesis using sp p md by (simp add: presents_def)
qed

text \<open>The change itself, after the three flushes.\<close>

lemma ms_set_mode_after:
  assumes r: "exec (on_cache CI cache_flush) (m, h) = (m1, h)" "exec (on_cache CD cache_flush) (m1, h) = (m2, h)"
    "exec (on_cache CU cache_flush) (m2, h) = (m3, h)" and idle: "\<And>n. idle n m3"
  shows "snd (exec (ms_set_mode k) (m, h)) = h" "idle n (fst (exec (ms_set_mode k) (m, h)))"
    "mem_i (ms_phys (fst (exec (ms_set_mode k) (m, h)))) = space (ms_phys m3) MEM_I"
    "mem_d (ms_phys (fst (exec (ms_set_mode k) (m, h)))) = space (ms_phys m3) MEM_D"
    "imem (ms_phys (fst (exec (ms_set_mode k) (m, h)))) = MEM_I"
    "dmem (ms_phys (fst (exec (ms_set_mode k) (m, h)))) = (if k = MODE_HARVARD then MEM_D else MEM_I)"
    "ms_mode (fst (exec (ms_set_mode k) (m, h))) = k"
    "trace (fst (exec (ms_set_mode k) (m, h))) = trace m3" "caches_on (fst (exec (ms_set_mode k) (m, h))) = caches_on m3"
proof -
  let ?m = "m3\<lparr>ms_mode := k, ms_phys := (ms_phys m3)\<lparr>imem := MEM_I, dmem := (if k = MODE_HARVARD then MEM_D else MEM_I)\<rparr>\<rparr>"
  have run: "exec (ms_set_mode k) (m, h) = (?m, h)" using r by (simp add: ms_set_mode_def case_prod_beta)
  have "still n (imem (ms_phys ?m)) (dmem (ms_phys ?m)) (space (ms_phys ?m)) (ms_phys ?m)" by (simp add: still_def)
  moreover have "the_cache n ?m = the_cache n m3" by (cases n) (simp_all add: the_cache_def)
  ultimately have "idle n ?m" using held_empty [OF idle [of n, unfolded idle_def]] unfolding idle_def by metis
  then show "idle n (fst (exec (ms_set_mode k) (m, h)))" by (simp add: run)
qed (use r in \<open>simp_all add: ms_set_mode_def case_prod_beta space_def\<close>)

text \<open>Changing the model empties every cache and keeps the bytes.\<close>

lemma ms_set_mode_idle:
  assumes pr: "presents Vc Vd m"
  shows "idle n (fst (exec (ms_set_mode k) (m, h)))" "snd (exec (ms_set_mode k) (m, h)) = h"
    "mem_i (ms_phys (fst (exec (ms_set_mode k) (m, h)))) = Vc"
    "mem_d (ms_phys (fst (exec (ms_set_mode k) (m, h)))) = (if ms_mode m = MODE_HARVARD then Vd else mem_d (ms_phys m))"
    "imem (ms_phys (fst (exec (ms_set_mode k) (m, h)))) = MEM_I"
    "dmem (ms_phys (fst (exec (ms_set_mode k) (m, h)))) = (if k = MODE_HARVARD then MEM_D else MEM_I)"
    "trace (fst (exec (ms_set_mode k) (m, h))) = trace m" "ms_mode (fst (exec (ms_set_mode k) (m, h))) = k"
    "caches_on (fst (exec (ms_set_mode k) (m, h))) = caches_on m"
proof -
  have fl: "cache_flush = cache_clean \<or> cache_flush = cache_flush \<or> cache_flush = cache_reset_stats" for x by simp
  have step: "\<exists>m'. exec (on_cache n cache_flush) (m, h) = (m', h) \<and> flushed n (shows_bytes m n Vc Vd) m m' \<and> presents Vc Vd m'"
    if p: "presents Vc Vd m" for n m
  proof -
    obtain m' where m': "exec (on_cache n cache_flush) (m, h) = (m', h)" "flushed n (shows_bytes m n Vc Vd) m m'"
      using flush_held [OF presents_held [OF p]] by blast
    obtain r where "run_state (on_cache n cache_flush) (m, h) = (r, (m', h))" using m'(1) by (metis prod.collapse)
    from maintenance_step(5) [OF fl p this] m' show ?thesis by blast
  qed
  obtain m1 where 1: "exec (on_cache CI cache_flush) (m, h) = (m1, h)" "flushed CI (shows_bytes m CI Vc Vd) m m1" "presents Vc Vd m1"
    using step [OF pr] by blast
  obtain m2 where 2: "exec (on_cache CD cache_flush) (m1, h) = (m2, h)" "flushed CD (shows_bytes m1 CD Vc Vd) m1 m2" "presents Vc Vd m2"
    using step [OF 1(3)] by blast
  obtain m3 where 3: "exec (on_cache CU cache_flush) (m2, h) = (m3, h)" "flushed CU (shows_bytes m2 CU Vc Vd) m2 m3" "presents Vc Vd m3"
    using step [OF 2(3)] by blast
  have idle: "idle n m3" for n using 1(2) 2(2) 3(2) by (cases n) (simp_all add: flushed_def)
  note V = idle_bytes [OF 3(3) idle] and D = presentsD [OF pr] and f = 1(2) [unfolded flushed_def] 2(2) [unfolded flushed_def] 3(2) [unfolded flushed_def]
  have "space (ms_phys m3) MEM_D = space (ms_phys m) MEM_D" if "ms_mode m \<noteq> MODE_HARVARD"
    using f that D by (simp add: own_def)
  moreover have "trace m3 = trace m" "caches_on m3 = caches_on m" "imem (ms_phys m3) = MEM_I"
    "dmem (ms_phys m3) = (if ms_mode m = MODE_HARVARD then MEM_D else MEM_I)" using f D by simp_all
  ultimately show "idle n (fst (exec (ms_set_mode k) (m, h)))" "snd (exec (ms_set_mode k) (m, h)) = h"
    "mem_i (ms_phys (fst (exec (ms_set_mode k) (m, h)))) = Vc"
    "mem_d (ms_phys (fst (exec (ms_set_mode k) (m, h)))) = (if ms_mode m = MODE_HARVARD then Vd else mem_d (ms_phys m))"
    "imem (ms_phys (fst (exec (ms_set_mode k) (m, h)))) = MEM_I"
    "dmem (ms_phys (fst (exec (ms_set_mode k) (m, h)))) = (if k = MODE_HARVARD then MEM_D else MEM_I)"
    "trace (fst (exec (ms_set_mode k) (m, h))) = trace m" "ms_mode (fst (exec (ms_set_mode k) (m, h))) = k"
    "caches_on (fst (exec (ms_set_mode k) (m, h))) = caches_on m"
    using V by (simp_all add: ms_set_mode_after [OF 1(1) 2(1) 3(1) idle]) (simp add: space_def)
qed

lemma ms_set_mode_presents:
  assumes pr: "presents Vc Vd m" and k: "k = MODE_MODIFIED \<longrightarrow> \<not> caches_on m"
  shows "presents Vc (if k = MODE_HARVARD then if ms_mode m = MODE_HARVARD then Vd else mem_d (ms_phys m) else Vc)
      (fst (exec (ms_set_mode k) (m, h)))" "snd (exec (ms_set_mode k) (m, h)) = h"
    "trace (fst (exec (ms_set_mode k) (m, h))) = trace m" "ms_mode (fst (exec (ms_set_mode k) (m, h))) = k"
proof -
  let ?m = "fst (exec (ms_set_mode k) (m, h))"
  note i = ms_set_mode_idle [OF pr, where k = k and h = h]
  have "presents (mem_i (ms_phys ?m)) (if ms_mode ?m = MODE_HARVARD then mem_d (ms_phys ?m) else mem_i (ms_phys ?m)) ?m"
    by (rule idle_presents [OF i(1,5)]) (simp_all only: i(6,8,9), rule k)
  then show "presents Vc (if k = MODE_HARVARD then if ms_mode m = MODE_HARVARD then Vd else mem_d (ms_phys m) else Vc) ?m"
    unfolding i(3,4,8) .
qed (use ms_set_mode_idle [OF pr] in simp_all)

end
