(* ===== verification/M6502_Stack.thy ===== *)
theory M6502_Stack
  imports M6502_Frame
begin

text \<open>
  The stack discipline of the core (\<open>push8\<close> to \<open>pull16\<close> of \<open>m6502/m6502.c\<close> and the routines built on
  them).  The locale \<open>stack_bus\<close> is the contract of a bus whose page one is memory: what was pushed
  is what a pull reads.  On such a bus a push and its pull pair up for every stack pointer, the
  wrap-around inside page one included: \<open>JSR\<close>/\<open>RTS\<close>, \<open>PHP\<close>/\<open>PLP\<close>, \<open>PHA\<close>/\<open>PLA\<close>, \<open>BRK\<close>/\<open>RTI\<close> and a
  hardware interrupt with \<open>RTI\<close> restore the core.

  \<open>yields\<close> is symbolic execution; \<open>quiet\<close> blanks the two fields every bus access may change, the
  cycle counter and the access kind.
\<close>

unbundle bit_operations_syntax

section \<open>Addresses of the stack page\<close>

definition stack_addr :: "u8 \<Rightarrow> u16" where
  "stack_addr sp = 0x0100 OR ucast sp"

lemma ucast_stack_addr: "ucast (stack_addr x) = x"
proof (rule bit_word_eqI)
  fix n assume n: "n < LENGTH(8)"
  have "(0x0100 :: u16) = 2 ^ 8" by simp
  then have "bit (0x0100 :: u16) n \<longleftrightarrow> n = 8" by (simp only: bit_exp_iff) auto
  with n show "bit (ucast (stack_addr x) :: u8) n = bit x n"
    by (simp add: stack_addr_def bit_simps)
qed

lemma stack_addr_inj [simp]: "stack_addr a = stack_addr b \<longleftrightarrow> a = b"
  by (metis ucast_stack_addr)

lemma le16_split [simp]: "le16 (ucast v) (ucast (drop_bit 8 v)) = v"
  unfolding le16_def by (rule bit_word_eqI) (auto simp: bit_simps)

lemma unat_le16: "unat (le16 lo hi) = unat lo + 256 * unat hi"
proof -
  have "le16 lo hi = ucast lo + push_bit 8 (ucast hi)"
    unfolding le16_def by (rule disjunctive_add [symmetric]) (auto simp: bit_simps dest: bit_imp_le_length)
  moreover have "unat (ucast lo :: u16) = unat lo" "unat (ucast hi :: u16) = unat hi"
    using unat_u8_lt [of lo] unat_u8_lt [of hi] by (simp_all add: unsigned_ucast_eq take_bit_eq_mod)
  ultimately show ?thesis
    using unat_u8_lt [of lo] unat_u8_lt [of hi]
    by (simp add: unat_word_ariths push_bit_eq_mult mod_less)
qed

section \<open>Symbolic execution up to the bus notes\<close>

definition yields :: "('s \<Rightarrow> bool) \<Rightarrow> ('s, 'a) state \<Rightarrow> 'a \<Rightarrow> ('s \<Rightarrow> bool) \<Rightarrow> bool" where
  "yields P m r Q \<longleftrightarrow> (\<forall>s. P s \<longrightarrow> result m s = r \<and> Q (exec m s))"

lemma yields_bind: "yields P m r R \<Longrightarrow> yields R (f r) r' Q \<Longrightarrow> yields P (m \<bind> f) r' Q"
  by (simp add: yields_def case_prod_beta)

lemma yields_ret: "yields P (ret r) r P"
  by (simp add: yields_def)

definition quiet :: "core \<Rightarrow> core" where
  "quiet s = s\<lparr>cycles := 0, access := 0\<rparr>"

locale stack_bus = bus_frame B
  for B :: "'w bus" +
  fixes ok :: "'w \<Rightarrow> bool" and stk :: "'w \<Rightarrow> u8 \<Rightarrow> u8"
  assumes read_keeps: "ok w \<Longrightarrow> ok (snd (exec (bus_read B a) (s, w))) \<and> stk (snd (exec (bus_read B a) (s, w))) = stk w"
    and pull_stk: "ok w \<Longrightarrow> access s = acc_code M6502_ACC_STACK \<Longrightarrow>
      result (bus_read B (stack_addr p)) (s, w) = stk w p"
    and push_stk: "ok w \<Longrightarrow> access s = acc_code M6502_ACC_STACK \<Longrightarrow>
      ok (snd (exec (bus_write B (stack_addr p) v) (s, w))) \<and>
      stk (snd (exec (bus_write B (stack_addr p) v) (s, w))) = (stk w)(p := v)"
begin

definition at :: "core \<Rightarrow> (u8 \<Rightarrow> u8) \<Rightarrow> core \<times> 'w \<Rightarrow> bool" where
  "at c m p \<longleftrightarrow> quiet (fst p) = quiet c \<and> ok (snd p) \<and> stk (snd p) = m"

lemma at_reads:
  assumes "\<And>s. f (quiet s) = f s"
  shows "yields (at c m) (reads f) (f c) (at c m)"
  using assms by (auto simp: yields_def at_def) metis

lemma at_writes:
  assumes "\<And>s. quiet (f (quiet s)) = quiet (f s)"
  shows "yields (at c m) (writes f) () (at (f c) m)"
  using assms by (auto simp: yields_def at_def) metis

lemma quiet_frame:
  "quiet (fst (exec (bus_read B a) (s, w))) = quiet s" "quiet (fst (exec (bus_write B a v) (s, w))) = quiet s"
  using read_frame [of a s w] write_frame [of a v s w] by (auto simp: quiet_def)

lemma at_read:
  assumes "at c m p"
  shows "at c m (exec (rdk B a k) p)"
  using assms read_keeps [of "snd p" a "fst p\<lparr>access := acc_code k\<rparr>"]
    quiet_frame(1) [of a "fst p\<lparr>access := acc_code k\<rparr>" "snd p"]
  by (cases p) (simp add: at_def rdk_def quiet_def)

lemma at_stack:
  "yields (at c m) (rdk B (stack_addr p) M6502_ACC_STACK) (m p) (at c m)"
  "yields (at c m) (wrk B (stack_addr p) v M6502_ACC_STACK) () (at c (m(p := v)))"
proof -
  show "yields (at c m) (rdk B (stack_addr p) M6502_ACC_STACK) (m p) (at c m)"
    using at_read by (auto simp: yields_def) (auto simp: rdk_def at_def pull_stk)
  show "yields (at c m) (wrk B (stack_addr p) v M6502_ACC_STACK) () (at c (m(p := v)))"
    unfolding yields_def 
    using push_stk quiet_frame(2)
    by (auto simp: wrk_def at_def) (simp add: quiet_def)+
qed

lemma at_push8: "yields (at c m) (push8 B v) () (at (c\<lparr>r_sp := r_sp c - 1\<rparr>) (m(r_sp c := v)))"
  unfolding push8_def stack_addr_def [symmetric]
  by (rule yields_bind, rule at_reads, simp add: quiet_def,
      rule yields_bind, rule at_writes, simp add: quiet_def, rule at_stack)

lemma at_pull8: "yields (at c m) (pull8 B) (m (r_sp c + 1)) (at (c\<lparr>r_sp := r_sp c + 1\<rparr>) m)"
proof -
  have "yields (at c m) (pull8 B) (m (r_sp (c\<lparr>r_sp := r_sp c + 1\<rparr>))) (at (c\<lparr>r_sp := r_sp c + 1\<rparr>) m)"
    unfolding pull8_def stack_addr_def [symmetric]
    by (rule yields_bind, rule at_writes, simp add: quiet_def,
        rule yields_bind, rule at_reads, simp add: quiet_def, rule at_stack)
  then show ?thesis by simp
qed

lemma at_cong: "yields P m r (at c n) \<Longrightarrow> c = c' \<Longrightarrow> n = n' \<Longrightarrow> r = r' \<Longrightarrow> yields P m r' (at c' n')"
  by simp

lemma at_push16: "yields (at c m) (push16 B v) ()
    (at (c\<lparr>r_sp := r_sp c - 2\<rparr>) (m(r_sp c := ucast (drop_bit 8 v), r_sp c - 1 := ucast v)))"
  unfolding push16_def by (rule at_cong, rule yields_bind, rule at_push8, rule at_push8) simp_all

lemma at_pull16: "yields (at c m) (pull16 B) (le16 (m (r_sp c + 1)) (m (r_sp c + 2))) (at (c\<lparr>r_sp := r_sp c + 2\<rparr>) m)"
  unfolding pull16_def
  by (rule at_cong, rule yields_bind, rule at_pull8, rule yields_bind, rule at_pull8, rule yields_ret)
     (simp_all add: add.assoc)

lemma at_vector:
  assumes "\<And>v. yields (at c m) (f v) r Q"
  shows "yields (at c m) (rdv16 B a \<bind> f) r Q"
proof -
  have k: "keeps (at c m) (rdv16 B a)"
    unfolding rdv16_def rdk16_def by (intro keeps_rules keepsI at_read)
  show ?thesis
    unfolding yields_def run_bind_split
    using assms keepsD [OF k] by (simp only: yields_def) blast
qed

text \<open>Pushes and pulls pair up, whatever the stack pointer, wrap-around of the page included.\<close>

lemma jsr_rts: "\<exists>m'. yields (at c m) (do { op_jsr B; op_rts B }) () (at c m')"
proof -
  define n where "n = m(r_sp c := ucast (drop_bit 8 (r_pc c - 1)), r_sp c - 1 := ucast (r_pc c - 1))"
  have "yields (at c m) (op_jsr B) () (at (c\<lparr>r_sp := r_sp c - 2, r_pc := g_ea c\<rparr>) n)"
    unfolding op_jsr_def n_def
    by (rule at_cong, rule yields_bind, rule at_reads, simp add: quiet_def,
        rule yields_bind, rule at_push16, rule at_writes) (simp_all add: quiet_def)
  moreover have "yields (at d n) (op_rts B) ()
      (at (d\<lparr>r_sp := r_sp d + 2, r_pc := le16 (n (r_sp d + 1)) (n (r_sp d + 2)) + 1\<rparr>) n)" for d
    unfolding op_rts_def
    by (rule at_cong, rule yields_bind, rule at_pull16, rule at_writes) (simp_all add: quiet_def)
  ultimately have "yields (at c m) (do { op_jsr B; op_rts B }) () (at c n)"
    by (rule at_cong [OF yields_bind]) (simp_all add: n_def fun_upd_def)
  then show ?thesis by blast
qed

lemma setP_bits: "m6502_setP p s = s\<lparr>f_n := of_bool (bit p 7), f_v := of_bool (bit p 6),
    f_d := of_bool (bit p 3), f_i := of_bool (bit p 2), f_z := of_bool (bit p 1), f_c := of_bool (bit p 0)\<rparr>"
proof -
  have "drop_bit k p AND 1 = of_bool (bit p k)" for k
    by (rule bit_word_eqI) (auto simp: bit_simps bit_1_iff)
  from this [of 0] this [of 1] this [of 2] this [of 3] this [of 6] this [of 7]
  show ?thesis by (simp add: m6502_setP_def)
qed

lemma setP_b: "m6502_setP (p OR 0x10) s = m6502_setP p s" "m6502_setP (p AND NOT 0x10) s = m6502_setP p s"
  by (simp_all add: setP_bits bit_simps)

lemma getP_sp [simp]: "m6502_getP (c\<lparr>r_sp := x\<rparr>) = m6502_getP c"
  by (simp add: m6502_getP_def)

lemma at_getP: "yields (at c m) (reads m6502_getP) (m6502_getP c) (at c m)"
  by (rule at_reads) (simp add: quiet_def m6502_getP_def)

lemma at_setP: "yields (at c m) (writes (m6502_setP p)) () (at (m6502_setP p c) m)"
  by (rule at_writes) (simp add: quiet_def m6502_setP_def)

lemma php_plp:
  assumes "flags_ok c"
  shows "\<exists>m'. yields (at c m) (do { op_php B; op_plp B }) () (at c m')"
proof -
  define n where "n = m(r_sp c := m6502_getP c OR 0x10)"
  have "yields (at c m) (op_php B) () (at (c\<lparr>r_sp := r_sp c - 1\<rparr>) n)"
    unfolding op_php_def n_def by (rule yields_bind, rule at_getP, rule at_push8)
  moreover have "yields (at d n) (op_plp B) () (at (m6502_setP (n (r_sp d + 1)) (d\<lparr>r_sp := r_sp d + 1\<rparr>)) n)" for d
    unfolding op_plp_def by (rule yields_bind, rule at_pull8, rule at_setP)
  ultimately have "yields (at c m) (do { op_php B; op_plp B }) () (at c n)"
    by (rule at_cong [OF yields_bind]) (simp_all add: n_def fun_upd_def setP_b setP_getP [OF assms])
  then show ?thesis by blast
qed

lemma pha_pla:
  "\<exists>m'. yields (at c m) (do { op_pha B; op_pla B }) ()
     (at (c\<lparr>f_z := of_bool (r_a c = 0), f_n := drop_bit 7 (r_a c) AND 1\<rparr>) m')"
proof -
  define n where "n = m(r_sp c := r_a c)"
  have "yields (at c m) (op_pha B) () (at (c\<lparr>r_sp := r_sp c - 1\<rparr>) n)"
    unfolding op_pha_def n_def by (rule yields_bind, rule at_reads, simp add: quiet_def, rule at_push8)
  moreover have "yields (at d n) (op_pla B) () (at (d\<lparr>r_sp := r_sp d + 1, r_a := n (r_sp d + 1),
      f_z := of_bool (n (r_sp d + 1) = 0), f_n := drop_bit 7 (n (r_sp d + 1)) AND 1\<rparr>) n)" for d
    unfolding op_pla_def calcZN_def calcZ_def calcN_def
    by (rule at_cong, rule yields_bind, rule at_pull8, rule yields_bind, rule at_writes, simp add: quiet_def,
       rule yields_bind, rule at_writes, simp add: quiet_def, rule at_writes) (simp_all add: quiet_def)
  ultimately have "yields (at c m) (do { op_pha B; op_pla B }) () (at (c\<lparr>f_z := of_bool (r_a c = 0), f_n := drop_bit 7 (r_a c) AND 1\<rparr>) n)"
    by (rule at_cong [OF yields_bind]) (simp_all add: n_def fun_upd_def)
  then show ?thesis by blast
qed

text \<open>\<open>RTI\<close> undoes the three pushes of \<open>BRK\<close> and of an interrupt.\<close>

lemma at_rti: "yields (at d n) (op_rti B) ()
    (at (m6502_setP (n (r_sp d + 1)) (d\<lparr>r_sp := r_sp d + 3, r_pc := le16 (n (r_sp d + 2)) (n (r_sp d + 3))\<rparr>)) n)"
  unfolding op_rti_def
  by (rule at_cong, rule yields_bind, rule at_pull8, rule yields_bind, rule at_setP, rule yields_bind,
      rule at_pull16, rule at_writes, simp add: quiet_def) (simp_all add: m6502_setP_def add.assoc)

lemma at_trap:
  assumes "\<And>v. yields (at (c\<lparr>r_sp := r_sp c - 3, f_i := 1, r_pc := v\<rparr>)
      (m(r_sp c := ucast (drop_bit 8 (r_pc c)), r_sp c - 1 := ucast (r_pc c), r_sp c - 2 := g (m6502_getP c)))) m' r Q"
  shows "yields (at c m) (do { pc \<leftarrow> reads r_pc; push16 B pc; p \<leftarrow> reads m6502_getP; push8 B (g p);
      writes (\<lambda>s. s\<lparr>f_i := 1\<rparr>); v \<leftarrow> rdv16 B vec; writes (\<lambda>s. s\<lparr>r_pc := v\<rparr>); m' }) r Q"
  by (rule yields_bind, rule at_reads, simp add: quiet_def, rule yields_bind, rule at_push16,
      rule yields_bind, rule at_getP, rule yields_bind, rule at_push8,
      rule yields_bind, rule at_writes, simp add: quiet_def, rule at_vector,
      rule yields_bind, rule at_writes, simp add: quiet_def) (use assms in simp)

lemma trap_rti:
  assumes "m6502_setP q c = c" "n (r_sp c) = ucast (drop_bit 8 (r_pc c))" "n (r_sp c - 1) = ucast (r_pc c)"
    "n (r_sp c - 2) = q"
  shows "yields (at (c\<lparr>r_sp := r_sp c - 3, f_i := 1, r_pc := v\<rparr>) n) (op_rti B) () (at c n)"
proof -
  have "m6502_setP q (c\<lparr>f_i := 1\<rparr>) = m6502_setP q c" by (simp add: m6502_setP_def)
  then have "m6502_setP q (c\<lparr>f_i := 1\<rparr>) = c" by (simp only: assms(1))
  then show ?thesis by (intro at_cong [OF at_rti]) (simp_all add: assms)
qed

lemma interrupt_rti:
  assumes "flags_ok c"
  shows "\<exists>m'. yields (at c m) (do { interrupt B vec; op_rti B }) () (at c m')"
proof -
  define n where "n = m(r_sp c := ucast (drop_bit 8 (r_pc c)), r_sp c - 1 := ucast (r_pc c),
    r_sp c - 2 := m6502_getP c AND NOT 0x10)"
  have "m6502_setP (m6502_getP c AND NOT 0x10) c = c"
    unfolding setP_b by (rule setP_getP [OF assms])
  then have r: "yields (at (c\<lparr>r_sp := r_sp c - 3, f_i := 1, r_pc := v\<rparr>) n) (op_rti B) () (at c n)" for v
    by (rule trap_rti) (simp_all add: n_def)
  have "yields (at d n) (writes (\<lambda>s. s\<lparr>cycles := cycles s + 7\<rparr>)) () (at d n)" for d
    by (auto simp: yields_def at_def quiet_def)
  then have "yields (at (c\<lparr>r_sp := r_sp c - 3, f_i := 1, r_pc := v\<rparr>) n)
      (do { writes (\<lambda>s. s\<lparr>cycles := cycles s + 7\<rparr>); _ \<leftarrow> ret (7 :: int); op_rti B }) () (at c n)" for v
    unfolding bind_left_identity by (rule yields_bind) (rule r)
  then have "yields (at c m) (do { interrupt B vec; op_rti B }) () (at c n)"
    unfolding interrupt_def bind_assoc n_def
    by (rule at_trap [where g = "\<lambda>p. p AND NOT 0x10"])
  then show ?thesis by blast
qed

lemma brk_rti:
  assumes "flags_ok s"
  shows "\<exists>m'. yields (at s m) (do { op_brk B; op_rti B }) () (at (s\<lparr>r_pc := r_pc s + 1\<rparr>) m')"
proof -
  define c where "c = s\<lparr>r_pc := r_pc s + 1\<rparr>"
  define n where "n = m(r_sp c := ucast (drop_bit 8 (r_pc c)), r_sp c - 1 := ucast (r_pc c),
    r_sp c - 2 := m6502_getP c OR 0x10)"
  have "flags_ok c" using assms by (simp add: c_def flags_ok_def)
  then have "m6502_setP (m6502_getP c OR 0x10) c = c"
    unfolding setP_b by (rule setP_getP)
  then have "yields (at (c\<lparr>r_sp := r_sp c - 3, f_i := 1, r_pc := v\<rparr>) n) (op_rti B) () (at c n)" for v
    by (rule trap_rti) (simp_all add: n_def)
  then have "yields (at s m) (do { op_brk B; op_rti B }) () (at c n)"
    unfolding op_brk_def bind_assoc n_def
    by (intro yields_bind [OF at_writes] at_trap [where g = "\<lambda>p. p OR 0x10"])
       (simp_all add: c_def quiet_def)
  then show ?thesis unfolding c_def by blast
qed

text \<open>The same facts as equations between final and initial cores.\<close>

lemma paired:
  assumes "\<exists>m'. yields (at s (stk w)) p () (at s' m')" and "ok w"
  shows "quiet (fst (exec p (s, w))) = quiet s'"
  using assms by (auto simp: yields_def at_def)

lemmas jsr_rts_core = paired [OF jsr_rts]
lemmas pha_pla_core = paired [OF pha_pla]
lemmas php_plp_core = paired [OF php_plp]
lemmas interrupt_rti_core = paired [OF interrupt_rti]
lemmas brk_rti_core = paired [OF brk_rti]

end
end
