(* ===== verification/Memsys_Props.thy ===== *)
theory Memsys_Props
  imports Memsys_Init M6502_Stack
begin

text \<open>
  The properties of the machine \<open>h6502\<close>: the CPU core of \<open>m6502.c\<close> on the memory system of \<open>memsys.c\<close>.
  Each rests on an interpretation: the simulation \<open>h6502\<close> of \<open>Memsys_Refine\<close>, the frame of the bus, and,
  on the specification machine, the stack and the invariance of the split code memory.
\<close>
unbundle bit_operations_syntax

section \<open>The contracts of the bus\<close>

lemma fst_exec_outside [simp]: "fst (exec (outside m) p) = fst p"
  by (cases p) simp

lemma ms_read_core: "fst (exec (ms_read a) (s, w)) = s"
  by (simp add: ms_read_def)

lemma h_io_write_core: "fst (exec (h_io_write a v) (s, w)) = (if a = 0xF0FE then s\<lparr>cycles := 0\<rparr> else s)"
  unfolding h_io_write_def by simp

lemma own_cycles: "\<exists>n. (if b then s\<lparr>cycles := 0\<rparr> else s) = (s :: core)\<lparr>cycles := n\<rparr>"
  by (cases b; rule exI [of _ "if b then 0 else cycles s"]; simp)

lemma ms_write_core: "\<exists>n. fst (exec (ms_write a v) (s, w)) = s\<lparr>cycles := n\<rparr>"
proof (cases "io_page a")
  case True
  let ?w = "exec (writes (\<lambda>m. m\<lparr>n_uncached := n_uncached m + 1\<rparr>)) (exec (count_access (access s)) w)"
  have "fst (exec (ms_write a v) (s, w)) = fst (exec (h_io_write a v) (s, ?w))"
    using True by (simp add: ms_write_def ms_io_store_def case_prod_beta whenever_def)
  then show ?thesis by (simp only: h_io_write_core own_cycles)
next
  case False
  then have "fst (exec (ms_write a v) (s, w)) = (if False then s\<lparr>cycles := 0\<rparr> else s)" by (simp add: ms_write_def)
  then show ?thesis by (simp only: own_cycles)
qed

interpretation h6502_frame: bus_frame h6502_bus
proof
  fix a :: u16 and x :: u8 and s :: core and w :: world
  show "\<exists>n. fst (exec (bus_read h6502_bus a) (s, w)) = s\<lparr>cycles := n\<rparr>"
    by (intro exI [of _ "cycles s"]) (simp add: h6502_bus_def ms_read_core)
  show "\<exists>n. fst (exec (bus_write h6502_bus a x) (s, w)) = s\<lparr>cycles := n\<rparr>"
    by (simp add: h6502_bus_def ms_write_core)
qed

lemma ideal_read_core: "fst (exec (ideal_read a) (s, w)) = s" "fst (snd (exec (ideal_read a) (s, w))) = fst w"
proof -
  obtain i h where w: "w = (i, h)" by (cases w)
  show "fst (exec (ideal_read a) (s, w)) = s" "fst (snd (exec (ideal_read a) (s, w))) = fst w"
    unfolding w ideal_read_def by (cases "result (h_io_read a) h"; simp)+
qed

lemma ideal_load: "\<not> io_page a \<Longrightarrow> result (ideal_read a) (s, w) = i_load (side_of (access s)) a (fst w)"
  by (cases w) (simp add: ideal_read_def)

lemma ideal_write_core: "\<exists>n. fst (exec (ideal_write a v) (s, w)) = s\<lparr>cycles := n\<rparr>"
proof -
  have "fst (exec (ideal_write a v) (s, w)) = (if a = 0xF0FE then s\<lparr>cycles := 0\<rparr> else s)"
    unfolding ideal_write_def by (cases w) simp
  then show ?thesis by (simp only: own_cycles)
qed

lemma ideal_write_store: "\<not> io_page a \<Longrightarrow> exec (ideal_write a v) (s, w) = (s, (i_store a v (fst w), snd w))"
proof -
  assume "\<not> io_page a"
  then have "a \<noteq> 0xF001" "a \<noteq> 0xF0FC" "a \<noteq> 0xF0FD" "a \<noteq> 0xF0FE" "a \<noteq> 0xF0FF"
    by (auto simp: io_page_def MS_IO_LO_def MS_IO_HI_def)
  then show ?thesis by (cases w) (simp add: ideal_write_def)
qed

lemma ideal_write_code: "i_split (fst w) \<Longrightarrow> i_split (fst (snd (exec (ideal_write a v) (s, w)))) \<and>
    i_code (fst (snd (exec (ideal_write a v) (s, w)))) = i_code (fst w)"
  unfolding ideal_write_def by (cases w) (simp add: i_store_def)

lemma stack_page: "\<not> io_page (stack_addr p)"
proof -
  have "\<not> bit p (8 + n)" for n using bit_imp_le_length [of p "8 + n"] by auto
  then have "drop_bit 8 (stack_addr p) = 1" by (intro bit_word_eqI) (auto simp: stack_addr_def bit_simps)
  then have "unat (drop_bit 8 (stack_addr p)) = 1" by simp
  then show ?thesis by (simp add: io_page_iff unat_drop_bit)
qed

interpretation ideal_stack: stack_bus ideal_bus "\<lambda>_. True" "\<lambda>i p. i_data (fst i) (stack_addr p)"
proof
  fix a :: u16 and x p :: u8 and s :: core and w :: iworld
  show "\<exists>n. fst (exec (bus_read ideal_bus a) (s, w)) = s\<lparr>cycles := n\<rparr>"
    by (intro exI [of _ "cycles s"]) (simp add: ideal_bus_def ideal_read_core)
  show "\<exists>n. fst (exec (bus_write ideal_bus a x) (s, w)) = s\<lparr>cycles := n\<rparr>"
    by (simp add: ideal_bus_def ideal_write_core)
  show "True \<and> (\<lambda>p. i_data (fst (snd (exec (bus_read ideal_bus a) (s, w)))) (stack_addr p)) = (\<lambda>p. i_data (fst w) (stack_addr p))"
    by (simp add: ideal_bus_def ideal_read_core)
  assume k: "access s = acc_code M6502_ACC_STACK"
  show "result (bus_read ideal_bus (stack_addr p)) (s, w) = i_data (fst w) (stack_addr p)"
    using k by (simp add: ideal_bus_def ideal_load stack_page i_load_def side_of_def)
  show "True \<and> (\<lambda>q. i_data (fst (snd (exec (bus_write ideal_bus (stack_addr p) x) (s, w)))) (stack_addr q)) =
      (\<lambda>q. i_data (fst w) (stack_addr q))(p := x)"
    by (auto simp: ideal_bus_def ideal_write_store stack_page i_store_def fun_eq_iff)
qed

interpretation ideal_code: bus_inv ideal_bus "\<lambda>i. i_split (fst i) \<and> i_code (fst i) = C" for C
  by unfold_locales (simp_all add: ideal_bus_def ideal_read_core ideal_write_code)

section \<open>A machine for the witnesses\<close>

definition phys0 :: phys where
  "phys0 = \<lparr>mem_i = (\<lambda>_. 0xEA), mem_d = (\<lambda>_. 0), imem = MEM_I, dmem = MEM_I, rand_at = (\<lambda>_. 0), rand_n = 0\<rparr>"

definition hmon0 :: "hmon \<times> terminal" where
  "hmon0 = (\<lparr>halted = False, io_staged = None, break_pending = False\<rparr>, \<lparr>t_in = [], t_out = []\<rparr>)"

definition machine0 :: memsys where
  "machine0 = fst (exec (ms_init (\<lambda>_. True)) (zero_memsys phys0, hmon0))"

definition machine1 :: memsys where
  "machine1 = fst (exec (ms_set_mode MODE_HARVARD) (machine0, hmon0))"

lemma machine0: "presents (\<lambda>_. 0xEA) (\<lambda>_. 0xEA) machine0" "ms_mode machine0 = MODE_VONNEUMANN" "\<not> trace machine0"
  using init_presents [of phys0] by (simp_all add: machine0_def ms_init_run init_memsys_def zero_memsys_def phys0_def)

lemma machine1: "presents (\<lambda>_. 0xEA) (\<lambda>_. 0) machine1" "ms_mode machine1 = MODE_HARVARD" "\<not> trace machine1"
proof -
  have d: "mem_d (ms_phys machine0) = (\<lambda>_. 0)"
    by (simp add: machine0_def ms_init_run init_memsys_def zero_memsys_def phys0_def)
  note m = ms_set_mode_presents [OF machine0(1), of MODE_HARVARD hmon0]
  show "presents (\<lambda>_. 0xEA) (\<lambda>_. 0) machine1" "ms_mode machine1 = MODE_HARVARD" "\<not> trace machine1"
    using m machine0(2,3) d by (simp_all add: machine1_def)
qed

section \<open>Initialisation and change of model\<close>

text \<open>ms_init leaves a machine that presents the contents of the one physical memory as both code and
  data.\<close>

theorem ms_init_one_memory:
  "presents (mem_i (ms_phys m)) (mem_i (ms_phys m)) (fst (exec (ms_init (\<lambda>_. True)) (m, h)))"
  by (simp add: ms_init_run init_presents)

section \<open>Running programs\<close>

lemma presents_refines:
  "presents Vc Vd m \<Longrightarrow> \<not> trace m \<Longrightarrow>
    refines (m, h) (\<lparr>i_split = (ms_mode m = MODE_HARVARD), i_code = Vc, i_data = Vd\<rparr>, h)"
  by (simp add: refines_def sees_def)

text \<open>C1: Refinement: on a machine that presents the code memory Vc and the data memory Vd, with the bus
  trace off, any number of instructions returns the same cycle counts and leaves the same CPU state as
  on the machine without caches, and the two machines stay related; so every program behaves as if the
  caches were not there.\<close>

theorem h6502_refines_ideal:
  assumes "presents Vc Vd m" and "\<not> trace m"
  shows "let p = (s, (m, h)); i = (s, (\<lparr>i_split = (ms_mode m = MODE_HARVARD), i_code = Vc, i_data = Vd\<rparr>, h)) in
    result (m6502_steps h6502_bus n) p = result (m6502_steps ideal_bus n) i \<and>
    fst (exec (m6502_steps h6502_bus n) p) = fst (exec (m6502_steps ideal_bus n) i) \<and>
    refines (snd (exec (m6502_steps h6502_bus n) p)) (snd (exec (m6502_steps ideal_bus n) i))"
  unfolding Let_def by (intro conjI simD [OF h6502.steps_sim] presents_refines [OF assms])

theorem h6502_refines_ideal_witness:
  "fst (exec (m6502_steps h6502_bus 3) (zero_core, (machine1, hmon0))) =
   fst (exec (m6502_steps ideal_bus 3) (zero_core, (\<lparr>i_split = True, i_code = (\<lambda>_. 0xEA), i_data = (\<lambda>_. 0)\<rparr>, hmon0)))"
  using h6502_refines_ideal [OF machine1(1,3), where n = 3] machine1(2) by (simp add: Let_def)

lemma refines_outside: "refines w i \<Longrightarrow> refines w' i \<Longrightarrow> snd w' = snd w"
  by (simp add: refines_def sees_def)

text \<open>C2: Two machines that present the same code and data memories, both in the Harvard model or both in
  one of the others, and both with the bus trace off (it prints hits and misses), run every program to
  the same CPU state, console output and halt latch, whatever the geometry, replacement and write
  policy of their caches and whether these are on or off.\<close>

theorem caches_invisible:
  assumes "presents Vc Vd m" "presents Vc Vd m'" and "\<not> trace m" "\<not> trace m'"
    and "ms_mode m = MODE_HARVARD \<longleftrightarrow> ms_mode m' = MODE_HARVARD"
  shows "let p = exec (m6502_steps h6502_bus n) (s, (m, h)); q = exec (m6502_steps h6502_bus n) (s, (m', h)) in
    fst p = fst q \<and> snd (snd p) = snd (snd q)"
proof -
  let ?i = "(\<lparr>i_split = (ms_mode m = MODE_HARVARD), i_code = Vc, i_data = Vd\<rparr>, h)"
  have r: "refines (m, h) ?i" "refines (m', h) ?i"
    using presents_refines [OF assms(1,3)] presents_refines [OF assms(2,4)] assms(5) by simp_all
  note a = simD [OF h6502.steps_sim r(1), where s = s] and b = simD [OF h6502.steps_sim r(2), where s = s]
  show ?thesis using a(2) [of n] b(2) [of n] refines_outside [OF b(3) a(3), of n] by (simp add: Let_def)
qed

theorem caches_invisible_witness:
  "snd (snd (exec (m6502_steps h6502_bus 5) (zero_core, (machine0, hmon0)))) =
   snd (snd (exec (m6502_steps h6502_bus 5) (zero_core, (fst (exec (ms_set_mode MODE_VONNEUMANN) (machine1, hmon0)), hmon0))))"
proof -
  note m = ms_set_mode_presents [OF machine1(1), of MODE_VONNEUMANN hmon0, simplified]
  show ?thesis
    using caches_invisible [OF machine0(1) m(1) machine0(3)] m machine0(2) machine1(3)
    by (simp add: Let_def)
qed

text \<open>C3: In the Harvard model, with the bus trace off, no sequence of instructions changes a byte of the
  code memory outside the device page: an opcode fetch after n steps delivers the byte the machine
  presented at the start.\<close>

theorem harvard_code_constant:
  assumes "presents Vc Vd m" "ms_mode m = MODE_HARVARD" "\<not> trace m" and "\<not> io_page a"
  shows "result (rdk h6502_bus a M6502_ACC_OPCODE) (t, snd (exec (m6502_steps h6502_bus n) (s, (m, h)))) = Vc a"
proof -
  let ?w = "snd (exec (m6502_steps h6502_bus n) (s, (m, h)))"
  let ?i = "(\<lparr>i_split = True, i_code = Vc, i_data = Vd\<rparr>, h)"
  let ?j = "snd (exec (m6502_steps ideal_bus n) (s, ?i))"
  have "refines (m, h) ?i" using presents_refines [OF assms(1,3)] assms(2) by simp
  then have r: "refines ?w ?j" by (rule simD [OF h6502.steps_sim])
  have "i_code (fst ?j) = Vc" using ideal_code.steps_keeps [of ?i Vc n s] by simp
  moreover have "result (rdk h6502_bus a M6502_ACC_OPCODE) (t, ?w) = result (rdk ideal_bus a M6502_ACC_OPCODE) (t, ?j)"
    by (rule simD [OF h6502.rdk_sim r])
  ultimately show ?thesis
    using assms(4) by (simp add: rdk_def ideal_bus_def ideal_load i_load_def side_of_def)
qed

theorem harvard_code_constant_witness:
  "result (rdk h6502_bus 0x0800 M6502_ACC_OPCODE) (zero_core, snd (exec (m6502_steps h6502_bus 100) (zero_core, (machine1, hmon0)))) = 0xEA"
  using harvard_code_constant [OF machine1, where a = "0x0800"] by (simp add: io_page_def MS_IO_LO_def)

lemma ideal_accesses:
  "\<not> io_page a \<Longrightarrow> exec (wrk ideal_bus a v k) (s, w) = (s\<lparr>access := acc_code k\<rparr>, (i_store a v (fst w), snd w))"
  "\<not> io_page a \<Longrightarrow> result (rdk ideal_bus a k) (s, w) = i_load (side_of (acc_code k)) a (fst w)"
  by (simp_all add: wrk_def rdk_def ideal_bus_def ideal_write_store ideal_load)

text \<open>In the models with one coherent memory a store of the CPU is what the next opcode fetch from
  that address delivers, and fetches from other addresses are not affected.\<close>

theorem unified_store_is_fetched:
  assumes "presents Vc Vd m" "ms_mode m \<noteq> MODE_HARVARD" "\<not> trace m" and "\<not> io_page a" "\<not> io_page b"
  shows "result (do { wrk h6502_bus a v M6502_ACC_DATA; rdk h6502_bus b M6502_ACC_OPCODE }) (s, (m, h)) =
    (if b = a then v else Vc b)"
proof -
  let ?i = "(\<lparr>i_split = False, i_code = Vc, i_data = Vd\<rparr>, h)"
  have r: "refines (m, h) ?i" using presents_refines [OF assms(1,3)] assms(2) by simp
  have "sim refines (do { wrk h6502_bus a v M6502_ACC_DATA; rdk h6502_bus b M6502_ACC_OPCODE })
      (do { wrk ideal_bus a v M6502_ACC_DATA; rdk ideal_bus b M6502_ACC_OPCODE })"
    by (intro sim_bind h6502.wrk_sim h6502.rdk_sim) simp
  note simD(1) [OF this r, of s]
  also have "result (do { wrk ideal_bus a v M6502_ACC_DATA; rdk ideal_bus b M6502_ACC_OPCODE }) (s, ?i) = (if b = a then v else Vc b)"
    using assms(4,5) by (simp add: case_prod_beta ideal_accesses i_load_def i_store_def side_of_def)
  finally show ?thesis .
qed

theorem unified_store_is_fetched_witness:
  "result (do { wrk h6502_bus 0x0800 0x60 M6502_ACC_DATA; rdk h6502_bus 0x0800 M6502_ACC_OPCODE }) (zero_core, (machine0, hmon0)) = 0x60"
  using unified_store_is_fetched [OF machine0(1) _ machine0(3), where a = "0x0800" and b = "0x0800"] machine0(2)
  by (simp add: io_page_def MS_IO_LO_def)

section \<open>Instructions on this bus\<close>

lemma zero_flags: "flags_ok zero_core"
  by (simp add: flags_ok_def flag_ok_def zero_core_def)

text \<open>C16: Every flag byte holds 0 or 1 after any number of instructions if it did before, so the packed
  status register is exact.\<close>

theorem h6502_flags_binary:
  assumes "flags_ok s"
  shows "flags_ok (fst (exec (m6502_steps h6502_bus n) (s, w)))"
proof -
  have "keeps (on_struct flags_ok) (m6502_step h6502_bus)"
    using h6502_frame.step_flags by (intro keepsI) (simp add: split_paired_all)
  then have "keeps (on_struct flags_ok) (m6502_steps h6502_bus n)"
    by (induction n) (auto intro!: keeps_rules)
  from keepsD [OF this, of "(s, w)"] assms show ?thesis by simp
qed

theorem h6502_flags_binary_witness:
  "flags_ok (fst (exec (m6502_steps h6502_bus 9) (zero_core, (machine0, hmon0))))"
  by (rule h6502_flags_binary [OF zero_flags])

text \<open>C17: An instruction takes the cycles of the timing table for its opcode, or one or two more.\<close>

theorem h6502_step_ticks:
  assumes "flags_ok s"
  shows "result (m6502_step h6502_bus) (s, w) - int (unat (g_tt ! unat (result (fetch_opcode h6502_bus) (s, w)))) \<in> {0, 1, 2}"
  by (rule h6502_frame.step_ticks [OF assms])

theorem h6502_step_ticks_witness:
  "result (m6502_step h6502_bus) (zero_core, (machine0, hmon0)) \<in> {2, 3, 4}"
proof -
  have "result (fetch_opcode h6502_bus) (zero_core, (machine0, hmon0)) = 0xEA"
  proof -
    have r: "refines (machine0, hmon0) (\<lparr>i_split = False, i_code = (\<lambda>_. 0xEA), i_data = (\<lambda>_. 0xEA)\<rparr>, hmon0)"
      using presents_refines [OF machine0(1,3), of hmon0] machine0(2) by simp
    have "sim refines (fetch_opcode h6502_bus) (fetch_opcode ideal_bus)"
      unfolding fetch_opcode_def by (intro sim_rules h6502.rdk_sim h6502.struct_sim)
    from simD(1) [OF this r, where s = zero_core] show ?thesis
      by (simp add: fetch_opcode_def pc_postinc_def rdk_def ideal_bus_def ideal_read_def io_page_def MS_IO_LO_def
          i_load_def side_of_def zero_core_def)
  qed
  then show ?thesis using h6502_step_ticks [OF zero_flags, of "(machine0, hmon0)"] by (auto simp: g_tt_def)
qed

text \<open>C13: JSR followed by RTS restores every register and flag: the return address survives the round
  trip over the stack in the data memory and its cache.\<close>

theorem h6502_jsr_rts:
  assumes "presents Vc Vd m" "\<not> trace m"
  shows "quiet (fst (exec (do { op_jsr h6502_bus; op_rts h6502_bus }) (s, (m, h)))) = quiet s"
proof -
  have "sim refines (do { op_jsr h6502_bus; op_rts h6502_bus }) (do { op_jsr ideal_bus; op_rts ideal_bus })"
    by (intro sim_bind h6502.op_sim)
  from simD(2) [OF this presents_refines [OF assms], of s h] show ?thesis
    using ideal_stack.jsr_rts_core [of s] by simp
qed

theorem h6502_jsr_rts_witness:
  "r_pc (fst (exec (do { op_jsr h6502_bus; op_rts h6502_bus }) (zero_core\<lparr>r_pc := 0x0803, g_ea := 0x0900\<rparr>, (machine1, hmon0)))) = 0x0803"
proof -
  have "r_pc s = r_pc t" if "quiet s = quiet t" for s t
    using that by (metis (no_types, lifting) quiet_def m6502.select_convs(1) m6502.surjective m6502.update_convs(12,13))
  from this [OF h6502_jsr_rts [OF machine1(1,3)]] show ?thesis by simp
qed

text \<open>C14: A non-maskable interrupt followed by RTI restores every register and flag of the interrupted
  program.\<close>

theorem h6502_nmi_rti:
  assumes "presents Vc Vd m" "\<not> trace m" "flags_ok s"
  shows "quiet (fst (exec (do { m6502_nmi h6502_bus; op_rti h6502_bus }) (s, (m, h)))) = quiet s"
proof -
  have "sim refines (do { m6502_nmi h6502_bus; op_rti h6502_bus }) (do { m6502_nmi ideal_bus; op_rti ideal_bus })"
    by (intro sim_bind h6502.op_sim h6502.api_sim)
  from simD(2) [OF this presents_refines [OF assms(1,2)], of s h] show ?thesis
    using ideal_stack.interrupt_rti_core [OF assms(3)] by (simp add: m6502_nmi_def)
qed

theorem h6502_nmi_rti_witness:
  "quiet (fst (exec (do { m6502_nmi h6502_bus; op_rti h6502_bus }) (zero_core\<lparr>r_a := 7\<rparr>, (machine1, hmon0)))) = quiet (zero_core\<lparr>r_a := 7\<rparr>)"
  by (rule h6502_nmi_rti [OF machine1(1,3)]) (simp add: flags_ok_def flag_ok_def zero_core_def)

text \<open>C15: BRK followed by RTI restores every register and flag and resumes one byte after the BRK operand
  position.\<close>

theorem h6502_brk_rti:
  assumes "presents Vc Vd m" "\<not> trace m" "flags_ok s"
  shows "quiet (fst (exec (do { op_brk h6502_bus; op_rti h6502_bus }) (s, (m, h)))) = quiet (s\<lparr>r_pc := r_pc s + 1\<rparr>)"
proof -
  have "sim refines (do { op_brk h6502_bus; op_rti h6502_bus }) (do { op_brk ideal_bus; op_rti ideal_bus })"
    by (intro sim_bind h6502.op_sim)
  from simD(2) [OF this presents_refines [OF assms(1,2)], of s h] show ?thesis
    using ideal_stack.brk_rti_core [OF assms(3)] by simp
qed

theorem h6502_brk_rti_witness:
  "quiet (fst (exec (do { op_brk h6502_bus; op_rti h6502_bus }) (zero_core, (machine0, hmon0)))) = quiet (zero_core\<lparr>r_pc := 1\<rparr>)"
  using h6502_brk_rti [OF machine0(1,3) zero_flags, of hmon0] by (simp add: zero_core_def)

end
