(* ===== verification/Cache_Config.thy ===== *)
theory Cache_Config
  imports Cache_Lines
begin

text \<open>
  What \<open>cache_config\<close> accepts.  \<open>config_valid\<close> states the intended parameters over the natural numbers; as
  long as \<open>line_bytes * ways\<close> fits 32 bits the code accepts exactly these, and leaves a well-formed,
  empty cache.
\<close>
unbundle bit_operations_syntax

section \<open>Configuration\<close>

text \<open>The parameters \<open>cache_config\<close> is meant to accept.\<close>

definition config_valid :: "nat \<Rightarrow> nat \<Rightarrow> nat \<Rightarrow> bool" where
  "config_valid sz line ways \<longleftrightarrow> (\<exists>i\<le>8. line = 2 ^ i) \<and> 1 \<le> ways \<and>
     (\<exists>j. sz = line * ways * 2 ^ j \<and> 2 ^ j * ways \<le> 4096) \<and> sz \<le> 65536"

lemma word_ge1: "\<not> (w :: u32) < 1 \<longleftrightarrow> 1 \<le> unat w"
  by (simp add: word_less_nat_alt Suc_le_eq)

lemma line_size: "is_pow2 w \<and> \<not> w < 1 \<and> \<not> 256 < w \<longleftrightarrow> (\<exists>i\<le>8. unat w = 2 ^ i)"
proof -
  have "(2 :: nat) ^ i \<le> 256 \<longleftrightarrow> i \<le> 8" for i using power_increasing_iff [where b = "2 :: nat" and x = i and y = 8] by simp
  then show ?thesis
    by (auto simp: is_pow2_unat word_less_nat_alt not_less intro: exI order_le_less_trans)
qed

text \<open>The checks on the sets, under the bound that keeps the products exact.\<close>

lemma set_checks:
  fixes sz line ways :: u32
  assumes fit: "unat line * unat ways < 2 ^ 32" and pos: "0 < unat line * unat ways"
  defines "lw \<equiv> unat line * unat ways" and "sets \<equiv> sz div (line * ways)"
  shows "unat (line * ways) = lw" "unat sets = unat sz div lw" "unat (sets * ways) = unat sets * unat ways"
    "sz < line * ways \<longleftrightarrow> unat sz < lw" "sz mod (line * ways) = 0 \<longleftrightarrow> lw dvd unat sz"
proof -
  show lw: "unat (line * ways) = lw" using fit by (simp add: lw_def unat_word_ariths)
  show s: "unat sets = unat sz div lw" by (simp add: sets_def unat_div lw)
  have "unat sets * unat ways \<le> unat sz div lw * lw"
    unfolding s using pos by (intro mult_le_mono2) (simp add: lw_def)
  also have "\<dots> \<le> unat sz" by (rule div_times_less_eq_dividend)
  also have "\<dots> < 2 ^ 32" using unsigned_less [of sz, where 'a = nat] by simp
  finally show "unat (sets * ways) = unat sets * unat ways" by (simp add: unat_word_ariths)
  show "sz < line * ways \<longleftrightarrow> unat sz < lw" by (simp add: word_less_nat_alt lw)
  have "unat (sz mod (line * ways)) = unat sz mod lw" by (simp add: unat_mod lw)
  then show "sz mod (line * ways) = 0 \<longleftrightarrow> lw dvd unat sz"
    by (metis dvd_eq_mod_eq_0 unat_eq_zero)
qed

lemma config_ok_iff:
  fixes sz line ways :: u32
  assumes fit: "unat line * unat ways < 2 ^ 32"
  shows "result (cache_config room nm sz line ways) (c, b) = Config_ok \<longleftrightarrow> room \<and> config_valid (unat sz) (unat line) (unat ways)"
proof (cases "(\<exists>i\<le>8. unat line = 2 ^ i) \<and> 1 \<le> unat ways")
  case False
  then have "(\<not> is_pow2 line \<or> line < 1 \<or> 256 < line) \<or> ways < 1"
    using line_size [of line] word_ge1 [of ways] by blast
  then have "result (cache_config room nm sz line ways) (c, b) \<noteq> Config_ok"
    unfolding cache_config_def by (elim disjE) (simp_all only: if_P if_True simp_thms, simp_all)
  then show ?thesis using False by (auto simp: config_valid_def)
next
  case True
  then have l: "is_pow2 line \<and> \<not> line < 1 \<and> \<not> 256 < line" and w: "\<not> ways < 1"
    using line_size [of line] word_ge1 [of ways] by blast+
  have pos: "0 < unat line * unat ways" using True by auto
  note ch = set_checks(1) [OF fit pos] set_checks(2-5) [OF fit pos, of sz]
  let ?lw = "unat line * unat ways"
  have nz: "line * ways \<noteq> 0" using ch(1) pos by (metis less_irrefl unsigned_0)
  have "result (cache_config room nm sz line ways) (c, b) = Config_ok \<longleftrightarrow>
      \<not> unat sz < ?lw \<and> ?lw dvd unat sz \<and> is_pow2 (sz div (line * ways)) \<and>
      unat (sz div (line * ways)) * unat ways \<le> 4096 \<and> unat sz \<le> 65536 \<and> room"
    using l w nz ch(3) by (auto simp: cache_config_def Let_def ch(1,4,5) CACHE_MAX_LINES_def word_less_nat_alt not_less)
  also have "\<dots> \<longleftrightarrow> room \<and> (\<exists>j. unat sz = ?lw * 2 ^ j \<and> 2 ^ j * unat ways \<le> 4096) \<and> unat sz \<le> 65536"
  proof (intro iffI; (elim conjE exE)?)
    assume "?lw dvd unat sz" "is_pow2 (sz div (line * ways))" "unat (sz div (line * ways)) * unat ways \<le> 4096"
      and r: "unat sz \<le> 65536" room
    moreover from this obtain j where "unat (sz div (line * ways)) = 2 ^ j" by (auto simp: is_pow2_unat)
    ultimately have "unat sz = ?lw * 2 ^ j \<and> 2 ^ j * unat ways \<le> 4096" unfolding ch(2)
      by (metis dvd_mult_div_cancel)
    with r show "room \<and> (\<exists>j. unat sz = ?lw * 2 ^ j \<and> 2 ^ j * unat ways \<le> 4096) \<and> unat sz \<le> 65536" by blast
  next
    fix j assume j: "unat sz = ?lw * 2 ^ j" "2 ^ j * unat ways \<le> 4096" and r: "unat sz \<le> 65536" room
    then have s: "unat (sz div (line * ways)) = 2 ^ j" unfolding ch(2) using pos by simp
    have "2 ^ j < (2 :: nat) ^ 32" using unsigned_less [of "sz div (line * ways)", where 'a = nat] s by simp
    then have "j < 32" by (rule power_less_imp_less_exp [rotated]) simp
    then have "is_pow2 (sz div (line * ways))" using s by (auto simp: is_pow2_unat)
    then show "\<not> unat sz < ?lw \<and> ?lw dvd unat sz \<and> is_pow2 (sz div (line * ways)) \<and>
      unat (sz div (line * ways)) * unat ways \<le> 4096 \<and> unat sz \<le> 65536 \<and> room"
      using j r s by auto
  qed
  also have "\<dots> \<longleftrightarrow> room \<and> config_valid (unat sz) (unat line) (unat ways)"
    using True by (simp add: config_valid_def)
  finally show ?thesis .
qed

lemma config_ok_geometry:
  fixes sz line ways :: u32
  assumes fit: "unat line * unat ways < 2 ^ 32"
    and ok: "result (cache_config room nm sz line ways) (c, b) = Config_ok"
  shows "let c' = fst (exec (cache_config room nm sz line ways) (c, b)) in
    geometry_ok c' \<and> c_line_bytes c' = line \<and> c_ways c' = ways \<and> c_capacity c' = sz \<and> (\<forall>i. \<not> l_valid (c_line c' i)) \<and>
    c_bs_read c' = c_bs_read c \<and> c_bs_write c' = c_bs_write c \<and> snd (exec (cache_config room nm sz line ways) (c, b)) = b"
proof -
  have v: "config_valid (unat sz) (unat line) (unat ways)" "room" using ok config_ok_iff [OF fit, of room nm sz c b] by simp_all
  then obtain i j where i: "i \<le> 8" "unat line = 2 ^ i" and w: "1 \<le> unat ways"
    and j: "unat sz = unat line * unat ways * 2 ^ j" "2 ^ j * unat ways \<le> 4096" and le: "unat sz \<le> 65536"
    unfolding config_valid_def by blast
  have pos: "0 < unat line * unat ways" using i w by auto
  note ch = set_checks(1) [OF fit pos] set_checks(2-5) [OF fit pos, of sz]
  have s: "unat (sz div (line * ways)) = 2 ^ j" unfolding ch(2) using pos j(1) by simp
  have l: "log2u line = of_nat i" "log2u (sz div (line * ways)) = of_nat j" using log2u i(2) s by blast+
  have "(2 :: nat) ^ (i + j) \<le> unat line * unat ways * 2 ^ j" using w by (simp add: i(2) power_add)
  then have "(2 :: nat) ^ (i + j) \<le> 2 ^ 16" using j(1) le by simp
  then have ij: "i + j \<le> 16" by (rule power_le_imp_le_exp [rotated]) simp
  have run: "exec (cache_config room nm sz line ways) (c, b) =
      (let c1 = c\<lparr>c_line := (\<lambda>_. zero_line), c_store := (\<lambda>_. 0), c_line_bytes := line, c_ways := ways,
         c_sets := sz div (line * ways), c_capacity := sz, c_off_bits := log2u line,
         c_idx_bits := log2u (sz div (line * ways)), c_clock := 0\<rparr>
       in (case nm of None \<Rightarrow> c1 | Some s \<Rightarrow> c1\<lparr>c_name := take 3 s\<rparr>, b))"
    using ok by (simp add: cache_config_def Let_def split: if_splits)
  have u: "unat (of_nat i :: u32) = i" "unat (of_nat j :: u32) = j" using ij by (simp_all add: unat_of_nat)
  show ?thesis
    using i j w s ij unfolding run by (simp add: Let_def geometry_ok_def l u zero_line_def ac_simps split: option.split)
qed
end
