(* ===== verification/Cache_Props.thy ===== *)
theory Cache_Props
  imports Cache_Config Cache_Policy Cache_Stats Memsys_Props
begin

text \<open>
  The properties of \<open>h6502/cache.c\<close>.  A run of a cache is a list of calls of its interface, \<open>cache_op\<close>;
  \<open>cache_run\<close> collects the bytes its reads return.  Against it stands a plain array, \<open>array_run\<close>.
\<close>
unbundle bit_operations_syntax

section \<open>Runs\<close>

datatype cache_op =
    Op_read u16 | Op_write u16 u8 | Op_clean | Op_clean_addr u16 | Op_flush | Op_snoop u16
  | Op_invalidate | Op_reset_stats

fun cache_do :: "('b, nat) state \<Rightarrow> cache_op \<Rightarrow> ('b, u8 option) cprog" where
  "cache_do rnd (Op_read a) = do { (v, e) \<leftarrow> cache_read rnd a; ret (Some v) }"
| "cache_do rnd (Op_write a v) = do { e \<leftarrow> cache_write rnd a v; ret None }"
| "cache_do rnd Op_clean = do { cache_clean; ret None }"
| "cache_do rnd (Op_clean_addr a) = do { r \<leftarrow> cache_clean_addr a; ret None }"
| "cache_do rnd Op_flush = do { cache_flush; ret None }"
| "cache_do rnd (Op_snoop a) = do { r \<leftarrow> cache_snoop a; ret None }"
| "cache_do rnd Op_invalidate = do { cache_invalidate; ret None }"
| "cache_do rnd Op_reset_stats = do { cache_reset_stats; ret None }"

fun cache_run :: "('b, nat) state \<Rightarrow> cache_op list \<Rightarrow> ('b, u8 option list) cprog" where
  "cache_run rnd [] = ret []"
| "cache_run rnd (x # xs) = do { v \<leftarrow> cache_do rnd x; vs \<leftarrow> cache_run rnd xs; ret (v # vs) }"

fun array_do :: "cache_op \<Rightarrow> (u16 \<Rightarrow> u8) \<Rightarrow> u8 option \<times> (u16 \<Rightarrow> u8)" where
  "array_do (Op_read a) V = (Some (V a), V)"
| "array_do (Op_write a v) V = (None, V(a := v))"
| "array_do _ V = (None, V)"

fun array_run :: "cache_op list \<Rightarrow> (u16 \<Rightarrow> u8) \<Rightarrow> u8 option list" where
  "array_run [] V = []"
| "array_run (x # xs) V = fst (array_do x V) # array_run xs (snd (array_do x V))"

text \<open>The contents of the array afterwards.\<close>

fun array_after :: "cache_op list \<Rightarrow> (u16 \<Rightarrow> u8) \<Rightarrow> u16 \<Rightarrow> u8" where
  "array_after [] V = V"
| "array_after (x # xs) V = array_after xs (snd (array_do x V))"

lemma balanced_do: "hoare (on_struct (owes 0 0 0)) (cache_do rnd x) (on_struct (owes 0 0 0))"
  by (cases x; simp only: cache_do.simps; (rule hoare_bind, rule read_counters write_counters keeps_then,
      (rule maintenance_counters reset_counters)?, (auto simp: hoare_def)[])?)

lemma balanced_run: "hoare (on_struct (owes 0 0 0)) (cache_run rnd xs) (on_struct (owes 0 0 0))"
proof (induction xs)
  case (Cons x xs)
  show ?case unfolding cache_run.simps
    by (rule hoare_bind [OF balanced_do], rule hoare_bind [OF Cons.IH]) (auto simp: hoare_def)
qed (simp add: hoare_def)

lemma do_array:
  assumes k: "backing.ready n k" and x: "x \<noteq> Op_invalidate"
  shows "triple (backing.Ok n p q M k V) (cache_do rand x)
    (\<lambda>r s. r = fst (array_do x V) \<and> backing.Ok n p q M k (snd (array_do x V)) s)"
proof -
  have quiet: "triple (backing.Ok n p q M k V) (do { r \<leftarrow> m; ret None }) (\<lambda>r s. r = None \<and> backing.Ok n p q M k V' s)"
    if "triple (backing.Ok n p q M k V) m (\<lambda>_. backing.Ok n p q M k V')" for m :: "(phys, 'x) cprog" and V'
    by (rule triple_bind [OF that], rule triple_ret) simp
  show ?thesis
  proof (cases x)
    case (Op_read a)
    show ?thesis unfolding Op_read cache_do.simps
      by (rule triple_bind [OF backing.cache_read_Ok [OF k]]) (auto intro!: triple_ret)
  next
    case (Op_write a v)
    show ?thesis unfolding Op_write cache_do.simps array_do.simps fst_conv snd_conv
      by (rule quiet) (rule triple_weaken [OF backing.cache_write_Ok [OF k]], assumption+)
  next
    case Op_clean
    show ?thesis unfolding Op_clean cache_do.simps array_do.simps fst_conv snd_conv
      by (rule quiet) (rule triple_weaken [OF backing.cache_clean_Ok [OF k]], assumption, blast)
  next
    case (Op_clean_addr a)
    show ?thesis unfolding Op_clean_addr cache_do.simps array_do.simps fst_conv snd_conv
      by (rule quiet) (rule triple_weaken [OF backing.cache_clean_addr_Ok [OF k]], assumption, auto simp: backing.Synced_def)
  next
    case Op_flush
    show ?thesis unfolding Op_flush cache_do.simps array_do.simps fst_conv snd_conv
      by (rule quiet) (rule triple_weaken [OF backing.cache_flush_Ok [OF k]], assumption, blast)
  next
    case (Op_snoop a)
    show ?thesis unfolding Op_snoop cache_do.simps array_do.simps fst_conv snd_conv
      by (rule quiet) (rule triple_weaken [OF backing.cache_snoop_Ok [OF k]], assumption, auto simp: backing.Synced_def)
  next
    case Op_reset_stats
    show ?thesis unfolding Op_reset_stats cache_do.simps array_do.simps fst_conv snd_conv
      by (rule quiet) (rule backing.reset_stats_Ok)
  qed (use x in simp)
qed

lemma run_array:
  assumes "backing.ready n k" "Op_invalidate \<notin> set xs"
  shows "triple (backing.Ok n p q M k V) (cache_run rand xs) (\<lambda>r s. r = array_run xs V \<and> backing.Ok n p q M k (array_after xs V) s)"
  using assms(2)
proof (induction xs arbitrary: V)
  case (Cons x xs)
  then have x: "x \<noteq> Op_invalidate" and xs: "Op_invalidate \<notin> set xs" by auto
  show ?case unfolding cache_run.simps array_run.simps
    by (rule triple_bind [OF do_array [OF assms(1) x]], rule triple_pure, rule triple_bind [OF Cons.IH [OF xs]], rule triple_ret) simp
qed (simp add: triple_def)

lemma fresh_Ok:
  assumes "geometry_ok c" "c_bs_read c = bs_rd n" "c_bs_write c = bs_wr n" "\<forall>i. \<not> l_valid (c_line c i)"
  shows "backing.ready n c" "backing.Ok n (imem b) (dmem b) (space b) c (space b (own n (imem b) (dmem b))) (c, b)"
proof -
  show "backing.ready n c" using assms by (simp add: backing.ready_def)
  have none: "slots_of c = Map.empty" using assms(4) by (auto simp: slots_of_def line_at_def fun_eq_iff)
  have "List.find (\<lambda>w. False) ws = None" for ws :: "u32 list" by (simp add: find_None_iff)
  then show "backing.Ok n (imem b) (dmem b) (space b) c (space b (own n (imem b) (dmem b))) (c, b)"
    unfolding backing.Ok_def backing.St_def
    by (intro exI [of _ "slots_of c"] exI [of _ "space b (own n (imem b) (dmem b))"])
      (simp add: none shape_ok_def coherent_def view_def lookup_def fun_eq_iff still_def)
qed

definition test_cache :: "phys cache" where
  "test_cache = (default_cache ''T'')\<lparr>c_bs_read := bs_read_i, c_bs_write := bs_write_i\<rparr>"

section \<open>Configuration\<close>

text \<open>C22: As long as line times ways stays below 2^32, cache_config accepts exactly the valid geometries
  (when the allocation succeeds): a power-of-two line size up to 256, at least one way, a capacity of
  at most 64 KB that is a power-of-two number of sets, and at most CACHE_MAX_LINES lines.\<close>

theorem cache_config_accepts:
  assumes "unat line * unat ways < 2 ^ 32"
  shows "result (cache_config room nm sz line ways) (c, b) = Config_ok \<longleftrightarrow> room \<and> config_valid (unat sz) (unat line) (unat ways)"
  by (rule config_ok_iff [OF assms])

theorem cache_config_accepts_witness:
  "result (cache_config True None 256 16 3) (zero_cache, phys0) \<noteq> Config_ok"
proof -
  have "\<not> config_valid 256 16 3"
  proof
    assume "config_valid 256 16 3"
    then obtain j where "(256 :: nat) = 3 * (16 * 2 ^ j)" by (auto simp: config_valid_def)
    then have "(3 :: nat) dvd 256" by (rule dvdI)
    then show False by simp
  qed
  then show ?thesis using cache_config_accepts [where line = 16 and ways = 3 and room = True and nm = None and sz = 256 and c = zero_cache and b = phys0] by simp
qed

text \<open>An accepted configuration has the requested parameters, a consistent geometry and only invalid
  lines.\<close>

theorem cache_config_establishes:
  assumes "unat line * unat ways < 2 ^ 32" and "result (cache_config room nm sz line ways) (c, b) = Config_ok"
  shows "let c' = fst (exec (cache_config room nm sz line ways) (c, b)) in
    geometry_ok c' \<and> c_line_bytes c' = line \<and> c_ways c' = ways \<and> c_capacity c' = sz \<and> (\<forall>i. \<not> l_valid (c_line c' i))"
  using config_ok_geometry [OF assms] by (simp add: Let_def)

lemma config_256: "result (cache_config True None 256 16 2) (c, b) = Config_ok"
  by (simp add: cache_config_def small_powers CACHE_MAX_LINES_def)

theorem cache_config_establishes_witness:
  "geometry_ok (fst (exec (cache_config True None 256 16 2) (zero_cache, phys0)))"
  using cache_config_establishes [OF _ config_256, where c = zero_cache and b = phys0] by (simp add: Let_def)

text \<open>A rejected configuration leaves the cache and the memory behind it as they were.\<close>

theorem cache_config_rejects:
  assumes "result (cache_config room nm sz line ways) (c, b) \<noteq> Config_ok"
  shows "exec (cache_config room nm sz line ways) (c, b) = (c, b)"
proof -
  have "result (cache_config room nm sz line ways) (c, b) = Config_ok \<or> exec (cache_config room nm sz line ways) (c, b) = (c, b)"
    unfolding cache_config_def Let_def by (simp split: if_split)
  then show ?thesis using assms by blast
qed

theorem cache_config_rejects_witness:
  "exec (cache_config True None 100 16 2) (zero_cache, phys0) = (zero_cache, phys0)"
  by (rule cache_config_rejects) (simp add: cache_config_def small_powers)

text \<open>The product of line size and ways is taken modulo 2^32: one choice of parameters divides by
  zero, another is accepted with an inconsistent geometry whose line index is out of bounds.\<close>

theorem cache_config_wraps:
  "result (cache_config True None 256 16 0x10000000) (c, b) = Config_crash \<and>
   (let c' = fst (exec (cache_config True None 256 16 0x10000001) (c, b)) in
    result (cache_config True None 256 16 0x10000001) (c, b) = Config_ok \<and> \<not> geometry_ok c' \<and>
    unat (c_sets c' * c_ways c') = 16 \<and> 16 < c_ways c' \<and> line_index c' 0 16 = 16)"
  by (simp_all add: cache_config_def small_powers is_pow2_def CACHE_MAX_LINES_def Let_def geometry_ok_def line_index_def)

section \<open>A cache is its memory\<close>

text \<open>C20: A cache accepted by cache_config with line size times ways below 2^32, so that the product does
  not wrap, answers every sequence of reads, writes, cleans, flushes, snoops and statistics resets
  with the bytes a plain array returns, whatever its size, line size, ways and policies.\<close>

theorem cache_is_memory:
  assumes "unat line * unat ways < 2 ^ 32" and "result (cache_config room nm sz line ways) (c, b) = Config_ok"
    and "c_bs_read c = bs_read_i" "c_bs_write c = bs_write_i" and "Op_invalidate \<notin> set xs"
  shows "result (do { cache_config room nm sz line ways; cache_run rand xs }) (c, b) = array_run xs (space b (imem b))"
proof -
  obtain c' where c': "exec (cache_config room nm sz line ways) (c, b) = (c', b)" "geometry_ok c'" "\<forall>i. \<not> l_valid (c_line c' i)"
    "c_bs_read c' = bs_rd CI" "c_bs_write c' = bs_wr CI"
    using config_ok_geometry [OF assms(1,2)] assms(3,4) by (auto simp: Let_def bs_rd_def bs_wr_def prod_eq_iff)
  note f = fresh_Ok(1) [OF c'(2,4,5,3)] fresh_Ok(2) [OF c'(2,4,5,3), of b]
  from tripleD [OF run_array [OF f(1) assms(5)] f(2)] show ?thesis
    by (simp add: case_prod_beta c'(1) own_def)
qed

theorem cache_is_memory_witness:
  "result (do { cache_config True None 256 16 2; cache_run rand [Op_write 0x10 7, Op_flush, Op_read 0x10, Op_read 0x11] })
    (zero_cache\<lparr>c_bs_read := bs_read_i, c_bs_write := bs_write_i\<rparr>, phys0) = [None, None, Some 7, Some 0xEA]"
  using cache_is_memory [OF _ config_256, where c = "zero_cache\<lparr>c_bs_read := bs_read_i, c_bs_write := bs_write_i\<rparr>"
      and xs = "[Op_write 0x10 7, Op_flush, Op_read 0x10, Op_read 0x11]" and b = phys0]
  by (simp add: phys0_def space_def)

text \<open>C21: A cache accepted by cache_config with line size times ways below 2^32, so that the product does
  not wrap: after any sequence of reads, writes, cleans, flushes, snoops and statistics resets
  cache_flush leaves the memory with every byte written and the cache empty, so no store is lost.\<close>

theorem cache_flush_reaches_memory:
  assumes "unat line * unat ways < 2 ^ 32" and "result (cache_config room nm sz line ways) (c, b) = Config_ok"
    and "c_bs_read c = bs_read_i" "c_bs_write c = bs_write_i" and "Op_invalidate \<notin> set xs"
  shows "let (c', b') = exec (do { cache_config room nm sz line ways; cache_run rand xs; cache_flush }) (c, b) in
    space b' (imem b) = array_after xs (space b (imem b)) \<and> slots_of c' = Map.empty"
proof -
  obtain c' where c': "exec (cache_config room nm sz line ways) (c, b) = (c', b)" "geometry_ok c'" "\<forall>i. \<not> l_valid (c_line c' i)"
    "c_bs_read c' = bs_rd CI" "c_bs_write c' = bs_wr CI"
    using config_ok_geometry [OF assms(1,2)] assms(3,4) by (auto simp: Let_def bs_rd_def bs_wr_def prod_eq_iff)
  note f = fresh_Ok(1) [OF c'(2,4,5,3)] fresh_Ok(2) [OF c'(2,4,5,3), of b]
  have "backing.Ok CI (imem b) (dmem b) (space b) c' (array_after xs (space b (own CI (imem b) (dmem b)))) (exec (cache_run rand xs) (c', b))"
    using tripleD [OF run_array [OF f(1) assms(5)] f(2)] by simp
  from tripleD [OF backing.cache_flush_Ok [OF f(1)] this] show ?thesis
    by (simp add: case_prod_beta c'(1) own_def)
qed

theorem cache_flush_reaches_memory_witness:
  "space (snd (exec (do { cache_config True None 256 16 2; cache_run rand [Op_write 0x10 7]; cache_flush })
    (zero_cache\<lparr>c_bs_read := bs_read_i, c_bs_write := bs_write_i\<rparr>, phys0))) MEM_I 0x10 = 7"
  using cache_flush_reaches_memory [OF _ config_256, where c = "zero_cache\<lparr>c_bs_read := bs_read_i, c_bs_write := bs_write_i\<rparr>"
      and xs = "[Op_write 0x10 7]" and b = phys0]
  by (simp add: phys0_def space_def case_prod_beta)

section \<open>Addresses\<close>

text \<open>C24: The line base of an address plus its offset is the address, and tag, set and offset together
  determine it.\<close>

theorem cache_decode_roundtrip:
  assumes "geometry_ok c"
  shows "addr_base c a + ucast (addr_off c a) = a \<and> (cache_decode c a = cache_decode c a' \<longleftrightarrow> a = a')"
  using base_off [OF assms, of a] addr_eqI [OF assms, of a a'] by (auto simp: cache_decode_def)

theorem cache_decode_roundtrip_witness:
  "cache_decode (default_cache ''T'') 0x1234 \<noteq> cache_decode (default_cache ''T'') 0x1235"
  using cache_decode_roundtrip [OF default_geometry, where a = "0x1234" and a' = "0x1235"] by simp

text \<open>On a consistent geometry every line and data index the cache computes lies inside the two
  arrays cache_config allocated.\<close>

theorem cache_indices_in_bounds:
  assumes "geometry_ok c" "s < c_sets c" "w < c_ways c" "i < c_line_bytes c"
  shows "line_index c s w < unat (c_sets c) * unat (c_ways c) \<and> data_index c s w + unat i < unat (c_capacity c) \<and>
    addr_set c a < c_sets c \<and> addr_off c a < c_line_bytes c"
  using line_index(2) [OF assms(1-3)] data_index_bound [OF assms] addr_bounds [OF assms(1), of a] by simp_all

theorem cache_indices_in_bounds_witness:
  "data_index (default_cache ''T'') 7 1 + unat (15 :: u32) < 256"
  using cache_indices_in_bounds [OF default_geometry, of 7 "''T''" 1 15] by (simp add: default_cache_def)

section \<open>Replacement and counters\<close>

text \<open>pick_victim returns an existing way, an invalid line if the set has one, and otherwise, for LRU
  and FIFO, a line with the smallest stamp.\<close>

theorem pick_victim_choice:
  assumes "0 < c_ways c"
  shows "let w = result (pick_victim rnd si) (c, b) in
    w < c_ways c \<and> ((\<exists>v<c_ways c. \<not> l_valid (line_at c si v)) \<longrightarrow> \<not> l_valid (line_at c si w)) \<and>
    ((\<forall>v<c_ways c. l_valid (line_at c si v)) \<and> c_repl c \<noteq> REPL_RANDOM \<longrightarrow>
      (\<forall>v<c_ways c. l_stamp (line_at c si w) \<le> l_stamp (line_at c si v)))"
  unfolding Let_def using pick_victim_result [OF assms, where rnd = rnd and si = si and b = b] by blast

theorem pick_victim_choice_witness:
  "result (pick_victim rand 3) (default_cache ''T'', phys0) < 2"
  using pick_victim_choice [where c = "default_cache ''T''" and rnd = rand and si = 3 and b = phys0] by (simp add: default_cache_def Let_def)

text \<open>Under LRU with at least two ways, the line a read has just used is not the next victim of its
  set.\<close>

theorem lru_spares_last_used:
  assumes "geometry_ok c" "c_repl c = REPL_LRU" "2 \<le> c_ways c"
    and "unat (c_clock c) + 1 < 2 ^ 32" "\<forall>i. l_stamp (c_line c i) \<le> c_clock c"
  shows "let ((v, ev), p) = run_state (cache_read rnd a) (c, b) in
    result (pick_victim rnd (addr_set c a)) p \<noteq> ev_way ev"
proof -
  have "0 < c_ways c" using assms(3) by (simp add: word_less_nat_alt word_le_nat_alt)
  note n = access_newest(1) [where k = c, OF assms(4) this assms(2,5), where a = a and rnd = rnd and b = b]
  have "addr_set c a < c_sets c" by (rule addr_bounds [OF assms(1)])
  from newest_not_victim [OF assms(1) this _ assms(3,2)] n
  show ?thesis by (simp add: case_prod_beta) (metis prod.collapse)
qed

theorem lru_spares_last_used_witness:
  "let ((v, ev), p) = run_state (cache_read rand 0x1234) (test_cache, phys0) in
    result (pick_victim rand (addr_set test_cache 0x1234)) p \<noteq> ev_way ev"
  by (rule lru_spares_last_used)
    (simp_all add: test_cache_def default_cache_def zero_cache_def zero_line_def geometry_ok_def)

text \<open>Reads and writes are hits plus misses, and the stall counter is the misses times the penalty,
  after any sequence of operations.\<close>

theorem cache_counters_balance:
  assumes "balanced c"
  shows "balanced (fst (exec (cache_run rnd xs) (c, b)))"
  using hoareD [OF balanced_run, of "(c, b)"] assms by (simp add: balanced_owes)

theorem cache_counters_balance_witness:
  "balanced (fst (exec (cache_run rand [Op_read 1, Op_write 2 3, Op_flush, Op_read 2]) (test_cache, phys0)))"
  by (rule cache_counters_balance) (simp add: balanced_def test_cache_def default_cache_def zero_cache_def)

end
