(* ===== verification/Disasm.thy ===== *)
theory Disasm
  imports M6502 Terminal
begin

text \<open>
  The disassembler \<open>m6502_disasm\<close> of \<open>m6502/m6502.c\<close>: its tables, the operand formats, and the text it
  writes.  The read callback runs over its own context, a world of any type; the buffer of \<open>sz\<close> bytes
  receives what \<open>snprintf\<close> stores, the first \<open>sz - 1\<close> characters.  The fixed local buffers \<open>oper\<close> and
  \<open>byt\<close> are strings here; \<open>Disasm_Props\<close> proves that their contents fit.
\<close>

unbundle bit_operations_syntax

definition g_mn :: "string list" where
  "g_mn = [
    ''BRK'', ''ORA'', ''JAM'', ''SLO'', ''NOP'', ''ORA'', ''ASL'', ''SLO'', ''PHP'', ''ORA'', ''ASL'', ''ANC'', ''NOP'', ''ORA'', ''ASL'', ''SLO'',
    ''BPL'', ''ORA'', ''JAM'', ''SLO'', ''NOP'', ''ORA'', ''ASL'', ''SLO'', ''CLC'', ''ORA'', ''NOP'', ''SLO'', ''NOP'', ''ORA'', ''ASL'', ''SLO'',
    ''JSR'', ''AND'', ''JAM'', ''RLA'', ''BIT'', ''AND'', ''ROL'', ''RLA'', ''PLP'', ''AND'', ''ROL'', ''ANC'', ''BIT'', ''AND'', ''ROL'', ''RLA'',
    ''BMI'', ''AND'', ''JAM'', ''RLA'', ''NOP'', ''AND'', ''ROL'', ''RLA'', ''SEC'', ''AND'', ''NOP'', ''RLA'', ''NOP'', ''AND'', ''ROL'', ''RLA'',
    ''RTI'', ''EOR'', ''JAM'', ''SRE'', ''NOP'', ''EOR'', ''LSR'', ''SRE'', ''PHA'', ''EOR'', ''LSR'', ''ALR'', ''JMP'', ''EOR'', ''LSR'', ''SRE'',
    ''BVC'', ''EOR'', ''JAM'', ''SRE'', ''NOP'', ''EOR'', ''LSR'', ''SRE'', ''CLI'', ''EOR'', ''NOP'', ''SRE'', ''NOP'', ''EOR'', ''LSR'', ''SRE'',
    ''RTS'', ''ADC'', ''JAM'', ''RRA'', ''NOP'', ''ADC'', ''ROR'', ''RRA'', ''PLA'', ''ADC'', ''ROR'', ''ARR'', ''JMP'', ''ADC'', ''ROR'', ''RRA'',
    ''BVS'', ''ADC'', ''JAM'', ''RRA'', ''NOP'', ''ADC'', ''ROR'', ''RRA'', ''SEI'', ''ADC'', ''NOP'', ''RRA'', ''NOP'', ''ADC'', ''ROR'', ''RRA'',
    ''NOP'', ''STA'', ''NOP'', ''SAX'', ''STY'', ''STA'', ''STX'', ''SAX'', ''DEY'', ''NOP'', ''TXA'', ''ANE'', ''STY'', ''STA'', ''STX'', ''SAX'',
    ''BCC'', ''STA'', ''JAM'', ''SHA'', ''STY'', ''STA'', ''STX'', ''SAX'', ''TYA'', ''STA'', ''TXS'', ''TAS'', ''SHY'', ''STA'', ''SHX'', ''SHA'',
    ''LDY'', ''LDA'', ''LDX'', ''LAX'', ''LDY'', ''LDA'', ''LDX'', ''LAX'', ''TAY'', ''LDA'', ''TAX'', ''LXA'', ''LDY'', ''LDA'', ''LDX'', ''LAX'',
    ''BCS'', ''LDA'', ''JAM'', ''LAX'', ''LDY'', ''LDA'', ''LDX'', ''LAX'', ''CLV'', ''LDA'', ''TSX'', ''LAS'', ''LDY'', ''LDA'', ''LDX'', ''LAX'',
    ''CPY'', ''CMP'', ''NOP'', ''DCP'', ''CPY'', ''CMP'', ''DEC'', ''DCP'', ''INY'', ''CMP'', ''DEX'', ''SBX'', ''CPY'', ''CMP'', ''DEC'', ''DCP'',
    ''BNE'', ''CMP'', ''JAM'', ''DCP'', ''NOP'', ''CMP'', ''DEC'', ''DCP'', ''CLD'', ''CMP'', ''NOP'', ''DCP'', ''NOP'', ''CMP'', ''DEC'', ''DCP'',
    ''CPX'', ''SBC'', ''NOP'', ''ISC'', ''CPX'', ''SBC'', ''INC'', ''ISC'', ''INX'', ''SBC'', ''NOP'', ''SBC'', ''CPX'', ''SBC'', ''INC'', ''ISC'',
    ''BEQ'', ''SBC'', ''JAM'', ''ISC'', ''NOP'', ''SBC'', ''INC'', ''ISC'', ''SED'', ''SBC'', ''NOP'', ''ISC'', ''NOP'', ''SBC'', ''INC'', ''ISC'']"

text \<open>The mode codes: 0 implied, 1 accumulator, 2 immediate, 3 to 5 zero page, 6 to 8 absolute, 9 to 11
  indirect, 12 relative.\<close>

definition g_dm :: "nat list" where
  "g_dm = [
    0, 10, 0, 10, 3, 3, 3, 3, 0, 2, 1, 2, 6, 6, 6, 6,
    12, 11, 0, 11, 4, 4, 4, 4, 0, 8, 0, 8, 7, 7, 7, 7,
    6, 10, 0, 10, 3, 3, 3, 3, 0, 2, 1, 2, 6, 6, 6, 6,
    12, 11, 0, 11, 4, 4, 4, 4, 0, 8, 0, 8, 7, 7, 7, 7,
    0, 10, 0, 10, 3, 3, 3, 3, 0, 2, 1, 2, 6, 6, 6, 6,
    12, 11, 0, 11, 4, 4, 4, 4, 0, 8, 0, 8, 7, 7, 7, 7,
    0, 10, 0, 10, 3, 3, 3, 3, 0, 2, 1, 2, 9, 6, 6, 6,
    12, 11, 0, 11, 4, 4, 4, 4, 0, 8, 0, 8, 7, 7, 7, 7,
    2, 10, 2, 10, 3, 3, 3, 3, 0, 2, 0, 2, 6, 6, 6, 6,
    12, 11, 0, 11, 4, 4, 5, 5, 0, 8, 0, 8, 7, 7, 8, 8,
    2, 10, 2, 10, 3, 3, 3, 3, 0, 2, 0, 2, 6, 6, 6, 6,
    12, 11, 0, 11, 4, 4, 5, 5, 0, 8, 0, 8, 7, 7, 8, 8,
    2, 10, 2, 10, 3, 3, 3, 3, 0, 2, 0, 2, 6, 6, 6, 6,
    12, 11, 0, 11, 4, 4, 4, 4, 0, 8, 0, 8, 7, 7, 7, 7,
    2, 10, 2, 10, 3, 3, 3, 3, 0, 2, 0, 2, 6, 6, 6, 6,
    12, 11, 0, 11, 4, 4, 4, 4, 0, 8, 0, 8, 7, 7, 7, 7]"

definition g_dl :: "int list" where
  "g_dl = [1, 1, 2, 2, 2, 2, 3, 3, 3, 3, 2, 2, 2]"

text \<open>The operand text; \<open>addr\<close> is the address of the instruction.\<close>

definition operand_text :: "nat \<Rightarrow> u16 \<Rightarrow> u8 \<Rightarrow> u8 \<Rightarrow> string" where
  "operand_text mode addr b1 b2 = (let w = ucast b1 OR push_bit 8 (ucast b2) :: u16 in
     if mode = 1 then ''A''
     else if mode = 2 then ''#$'' @ hex2 b1
     else if mode = 3 then ''$'' @ hex2 b1
     else if mode = 4 then ''$'' @ hex2 b1 @ '',X''
     else if mode = 5 then ''$'' @ hex2 b1 @ '',Y''
     else if mode = 6 then ''$'' @ hex4 w
     else if mode = 7 then ''$'' @ hex4 w @ '',X''
     else if mode = 8 then ''$'' @ hex4 w @ '',Y''
     else if mode = 9 then ''($'' @ hex4 w @ '')''
     else if mode = 10 then ''($'' @ hex2 b1 @ '',X)''
     else if mode = 11 then ''($'' @ hex2 b1 @ ''),Y''
     else if mode = 12 then ''$'' @ hex4 (addr + 2 + scast b1)
     else [])"

text \<open>The loop that reads the bytes of the instruction again and prints them.\<close>

fun byte_texts :: "(u16 \<Rightarrow> ('w, u8) state) \<Rightarrow> u16 \<Rightarrow> nat \<Rightarrow> ('w, string) state" where
  "byte_texts get a 0 = ret []"
| "byte_texts get a (Suc n) = do { b \<leftarrow> get a; s \<leftarrow> byte_texts get (a + 1) n; ret (hex2 b @ '' '' @ s) }"

definition m6502_disasm :: "(u16 \<Rightarrow> ('w, u8) state) \<Rightarrow> u16 \<Rightarrow> nat \<Rightarrow> ('w, int \<times> string) state" where
  "m6502_disasm get addr sz = do {
     op \<leftarrow> get addr;
     let mode = g_dm ! unat op;
     let len = g_dl ! mode;
     b1 \<leftarrow> get (addr + 1);
     b2 \<leftarrow> get (addr + 2);
     byt \<leftarrow> byte_texts get addr (nat len);
     ret (len, take (sz - 1) (''$'' @ hex4 addr @ '': '' @ pad_right 9 byt @ '' '' @ pad_right 4 (g_mn ! unat op) @ '' '' @
       operand_text mode addr b1 b2)) }"

end
