(* ===== verification/Disasm_Props.thy ===== *)
theory Disasm_Props
  imports Disasm Memsys_Props
begin

text \<open>
  The disassembler against the processor: its mode table names the addressing mode the dispatch table
  runs, its mnemonics name the routines, its lengths are the bytes an instruction consumes, and what
  it prints fits its buffers.
\<close>
unbundle bit_operations_syntax

section \<open>The tables\<close>

text \<open>The addressing modes and the routines by their code and their name.\<close>

definition am_of :: "nat \<Rightarrow> 'w bus \<Rightarrow> ('w, unit) cpu" where
  "am_of mode B = [am_imp, am_acc, am_imm, am_zp B, am_zpx B, am_zpy B, am_abs B, am_absx B, am_absy B, am_ind B,
     am_indx B, am_indy B, am_rel B] ! mode"

lemma modes_agree: "map (\<lambda>m. am_of m B) g_dm = g_at B"
  by (simp add: g_dm_def g_at_def am_of_def)

definition routines :: "'w bus \<Rightarrow> (string \<times> ('w, unit) cpu) list" where
  "routines B = [
     (''ADC'', op_adc B), (''ALR'', op_ALR B), (''ANC'', op_ANC B), (''AND'', op_and B), (''ANE'', op_ANE B), (''ARR'', op_ARR B),
     (''ASL'', op_asl B), (''BCC'', op_bcc), (''BCS'', op_bcs), (''BEQ'', op_beq), (''BIT'', op_bit B), (''BMI'', op_bmi),
     (''BNE'', op_bne), (''BPL'', op_bpl), (''BRK'', op_brk B), (''BVC'', op_bvc), (''BVS'', op_bvs), (''CLC'', op_clc),
     (''CLD'', op_cld), (''CLI'', op_cli), (''CLV'', op_clv), (''CMP'', op_cmp B), (''CPX'', op_cpx B), (''CPY'', op_cpy B),
     (''DCP'', op_DCP B), (''DEC'', op_dec B), (''DEX'', op_dex), (''DEY'', op_dey), (''EOR'', op_eor B), (''INC'', op_inc B),
     (''INX'', op_inx), (''INY'', op_iny), (''ISC'', op_ISC B), (''JAM'', op_JAM), (''JMP'', op_jmp), (''JSR'', op_jsr B),
     (''LAS'', op_LAS B), (''LAX'', op_LAX B), (''LDA'', op_lda B), (''LDX'', op_ldx B), (''LDY'', op_ldy B), (''LSR'', op_lsr B),
     (''LXA'', op_LXA B), (''NOP'', op_nop), (''ORA'', op_ora B), (''PHA'', op_pha B), (''PHP'', op_php B), (''PLA'', op_pla B),
     (''PLP'', op_plp B), (''RLA'', op_RLA B), (''ROL'', op_rol B), (''ROR'', op_ror B), (''RRA'', op_RRA B), (''RTI'', op_rti B),
     (''RTS'', op_rts B), (''SAX'', op_SAX B), (''SBC'', op_sbc B), (''SBX'', op_SBX B), (''SEC'', op_sec), (''SED'', op_sed),
     (''SEI'', op_sei), (''SHA'', op_SHA B), (''SHX'', op_SHX B), (''SHY'', op_SHY B), (''SLO'', op_SLO B), (''SRE'', op_SRE B),
     (''STA'', op_sta B), (''STX'', op_stx B), (''STY'', op_sty B), (''TAS'', op_TAS B), (''TAX'', op_tax), (''TAY'', op_tay),
     (''TSX'', op_tsx), (''TXA'', op_txa), (''TXS'', op_txs), (''TYA'', op_tya)]"

lemma lookups:
  "map_of (routines B) ''ADC'' = Some (op_adc B)"
  "map_of (routines B) ''ALR'' = Some (op_ALR B)"
  "map_of (routines B) ''ANC'' = Some (op_ANC B)"
  "map_of (routines B) ''AND'' = Some (op_and B)"
  "map_of (routines B) ''ANE'' = Some (op_ANE B)"
  "map_of (routines B) ''ARR'' = Some (op_ARR B)"
  "map_of (routines B) ''ASL'' = Some (op_asl B)"
  "map_of (routines B) ''BCC'' = Some (op_bcc)"
  "map_of (routines B) ''BCS'' = Some (op_bcs)"
  "map_of (routines B) ''BEQ'' = Some (op_beq)"
  "map_of (routines B) ''BIT'' = Some (op_bit B)"
  "map_of (routines B) ''BMI'' = Some (op_bmi)"
  "map_of (routines B) ''BNE'' = Some (op_bne)"
  "map_of (routines B) ''BPL'' = Some (op_bpl)"
  "map_of (routines B) ''BRK'' = Some (op_brk B)"
  "map_of (routines B) ''BVC'' = Some (op_bvc)"
  "map_of (routines B) ''BVS'' = Some (op_bvs)"
  "map_of (routines B) ''CLC'' = Some (op_clc)"
  "map_of (routines B) ''CLD'' = Some (op_cld)"
  "map_of (routines B) ''CLI'' = Some (op_cli)"
  "map_of (routines B) ''CLV'' = Some (op_clv)"
  "map_of (routines B) ''CMP'' = Some (op_cmp B)"
  "map_of (routines B) ''CPX'' = Some (op_cpx B)"
  "map_of (routines B) ''CPY'' = Some (op_cpy B)"
  "map_of (routines B) ''DCP'' = Some (op_DCP B)"
  "map_of (routines B) ''DEC'' = Some (op_dec B)"
  "map_of (routines B) ''DEX'' = Some (op_dex)"
  "map_of (routines B) ''DEY'' = Some (op_dey)"
  "map_of (routines B) ''EOR'' = Some (op_eor B)"
  "map_of (routines B) ''INC'' = Some (op_inc B)"
  "map_of (routines B) ''INX'' = Some (op_inx)"
  "map_of (routines B) ''INY'' = Some (op_iny)"
  "map_of (routines B) ''ISC'' = Some (op_ISC B)"
  "map_of (routines B) ''JAM'' = Some (op_JAM)"
  "map_of (routines B) ''JMP'' = Some (op_jmp)"
  "map_of (routines B) ''JSR'' = Some (op_jsr B)"
  "map_of (routines B) ''LAS'' = Some (op_LAS B)"
  "map_of (routines B) ''LAX'' = Some (op_LAX B)"
  "map_of (routines B) ''LDA'' = Some (op_lda B)"
  "map_of (routines B) ''LDX'' = Some (op_ldx B)"
  "map_of (routines B) ''LDY'' = Some (op_ldy B)"
  "map_of (routines B) ''LSR'' = Some (op_lsr B)"
  "map_of (routines B) ''LXA'' = Some (op_LXA B)"
  "map_of (routines B) ''NOP'' = Some (op_nop)"
  "map_of (routines B) ''ORA'' = Some (op_ora B)"
  "map_of (routines B) ''PHA'' = Some (op_pha B)"
  "map_of (routines B) ''PHP'' = Some (op_php B)"
  "map_of (routines B) ''PLA'' = Some (op_pla B)"
  "map_of (routines B) ''PLP'' = Some (op_plp B)"
  "map_of (routines B) ''RLA'' = Some (op_RLA B)"
  "map_of (routines B) ''ROL'' = Some (op_rol B)"
  "map_of (routines B) ''ROR'' = Some (op_ror B)"
  "map_of (routines B) ''RRA'' = Some (op_RRA B)"
  "map_of (routines B) ''RTI'' = Some (op_rti B)"
  "map_of (routines B) ''RTS'' = Some (op_rts B)"
  "map_of (routines B) ''SAX'' = Some (op_SAX B)"
  "map_of (routines B) ''SBC'' = Some (op_sbc B)"
  "map_of (routines B) ''SBX'' = Some (op_SBX B)"
  "map_of (routines B) ''SEC'' = Some (op_sec)"
  "map_of (routines B) ''SED'' = Some (op_sed)"
  "map_of (routines B) ''SEI'' = Some (op_sei)"
  "map_of (routines B) ''SHA'' = Some (op_SHA B)"
  "map_of (routines B) ''SHX'' = Some (op_SHX B)"
  "map_of (routines B) ''SHY'' = Some (op_SHY B)"
  "map_of (routines B) ''SLO'' = Some (op_SLO B)"
  "map_of (routines B) ''SRE'' = Some (op_SRE B)"
  "map_of (routines B) ''STA'' = Some (op_sta B)"
  "map_of (routines B) ''STX'' = Some (op_stx B)"
  "map_of (routines B) ''STY'' = Some (op_sty B)"
  "map_of (routines B) ''TAS'' = Some (op_TAS B)"
  "map_of (routines B) ''TAX'' = Some (op_tax)"
  "map_of (routines B) ''TAY'' = Some (op_tay)"
  "map_of (routines B) ''TSX'' = Some (op_tsx)"
  "map_of (routines B) ''TXA'' = Some (op_txa)"
  "map_of (routines B) ''TXS'' = Some (op_txs)"
  "map_of (routines B) ''TYA'' = Some (op_tya)"
  by (simp_all add: routines_def)

lemma mnemonics_agree: "map (map_of (routines B)) g_mn = map Some (g_ot B)"
  by (simp only: g_mn_def g_ot_def list.map lookups)

lemma table_lengths: "length g_mn = 256" "length g_dm = 256" "length g_dl = 13"
  by (simp_all add: g_mn_def g_dm_def g_dl_def)

lemma g_dm_range: "list_all (\<lambda>m. m < 13) g_dm"
  by (simp add: g_dm_def)

lemma mode_lt: "g_dm ! unat (op :: u8) < 13"
  using g_dm_range unat_u8_lt [of op] by (simp add: list_all_length table_lengths)

lemma g_at_mode: "g_at B ! unat (op :: u8) = am_of (g_dm ! unat op) B"
  unfolding modes_agree [symmetric] using unat_u8_lt [of op] by (simp add: table_lengths)

text \<open>C28: The disassembler and the processor agree on every opcode: the mode table names the addressing
  mode of the dispatch table, and the mnemonic table its routine.\<close>

theorem disasm_tables_match_dispatch:
  "map (\<lambda>m. am_of m B) g_dm = g_at B \<and> map (map_of (routines B)) g_mn = map Some (g_ot B)"
  by (rule conjI [OF modes_agree mnemonics_agree])

section \<open>Lengths\<close>

lemma mode_cases: "m < 13 \<Longrightarrow> m \<in> {0, 1, 2, 3, 4, 5, 6, 7, 8, 9, 10, 11, 12 :: nat}"
  by (simp add: numeral_eq_Suc less_Suc_eq)

context bus_frame
begin

lemma mode_decoded:
  assumes "m < 13"
  shows "hoare (on_struct (decoded t p)) (am_of m B) (on_struct (decoded t (p + of_int (g_dl ! m - 1))))"
  using mode_cases [OF assms]
  by (elim insertE emptyE) (use am_decoded [of t p] in \<open>simp_all add: am_of_def g_dl_def\<close>)

lemma consumed:
  assumes "flags_ok s"
  shows "r_pc (fst (exec (do { op \<leftarrow> fetch_opcode B; g_at B ! unat op }) (s, w))) =
    r_pc s + of_int (g_dl ! (g_dm ! unat (result (fetch_opcode B) (s, w))))"
proof -
  let ?op = "result (fetch_opcode B) (s, w)"
  from hoareD [OF mode_decoded [OF mode_lt]] opcode_fetched [OF assms, of w]
  have "on_struct (decoded (ucast (g_tt ! unat ?op)) (r_pc s + 1 + of_int (g_dl ! (g_dm ! unat ?op) - 1)))
      (exec (am_of (g_dm ! unat ?op) B) (exec (fetch_opcode B) (s, w)))" by blast
  then show ?thesis by (simp add: case_prod_beta g_at_mode decoded_def)
qed

end

text \<open>C29: The length the disassembler gives for an opcode is the number of bytes its fetch and addressing
  mode advance the program counter.\<close>

theorem disasm_length_is_consumed:
  assumes "flags_ok s"
  shows "r_pc (fst (exec (do { op \<leftarrow> fetch_opcode h6502_bus; g_at h6502_bus ! unat op }) (s, w))) =
    r_pc s + of_int (g_dl ! (g_dm ! unat (result (fetch_opcode h6502_bus) (s, w))))"
  by (rule h6502_frame.consumed [OF assms])

theorem disasm_length_is_consumed_witness:
  "r_pc (fst (exec (do { op \<leftarrow> fetch_opcode h6502_bus; g_at h6502_bus ! unat op }) (zero_core, (machine0, hmon0)))) =
    of_int (g_dl ! (g_dm ! unat (result (fetch_opcode h6502_bus) (zero_core, (machine0, hmon0)))))"
  using disasm_length_is_consumed [OF zero_flags, of "(machine0, hmon0)"] by (simp add: zero_core_def)

section \<open>Buffers\<close>

lemma byte_texts_length: "length (result (byte_texts get a n) w) = 3 * n"
  by (induction n arbitrary: a w) (simp_all add: case_prod_beta length_hex2)

lemma operand_text_length: "length (operand_text m addr b1 b2) \<le> 8"
  by (simp add: operand_text_def length_hex2 length_hex4 Let_def)

lemma g_dl_range: "m < 13 \<Longrightarrow> 1 \<le> g_dl ! m \<and> g_dl ! m \<le> 3"
proof -
  have "list_all (\<lambda>n. 1 \<le> n \<and> n \<le> 3) g_dl" by (simp add: g_dl_def)
  then show "m < 13 \<Longrightarrow> ?thesis" by (simp add: list_all_length table_lengths)
qed

lemma g_mn_length: "list_all (\<lambda>s. length s = 3) g_mn"
  by (simp add: g_mn_def)

lemma mn_length: "length (g_mn ! unat (op :: u8)) = 3"
  using g_mn_length unat_u8_lt [of op] by (simp add: list_all_length table_lengths)

text \<open>The operand and byte texts fit the 20 and 12 byte local buffers and the whole line is at most
  30 characters long.\<close>

theorem disasm_fits_buffers:
  "length (snd (result (m6502_disasm get addr sz) w)) \<le> 30 \<and> length (operand_text mode addr b1 b2) < 20 \<and>
   length (result (byte_texts get addr (nat (g_dl ! (g_dm ! unat (op :: u8))))) w) < 12"
proof (intro conjI)
  have len: "3 * nat (g_dl ! (g_dm ! unat (op :: u8))) \<le> 9" for op using g_dl_range [OF mode_lt [of op]] by linarith
  then show "length (result (byte_texts get addr (nat (g_dl ! (g_dm ! unat op)))) w) < 12"
    unfolding byte_texts_length by (rule order_le_less_trans) simp
  show "length (operand_text mode addr b1 b2) < 20" using operand_text_length by (rule order_le_less_trans) simp
  have pad: "length (pad_right n s) = max n (length s)" for n s by (simp add: pad_right_def)
  have "length (operand_text m addr b c) + 22 \<le> 30" for m b c using operand_text_length [of m addr b c] by simp
  then show "length (snd (result (m6502_disasm get addr sz) w)) \<le> 30"
    by (simp add: m6502_disasm_def Let_def case_prod_beta length_hex4 pad byte_texts_length mn_length len max_absorb1 min.coboundedI1)
qed

end
