(* ===== verification/CLib.thy ===== *)
theory CLib
  imports Terminal
begin

text \<open>
  The string functions of the C library that the two monitors call, in the C locale and on a 64-bit
  \<open>long\<close>.  A C string is the list of its characters before the terminating zero; a pointer into it is
  the rest of the string from there on.
\<close>

text \<open>What a buffer holds as a string, and \<open>p[i]\<close> for an \<open>i\<close> up to the terminating zero.\<close>

definition cstr :: "string \<Rightarrow> string" where
  "cstr s = takeWhile (\<lambda>c. c \<noteq> CHR 0x00) s"

definition char_at :: "string \<Rightarrow> nat \<Rightarrow> char" where
  "char_at p i = (if i < length p then p ! i else CHR 0x00)"

section \<open>Characters\<close>

definition isspace :: "char \<Rightarrow> bool" where
  "isspace c \<longleftrightarrow> (let n = of_char c :: nat in n = 32 \<or> 9 \<le> n \<and> n \<le> 13)"

definition isdigit :: "char \<Rightarrow> bool" where
  "isdigit c \<longleftrightarrow> (let n = of_char c :: nat in 48 \<le> n \<and> n \<le> 57)"

definition isprint :: "char \<Rightarrow> bool" where
  "isprint c \<longleftrightarrow> (let n = of_char c :: nat in 32 \<le> n \<and> n < 127)"

definition toupper :: "char \<Rightarrow> char" where
  "toupper c = (let n = of_char c :: nat in if 97 \<le> n \<and> n \<le> 122 then char_of (n - 32) else c)"

definition tolower :: "char \<Rightarrow> char" where
  "tolower c = (let n = of_char c :: nat in if 65 \<le> n \<and> n \<le> 90 then char_of (n + 32) else c)"

text \<open>\<open>strcasecmp\<close> and \<open>strncasecmp\<close> compared with zero.\<close>

definition same_nocase :: "string \<Rightarrow> string \<Rightarrow> bool" where
  "same_nocase a b \<longleftrightarrow> map tolower a = map tolower b"

definition starts_nocase :: "string \<Rightarrow> string \<Rightarrow> bool" where
  "starts_nocase pre s \<longleftrightarrow> map tolower (take (length pre) s) = map tolower pre"

section \<open>Numbers\<close>

text \<open>The value of a character as a digit, 36 and more for none.\<close>

definition digit_val :: "char \<Rightarrow> nat" where
  "digit_val c = (let n = of_char c :: nat in
     if 48 \<le> n \<and> n \<le> 57 then n - 48
     else if 65 \<le> n \<and> n \<le> 90 then n - 55
     else if 97 \<le> n \<and> n \<le> 122 then n - 87
     else 99)"

fun scan_digits :: "nat \<Rightarrow> nat \<Rightarrow> string \<Rightarrow> nat \<times> string" where
  "scan_digits b acc [] = (acc, [])"
| "scan_digits b acc (c # cs) =
    (if digit_val c < b then scan_digits b (acc * b + digit_val c) cs else (acc, c # cs))"

text \<open>The common part of the \<open>strto\<close> functions: white space, a sign, a prefix, the digits; \<open>None\<close> when
  no conversion is possible.\<close>

definition scan_number :: "nat \<Rightarrow> string \<Rightarrow> (bool \<times> nat \<times> string) option" where
  "scan_number b s = (
     let s1 = dropWhile isspace s;
         sign = char_at s1 0;
         s2 = (if sign = CHR ''-'' \<or> sign = CHR ''+'' then drop 1 s1 else s1);
         hexp = ((b = 0 \<or> b = 16) \<and> char_at s2 0 = CHR ''0'' \<and> toupper (char_at s2 1) = CHR ''X'' \<and>
           digit_val (char_at s2 2) < 16);
         base = (if b \<noteq> 0 then b else if hexp then 16 else if char_at s2 0 = CHR ''0'' then 8 else 10);
         s3 = (if hexp then drop 2 s2 else s2)
     in if digit_val (char_at s3 0) < base then Some (sign = CHR ''-'', scan_digits base 0 s3) else None)"

text \<open>The result and the end pointer.\<close>

definition strtoul :: "nat \<Rightarrow> string \<Rightarrow> u64 \<times> string" where
  "strtoul b s = (case scan_number b s of
     None \<Rightarrow> (0, s)
   | Some (neg, v, r) \<Rightarrow> (if 2 ^ 64 \<le> v then - 1 else if neg then - of_nat v else of_nat v, r))"

definition strtol :: "nat \<Rightarrow> string \<Rightarrow> int \<times> string" where
  "strtol b s = (case scan_number b s of
     None \<Rightarrow> (0, s)
   | Some (neg, v, r) \<Rightarrow>
       (max (- (2 ^ 63)) (min (2 ^ 63 - 1) (if neg then - int v else int v)), r))"

text \<open>A \<open>long\<close> converted to \<open>int\<close>.\<close>

definition int_of_long :: "int \<Rightarrow> int" where
  "int_of_long v = sint (word_of_int v :: u32)"

section \<open>Tokens\<close>

text \<open>One call of \<open>strtok\<close>: the token and what the next call starts from.\<close>

definition strtok :: "(char \<Rightarrow> bool) \<Rightarrow> string \<Rightarrow> (string \<times> string) option" where
  "strtok D s = (let s1 = dropWhile D s in
     if s1 = [] then None else Some (takeWhile (\<lambda>c. \<not> D c) s1, drop 1 (dropWhile (\<lambda>c. \<not> D c) s1)))"

lemma strtok_shorter: "strtok D s = Some (t, r) \<Longrightarrow> length r < length s"
proof -
  assume "strtok D s = Some (t, r)"
  then have ne: "dropWhile D s \<noteq> []" and r: "r = drop 1 (dropWhile (\<lambda>c. \<not> D c) (dropWhile D s))"
    by (auto simp: strtok_def Let_def split: if_splits)
  have "length (dropWhile (\<lambda>c. \<not> D c) (dropWhile D s)) \<le> length s"
    by (rule order_trans [OF length_dropWhile_le length_dropWhile_le])
  moreover have "0 < length s" using ne by (cases s) auto
  ultimately have "length (dropWhile (\<lambda>c. \<not> D c) (dropWhile D s)) - 1 < length s" by linarith
  then show ?thesis by (simp only: r length_drop)
qed

text \<open>All tokens of a line.\<close>

function tokens :: "(char \<Rightarrow> bool) \<Rightarrow> string \<Rightarrow> string list" where
  "tokens D s = (case strtok D s of None \<Rightarrow> [] | Some (t, r) \<Rightarrow> t # tokens D r)"
  by pat_completeness auto
termination
  by (relation "measure (\<lambda>(D, s). length s)") (auto dest: strtok_shorter)

declare tokens.simps [simp del]

text \<open>An argument of a command, which may be missing.\<close>

definition nth_opt :: "'a list \<Rightarrow> nat \<Rightarrow> 'a option" where
  "nth_opt xs i = (if i < length xs then Some (xs ! i) else None)"

section \<open>Reading back what \<open>printf\<close> wrote\<close>

lemma digit_val_digit: "n < 16 \<Longrightarrow> digit_val (digit n) = n"
proof -
  have "list_all (\<lambda>n. digit_val (digit n) = n) [0..<16]"
    by (simp add: upt_rec digit_val_def digit_def)
  then show "n < 16 \<Longrightarrow> digit_val (digit n) = n" by (simp add: list_all_iff)
qed

lemma scan_digits_append:
  "list_all (\<lambda>c. digit_val c < b) ds \<Longrightarrow>
    scan_digits b acc (ds @ r) = scan_digits b (fst (scan_digits b acc ds)) r"
  by (induction ds arbitrary: acc) auto

lemma scan_stops: "\<not> digit_val (char_at r 0) < b \<Longrightarrow> scan_digits b acc r = (acc, r)"
  by (cases r) (auto simp: char_at_def)

lemma digits_are_digits: "2 \<le> b \<Longrightarrow> b \<le> 16 \<Longrightarrow> list_all (\<lambda>c. digit_val c < b) (digits b n)"
proof (induction n rule: less_induct)
  case (less n)
  show ?case
    using less by (subst digits.simps) (auto simp: digit_val_digit order.strict_trans2 [OF mod_less_divisor])
qed

lemma scan_digits_digits: "2 \<le> b \<Longrightarrow> b \<le> 16 \<Longrightarrow> fst (scan_digits b 0 (digits b n)) = n"
proof (induction n rule: less_induct)
  case (less n)
  show ?case
  proof (cases "n < b")
    case True
    then show ?thesis using less.prems by (subst digits.simps) (simp add: digit_val_digit)
  next
    case False
    have "n mod b < b" using less.prems by simp
    then have "digit_val (digit (n mod b)) = n mod b"
      using less.prems by (intro digit_val_digit) linarith
    with \<open>n mod b < b\<close> show ?thesis
      using False less.prems less.IH [of "n div b"]
      by (subst digits.simps)
        (simp add: scan_digits_append [OF digits_are_digits])
  qed
qed

lemma scan_zeros: "scan_digits b 0 (replicate k CHR ''0'' @ r) = scan_digits b 0 r" if "0 < b"
  using that by (induction k) (simp_all add: digit_val_def)

lemma scan_hexw:
  assumes "\<not> digit_val (char_at r 0) < 16"
  shows "scan_digits 16 0 (hexw w n @ r) = (n, r)"
  using scan_stops [OF assms, of n]
  by (simp add: hexw_def pad_left_def scan_zeros scan_digits_append [OF digits_are_digits] scan_digits_digits)

lemma hexw_digits: "list_all (\<lambda>c. digit_val c < 16) (hexw w n)"
  using digits_are_digits [of 16 n] by (auto simp: hexw_def pad_left_def digit_val_def list_all_iff)

lemma toupper_X: "toupper c = CHR ''X'' \<Longrightarrow> digit_val c = 33"
proof -
  assume "toupper c = CHR ''X''"
  then have "(of_char (toupper c) :: nat) = 88" by simp
  then have "(of_char c :: nat) = 88 \<or> (of_char c :: nat) = 120"
    by (auto simp: toupper_def Let_def split: if_splits)
  then show ?thesis by (auto simp: digit_val_def)
qed

lemma tolower_dot: "tolower c = CHR ''.'' \<longleftrightarrow> c = CHR ''.''"
proof
  assume "tolower c = CHR ''.''"
  then have "(of_char (tolower c) :: nat) = 46" by simp
  then have "(of_char c :: nat) = of_char CHR ''.''" by (auto simp: tolower_def Let_def split: if_splits)
  then show "c = CHR ''.''" by (simp only: of_char_eq_iff)
qed (simp add: tolower_def)

lemma isspace_no_digit: "isspace c \<Longrightarrow> digit_val c = 99"
  by (auto simp: isspace_def digit_val_def Let_def)

lemma digit_char: "digit_val c < 16 \<Longrightarrow> \<not> isspace c \<and> c \<noteq> CHR ''-'' \<and> c \<noteq> CHR ''+'' \<and> toupper c \<noteq> CHR ''X''"
  using toupper_X [of c] isspace_no_digit [of c] by (auto simp: digit_val_def)

lemma strtoul_hexw:
  assumes "\<not> digit_val (char_at r 0) < 16" and "0 < w" and "n < 2 ^ 64" and "toupper (char_at r 0) \<noteq> CHR ''X''"
  shows "strtoul 16 (hexw w n @ r) = (of_nat n, r)"
proof -
  have len: "0 < length (hexw w n)" unfolding hexw_def pad_left_def length_append length_replicate using assms(2) by linarith
  then obtain c cs where h: "hexw w n = c # cs" by (cases "hexw w n") auto
  then have c: "digit_val c < 16" and cs: "list_all (\<lambda>c. digit_val c < 16) cs"
    using hexw_digits [of w n] by simp_all
  have second: "toupper (char_at (hexw w n @ r) 1) \<noteq> CHR ''X''"
    using cs assms(4) digit_char by (cases cs) (auto simp: h char_at_def)
  have first: "dropWhile isspace (hexw w n @ r) = hexw w n @ r" "char_at (hexw w n @ r) 0 = c"
    using digit_char [OF c] by (simp_all add: h char_at_def)
  have "scan_number 16 (hexw w n @ r) = Some (False, n, r)"
    using digit_char [OF c] c second
    by (simp add: scan_number_def Let_def first scan_hexw [OF assms(1)])
  then show ?thesis using assms(3) by (simp add: strtoul_def)
qed

lemma strtoul_hex2:
  "\<not> digit_val (char_at r 0) < 16 \<Longrightarrow> toupper (char_at r 0) \<noteq> CHR ''X'' \<Longrightarrow>
    strtoul 16 (hex2 v @ r) = (ucast v, r)"
  using strtoul_hexw [of r 2 "unat v"] unat_u8_lt [of v] by (simp add: hex2_def unsigned_of_nat)

lemma strtoul_hex4:
  "\<not> digit_val (char_at r 0) < 16 \<Longrightarrow> toupper (char_at r 0) \<noteq> CHR ''X'' \<Longrightarrow>
    strtoul 16 (hex4 v @ r) = (ucast v, r)"
  using strtoul_hexw [of r 4 "unat v"] unat_u16_lt [of v] by (simp add: hex4_def unsigned_of_nat)

end
