(* ===== verification/Monitor.thy ===== *)
theory Monitor
  imports Disasm CLib
begin

text \<open>
  The state and the displays of \<open>m6502/main.c\<close>, the monitor of the machine with flat memory.

  The statics of the file form the record \<open>mon\<close>, which with the terminal is the world of the CPU.  A
  counted array (\<open>watches\<close> with \<open>n_watches\<close>, \<open>bpoints\<close> with \<open>n_bpoints\<close>) is the list of its entries in
  use.  Names that \<open>h6502/hmon.c\<close> also has carry the suffix \<open>_m\<close>.  The disassembler reads through
  \<open>mem_read\<close>, as in the source, with all the effects this callback has.
\<close>

unbundle bit_operations_syntax

section \<open>State\<close>

definition IO_OUT :: u16 where "IO_OUT = 0xF001"
definition IO_IN_STAT :: u16 where "IO_IN_STAT = 0xF002"
definition IO_IN_DATA :: u16 where "IO_IN_DATA = 0xF003"
definition IO_BRK :: u16 where "IO_BRK = 0xF004"
definition CODE_START :: u16 where "CODE_START = 0x0800"
definition MAX_WATCH :: nat where "MAX_WATCH = 8"
definition MAX_BREAK :: nat where "MAX_BREAK = 16"
definition HIST_SIZE :: nat where "HIST_SIZE = 16"

record watch =
  w_addr :: u16
  w_mode :: int

record hist_entry =
  h_pc :: u16
  h_sp :: u8
  h_a :: u8
  h_x :: u8
  h_y :: u8
  h_flags :: u8
  h_cycles :: u64
  h_dasm :: string

record mon =
  ram :: "u16 \<Rightarrow> u8"
  watches :: "watch list"
  watch_fired :: bool
  watch_fired_addr :: u16
  watch_fired_mode :: int
  running :: bool
  io_staged_m :: "u8 option"
  break_pending_m :: bool
  history :: "nat \<Rightarrow> hist_entry"
  hist_head :: nat
  hist_count :: nat
  bpoints :: "u16 list"
  in_monitor :: bool
  trace_m :: bool
  total_cycles :: u64

definition zero_hist :: hist_entry where
  "zero_hist = \<lparr>h_pc = 0, h_sp = 0, h_a = 0, h_x = 0, h_y = 0, h_flags = 0, h_cycles = 0, h_dasm = []\<rparr>"

text \<open>The initial values of the statics.\<close>

definition zero_mon :: mon where
  "zero_mon = \<lparr>ram = (\<lambda>_. 0), watches = [], watch_fired = False, watch_fired_addr = 0, watch_fired_mode = 0,
     running = True, io_staged_m = None, break_pending_m = False, history = (\<lambda>_. zero_hist), hist_head = 0,
     hist_count = 0, bpoints = [], in_monitor = True, trace_m = False, total_cycles = 0\<rparr>"

type_synonym board = "mon \<times> terminal"
type_synonym 'a mprog = "(board, 'a) state"

definition poke :: "u16 \<Rightarrow> u8 \<Rightarrow> unit mprog" where
  "poke a v = writes (\<lambda>m. m\<lparr>ram := (ram m)(a := v)\<rparr>)"

definition say_m :: "string \<Rightarrow> unit mprog" where
  "say_m s = outside (put_text s)"

section \<open>Watchpoints and console\<close>

definition watch_hits :: "u16 \<Rightarrow> int \<Rightarrow> watch \<Rightarrow> bool" where
  "watch_hits a k w \<longleftrightarrow> w_addr w = a \<and> w_mode w AND k \<noteq> 0"

text \<open>Every matching entry assigns the same three values.\<close>

definition check_watch :: "u16 \<Rightarrow> int \<Rightarrow> unit mprog" where
  "check_watch a k = do {
     ws \<leftarrow> reads watches;
     for_each ws (\<lambda>w. whenever (watch_hits a k w)
       (writes (\<lambda>m. m\<lparr>watch_fired := True, watch_fired_addr := a, watch_fired_mode := k\<rparr>))) }"

definition on_sigint_m :: "unit mprog" where
  "on_sigint_m = writes (\<lambda>m. m\<lparr>break_pending_m := True\<rparr>)"

definition io_peek_m :: "bool mprog" where
  "io_peek_m = do {
     st \<leftarrow> reads io_staged_m;
     if st \<noteq> None then ret True
     else do {
       p \<leftarrow> outside poll_read;
       case p of
         Ready c \<Rightarrow> do { writes (\<lambda>m. m\<lparr>io_staged_m := Some c\<rparr>); ret True }
       | Eof \<Rightarrow> do { writes (\<lambda>m. m\<lparr>running := False\<rparr>); ret False }
       | Idle \<Rightarrow> ret False } }"

definition io_getc_m :: "u8 mprog" where
  "io_getc_m = do {
     st \<leftarrow> reads io_staged_m;
     case st of
       Some c \<Rightarrow> do { writes (\<lambda>m. m\<lparr>io_staged_m := None\<rparr>); ret c }
     | None \<Rightarrow> do {
         r \<leftarrow> outside wait_read;
         ret (case r of Some c \<Rightarrow> c | None \<Rightarrow> 0) } }"

section \<open>The bus\<close>

definition mem_read :: "u16 \<Rightarrow> u8 mprog" where
  "mem_read a = do {
     check_watch a 1;
     if a = IO_IN_STAT then do { r \<leftarrow> io_peek_m; ret (if r then 0xFF else 0) }
     else if a = IO_IN_DATA then io_getc_m
     else if a = IO_BRK then do {
       b \<leftarrow> reads break_pending_m;
       writes (\<lambda>m. m\<lparr>break_pending_m := False\<rparr>);
       ret (if b then 0xFF else 0) }
     else reads (\<lambda>m. ram m a) }"

definition mem_write :: "u16 \<Rightarrow> u8 \<Rightarrow> unit mprog" where
  "mem_write a v = do {
     check_watch a 2;
     if a = IO_OUT then outside (putchar v) else poke a v }"

definition m6502_bus :: "board bus" where
  "m6502_bus = \<lparr>bus_read = (\<lambda>a. outside (mem_read a)), bus_write = (\<lambda>a v. outside (mem_write a v))\<rparr>"

section \<open>History\<close>

text \<open>The line is cut to the 48 bytes of the entry.\<close>

definition hist_push :: "(board, unit) cpu" where
  "hist_push = do {
     c \<leftarrow> reads id;
     (len, buf) \<leftarrow> outside (m6502_disasm mem_read (r_pc c) 48);
     outside (writes (\<lambda>m. m\<lparr>history := (history m)(hist_head m := \<lparr>h_pc = r_pc c, h_sp = r_sp c, h_a = r_a c,
       h_x = r_x c, h_y = r_y c, h_flags = m6502_getP c, h_cycles = cycles c, h_dasm = buf\<rparr>)\<rparr>));
     outside (writes (\<lambda>m. m\<lparr>hist_head := (hist_head m + 1) mod HIST_SIZE\<rparr>));
     outside (writes (\<lambda>m. if hist_count m < HIST_SIZE then m\<lparr>hist_count := hist_count m + 1\<rparr> else m)) }"

section \<open>Displays\<close>

definition bp_hit :: "mon \<Rightarrow> u16 \<Rightarrow> bool" where
  "bp_hit m a = list_ex (\<lambda>b. b = a) (bpoints m)"

definition flag_char :: "u8 \<Rightarrow> u8 \<Rightarrow> char \<Rightarrow> char \<Rightarrow> char" where
  "flag_char p k on off = (if p AND k \<noteq> 0 then on else off)"

definition regs_text_m :: "core \<Rightarrow> string" where
  "regs_text_m c = (let p = m6502_getP c in
     ''PC=$'' @ hex4 (r_pc c) @ '' SP=$'' @ hex2 (r_sp c) @ '' A=$'' @ hex2 (r_a c) @
     '' X=$'' @ hex2 (r_x c) @ '' Y=$'' @ hex2 (r_y c) @ '' P=$'' @ hex2 p @ '' ['' @
     [flag_char p 0x80 CHR ''N'' CHR ''n'', flag_char p 0x40 CHR ''V'' CHR ''v'', CHR ''-'',
      flag_char p 0x08 CHR ''D'' CHR ''d'', flag_char p 0x04 CHR ''I'' CHR ''i'',
      flag_char p 0x02 CHR ''Z'' CHR ''z'', flag_char p 0x01 CHR ''C'' CHR ''c'', CHR '' ''] @ '']'' @ nl)"

definition show_regs_m :: "(board, unit) cpu" where
  "show_regs_m = do { c \<leftarrow> reads id; outside (say_m (regs_text_m c)) }"

text \<open>The second argument is the number of lines left to print.\<close>

fun show_dasm :: "u16 \<Rightarrow> nat \<Rightarrow> (board, unit) cpu" where
  "show_dasm a 0 = ret ()"
| "show_dasm a (Suc n) = do {
     (len, buf) \<leftarrow> outside (m6502_disasm mem_read a 64);
     pc \<leftarrow> reads r_pc;
     hit \<leftarrow> outside (reads (\<lambda>m. bp_hit m a));
     outside (say_m ([if a = pc then CHR ''>'' else if hit then CHR ''*'' else CHR '' '', CHR '' ''] @ buf @ nl));
     let a' = a + of_int len;
     if a' < a' - of_int len then ret () else show_dasm a' n }"

definition mem_row :: "mon \<Rightarrow> u16 \<Rightarrow> u16 \<Rightarrow> string" where
  "mem_row m a e = (let vs = map (\<lambda>i. ram m (a + of_nat i)) (takeWhile (\<lambda>i. a + of_nat i \<le> e) [0..<16]) in
     hex4 a @ '': '' @ concat (map (\<lambda>v. hex2 v @ '' '') vs) @ '' '' @
     map (\<lambda>v. if 32 \<le> v \<and> v < 127 then char_of (unat v) else CHR ''.'') vs @ nl)"

lemma row_advances: "\<not> a + 16 < (a :: u16) \<Longrightarrow> unat a < unat (a + 16)"
proof -
  assume "\<not> a + 16 < a"
  moreover have "a + 16 \<noteq> a" by simp
  ultimately have "a < a + 16" by (metis linorder_neqE)
  then show ?thesis by (simp only: word_less_nat_alt)
qed

function show_mem :: "u16 \<Rightarrow> u16 \<Rightarrow> unit mprog" where
  "show_mem a e = (
     if a \<le> e then do {
       row \<leftarrow> reads (\<lambda>m. mem_row m a e);
       say_m row;
       if a + 16 < a then ret () else show_mem (a + 16) e }
     else ret ())"
  by pat_completeness auto
termination
proof (relation "measure (\<lambda>(a, e). 65536 - unat a)")
  fix a e :: u16 and x :: unit
  assume "\<not> a + 16 < a"
  then have "unat a < unat (a + 16)" by (rule row_advances)
  then show "((a + 16, e), (a, e)) \<in> measure (\<lambda>(a, e). 65536 - unat a)"
    using unat_u16_lt [of "a + 16"] by simp
qed simp

declare show_mem.simps [simp del]

definition show_stack :: "(board, unit) cpu" where
  "show_stack = do {
     sp \<leftarrow> reads r_sp;
     let top = 0x0101 + (ucast sp :: u16);
     outside (say_m (''Stack (SP=$'' @ hex2 sp @ '', $'' @ hex4 top @ ''...$01FF):'' @ nl));
     if sp = 0xff then outside (say_m (''  (empty)'' @ nl))
     else for_each (takeWhile (\<lambda>i. unat top + i \<le> 0x01ff) [0..<16]) (\<lambda>i. do {
       v \<leftarrow> outside (reads (\<lambda>m. ram m (top + of_nat i)));
       outside (say_m (''  $'' @ hex4 (top + of_nat i) @ '': $'' @ hex2 v @ nl)) }) }"

definition hist_index :: "mon \<Rightarrow> nat \<Rightarrow> nat" where
  "hist_index m i = nat ((int (hist_head m) - int (hist_count m) + int i + int HIST_SIZE) mod int HIST_SIZE)"

definition hist_line :: "hist_entry \<Rightarrow> string" where
  "hist_line e = (let p = h_flags e in
     ''  '' @ h_dasm e @ ''  A='' @ hex2 (h_a e) @ '' X='' @ hex2 (h_x e) @ '' Y='' @ hex2 (h_y e) @
     '' SP='' @ hex2 (h_sp e) @ '' P=['' @
     [flag_char p 0x80 CHR ''N'' CHR ''n'', flag_char p 0x40 CHR ''V'' CHR ''v'',
      flag_char p 0x08 CHR ''D'' CHR ''d'', flag_char p 0x04 CHR ''I'' CHR ''i'',
      flag_char p 0x02 CHR ''Z'' CHR ''z'', flag_char p 0x01 CHR ''C'' CHR ''c''] @
     ''] cyc='' @ dec (unat (h_cycles e)) @ nl)"

definition show_history :: "unit mprog" where
  "show_history = do {
     m \<leftarrow> reads id;
     say_m (''Instruction history (oldest first):'' @ nl);
     if hist_count m = 0 then say_m (''  (none)'' @ nl)
     else for_each [0..<hist_count m] (\<lambda>i. say_m (hist_line (history m (hist_index m i)))) }"

end
