(* ===== verification/Monitor_Asm.thy ===== *)
theory Monitor_Asm
  imports Monitor
begin

text \<open>
  The line assembler of \<open>m6502/main.c\<close>: its table, \<open>parse_hex\<close>, \<open>parse_operand\<close>, \<open>asm_line\<close>, the line
  reader and the loop of the command \<open>a\<close>.

  \<open>parse_hex\<close> and \<open>parse_operand\<close> return \<open>None\<close> for 0 and otherwise what they store through their
  pointers.  The loop of the \<open>.byte\<close> directive need not end: it is a partial function whose value
  \<open>None\<close> is a loop that never returns, and \<open>asm_line\<close> passes that on.  The assembler loop has a fuel
  argument; \<open>Monitor_Asm_Props\<close> shows how much is enough.
\<close>

unbundle bit_operations_syntax

section \<open>Numbers\<close>

definition parse_hex :: "string option \<Rightarrow> u32 option" where
  "parse_hex s = (case s of
     None \<Rightarrow> None
   | Some s \<Rightarrow>
       if s = [] then None
       else let (v, r) = strtoul 16 s in
         if r = [] \<or> isspace (char_at r 0) then Some (ucast v) else None)"

section \<open>Table\<close>

definition AM_IMP :: nat where [simp]: "AM_IMP = 0"
definition AM_ACC :: nat where [simp]: "AM_ACC = 1"
definition AM_IMM :: nat where [simp]: "AM_IMM = 2"
definition AM_ZP :: nat where [simp]: "AM_ZP = 3"
definition AM_ZPX :: nat where [simp]: "AM_ZPX = 4"
definition AM_ZPY :: nat where [simp]: "AM_ZPY = 5"
definition AM_ABS :: nat where [simp]: "AM_ABS = 6"
definition AM_ABSX :: nat where [simp]: "AM_ABSX = 7"
definition AM_ABSY :: nat where [simp]: "AM_ABSY = 8"
definition AM_IND :: nat where [simp]: "AM_IND = 9"
definition AM_INDX :: nat where [simp]: "AM_INDX = 10"
definition AM_INDY :: nat where [simp]: "AM_INDY = 11"
definition AM_REL :: nat where [simp]: "AM_REL = 12"

definition asm_tab :: "(string \<times> nat \<times> u8) list" where
  "asm_tab = [
    (''ADC'', AM_IMM, 0x69), (''ADC'', AM_ZP, 0x65), (''ADC'', AM_ZPX, 0x75), (''ADC'', AM_ABS, 0x6D),
    (''ADC'', AM_ABSX, 0x7D), (''ADC'', AM_ABSY, 0x79), (''ADC'', AM_INDX, 0x61), (''ADC'', AM_INDY, 0x71),
    (''AND'', AM_IMM, 0x29), (''AND'', AM_ZP, 0x25), (''AND'', AM_ZPX, 0x35), (''AND'', AM_ABS, 0x2D),
    (''AND'', AM_ABSX, 0x3D), (''AND'', AM_ABSY, 0x39), (''AND'', AM_INDX, 0x21), (''AND'', AM_INDY, 0x31),
    (''ASL'', AM_ACC, 0x0A), (''ASL'', AM_ZP, 0x06), (''ASL'', AM_ZPX, 0x16), (''ASL'', AM_ABS, 0x0E),
    (''ASL'', AM_ABSX, 0x1E), (''BCC'', AM_REL, 0x90), (''BCS'', AM_REL, 0xB0), (''BEQ'', AM_REL, 0xF0),
    (''BIT'', AM_ZP, 0x24), (''BIT'', AM_ABS, 0x2C), (''BMI'', AM_REL, 0x30), (''BNE'', AM_REL, 0xD0),
    (''BPL'', AM_REL, 0x10), (''BRK'', AM_IMP, 0x00), (''BVC'', AM_REL, 0x50), (''BVS'', AM_REL, 0x70),
    (''CLC'', AM_IMP, 0x18), (''CLD'', AM_IMP, 0xD8), (''CLI'', AM_IMP, 0x58), (''CLV'', AM_IMP, 0xB8),
    (''CMP'', AM_IMM, 0xC9), (''CMP'', AM_ZP, 0xC5), (''CMP'', AM_ZPX, 0xD5), (''CMP'', AM_ABS, 0xCD),
    (''CMP'', AM_ABSX, 0xDD), (''CMP'', AM_ABSY, 0xD9), (''CMP'', AM_INDX, 0xC1), (''CMP'', AM_INDY, 0xD1),
    (''CPX'', AM_IMM, 0xE0), (''CPX'', AM_ZP, 0xE4), (''CPX'', AM_ABS, 0xEC), (''CPY'', AM_IMM, 0xC0),
    (''CPY'', AM_ZP, 0xC4), (''CPY'', AM_ABS, 0xCC), (''DEC'', AM_ZP, 0xC6), (''DEC'', AM_ZPX, 0xD6),
    (''DEC'', AM_ABS, 0xCE), (''DEC'', AM_ABSX, 0xDE), (''DEX'', AM_IMP, 0xCA), (''DEY'', AM_IMP, 0x88),
    (''EOR'', AM_IMM, 0x49), (''EOR'', AM_ZP, 0x45), (''EOR'', AM_ZPX, 0x55), (''EOR'', AM_ABS, 0x4D),
    (''EOR'', AM_ABSX, 0x5D), (''EOR'', AM_ABSY, 0x59), (''EOR'', AM_INDX, 0x41), (''EOR'', AM_INDY, 0x51),
    (''INC'', AM_ZP, 0xE6), (''INC'', AM_ZPX, 0xF6), (''INC'', AM_ABS, 0xEE), (''INC'', AM_ABSX, 0xFE),
    (''INX'', AM_IMP, 0xE8), (''INY'', AM_IMP, 0xC8), (''JMP'', AM_ABS, 0x4C), (''JMP'', AM_IND, 0x6C),
    (''JSR'', AM_ABS, 0x20), (''LDA'', AM_IMM, 0xA9), (''LDA'', AM_ZP, 0xA5), (''LDA'', AM_ZPX, 0xB5),
    (''LDA'', AM_ABS, 0xAD), (''LDA'', AM_ABSX, 0xBD), (''LDA'', AM_ABSY, 0xB9), (''LDA'', AM_INDX, 0xA1),
    (''LDA'', AM_INDY, 0xB1), (''LDX'', AM_IMM, 0xA2), (''LDX'', AM_ZP, 0xA6), (''LDX'', AM_ZPY, 0xB6),
    (''LDX'', AM_ABS, 0xAE), (''LDX'', AM_ABSY, 0xBE), (''LDY'', AM_IMM, 0xA0), (''LDY'', AM_ZP, 0xA4),
    (''LDY'', AM_ZPX, 0xB4), (''LDY'', AM_ABS, 0xAC), (''LDY'', AM_ABSX, 0xBC), (''LSR'', AM_ACC, 0x4A),
    (''LSR'', AM_ZP, 0x46), (''LSR'', AM_ZPX, 0x56), (''LSR'', AM_ABS, 0x4E), (''LSR'', AM_ABSX, 0x5E),
    (''NOP'', AM_IMP, 0xEA), (''ORA'', AM_IMM, 0x09), (''ORA'', AM_ZP, 0x05), (''ORA'', AM_ZPX, 0x15),
    (''ORA'', AM_ABS, 0x0D), (''ORA'', AM_ABSX, 0x1D), (''ORA'', AM_ABSY, 0x19), (''ORA'', AM_INDX, 0x01),
    (''ORA'', AM_INDY, 0x11), (''PHA'', AM_IMP, 0x48), (''PHP'', AM_IMP, 0x08), (''PLA'', AM_IMP, 0x68),
    (''PLP'', AM_IMP, 0x28), (''ROL'', AM_ACC, 0x2A), (''ROL'', AM_ZP, 0x26), (''ROL'', AM_ZPX, 0x36),
    (''ROL'', AM_ABS, 0x2E), (''ROL'', AM_ABSX, 0x3E), (''ROR'', AM_ACC, 0x6A), (''ROR'', AM_ZP, 0x66),
    (''ROR'', AM_ZPX, 0x76), (''ROR'', AM_ABS, 0x6E), (''ROR'', AM_ABSX, 0x7E), (''RTI'', AM_IMP, 0x40),
    (''RTS'', AM_IMP, 0x60), (''SBC'', AM_IMM, 0xE9), (''SBC'', AM_ZP, 0xE5), (''SBC'', AM_ZPX, 0xF5),
    (''SBC'', AM_ABS, 0xED), (''SBC'', AM_ABSX, 0xFD), (''SBC'', AM_ABSY, 0xF9), (''SBC'', AM_INDX, 0xE1),
    (''SBC'', AM_INDY, 0xF1), (''SEC'', AM_IMP, 0x38), (''SED'', AM_IMP, 0xF8), (''SEI'', AM_IMP, 0x78),
    (''STA'', AM_ZP, 0x85), (''STA'', AM_ZPX, 0x95), (''STA'', AM_ABS, 0x8D), (''STA'', AM_ABSX, 0x9D),
    (''STA'', AM_ABSY, 0x99), (''STA'', AM_INDX, 0x81), (''STA'', AM_INDY, 0x91), (''STX'', AM_ZP, 0x86),
    (''STX'', AM_ZPY, 0x96), (''STX'', AM_ABS, 0x8E), (''STY'', AM_ZP, 0x84), (''STY'', AM_ZPX, 0x94),
    (''STY'', AM_ABS, 0x8C), (''TAX'', AM_IMP, 0xAA), (''TAY'', AM_IMP, 0xA8), (''TSX'', AM_IMP, 0xBA),
    (''TXA'', AM_IMP, 0x8A), (''TXS'', AM_IMP, 0x9A), (''TYA'', AM_IMP, 0x98)]"

text \<open>The search loop, and the lookup with its two fallbacks; the result is the mode and the opcode.\<close>

definition asm_find :: "string \<Rightarrow> nat \<Rightarrow> u8 option" where
  "asm_find mn mode = map_option (\<lambda>(_, _, b). b) (List.find (\<lambda>(n, k, _). n = mn \<and> k = mode) asm_tab)"

definition abs_mode :: "nat \<Rightarrow> nat" where
  "abs_mode mode = (if mode = AM_ZP then AM_ABS else if mode = AM_ZPX then AM_ABSX else AM_ABSY)"

definition asm_lookup :: "string \<Rightarrow> nat \<Rightarrow> (nat \<times> u8) option" where
  "asm_lookup mn mode = (case asm_find mn mode of
     Some b \<Rightarrow> Some (mode, b)
   | None \<Rightarrow>
       if mode = AM_ZP \<or> mode = AM_ZPX \<or> mode = AM_ZPY
       then map_option (Pair (abs_mode mode)) (asm_find mn (abs_mode mode))
       else if mode = AM_IMP then map_option (Pair AM_ACC) (asm_find mn AM_ACC)
       else None)"

section \<open>Operands\<close>

definition starts_with :: "string \<Rightarrow> string \<Rightarrow> bool" where
  "starts_with pre s \<longleftrightarrow> take (length pre) s = pre"

text \<open>After \<open>(\<close>, and after \<open>$\<close>.\<close>

definition parse_indirect :: "string \<Rightarrow> (nat \<times> u32) option" where
  "parse_indirect s = (
     if char_at s 0 \<noteq> CHR ''$'' then None
     else let (v, p) = strtoul 16 (drop 1 s) in
       if starts_with '',X)'' p \<or> starts_with '',x)'' p then Some (AM_INDX, ucast v)
       else if char_at p 0 = CHR '')'' \<and> char_at p 1 = CHR '','' \<and>
         (char_at p 2 = CHR ''Y'' \<or> char_at p 2 = CHR ''y'') then Some (AM_INDY, ucast v)
       else if char_at p 0 = CHR '')'' then Some (AM_IND, ucast v)
       else None)"

definition parse_direct :: "string \<Rightarrow> (nat \<times> u32) option" where
  "parse_direct s = (let (v, p) = strtoul 16 s;
       ndig = length s - length p;
       zp = (ndig \<le> 2 \<and> (ucast v :: u32) \<le> 0xff)
     in if char_at p 0 = CHR '','' \<and> (char_at p 1 = CHR ''X'' \<or> char_at p 1 = CHR ''x'')
       then Some (if zp then AM_ZPX else AM_ABSX, ucast v)
     else if char_at p 0 = CHR '','' \<and> (char_at p 1 = CHR ''Y'' \<or> char_at p 1 = CHR ''y'')
       then Some (if zp then AM_ZPY else AM_ABSY, ucast v)
     else Some (if zp then AM_ZP else AM_ABS, ucast v))"

definition parse_operand :: "string \<Rightarrow> (nat \<times> u32) option" where
  "parse_operand s = (let s = dropWhile isspace s; c = char_at s 0 in
     if s = [] then Some (AM_IMP, 0)
     else if (c = CHR ''A'' \<or> c = CHR ''a'') \<and> (length s = 1 \<or> isspace (char_at s 1)) then Some (AM_ACC, 0)
     else if c = CHR ''#'' then
       (if char_at s 1 = CHR ''$'' then Some (AM_IMM, ucast (fst (strtoul 16 (drop 2 s))))
        else Some (AM_IMM, ucast (fst (strtoul 10 (drop 1 s)))))
     else if c = CHR ''('' then parse_indirect (drop 1 s)
     else if c = CHR ''$'' then parse_direct (drop 1 s)
     else if isdigit c then Some (AM_ABS, ucast (fst (strtoul 10 s)))
     else None)"

section \<open>Lines\<close>

text \<open>The loop of \<open>.byte\<close>: a round gives the byte it stores and where the next one starts, or ends the loop.  The loop may run
  for ever, and is then \<open>None\<close>: the stores of a call that does not return do not show.\<close>

definition byte_round :: "string \<Rightarrow> (u8 \<times> string) option" where
  "byte_round p = (let p = dropWhile isspace p in
     if p = [] then None
     else let (b, r) = strtoul 16 (if char_at p 0 = CHR ''$'' then drop 1 p else p) in Some (ucast b, r))"

partial_function (option) byte_args :: "string \<Rightarrow> u8 list option" where
  "byte_args p = (case byte_round p of
     None \<Rightarrow> Some []
   | Some (b, r) \<Rightarrow> Option.bind (byte_args r) (\<lambda>bs. Some (b # bs)))"

text \<open>The bytes of an instruction are stored one by one; a branch out of range has stored its opcode.\<close>

definition asm_emit :: "u16 \<Rightarrow> nat \<Rightarrow> u8 \<Rightarrow> u32 \<Rightarrow> int mprog" where
  "asm_emit addr mode opbyte val = do {
     poke addr opbyte;
     if mode = AM_IMP \<or> mode = AM_ACC then ret 1
     else if mode = AM_REL then do {
       let off = sint val - int (unat addr + 2);
       if off < - 128 \<or> 127 < off then do { say_m (''  ? branch out of range'' @ nl); ret (- 1) }
       else do { poke (addr + 1) (word_of_int off); ret 2 } }
     else if mode = AM_ABS \<or> mode = AM_ABSX \<or> mode = AM_ABSY \<or> mode = AM_IND then do {
       poke (addr + 1) (ucast val);
       poke (addr + 2) (ucast (drop_bit 8 val));
       ret 3 }
     else do { poke (addr + 1) (ucast val); ret 2 } }"

definition asm_instruction :: "u16 \<Rightarrow> string \<Rightarrow> int mprog" where
  "asm_instruction addr p = (
     let mn = takeWhile (\<lambda>c. \<not> isspace c) (take 3 p);
         q = dropWhile isspace (drop (length mn) p)
     in case parse_operand q of
       None \<Rightarrow> do { say_m (''  ? bad operand: '' @ q @ nl); ret (- 1) }
     | Some (mode, val) \<Rightarrow>
         (case asm_lookup (map toupper mn) mode of
            None \<Rightarrow> do { say_m (''  ? unknown: '' @ map toupper mn @ '' mode='' @ dec mode @ nl); ret (- 1) }
          | Some (mode', opbyte) \<Rightarrow> asm_emit addr mode' opbyte val))"

definition asm_line :: "u16 \<Rightarrow> string \<Rightarrow> int option mprog" where
  "asm_line addr line = (let p = dropWhile isspace line in
     if p = [] \<or> char_at p 0 = CHR '';'' then ret (Some 0)
     else if starts_nocase ''.byte'' p then
       (case byte_args (drop 5 p) of
          None \<Rightarrow> ret None
        | Some bs \<Rightarrow> do {
            for_each [0..<length bs] (\<lambda>i. poke (addr + of_nat i) (bs ! i));
            ret (Some (int (length bs))) })
     else do { n \<leftarrow> asm_instruction addr p; ret (Some n) })"

section \<open>The assembler loop\<close>

text \<open>\<open>read_line\<close>: at most \<open>n\<close> characters, and whether the input ended.\<close>

fun line_chars :: "nat \<Rightarrow> u8 option list \<Rightarrow> (string \<times> bool) \<times> u8 option list" where
  "line_chars 0 ps = (([], False), ps)"
| "line_chars (Suc n) [] = (([], True), [])"
| "line_chars (Suc n) (None # ps) = line_chars (Suc n) ps"
| "line_chars (Suc n) (Some c # ps) = (
     if c = 13 then line_chars (Suc n) ps
     else if c = 10 then (([], False), ps)
     else case line_chars n ps of ((s, e), r) \<Rightarrow> ((char_of (unat c) # s, e), r))"

definition read_line_m :: "nat \<Rightarrow> (terminal, string option) state" where
  "read_line_m sz = State (\<lambda>t. case line_chars (sz - 1) (t_in t) of
     ((s, eof), r) \<Rightarrow> (if eof \<and> s = [] then None else Some s, t\<lparr>t_in := r\<rparr>))"

text \<open>The result is \<open>None\<close> when a line never returns or the fuel is spent.\<close>

fun assemble_loop :: "nat \<Rightarrow> u16 \<Rightarrow> unit option mprog" where
  "assemble_loop 0 addr = ret None"
| "assemble_loop (Suc k) addr = do {
     say_m (hex4 addr @ '': '');
     l \<leftarrow> outside (read_line_m 128);
     (case l of
        None \<Rightarrow> ret (Some ())
      | Some buf \<Rightarrow>
          if cstr buf = [] then ret (Some ())
          else do {
            n \<leftarrow> asm_line addr (cstr buf);
            (case n of
               None \<Rightarrow> ret None
             | Some n \<Rightarrow>
                 if 0 < n then do {
                   (len, dis) \<leftarrow> m6502_disasm mem_read addr 64;
                   say_m (''  '' @ dis @ nl);
                   assemble_loop k (addr + of_int n) }
                 else assemble_loop k addr) }) }"

definition do_assemble :: "u16 \<Rightarrow> unit option mprog" where
  "do_assemble start = do {
     say_m (''Assembling from $'' @ hex4 start @ ''  (empty line to exit)'' @ nl);
     ps \<leftarrow> outside (State (\<lambda>t. (t_in t, t)));
     assemble_loop (Suc (length ps)) start }"

end
