(* ===== verification/Monitor_Cmd.thy ===== *)
theory Monitor_Cmd
  imports Monitor_Asm
begin

text \<open>
  The commands, the loader, the main loop and the start of \<open>m6502/main.c\<close>.

  The files a command may open are a parameter, \<open>files\<close>: the size \<open>ftell\<close> reports and the bytes
  \<open>fread\<close> delivers, fewer when a read fails.  The lines \<open>fgets\<close> delivers to the monitor are a list
  argument of their own: \<open>stdin\<close> is buffered, so what a \<open>read\<close> of the descriptor sees (the console of
  the machine and the assembler's line reader) is another stream.  A command that never returns has
  the value \<open>None\<close>, and so has the main loop when its fuel is spent.  What goes to \<open>stderr\<close> and the
  terminal settings are left out.
\<close>

unbundle bit_operations_syntax

section \<open>Loader\<close>

record img =
  img_size :: int
  img_bytes :: "u8 list"

type_synonym files = "string \<Rightarrow> img option"

definition load_binary :: "files \<Rightarrow> string \<Rightarrow> u16 \<Rightarrow> int mprog" where
  "load_binary fs path base = (case fs path of
     None \<Rightarrow> ret (- 1)
   | Some f \<Rightarrow>
       if img_size f \<le> 0 \<or> 0x10000 - int (unat base) < img_size f then ret (- 1)
       else do {
         let bs = take (nat (img_size f)) (img_bytes f);
         for_each [0..<length bs] (\<lambda>i. poke (base + of_nat i) (bs ! i));
         if int (length bs) \<noteq> img_size f then ret (- 1)
         else do {
           say_m (''Loaded '' @ decl (img_size f) @ '' bytes at $'' @ hex4 base @ nl);
           ret (img_size f) } })"

section \<open>Commands\<close>

datatype verdict = Go_on | Leave

definition count_cycles :: "int \<Rightarrow> unit mprog" where
  "count_cycles cy = writes (\<lambda>m. m\<lparr>total_cycles := total_cycles m + of_int cy\<rparr>)"

definition watch_text :: "mon \<Rightarrow> string" where
  "watch_text m = ''Watchpoint '' @ (if watch_fired_mode m = 1 then ''READ'' else ''WRITE'') @ '' $'' @
     hex4 (watch_fired_addr m)"

fun step_loop :: "nat \<Rightarrow> (board, unit) cpu" where
  "step_loop 0 = ret ()"
| "step_loop (Suc n) = do {
     run \<leftarrow> outside (reads running);
     whenever run (do {
       pc \<leftarrow> reads r_pc;
       (len, buf) \<leftarrow> outside (m6502_disasm mem_read pc 64);
       outside (say_m (''  '' @ buf @ nl));
       hist_push;
       outside (writes (\<lambda>m. m\<lparr>watch_fired := False\<rparr>));
       cy \<leftarrow> m6502_step m6502_bus;
       outside (count_cycles cy);
       show_regs_m;
       m \<leftarrow> outside (reads id);
       if watch_fired m then outside (say_m (watch_text m @ nl)) else step_loop n }) }"

definition cmd_step :: "string option \<Rightarrow> (board, unit) cpu" where
  "cmd_step a1 = (
     let n = (case a1 of None \<Rightarrow> 1 | Some s \<Rightarrow> int_of_long (fst (strtol 16 s)))
     in step_loop (nat (if n \<le> 0 then 1 else n)))"

definition cmd_continue :: "string option \<Rightarrow> (board, unit) cpu" where
  "cmd_continue a1 = do {
     (case parse_hex a1 of None \<Rightarrow> ret () | Some v \<Rightarrow> writes (\<lambda>c. c\<lparr>r_pc := ucast v\<rparr>));
     outside (writes (\<lambda>m. m\<lparr>in_monitor := False\<rparr>));
     outside (say_m (''Running...'' @ nl)) }"

definition cmd_dis :: "string option \<Rightarrow> string option \<Rightarrow> (board, unit) cpu" where
  "cmd_dis a1 a2 = do {
     pc \<leftarrow> reads r_pc;
     let start = (case parse_hex a1 of None \<Rightarrow> pc | Some v \<Rightarrow> ucast v);
     let n = (case a2 of None \<Rightarrow> 10 | Some s \<Rightarrow> int_of_long (fst (strtol 10 s)));
     show_dasm start (nat n) }"

definition cmd_regs :: "(board, unit) cpu" where
  "cmd_regs = do {
     show_regs_m;
     t \<leftarrow> outside (reads total_cycles);
     outside (say_m (''Cycles: '' @ dec (unat t) @ nl)) }"

definition set_reg :: "string \<Rightarrow> u32 \<Rightarrow> (core \<Rightarrow> core) option" where
  "set_reg reg v = (
     if same_nocase reg ''pc'' then Some (\<lambda>c. c\<lparr>r_pc := ucast v\<rparr>)
     else if same_nocase reg ''sp'' then Some (\<lambda>c. c\<lparr>r_sp := ucast v\<rparr>)
     else if same_nocase reg ''a'' then Some (\<lambda>c. c\<lparr>r_a := ucast v\<rparr>)
     else if same_nocase reg ''x'' then Some (\<lambda>c. c\<lparr>r_x := ucast v\<rparr>)
     else if same_nocase reg ''y'' then Some (\<lambda>c. c\<lparr>r_y := ucast v\<rparr>)
     else if same_nocase reg ''p'' then Some (\<lambda>c. m6502_setP (ucast v) c)
     else None)"

definition cmd_set :: "string option \<Rightarrow> string option \<Rightarrow> (board, unit) cpu" where
  "cmd_set a1 a2 = (case (a1, parse_hex a2) of
     (Some reg, Some v) \<Rightarrow> do {
       (case set_reg reg v of
          Some f \<Rightarrow> writes f
        | None \<Rightarrow> outside (say_m (''Unknown register: '' @ reg @ nl)));
       show_regs_m }
   | _ \<Rightarrow> outside (say_m (''Usage: set <reg> <hex-val>'' @ nl)))"

definition cmd_mem :: "string option \<Rightarrow> string option \<Rightarrow> unit mprog" where
  "cmd_mem a1 a2 = (
     let (s, e) = (case parse_hex a1 of None \<Rightarrow> (0, 0x00ff) | Some v \<Rightarrow> (ucast v, ucast (v + 0xff)));
         e = (case parse_hex a2 of None \<Rightarrow> e | Some v \<Rightarrow> ucast v);
         e = (if e < s then s else e)
     in show_mem s e)"

text \<open>The loop of the command \<open>e\<close>; \<open>at\<close> moves on for the tokens that are numbers.\<close>

fun enter_loop :: "u16 \<Rightarrow> string list \<Rightarrow> unit mprog" where
  "enter_loop a [] = ret ()"
| "enter_loop a (b # bs) = (case parse_hex (Some b) of
     None \<Rightarrow> enter_loop a bs
   | Some v \<Rightarrow> do { poke a (ucast v); enter_loop (a + 1) bs })"

text \<open>The loop starts with the second argument and goes on with what \<open>strtok\<close> returns next, which is
  what follows the third argument.\<close>

definition cmd_enter :: "string list \<Rightarrow> unit mprog" where
  "cmd_enter toks = (case parse_hex (nth_opt toks 1) of
     None \<Rightarrow> say_m (''Usage: e <addr> <byte>...'' @ nl)
   | Some v \<Rightarrow> enter_loop (ucast v) (case nth_opt toks 2 of None \<Rightarrow> [] | Some b \<Rightarrow> b # drop 4 toks))"

function fill_loop :: "u16 \<Rightarrow> u16 \<Rightarrow> u8 \<Rightarrow> unit mprog" where
  "fill_loop a e v = do { poke a v; if a = e then ret () else fill_loop (a + 1) e v }"
  by pat_completeness auto
termination
proof (relation "measure (\<lambda>(a, e, v). unat (e - a))")
  fix a e :: u16 and v :: u8 and x :: unit
  assume "a \<noteq> e"
  then have "e - a \<noteq> 0" by simp
  then have "unat (e - a - 1) < unat (e - a)" by (simp add: unat_minus_one unat_gt_0)
  then show "((a + 1, e, v), (a, e, v)) \<in> measure (\<lambda>(a, e, v). unat (e - a))"
    by (simp add: diff_diff_eq)
qed simp

declare fill_loop.simps [simp del]

definition cmd_fill :: "string option \<Rightarrow> string option \<Rightarrow> string option \<Rightarrow> unit mprog" where
  "cmd_fill a1 a2 a3 = (case (parse_hex a1, parse_hex a2, parse_hex a3) of
     (Some v1, Some v2, Some v3) \<Rightarrow> do {
       let s = ucast v1; let e = ucast v2; let v = ucast v3;
       fill_loop s e v;
       say_m (''Filled $'' @ hex4 s @ ''..$'' @ hex4 e @ '' with $'' @ hex2 v @ nl) }
   | _ \<Rightarrow> say_m (''Usage: f <start> <end> <byte>'' @ nl))"

definition cmd_asm :: "string option \<Rightarrow> (board, unit option) cpu" where
  "cmd_asm a1 = do {
     pc \<leftarrow> reads r_pc;
     outside (do_assemble (case parse_hex a1 of None \<Rightarrow> pc | Some v \<Rightarrow> ucast v)) }"

section \<open>Breakpoints and watchpoints\<close>

fun remove_first :: "('a \<Rightarrow> bool) \<Rightarrow> 'a list \<Rightarrow> 'a list" where
  "remove_first P [] = []"
| "remove_first P (x # xs) = (if P x then xs else x # remove_first P xs)"

definition cmd_break :: "string option \<Rightarrow> unit mprog" where
  "cmd_break a1 = do {
     bs \<leftarrow> reads bpoints;
     case a1 of
       None \<Rightarrow>
         if bs = [] then say_m (''No breakpoints'' @ nl)
         else for_each [0..<length bs] (\<lambda>i. say_m (''  '' @ dec (i + 1) @ '': $'' @ hex4 (bs ! i) @ nl))
     | Some s \<Rightarrow> (case parse_hex (Some s) of
         None \<Rightarrow> ret ()
       | Some v \<Rightarrow>
           if MAX_BREAK \<le> length bs then say_m (''Too many breakpoints'' @ nl)
           else if list_ex (\<lambda>b. b = ucast v) bs then say_m (''Already set'' @ nl)
           else do {
             writes (\<lambda>m. m\<lparr>bpoints := bs @ [ucast v]\<rparr>);
             say_m (''Breakpoint '' @ dec (length bs + 1) @ '' at $'' @ hex4 (ucast v) @ nl) }) }"

definition cmd_break_clear :: "string option \<Rightarrow> unit mprog" where
  "cmd_break_clear a1 = (case parse_hex a1 of
     None \<Rightarrow> ret ()
   | Some v \<Rightarrow> do {
       bs \<leftarrow> reads bpoints;
       if list_ex (\<lambda>b. b = ucast v) bs then do {
         writes (\<lambda>m. m\<lparr>bpoints := remove_first (\<lambda>b. b = ucast v) bs\<rparr>);
         say_m (''Cleared breakpoint at $'' @ hex4 (ucast v) @ nl) }
       else say_m (''No breakpoint at $'' @ hex4 (ucast v) @ nl) })"

definition mode_text :: "int \<Rightarrow> string" where
  "mode_text k = [[], ''r'', ''w'', ''rw''] ! nat k"

definition cmd_watch :: "string option \<Rightarrow> string option \<Rightarrow> unit mprog" where
  "cmd_watch a1 a2 = do {
     ws \<leftarrow> reads watches;
     case a1 of
       None \<Rightarrow>
         if ws = [] then say_m (''No watchpoints'' @ nl)
         else for_each [0..<length ws] (\<lambda>i. say_m (''  '' @ dec (i + 1) @ '': $'' @ hex4 (w_addr (ws ! i)) @
           '' ['' @ mode_text (w_mode (ws ! i)) @ '']'' @ nl))
     | Some s \<Rightarrow> (case parse_hex (Some s) of
         None \<Rightarrow> ret ()
       | Some v \<Rightarrow> do {
           let k = (case a2 of None \<Rightarrow> 3
             | Some t \<Rightarrow> if same_nocase t ''r'' then 1 else if same_nocase t ''w'' then 2 else 3);
           if MAX_WATCH \<le> length ws then say_m (''Too many watchpoints'' @ nl)
           else do {
             writes (\<lambda>m. m\<lparr>watches := ws @ [\<lparr>w_addr = ucast v, w_mode = k\<rparr>]\<rparr>);
             say_m (''Watchpoint at $'' @ hex4 (ucast v) @ '' ['' @
               (if k = 1 then ''r'' else if k = 2 then ''w'' else ''rw'') @ '']'' @ nl) } }) }"

definition cmd_watch_clear :: "string option \<Rightarrow> unit mprog" where
  "cmd_watch_clear a1 = (case parse_hex a1 of
     None \<Rightarrow> ret ()
   | Some v \<Rightarrow> do {
       ws \<leftarrow> reads watches;
       if list_ex (\<lambda>w. w_addr w = ucast v) ws then do {
         writes (\<lambda>m. m\<lparr>watches := remove_first (\<lambda>w. w_addr w = ucast v) ws\<rparr>);
         say_m (''Cleared watchpoint at $'' @ hex4 (ucast v) @ nl) }
       else say_m (''No watchpoint at $'' @ hex4 (ucast v) @ nl) })"

section \<open>Interrupts, reset, load\<close>

definition cmd_trace :: "unit mprog" where
  "cmd_trace = do {
     writes (\<lambda>m. m\<lparr>trace_m := \<not> trace_m m\<rparr>);
     t \<leftarrow> reads trace_m;
     say_m (''Trace '' @ (if t then ''ON'' else ''OFF'') @ nl) }"

definition cmd_irq :: "(board, unit) cpu" where
  "cmd_irq = do {
     cy \<leftarrow> m6502_irq m6502_bus;
     outside (count_cycles cy);
     if cy = 0 then outside (say_m (''IRQ ignored (I flag set)'' @ nl))
     else do { outside (say_m (''IRQ'' @ nl)); show_regs_m } }"

definition cmd_nmi :: "(board, unit) cpu" where
  "cmd_nmi = do {
     cy \<leftarrow> m6502_nmi m6502_bus;
     outside (count_cycles cy);
     outside (say_m (''NMI'' @ nl));
     show_regs_m }"

definition cmd_reset :: "(board, unit) cpu" where
  "cmd_reset = do {
     outside (writes (\<lambda>m. m\<lparr>ram := (\<lambda>_. 0)\<rparr>));
     outside (writes (\<lambda>m. m\<lparr>total_cycles := 0, hist_count := 0, hist_head := 0, bpoints := [], watches := []\<rparr>));
     m6502_reset m6502_bus;
     outside (writes (\<lambda>m. m\<lparr>total_cycles := 7\<rparr>));
     outside (say_m (''CPU reset'' @ nl));
     show_regs_m }"

text \<open>The reset vector is pointed at the loaded program, by the command and by \<open>main\<close>.\<close>

definition set_vector :: "u16 \<Rightarrow> unit mprog" where
  "set_vector a = do { poke 0xfffc (ucast a); poke 0xfffd (ucast (drop_bit 8 a)) }"

definition cmd_load :: "files \<Rightarrow> string option \<Rightarrow> string option \<Rightarrow> (board, unit) cpu" where
  "cmd_load fs a1 a2 = (case a1 of
     None \<Rightarrow> outside (say_m (''Usage: load <file> [addr]'' @ nl))
   | Some f \<Rightarrow> do {
       let base = (case parse_hex a2 of None \<Rightarrow> CODE_START | Some v \<Rightarrow> ucast v);
       n \<leftarrow> outside (load_binary fs f base);
       whenever (0 \<le> n) (do {
         writes (\<lambda>c. c\<lparr>r_pc := base\<rparr>);
         outside (set_vector base);
         show_regs_m }) })"

definition show_help :: "unit mprog" where
  "show_help = say_m (concat (map (\<lambda>l. l @ nl) [
    [],
    ''Monitor commands (all numbers hex unless noted):'',
    ''  s [n]              step n instructions (default 1)'',
    ''  c / g [addr]       continue; g sets PC first'',
    ''  d [addr] [n]       disassemble (default: PC, 10 lines)'',
    ''  r                  show registers'',
    ''  set <reg> <val>    set register: pc sp a x y p'',
    ''  m [start] [end]    memory dump (default $0000..$00FF)'',
    ''  e <addr> <b>...    enter bytes'',
    ''  f <s> <e> <v>      fill memory s..e with byte v'',
    ''  a [addr]           assemble at addr (default PC)'',
    ''  b [addr]           set/list breakpoints'',
    ''  bc <addr>          clear breakpoint'',
    ''  w <addr> [r|w|rw]  set watchpoint (default rw)'',
    ''  wc <addr>          clear watchpoint'',
    ''  k                  stack dump'',
    ''  hist               instruction history'',
    ''  t                  toggle trace'',
    ''  irq                inject IRQ'',
    ''  nmi                inject NMI'',
    ''  reset              reset CPU'',
    ''  load <file> [addr] load binary (default $0800)'',
    ''  q                  quit'',
    ''  h / ?              this help'',
    [],
    ''Markers: '>' current PC, '*' breakpoint'',
    [],
    ''Nano BASIC (load at $0800, entry $0800):'',
    ''  from shell:    m6502 -r -a 800 basic/basic.bin'',
    ''  from monitor:  load basic/basic.bin 800  then  g'',
    []]))"

section \<open>The monitor\<close>

definition and_go :: "(board, unit) cpu \<Rightarrow> (board, verdict option) cpu" where
  "and_go m = do { m; ret (Some Go_on) }"

definition named :: "string \<Rightarrow> string list \<Rightarrow> bool" where
  "named t ns = list_ex (\<lambda>n. n = t) ns"

text \<open>One line of input, as its tokens.\<close>

definition monitor_command :: "files \<Rightarrow> string list \<Rightarrow> (board, verdict option) cpu" where
  "monitor_command fs toks = (case toks of
     [] \<Rightarrow> ret (Some Go_on)
   | t # _ \<Rightarrow>
     (let a1 = nth_opt toks 1; a2 = nth_opt toks 2; a3 = nth_opt toks 3 in
      if named t [''s'', ''step''] then and_go (cmd_step a1)
      else if named t [''c'', ''g'', ''cont''] then do { cmd_continue a1; ret (Some Leave) }
      else if named t [''d'', ''dis''] then and_go (cmd_dis a1 a2)
      else if named t [''r'', ''regs''] then and_go cmd_regs
      else if named t [''set''] then and_go (cmd_set a1 a2)
      else if named t [''m'', ''mem''] then and_go (outside (cmd_mem a1 a2))
      else if named t [''e'', ''enter''] then and_go (outside (cmd_enter toks))
      else if named t [''f'', ''fill''] then and_go (outside (cmd_fill a1 a2 a3))
      else if named t [''a'', ''asm''] then do { r \<leftarrow> cmd_asm a1; ret (map_option (\<lambda>_. Go_on) r) }
      else if named t [''b'', ''break''] then and_go (outside (cmd_break a1))
      else if named t [''bc''] then and_go (outside (cmd_break_clear a1))
      else if named t [''w'', ''watch''] then and_go (outside (cmd_watch a1 a2))
      else if named t [''wc''] then and_go (outside (cmd_watch_clear a1))
      else if named t [''k'', ''stack''] then and_go show_stack
      else if named t [''hist'', ''history''] then and_go (outside show_history)
      else if named t [''t'', ''trace''] then and_go (outside cmd_trace)
      else if named t [''irq''] then and_go cmd_irq
      else if named t [''nmi''] then and_go cmd_nmi
      else if named t [''reset''] then and_go cmd_reset
      else if named t [''load''] then and_go (cmd_load fs a1 a2)
      else if named t [''q'', ''quit''] then do {
        outside (writes (\<lambda>m. m\<lparr>running := False\<rparr>)); ret (Some Leave) }
      else if named t [''h'', ''?'', ''help''] then and_go (outside show_help)
      else and_go (outside (say_m (''Unknown command '' @ [CHR 0x27] @ t @ [CHR 0x27] @ '' (h for help)'' @ nl)))))"

definition is_delim :: "char \<Rightarrow> bool" where
  "is_delim c \<longleftrightarrow> c = CHR '' '' \<or> c = CHR 0x09 \<or> c = CHR 0x0A"

definition chomp :: "string \<Rightarrow> string" where
  "chomp s = (if s \<noteq> [] \<and> last s = CHR 0x0A then butlast s else s)"

fun monitor_loop :: "files \<Rightarrow> string list \<Rightarrow> (board, string list option) cpu" where
  "monitor_loop fs [] = do {
     run \<leftarrow> outside (reads running);
     whenever run (do { outside (say_m ''$> ''); outside (writes (\<lambda>m. m\<lparr>running := False\<rparr>)) });
     ret (Some []) }"
| "monitor_loop fs (l # ls) = do {
     run \<leftarrow> outside (reads running);
     if \<not> run then ret (Some (l # ls))
     else do {
       outside (say_m ''$> '');
       v \<leftarrow> monitor_command fs (tokens is_delim (chomp (cstr l)));
       (case v of
          None \<Rightarrow> ret None
        | Some Leave \<Rightarrow> ret (Some ls)
        | Some Go_on \<Rightarrow> monitor_loop fs ls) } }"

definition run_monitor :: "files \<Rightarrow> string list \<Rightarrow> (board, string list option) cpu" where
  "run_monitor fs ls = do {
     outside (say_m (nl @ ''--- 6502 Monitor  (h for help) ---'' @ nl));
     show_regs_m;
     pc \<leftarrow> reads r_pc;
     show_dasm pc 3;
     monitor_loop fs ls }"

section \<open>The main loop\<close>

definition enter_monitor :: "unit mprog" where
  "enter_monitor = writes (\<lambda>m. m\<lparr>in_monitor := True\<rparr>)"

definition run_instruction :: "(board, unit) cpu" where
  "run_instruction = do {
     pc \<leftarrow> reads r_pc;
     tr \<leftarrow> outside (reads trace_m);
     whenever tr (do {
       (len, buf) \<leftarrow> outside (m6502_disasm mem_read pc 64);
       outside (say_m (buf @ ''  '')) });
     hist_push;
     outside (writes (\<lambda>m. m\<lparr>watch_fired := False\<rparr>));
     cy \<leftarrow> m6502_step m6502_bus;
     outside (count_cycles cy);
     whenever tr show_regs_m;
     m \<leftarrow> outside (reads id);
     whenever (watch_fired m) (do {
       outside (say_m (nl @ watch_text m @ ''  (cycles='' @ dec (unat (total_cycles m)) @ '')'' @ nl));
       show_regs_m;
       outside enter_monitor }) }"

text \<open>One round of the loop.\<close>

definition run_once :: "files \<Rightarrow> string list \<Rightarrow> (board, string list option) cpu" where
  "run_once fs ls = do {
     m \<leftarrow> outside (reads id);
     pc \<leftarrow> reads r_pc;
     if in_monitor m then do {
       r \<leftarrow> run_monitor fs ls;
       outside (writes (\<lambda>m. if running m then m\<lparr>in_monitor := False\<rparr> else m));
       ret r }
     else if bp_hit m pc then do {
       outside (say_m (nl @ ''Breakpoint at $'' @ hex4 pc @ nl));
       show_regs_m;
       outside enter_monitor;
       ret (Some ls) }
     else if ram m pc = 0 then do {
       outside (say_m (nl @ ''BRK at $'' @ hex4 pc @ '' (cycles='' @ dec (unat (total_cycles m)) @ '')'' @ nl));
       writes (\<lambda>c. c\<lparr>r_pc := r_pc c + 1\<rparr>);
       show_regs_m;
       outside enter_monitor;
       ret (Some ls) }
     else do { run_instruction; ret (Some ls) } }"

fun run_loop :: "files \<Rightarrow> nat \<Rightarrow> string list \<Rightarrow> (board, string list option) cpu" where
  "run_loop fs 0 ls = ret None"
| "run_loop fs (Suc k) ls = do {
     run \<leftarrow> outside (reads running);
     if \<not> run then ret (Some ls)
     else do {
       r \<leftarrow> run_once fs ls;
       (case r of None \<Rightarrow> ret None | Some ls' \<Rightarrow> run_loop fs k ls') } }"

section \<open>Start\<close>

datatype args_outcome = Args_ok "string option" u16 | Args_help | Args_unknown string

fun parse_args :: "string list \<Rightarrow> string option \<Rightarrow> u16 \<Rightarrow> args_outcome mprog" where
  "parse_args [] file base = ret (Args_ok file base)"
| "parse_args (a # as) file base = (
     if a = ''-r'' then do { writes (\<lambda>m. m\<lparr>in_monitor := False\<rparr>); parse_args as file base }
     else if a = ''-t'' then do { writes (\<lambda>m. m\<lparr>trace_m := True\<rparr>); parse_args as file base }
     else if a = ''-a'' \<and> as \<noteq> [] then
       parse_args (tl as) file (case parse_hex (Some (hd as)) of None \<Rightarrow> base | Some v \<Rightarrow> ucast v)
     else if a = ''-h'' then ret Args_help
     else if char_at a 0 \<noteq> CHR ''-'' then parse_args as (Some a) base
     else ret (Args_unknown a))"

definition usage :: "string \<Rightarrow> unit mprog" where
  "usage prog = say_m (''Usage: '' @ prog @ '' [options] [binary]'' @ nl @
     ''  -r          run immediately (skip initial monitor)'' @ nl @
     ''  -t          enable trace'' @ nl @
     ''  -a <addr>   load address (hex, default '' @ hex4 CODE_START @ '')'' @ nl @
     ''  binary      flat binary to load'' @ nl @
     nl @ ''Nano BASIC:  '' @ prog @ '' -r -a 800 basic/basic.bin'' @ nl)"

text \<open>\<open>main\<close> from the parsed options on: \<open>None\<close> is a failed load, exit status 1.\<close>

definition boot :: "files \<Rightarrow> string option \<Rightarrow> u16 \<Rightarrow> (board, unit option) cpu" where
  "boot fs file base = do {
     outside (writes (\<lambda>m. m\<lparr>ram := (\<lambda>_. 0)\<rparr>));
     writes m6502_init;
     ok \<leftarrow> (case file of
       None \<Rightarrow> ret True
     | Some f \<Rightarrow> do {
         n \<leftarrow> outside (load_binary fs f base);
         whenever (0 \<le> n) (outside (set_vector base));
         ret (0 \<le> n) });
     if \<not> ok then ret None
     else do {
       m6502_reset m6502_bus;
       outside (writes (\<lambda>m. m\<lparr>total_cycles := 7\<rparr>));
       pc \<leftarrow> reads r_pc;
       outside (say_m (''m6502  --  PC=$'' @ hex4 pc @ ''  (h for help)'' @ nl));
       ret (Some ()) } }"

text \<open>The exit status; \<open>None\<close> is a run that goes on.\<close>

definition main_m :: "files \<Rightarrow> string \<Rightarrow> string list \<Rightarrow> nat \<Rightarrow> string list \<Rightarrow> (board, int option) cpu" where
  "main_m fs prog args k ls = do {
     o1 \<leftarrow> outside (parse_args args None CODE_START);
     (case o1 of
        Args_help \<Rightarrow> do { outside (usage prog); ret (Some 0) }
      | Args_unknown a \<Rightarrow> do { outside (usage prog); ret (Some 1) }
      | Args_ok file base \<Rightarrow> do {
          b \<leftarrow> boot fs file base;
          (case b of
             None \<Rightarrow> ret (Some 1)
           | Some _ \<Rightarrow> do {
               r \<leftarrow> run_loop fs k ls;
               (case r of
                  None \<Rightarrow> ret None
                | Some _ \<Rightarrow> do {
                    t \<leftarrow> outside (reads total_cycles);
                    outside (say_m (nl @ ''Done.  Total cycles: '' @ dec (unat t) @ nl));
                    ret (Some 0) }) }) }) }"

end
