(* ===== verification/Monitor_Bus.thy ===== *)
theory Monitor_Bus
  imports Monitor_Cmd M6502_Stack
begin

text \<open>
  The bus of \<open>m6502/main.c\<close> under the contracts of the CPU: the simulation of the machine by itself with
  other debugger tables, the frame of the callbacks, and the stack page.
\<close>
unbundle bit_operations_syntax

section \<open>The callbacks\<close>

abbreviation fire :: "u16 \<Rightarrow> int \<Rightarrow> mon \<Rightarrow> mon" where
  "fire a k m \<equiv> (if list_ex (watch_hits a k) (watches m)
     then m\<lparr>watch_fired := True, watch_fired_addr := a, watch_fired_mode := k\<rparr> else m)"

lemma for_each_same:
  assumes "\<And>m. f (f m) = f m"
  shows "run_state (for_each ws (\<lambda>w. whenever (P w) (writes f))) (m, t) = ((), (if list_ex P ws then f m else m, t))"
  by (induction ws arbitrary: m) (simp_all add: assms)

lemma run_check_watch: "run_state (check_watch a k) (m, t) = ((), (fire a k m, t))"
  by (simp add: check_watch_def for_each_same)

lemma run_poke [simp]: "run_state (poke a v) (m, t) = ((), (m\<lparr>ram := (ram m)(a := v)\<rparr>, t))"
  by (simp add: poke_def)

lemma run_say_m [simp]: "run_state (say_m s) (m, t) = ((), (m, t\<lparr>t_out := t_out t @ s\<rparr>))"
  by (simp add: say_m_def put_text_def)

lemma io_addresses [simp]: "IO_OUT = 0xF001" "IO_IN_STAT = 0xF002" "IO_IN_DATA = 0xF003" "IO_BRK = 0xF004"
  by (simp_all add: IO_OUT_def IO_IN_STAT_def IO_IN_DATA_def IO_BRK_def)

lemma run_mem_write:
  "run_state (mem_write a v) (m, t) = ((), (if a = 0xF001 then (fire a 2 m, exec (putchar v) t)
     else ((fire a 2 m)\<lparr>ram := (ram m)(a := v)\<rparr>, t)))"
  by (simp add: mem_write_def run_check_watch)

lemma run_mem_read_ram:
  "a \<notin> {0xF002, 0xF003, 0xF004} \<Longrightarrow> run_state (mem_read a) (m, t) = (ram m a, (fire a 1 m, t))"
  by (simp add: mem_read_def run_check_watch)

text \<open>Reads leave the memory and the tables of the debugger alone.\<close>

abbreviation tables :: "mon \<Rightarrow> (u16 \<Rightarrow> u8) \<times> watch list \<times> u16 list \<times> (nat \<Rightarrow> hist_entry) \<times> nat \<times> nat \<times> bool" where
  "tables m \<equiv> (ram m, watches m, bpoints m, history m, hist_head m, hist_count m, in_monitor m)"

lemma keeps_io: "keeps (on_struct (\<lambda>m. tables m = T)) io_peek_m" "keeps (on_struct (\<lambda>m. tables m = T)) io_getc_m"
proof -
  have k: "keeps P (case p of Ready c \<Rightarrow> f c | Eof \<Rightarrow> g | Idle \<Rightarrow> h)"
    if "\<And>c. keeps P (f c)" "keeps P g" "keeps P h" for P :: "board \<Rightarrow> bool" and p and f and g h :: "bool mprog"
    using that by (cases p) simp_all
  show "keeps (on_struct (\<lambda>m. tables m = T)) io_peek_m"
    unfolding io_peek_m_def by (intro keeps_rules k; simp)
  have o: "keeps P (case p of Some c \<Rightarrow> f c | None \<Rightarrow> g)"
    if "\<And>c. keeps P (f c)" "keeps P g" for P :: "board \<Rightarrow> bool" and p :: "u8 option" and f and g :: "u8 mprog"
    using that by (cases p) simp_all
  show "keeps (on_struct (\<lambda>m. tables m = T)) io_getc_m"
    unfolding io_getc_m_def by (intro keeps_rules o; simp)
qed

lemma keeps_mem_read: "keeps (on_struct (\<lambda>m. tables m = T)) (mem_read a)"
  unfolding mem_read_def check_watch_def by (intro keeps_rules keeps_io; simp)

lemma mem_read_frame: "tables (fst (exec (mem_read a) w)) = tables (fst w)"
  using keepsD [OF keeps_mem_read [of "tables (fst w)"], of w] by blast

section \<open>Debugger tables\<close>

text \<open>Two boards that differ at most in watchpoints, breakpoints, history and the monitor's own flags.\<close>

definition alike :: "board \<Rightarrow> board \<Rightarrow> bool" where
  "alike w v \<longleftrightarrow> ram (fst w) = ram (fst v) \<and> io_staged_m (fst w) = io_staged_m (fst v) \<and>
     break_pending_m (fst w) = break_pending_m (fst v) \<and> running (fst w) = running (fst v) \<and> snd w = snd v"

lemma io_alike:
  assumes "alike w v"
  shows "result io_peek_m w = result io_peek_m v \<and> alike (exec io_peek_m w) (exec io_peek_m v)"
    and "result io_getc_m w = result io_getc_m v \<and> alike (exec io_getc_m w) (exec io_getc_m v)"
  using assms by (cases w; cases v; simp add: alike_def io_peek_m_def io_getc_m_def split: option.split poll.split)+

lemma fire_alike: "alike (m, t) (m', t') \<Longrightarrow> alike (fire a k m, t) (fire a k m', t')"
  by (simp add: alike_def)

lemma mem_read_alike:
  assumes "alike w v"
  shows "result (mem_read a) w = result (mem_read a) v \<and> alike (exec (mem_read a) w) (exec (mem_read a) v)"
proof -
  obtain m t m' t' where p: "w = (m, t)" "v = (m', t')" by (cases w, cases v)
  obtain m1 where r: "run_state (check_watch a 1) (m, t) = ((), (m1, t))" "m1 = fire a 1 m"
    by (simp add: run_check_watch)
  obtain m2 where r': "run_state (check_watch a 1) (m', t') = ((), (m2, t'))" "m2 = fire a 1 m'"
    by (simp add: run_check_watch)
  have f: "alike (m1, t) (m2, t')" using fire_alike assms by (simp only: p r r')
  note run = p mem_read_def run_bind_split r(1) r'(1) fst_conv snd_conv
  consider "a = IO_IN_STAT" | "a = IO_IN_DATA" | "a = IO_BRK" | "a \<notin> {0xF002, 0xF003, 0xF004}" by auto
  then show ?thesis
  proof cases
    case 1
    show ?thesis unfolding run using 1 io_alike(1) [OF f] by (simp add: case_prod_beta)
  next
    case 2
    show ?thesis unfolding run using 2 io_alike(2) [OF f] by simp
  next
    case 3
    show ?thesis unfolding run using 3 f by (simp add: alike_def)
  next
    case 4
    show ?thesis unfolding run using 4 f by (simp add: alike_def)
  qed
qed

lemma mem_write_alike:
  "alike w v \<Longrightarrow> alike (exec (mem_write a x) w) (exec (mem_write a x) v)"
  by (cases w; cases v) (simp add: alike_def run_mem_write)

interpretation debugger: bus_sim m6502_bus m6502_bus alike
  by unfold_locales (auto simp: sim_def m6502_bus_def mem_read_alike mem_write_alike)

section \<open>Frame and stack\<close>

lemma m6502_bus_core:
  "fst (exec (bus_read m6502_bus a) (s, w)) = s" "fst (exec (bus_write m6502_bus a x) (s, w)) = s"
  by (simp_all add: m6502_bus_def)

lemma core_same: "\<exists>n. s = (s :: core)\<lparr>cycles := n\<rparr>"
  by (rule exI [of _ "cycles s"]) simp

interpretation flat_frame: bus_frame m6502_bus
  by unfold_locales (simp_all only: m6502_bus_core core_same)

lemma stack_page_flat: "stack_addr p \<noteq> 0xF001" "stack_addr p \<noteq> 0xF002" "stack_addr p \<noteq> 0xF003" "stack_addr p \<noteq> 0xF004"
proof -
  have "\<not> bit (stack_addr p) 15" by (auto simp: stack_addr_def bit_simps dest: bit_imp_le_length)
  then show "stack_addr p \<noteq> 0xF001" "stack_addr p \<noteq> 0xF002" "stack_addr p \<noteq> 0xF003" "stack_addr p \<noteq> 0xF004"
    by auto
qed

interpretation flat_stack: stack_bus m6502_bus "\<lambda>_. True" "\<lambda>w p. ram (fst w) (stack_addr p)"
proof
  fix a :: u16 and p x :: u8 and s :: core and w :: board
  show "True \<and> (\<lambda>p. ram (fst (snd (exec (bus_read m6502_bus a) (s, w)))) (stack_addr p)) = (\<lambda>p. ram (fst w) (stack_addr p))"
    using mem_read_frame [of a w] by (simp add: m6502_bus_def)
  show "result (bus_read m6502_bus (stack_addr p)) (s, w) = ram (fst w) (stack_addr p)"
    by (cases w) (simp add: m6502_bus_def run_mem_read_ram stack_page_flat)
  show "True \<and> (\<lambda>q. ram (fst (snd (exec (bus_write m6502_bus (stack_addr p) x) (s, w)))) (stack_addr q)) =
      (\<lambda>q. ram (fst w) (stack_addr q))(p := x)"
    by (cases w) (simp add: m6502_bus_def run_mem_write stack_page_flat fun_eq_iff)
qed

end
