(* ===== verification/Monitor_Props.thy ===== *)
theory Monitor_Props
  imports Monitor_Bus
begin

text \<open>
  The properties of the monitor of \<open>m6502/main.c\<close>: its tables do not change what a program does, the
  history is the window of the last sixteen instructions, and what the commands do to memory and to
  the breakpoint table.
\<close>
unbundle bit_operations_syntax

section \<open>Loops that store\<close>

lemma for_each_append: "for_each (xs @ ys) f = for_each xs f \<bind> (\<lambda>_. for_each ys f)"
  by (induction xs) (simp_all add: State_Monad.bind_assoc)

text \<open>Storing a list of bytes at consecutive addresses.\<close>

lemma poke_all:
  "n \<le> 65536 \<Longrightarrow> run_state (for_each [0..<n] (\<lambda>i. poke (base + of_nat i) (f i))) (m, t) =
    ((), (m\<lparr>ram := (\<lambda>a. if unat (a - base) < n then f (unat (a - base)) else ram m a)\<rparr>, t))"
proof (induction n)
  case (Suc n)
  have at: "a = base + of_nat n \<longleftrightarrow> unat (a - base) = n" for a :: u16
  proof -
    have "a = base + of_nat n \<longleftrightarrow> a - base = of_nat n" by (auto simp: algebra_simps)
    also have "\<dots> \<longleftrightarrow> unat (a - base) = unat (of_nat n :: u16)" by (simp only: word_unat_eq_iff)
    also have "unat (of_nat n :: u16) = n" using Suc.prems by (simp add: unsigned_of_nat take_bit_nat_eq_self_iff)
    finally show ?thesis .
  qed
  show ?case using Suc
    by (simp add: for_each_append fun_eq_iff at less_Suc_eq) 
qed simp

lemma in_range:
  assumes "unat base + n \<le> 65536"
  shows "unat (a - base) < n \<longleftrightarrow> unat base \<le> unat (a :: u16) \<and> unat a < unat base + n"
    and "unat base \<le> unat a \<Longrightarrow> unat (a - base) = unat a - unat base"
proof -
  have "unat (a - base) = (if unat base \<le> unat a then unat a - unat base else unat a + 65536 - unat base)"
    by (simp add: unat_sub_if')
  then show "unat (a - base) < n \<longleftrightarrow> unat base \<le> unat a \<and> unat a < unat base + n"
    and "unat base \<le> unat a \<Longrightarrow> unat (a - base) = unat a - unat base"
    using assms by (simp_all split: if_splits, linarith)
qed

section \<open>The debugger does not disturb the program\<close>

definition term0 :: terminal where
  "term0 = \<lparr>t_in = [], t_out = []\<rparr>"

text \<open>C30: Two runs of the flat machine that start with the same memory, console and CPU but different
  watchpoints, breakpoints and history go through the same instructions with the same cycle counts and
  end with the same memory and console: the tables of the monitor do not influence the program.\<close>

theorem debugger_transparent:
  assumes "alike w v"
  shows "result (m6502_steps m6502_bus n) (s, w) = result (m6502_steps m6502_bus n) (s, v) \<and>
    fst (exec (m6502_steps m6502_bus n) (s, w)) = fst (exec (m6502_steps m6502_bus n) (s, v)) \<and>
    alike (snd (exec (m6502_steps m6502_bus n) (s, w))) (snd (exec (m6502_steps m6502_bus n) (s, v)))"
  using simD [OF debugger.steps_sim assms] by blast

theorem debugger_transparent_witness:
  "result (m6502_steps m6502_bus 3) (zero_core, (zero_mon\<lparr>watches := [\<lparr>w_addr = 2, w_mode = 3\<rparr>], bpoints := [1]\<rparr>, term0)) =
   result (m6502_steps m6502_bus 3) (zero_core, (zero_mon, term0))"
  using debugger_transparent [where n = 3 and s = zero_core and v = "(zero_mon, term0)" and
      w = "(zero_mon\<lparr>watches := [\<lparr>w_addr = 2, w_mode = 3\<rparr>], bpoints := [1]\<rparr>, term0)"]
  by (simp add: alike_def)

section \<open>History\<close>

definition hist_ok :: "mon \<Rightarrow> bool" where
  "hist_ok m \<longleftrightarrow> hist_head m < 16 \<and> hist_count m \<le> 16"

text \<open>What \<open>show_history\<close> prints, oldest first.\<close>

definition hist_list :: "mon \<Rightarrow> hist_entry list" where
  "hist_list m = map (\<lambda>i. history m (hist_index m i)) [0..<hist_count m]"

lemma keeps_byte_texts: "keeps (on_struct (\<lambda>m. tables m = T)) (byte_texts mem_read a n)"
  by (induction n arbitrary: a) (auto intro!: keeps_rules keeps_mem_read)

lemma keeps_disasm: "keeps (on_struct (\<lambda>m. tables m = T)) (m6502_disasm mem_read a n)"
  unfolding m6502_disasm_def by (intro keeps_rules keeps_mem_read keeps_byte_texts)

lemma disasm_frame: "tables (fst (exec (m6502_disasm mem_read a n) w)) = tables (fst w)"
  using keepsD [OF keeps_disasm [of "tables (fst w)"], of w] by blast

text \<open>Arithmetic of the ring.\<close>

lemma slot_open: "h < 16 \<Longrightarrow> n < 16 \<Longrightarrow> i \<le> n \<Longrightarrow> ((h + 1) mod 16 + 16 - (n + 1) + i) mod 16 = (h + 16 - n + i) mod (16 :: nat)"
  by (cases "h = 15") (simp_all add: mod_if, linarith)
lemma slot_other: "h < 16 \<Longrightarrow> n < 16 \<Longrightarrow> i < n \<Longrightarrow> (h + 16 - n + i) mod 16 \<noteq> (h :: nat)"
  by (simp add: mod_if) linarith
lemma slot_full: "h < 16 \<Longrightarrow> i < 16 \<Longrightarrow> ((h + 1) mod 16 + 16 - 16 + i) mod 16 = (h + 16 - 16 + (i + 1)) mod (16 :: nat)"
  by (cases "h = 15") (simp_all add: mod_if)
lemma slot_full_other: "h < 16 \<Longrightarrow> i < 15 \<Longrightarrow> (h + 16 - 16 + (i + 1)) mod 16 \<noteq> (h :: nat)"
  by (simp add: mod_if) linarith

lemma hist_index_nat:
  assumes "hist_ok m" "i < hist_count m"
  shows "hist_index m i = (hist_head m + 16 - hist_count m + i) mod 16"
proof -
  have "int (hist_head m) - int (hist_count m) + int i + int 16 = int (hist_head m + 16 - hist_count m + i)"
    using assms by (simp add: hist_ok_def of_nat_diff)
  then show ?thesis by (simp only: hist_index_def HIST_SIZE_def zmod_int [symmetric] nat_int)
qed

definition entry_of :: "core \<Rightarrow> string \<Rightarrow> hist_entry" where
  "entry_of c d = \<lparr>h_pc = r_pc c, h_sp = r_sp c, h_a = r_a c, h_x = r_x c, h_y = r_y c, h_flags = m6502_getP c,
     h_cycles = cycles c, h_dasm = d\<rparr>"

lemma run_hist_push:
  assumes "run_state (m6502_disasm mem_read (r_pc c) 48) w = ((l, d), (m, t))"
  shows "run_state hist_push (c, w) = ((), (c, (let m' = m\<lparr>history := (history m)(hist_head m := entry_of c d),
       hist_head := (hist_head m + 1) mod 16\<rparr>
     in if hist_count m < 16 then m'\<lparr>hist_count := hist_count m + 1\<rparr> else m', t)))"
  by (simp add: hist_push_def assms entry_of_def HIST_SIZE_def Let_def)

lemma window_open:
  assumes "hist_ok m" "hist_count m < 16"
  shows "hist_list (m\<lparr>history := (history m)(hist_head m := e), hist_head := (hist_head m + 1) mod 16,
     hist_count := hist_count m + 1\<rparr>) = hist_list m @ [e]"
proof -
  let ?m = "m\<lparr>history := (history m)(hist_head m := e), hist_head := (hist_head m + 1) mod 16, hist_count := hist_count m + 1\<rparr>"
  have ok: "hist_ok ?m" and h: "hist_head m < 16" using assms by (simp_all add: hist_ok_def)
  have new: "hist_index ?m i = (hist_head m + 16 - hist_count m + i) mod 16" if "i \<le> hist_count m" for i
    using hist_index_nat [OF ok, of i] slot_open [OF h assms(2) that] that by simp
  have "history ?m (hist_index ?m i) = history m (hist_index m i)" if "i < hist_count m" for i
    using new [of i] slot_other [OF h assms(2) that] hist_index_nat [OF assms(1) that] that by simp
  moreover have "history ?m (hist_index ?m (hist_count m)) = e"
    using new [of "hist_count m"] assms h by simp
  ultimately show ?thesis unfolding hist_list_def by simp
qed

lemma window_full:
  assumes "hist_ok m" "hist_count m = 16"
  shows "hist_list (m\<lparr>history := (history m)(hist_head m := e), hist_head := (hist_head m + 1) mod 16\<rparr>) =
    tl (hist_list m) @ [e]"
proof -
  let ?m = "m\<lparr>history := (history m)(hist_head m := e), hist_head := (hist_head m + 1) mod 16\<rparr>"
  have ok: "hist_ok ?m" and h: "hist_head m < 16" using assms by (simp_all add: hist_ok_def)
  have new: "hist_index ?m i = (hist_head m + 16 - 16 + (i + 1)) mod 16" if "i < 16" for i
    using hist_index_nat [OF ok, of i] slot_full [OF h that] that assms by simp
  have old: "history ?m (hist_index ?m i) = history m (hist_index m (i + 1))" if "i < 15" for i
    using new [of i] slot_full_other [OF h that] hist_index_nat [OF assms(1), of "i + 1"] that assms(2) by simp
  have last: "history ?m (hist_index ?m 15) = e" using new [of 15] h by simp
  have len: "length (tl (hist_list m)) = 15" by (simp add: hist_list_def assms(2))
  show ?thesis
  proof (rule nth_equalityI)
    show "length (hist_list ?m) = length (tl (hist_list m) @ [e])" by (simp add: hist_list_def assms(2))
    fix i assume "i < length (hist_list ?m)"
    then have i: "i < 16" by (simp add: hist_list_def assms(2))
    then have nth: "hist_list ?m ! i = history ?m (hist_index ?m i)" by (simp add: hist_list_def assms(2))
    show "hist_list ?m ! i = (tl (hist_list m) @ [e]) ! i"
    proof (cases "i < 15")
      case True
      then show ?thesis unfolding nth old [OF True] using len by (simp add: nth_append nth_tl hist_list_def assms(2))
    next
      case False
      with i have "i = 15" by simp
      then show ?thesis using last len nth by (simp only: nth_append) simp
    qed
  qed
qed

text \<open>C33: The ring buffer of the history is a sliding window: hist_push appends the entry of the current
  instruction and drops the oldest one once sixteen are stored, and leaves the CPU alone.\<close>

theorem history_window:
  assumes "hist_ok (fst w)"
  shows "let w' = snd (exec hist_push (c, w)); d = snd (result (m6502_disasm mem_read (r_pc c) 48) w) in
    hist_ok (fst w') \<and> fst (exec hist_push (c, w)) = c \<and>
    hist_list (fst w') = drop (hist_count (fst w) - 15) (hist_list (fst w)) @ [entry_of c d]"
proof -
  obtain l d m t where r: "run_state (m6502_disasm mem_read (r_pc c) 48) w = ((l, d), (m, t))"
    by (metis prod.exhaust)
  then have m: "tables m = tables (fst w)" using disasm_frame [of "r_pc c" 48 w] by simp
  then have ok: "hist_ok m" and same: "hist_list m = hist_list (fst w)" "hist_count m = hist_count (fst w)"
    using assms by (simp_all add: hist_ok_def hist_list_def hist_index_def)
  show ?thesis
  proof (cases "hist_count m < 16")
    case True
    with ok window_open [OF ok True, of "entry_of c d"] same show ?thesis
      by (simp add: run_hist_push [OF r] r hist_ok_def)
  next
    case False
    with ok have c: "hist_count m = 16" by (simp add: hist_ok_def)
    then have "drop (hist_count (fst w) - 15) (hist_list (fst w)) = tl (hist_list (fst w))"
      using same by (simp add: drop_Suc)
    with c ok window_full [OF ok c, of "entry_of c d"] same show ?thesis
      by (simp add: run_hist_push [OF r] r hist_ok_def)
  qed
qed

theorem history_window_witness:
  "length (hist_list (fst (snd (exec hist_push (zero_core, (zero_mon, term0)))))) = 1"
  using history_window [where w = "(zero_mon, term0)" and c = zero_core]
  by (simp add: hist_ok_def hist_list_def zero_mon_def Let_def)

section \<open>Breakpoints\<close>

definition bp_ok :: "mon \<Rightarrow> bool" where
  "bp_ok m \<longleftrightarrow> distinct (bpoints m) \<and> length (bpoints m) \<le> 16"

lemma remove_first_eq: "remove_first (\<lambda>y. y = x) xs = remove1 x xs"
  by (induction xs) auto

lemma run_cmd_break:
  assumes "parse_hex (Some s) = Some v"
  shows "fst (exec (cmd_break (Some s)) (m, t)) =
    (if length (bpoints m) < 16 \<and> ucast v \<notin> set (bpoints m) then m\<lparr>bpoints := bpoints m @ [ucast v]\<rparr> else m)"
  by (simp add: cmd_break_def assms MAX_BREAK_def list_ex_iff)

lemma run_cmd_break_clear:
  assumes "parse_hex (Some s) = Some v"
  shows "fst (exec (cmd_break_clear (Some s)) (m, t)) = m\<lparr>bpoints := remove1 (ucast v) (bpoints m)\<rparr>"
  by (simp add: cmd_break_clear_def assms list_ex_iff remove_first_eq remove1_idem)

text \<open>C34: The commands b and bc keep the breakpoint table free of duplicates and within its sixteen
  slots; b adds exactly the given address unless the table is full, and bc removes exactly the given
  address.\<close>

theorem breakpoint_table:
  assumes "bp_ok m" and "parse_hex (Some s) = Some v"
  shows "let m1 = fst (exec (cmd_break (Some s)) (m, t)); m2 = fst (exec (cmd_break_clear (Some s)) (m, t)) in
    bp_ok m1 \<and> (\<forall>a. bp_hit m1 a \<longleftrightarrow> bp_hit m a \<or> a = ucast v \<and> length (bpoints m) < 16) \<and>
    bp_ok m2 \<and> (\<forall>a. bp_hit m2 a \<longleftrightarrow> bp_hit m a \<and> a \<noteq> ucast v)"
  using assms(1) by (auto simp: run_cmd_break [OF assms(2)] run_cmd_break_clear [OF assms(2)] Let_def bp_ok_def
      bp_hit_def list_ex_iff length_remove1 set_remove1_eq)

lemmas eval_parse = parse_hex_def strtoul_def scan_number_def char_at_def isspace_def digit_val_def toupper_def

theorem breakpoint_table_witness:
  "bp_hit (fst (exec (cmd_break (Some ''80f'')) (zero_mon, term0))) 0x80F"
proof -
  have "parse_hex (Some ''80f'') = Some 0x80F" by (simp add: eval_parse)
  from breakpoint_table [OF _ this, of zero_mon term0] show ?thesis by (simp add: bp_ok_def zero_mon_def Let_def)
qed

section \<open>Loading and filling\<close>

text \<open>C35: Loading a file that fits places its bytes at consecutive addresses from the load address on,
  without wrapping, and changes no other byte.\<close>

theorem load_binary_places:
  assumes "fs path = Some f" and "0 < img_size f" and "img_size f \<le> 65536 - int (unat base)"
    and "int (length (img_bytes f)) = img_size f"
  shows "result (load_binary fs path base) (m, t) = img_size f \<and>
    ram (fst (exec (load_binary fs path base) (m, t))) = (\<lambda>a. if unat base \<le> unat a \<and> unat a < unat base + length (img_bytes f)
      then img_bytes f ! (unat a - unat base) else ram m a)"
proof -
  have n: "unat base + length (img_bytes f) \<le> 65536" "length (img_bytes f) \<le> 65536"
    using assms(3,4) by linarith+
  have "nat (img_size f) = length (img_bytes f)" using assms(4) by linarith
  then show ?thesis using assms
    by (simp add: load_binary_def Let_def poke_all [OF n(2)] in_range [OF n(1)] fun_eq_iff)
qed

theorem load_binary_places_witness:
  "result (load_binary (\<lambda>p. Some \<lparr>img_size = 2, img_bytes = [1, 2]\<rparr>) ''x'' 0xFFFE) (zero_mon, term0) = 2"
  using load_binary_places [where fs = "\<lambda>p. Some \<lparr>img_size = 2, img_bytes = [1, 2]\<rparr>" and path = "''x''" and
      f = "\<lparr>img_size = 2, img_bytes = [1, 2]\<rparr>" and base = "0xFFFE" and m = zero_mon and t = term0] by simp

text \<open>A missing file, an empty file and a file that would run past the end of memory are refused with
  -1 and nothing changes.\<close>

theorem load_binary_refuses:
  assumes "fs path = None \<or> (\<exists>f. fs path = Some f \<and> (img_size f \<le> 0 \<or> 65536 < int (unat base) + img_size f))"
  shows "run_state (load_binary fs path base) w = (- 1, w)"
  using assms by (auto simp: load_binary_def)

theorem load_binary_refuses_witness:
  "run_state (load_binary (\<lambda>p. Some \<lparr>img_size = 3, img_bytes = [1, 2, 3]\<rparr>) ''x'' 0xFFFE) (zero_mon, term0) =
    (- 1, (zero_mon, term0))"
  by (rule load_binary_refuses) simp

lemma fill_interval:
  fixes a s e :: u16
  assumes "s \<noteq> e"
  shows "a - (s + 1) \<le> e - (s + 1) \<or> a = s \<longleftrightarrow> a - s \<le> e - s"
proof -
  have e: "e - s \<noteq> 0" using assms by simp
  show ?thesis
  proof (cases "a = s")
    case False
    then have a: "a - s \<noteq> 0" by simp
    have step: "x - (s + 1) = (x - s) - 1" for x by simp
    have "0 < unat (a - s)" "0 < unat (e - s)" using a e by (simp_all only: unat_gt_0 not_False_eq_True)
    then have "unat (a - s) - 1 \<le> unat (e - s) - 1 \<longleftrightarrow> unat (a - s) \<le> unat (e - s)" by linarith
    then show ?thesis
      using False by (simp only: step word_le_nat_alt unat_minus_one [OF a] unat_minus_one [OF e] simp_thms)
  qed simp
qed

lemma run_fill_loop: "run_state (fill_loop s e v) (m, t) = ((), (m\<lparr>ram := (\<lambda>a. if a - s \<le> e - s then v else ram m a)\<rparr>, t))"
proof (induction s e v arbitrary: m rule: fill_loop.induct)
  case (1 s e v)
  show ?case
  proof (cases "s = e")
    case True
    then show ?thesis by (subst fill_loop.simps) (simp add: fun_eq_iff)
  next
    case False
    have range: "(\<lambda>a. if a - (s + 1) \<le> e - (s + 1) then v else ram (m\<lparr>ram := (ram m)(s := v)\<rparr>) a) =
        (\<lambda>a. if a - s \<le> e - s then v else ram m a)"
      by (rule ext) (unfold fill_interval [OF False, symmetric], simp)
    show ?thesis
      by (subst fill_loop.simps) (simp add: False 1 [OF False] range del: fun_upd_apply)
  qed
qed

text \<open>C36: The loop of the fill command ends for every start and end address, and stores the byte at
  exactly the addresses from the start to the end inclusive, across the top of memory when the end is
  below the start.\<close>

theorem fill_covers_range:
  assumes "parse_hex a1 = Some v1" "parse_hex a2 = Some v2" "parse_hex a3 = Some v3"
  shows "fst (exec (cmd_fill a1 a2 a3) (m, t)) =
    m\<lparr>ram := (\<lambda>a. if a - ucast v1 \<le> ucast v2 - ucast v1 then ucast v3 else ram m a)\<rparr>"
  by (simp add: cmd_fill_def assms run_fill_loop Let_def)

theorem fill_covers_range_witness:
  "ram (fst (exec (cmd_fill (Some ''fffe'') (Some ''1'') (Some ''7f'')) (zero_mon, term0))) 0 = 0x7F"
  using fill_covers_range [of "Some ''fffe''" "0xFFFE" "Some ''1''" 1 "Some ''7f''" "0x7F" zero_mon term0]
  by (simp add: eval_parse)

section \<open>Commands that do less than their help says\<close>

text \<open>The bytes of the arguments that are numbers.\<close>

definition bytes_of :: "string list \<Rightarrow> u8 list" where
  "bytes_of ws = List.map_filter (\<lambda>w. map_option ucast (parse_hex (Some w))) ws"

lemma bytes_of [simp]:
  "bytes_of [] = []"
  "bytes_of (w # ws) = (case parse_hex (Some w) of None \<Rightarrow> bytes_of ws | Some v \<Rightarrow> ucast v # bytes_of ws)"
  by (simp_all add: bytes_of_def List.map_filter_def split: option.split)

lemma bytes_of_length: "length (bytes_of ws) \<le> length ws"
  by (induction ws) (auto split: option.split)

lemma enter_loop_run:
  "length ws \<le> 65536 \<Longrightarrow> run_state (enter_loop a ws) (m, t) =
    ((), (m\<lparr>ram := (\<lambda>x. if unat (x - a) < length (bytes_of ws) then bytes_of ws ! unat (x - a) else ram m x)\<rparr>, t))"
proof (induction ws arbitrary: a m)
  case (Cons w ws)
  show ?case
  proof (cases "parse_hex (Some w)")
    case (Some v)
    have n: "length (bytes_of ws) \<le> 65535" using bytes_of_length [of ws] Cons.prems by simp
    have "(if unat (x - (a + 1)) < length (bytes_of ws) then bytes_of ws ! unat (x - (a + 1)) else if x = a then ucast v else ram m x) =
        (if unat (x - a) < Suc (length (bytes_of ws)) then (ucast v # bytes_of ws) ! unat (x - a) else ram m x)" for x
    proof (cases "x = a")
      case False
      then have z: "x - a \<noteq> 0" by simp
      have "x - (a + 1) = (x - a) - 1" by simp
      then have "unat (x - (a + 1)) = unat (x - a) - 1" by (simp only: unat_minus_one [OF z])
      moreover have "0 < unat (x - a)" using z by (simp only: unat_gt_0 not_False_eq_True)
      ultimately show ?thesis using False by (cases "unat (x - a)") auto
    next
      case True
      have "unat (- 1 :: u16) = 65535" by (simp add: unsigned_minus_1_eq_mask mask_eq_exp_minus_1)
      then show ?thesis using n True by simp
    qed
    then show ?thesis using Cons Some by (simp cong: if_cong)
  qed (use Cons in \<open>simp cong: if_cong\<close>)
qed simp

text \<open>C39: The enter command stores the first byte of the line and then, at consecutive addresses, all the
  bytes from the third one on, however many there are; arguments that are not numbers are passed over,
  and the second byte of the line is skipped.\<close>

theorem enter_skips_third_argument:
  assumes "parse_hex (Some a) = Some v" and "length ws < 65536"
  shows "let bs = bytes_of (b1 # ws) in run_state (cmd_enter (cmd # a # b1 # b2 # ws)) (m, t) =
    ((), (m\<lparr>ram := (\<lambda>x. if unat (x - ucast v) < length bs then bs ! unat (x - ucast v) else ram m x)\<rparr>, t))"
  using assms enter_loop_run [of "b1 # ws" "ucast v" m t]
  by (simp add: cmd_enter_def nth_opt_def Let_def del: enter_loop.simps bytes_of)

theorem enter_skips_third_argument_witness:
  "let r = ram (fst (exec (cmd_enter [''e'', ''200'', ''11'', ''22'', ''33'', ''44'']) (zero_mon, term0))) in
    r 0x200 = 0x11 \<and> r 0x201 = 0x33 \<and> r 0x202 = 0x44 \<and> r 0x203 = 0"
proof -
  have p: "parse_hex (Some ''200'') = Some 0x200" "parse_hex (Some ''11'') = Some 0x11" "parse_hex (Some ''33'') = Some 0x33"
    "parse_hex (Some ''44'') = Some 0x44" by (simp_all add: eval_parse)
  note e = enter_skips_third_argument [OF p(1), of "[''33'', ''44'']" "''11''" "''e''" "''22''" zero_mon term0]
  have "bytes_of [''11'', ''33'', ''44''] = [0x11, 0x33, 0x44]" by (simp add: p(2-4))
  with e show ?thesis by (simp add: zero_mon_def del: bytes_of)
qed

lemma run_show_regs [simp]: "run_state show_regs_m (c, (m, t)) = ((), (c, (m, t\<lparr>t_out := t_out t @ regs_text_m c\<rparr>)))"
  by (simp add: show_regs_m_def)

text \<open>C40: Continuing from an address that holds a breakpoint, the current one or the one given with the
  command, executes no instruction: the main loop prints that it runs, reports the breakpoint and the
  registers and returns to the monitor, with memory, cycle count and, but for the new program counter,
  the CPU unchanged.\<close>

theorem continue_stays_at_breakpoint:
  assumes "bp_hit m (case parse_hex a1 of None \<Rightarrow> r_pc c | Some v \<Rightarrow> ucast v)"
  shows "let c' = c\<lparr>r_pc := (case parse_hex a1 of None \<Rightarrow> r_pc c | Some v \<Rightarrow> ucast v)\<rparr> in
    run_state (do { cmd_continue a1; run_once fs ls }) (c, (m, t)) = (Some ls, (c', (m\<lparr>in_monitor := True\<rparr>,
      t\<lparr>t_out := t_out t @ ''Running...'' @ nl @ nl @ ''Breakpoint at $'' @ hex4 (r_pc c') @ nl @ regs_text_m c'\<rparr>)))"
  using assms by (cases "parse_hex a1") (simp_all add: bp_hit_def cmd_continue_def run_once_def enter_monitor_def Let_def)

theorem continue_stays_at_breakpoint_witness:
  "let p = exec (do { cmd_continue (Some ''300''); run_once (\<lambda>_. None) [] }) (zero_core, (zero_mon\<lparr>bpoints := [0x300]\<rparr>, term0)) in
    r_pc (fst p) = 0x300 \<and> take 35 (t_out (snd (snd p))) = ''Running...'' @ nl @ nl @ ''Breakpoint at $0300'' @ nl @ ''PC='' \<and>
    in_monitor (fst (snd p))"
proof -
  have a: "parse_hex (Some ''300'') = Some 0x300" by (simp add: eval_parse)
  have h: "hex4 0x300 = ''0300''" by (simp add: hex4_def hexw_def pad_left_def digits.simps digit_def)
  have "bp_hit (zero_mon\<lparr>bpoints := [0x300]\<rparr>) 0x300" by (simp add: bp_hit_def)
  then show ?thesis
    using continue_stays_at_breakpoint [where ?a1.0 = "Some ''300''" and m = "zero_mon\<lparr>bpoints := [0x300]\<rparr>" and c = zero_core and
        fs = "\<lambda>_. None" and ls = "[]" and t = term0]
    by (simp add: a Let_def term0_def regs_text_m_def nl_def h)
qed

text \<open>The reset command clears the whole memory before it reads the reset vector, so after loading a
  program and resetting, the program and its vector are gone and the program counter is zero.\<close>

theorem reset_forgets_program:
  "let (c', m', t') = exec (do { cmd_load fs f a; cmd_reset }) (c, (m, t)) in
    r_pc c' = 0 \<and> ram m' = (\<lambda>_. 0) \<and> bpoints m' = [] \<and> watches m' = [] \<and> hist_list m' = []"
proof -
  have "let (c', m', t') = exec cmd_reset (c, (m, t)) in
    r_pc c' = 0 \<and> ram m' = (\<lambda>_. 0) \<and> bpoints m' = [] \<and> watches m' = [] \<and> hist_list m' = []" for c m t
    by (simp add: cmd_reset_def m6502_reset_def rdv16_def rdk16_def rdk_def m6502_bus_def run_mem_read_ram Let_def
        case_prod_beta hist_list_def le16_def)
  note fin = this
  obtain c1 m1 t1 where e: "exec (cmd_load fs f a) (c, (m, t)) = (c1, (m1, t1))" by (metis prod.exhaust)
  show ?thesis unfolding run_bind_split e using fin [of c1 m1 t1] by simp
qed

end
