(* ===== verification/Monitor_Asm_Props.thy ===== *)
theory Monitor_Asm_Props
  imports Monitor_Props Disasm_Props "HOL-Library.Sublist"
begin

text \<open>
  The line assembler of \<open>m6502/main.c\<close> against the disassembler: what the one prints the other reads
  back, except for branches, which it never accepts.  Then the \<open>.byte\<close> directive and the end of the
  assembler loop.
\<close>
unbundle bit_operations_syntax

section \<open>The table\<close>

text \<open>A key that orders the table: three letters and the mode.\<close>

definition asm_key :: "string \<times> nat \<times> u8 \<Rightarrow> nat" where
  "asm_key e = (let (n, k, b) = e; v = (\<lambda>i. of_char (n ! i) - 64 :: nat) in ((v 0 * 32 + v 1) * 32 + v 2) * 16 + k)"

fun ascending :: "nat list \<Rightarrow> bool" where
  "ascending (x # y # zs) \<longleftrightarrow> x < y \<and> ascending (y # zs)"
| "ascending _ \<longleftrightarrow> True"

lemma ascending_distinct: "ascending xs \<Longrightarrow> distinct xs"
proof -
  have "ascending (x # xs) \<Longrightarrow> \<forall>y\<in>set xs. x < y" for x xs
    by (induction xs arbitrary: x) fastforce+
  then show "ascending xs \<Longrightarrow> distinct xs"
    by (induction xs rule: ascending.induct) fastforce+
qed

lemma asm_tab_ascending: "ascending (map asm_key asm_tab)"
  by (simp add: asm_tab_def asm_key_def)

definition branches :: "string list" where
  "branches = [''BCC'', ''BCS'', ''BEQ'', ''BMI'', ''BNE'', ''BPL'', ''BVC'', ''BVS'']"

lemma nth_index_cong: "n = m \<Longrightarrow> xs ! n = xs ! m"
  by simp

text \<open>Each entry names the opcode the disassembler prints that way, and the relative mode belongs to the
  branches.\<close>

lemma asm_tab_names: "list_all (\<lambda>(n, k, b). g_mn ! unat b = n \<and> g_dm ! unat b = k) asm_tab"
  unfolding g_mn_def g_dm_def by (simp add: asm_tab_def cong: nth_index_cong)

lemma asm_tab_modes: "list_all (\<lambda>(n, k, b). k < 13 \<and> (list_ex (\<lambda>x. x = n) branches \<longleftrightarrow> k = 12)) asm_tab"
  by (simp add: asm_tab_def branches_def)

text \<open>Three letters, none of them white space, and not changed by \<open>toupper\<close>.\<close>

definition letters3 :: "string \<Rightarrow> bool" where
  "letters3 s \<longleftrightarrow> length s = 3 \<and> list_all (\<lambda>c. \<not> isspace c \<and> toupper c = c \<and> c \<noteq> CHR '';'' \<and> c \<noteq> CHR ''.'') s"

lemma asm_tab_letters: "list_all (\<lambda>(n, k, b). letters3 n) asm_tab"
  by (simp add: asm_tab_def letters3_def isspace_def toupper_def)

lemma asm_find_entry: "(n, k, b) \<in> set asm_tab \<Longrightarrow> asm_find n k = Some b"
proof -
  assume e: "(n, k, b) \<in> set asm_tab"
  have inj: "inj_on asm_key (set asm_tab)"
    using ascending_distinct [OF asm_tab_ascending] by (simp add: distinct_map)
  have "List.find (\<lambda>(n', k', _). n' = n \<and> k' = k) asm_tab \<noteq> None" using e by (auto simp: find_None_iff)
  then obtain x where x: "List.find (\<lambda>(n', k', _). n' = n \<and> k' = k) asm_tab = Some x" by blast
  then have "x \<in> set asm_tab" "(\<lambda>(n', k', _). n' = n \<and> k' = k) x"
    unfolding find_Some_iff by (metis nth_mem)+
  then have "asm_key x = asm_key (n, k, b)" by (cases x) (auto simp: asm_key_def)
  from inj_onD [OF inj this \<open>x \<in> set asm_tab\<close> e] have "x = (n, k, b)" .
  then show ?thesis using x by (simp add: asm_find_def)
qed

section \<open>Operands\<close>

text \<open>The value \<open>parse_operand\<close> finds in an operand of the disassembler.\<close>

definition operand_value :: "nat \<Rightarrow> u8 \<Rightarrow> u8 \<Rightarrow> u32" where
  "operand_value mode b1 b2 = (if mode \<le> 1 then 0
     else if 6 \<le> mode \<and> mode \<le> 9 then ucast (ucast b1 OR push_bit 8 (ucast b2) :: u16)
     else ucast b1)"

lemma char_at_simps [simp]: "char_at (c # s) 0 = c" "char_at (c # s) (Suc n) = char_at s n" "char_at [] n = CHR 0x00"
  "char_at (c # s) (numeral v) = char_at s (pred_numeral v)"
  by (simp_all add: char_at_def numeral_eq_Suc)

lemma ucast_u8_u64_u32: "ucast (ucast (b :: u8) :: u64) = (ucast b :: u32)"
  by (rule bit_word_eqI) (auto simp: bit_simps)

lemma ucast_u16_u64_u32: "ucast (ucast (b :: u16) :: u64) = (ucast b :: u32)"
  by (rule bit_word_eqI) (auto simp: bit_simps)

lemma ucast_u8_le: "(ucast (b :: u8) :: u32) \<le> 0xff"
  using unat_u8_lt [of b] by (simp add: word_le_nat_alt unsigned_ucast_eq take_bit_eq_mod)

lemmas read_back = strtoul_hex2 strtoul_hex4 length_hex2 length_hex4 ucast_u8_u64_u32 ucast_u16_u64_u32 ucast_u8_le

lemma ends: "\<not> digit_val (char_at [] 0) < 16" "toupper (char_at [] 0) \<noteq> CHR ''X''"
  "\<not> digit_val (char_at (CHR '','' # s) 0) < 16" "toupper (char_at (CHR '','' # s) 0) \<noteq> CHR ''X''"
  "\<not> digit_val (char_at (CHR '')'' # s) 0) < 16" "toupper (char_at (CHR '')'' # s) 0) \<noteq> CHR ''X''"
  "\<not> digit_val (char_at (CHR '' '' # s) 0) < 16" "toupper (char_at (CHR '' '' # s) 0) \<noteq> CHR ''X''"
  by (simp_all add: digit_val_def toupper_def)

lemma strtoul_ends:
  "strtoul 16 (hex2 v) = (ucast v, [])" "strtoul 16 (hex4 w) = (ucast w, [])"
  "strtoul 16 (hex2 v @ CHR '','' # s) = (ucast v, CHR '','' # s)" "strtoul 16 (hex4 w @ CHR '','' # s) = (ucast w, CHR '','' # s)"
  "strtoul 16 (hex2 v @ CHR '')'' # s) = (ucast v, CHR '')'' # s)" "strtoul 16 (hex4 w @ CHR '')'' # s) = (ucast w, CHR '')'' # s)"
  "strtoul 16 (hex2 v @ CHR '' '' # s) = (ucast v, CHR '' '' # s)"
  using strtoul_hex2 [of "[]" v] strtoul_hex4 [of "[]" w] strtoul_hex2 [of "CHR '','' # s" v] strtoul_hex4 [of "CHR '','' # s" w]
    strtoul_hex2 [of "CHR '')'' # s" v] strtoul_hex4 [of "CHR '')'' # s" w] strtoul_hex2 [of "CHR '' '' # s" v]
  by (simp_all only: ends append_Nil2 simp_thms)

lemma parse_direct_text:
  "parse_direct (hex2 b) = Some (AM_ZP, ucast b)" "parse_direct (hex4 w) = Some (AM_ABS, ucast w)"
  "parse_direct (hex2 b @ '',X'') = Some (AM_ZPX, ucast b)" "parse_direct (hex4 w @ '',X'') = Some (AM_ABSX, ucast w)"
  "parse_direct (hex2 b @ '',Y'') = Some (AM_ZPY, ucast b)" "parse_direct (hex4 w @ '',Y'') = Some (AM_ABSY, ucast w)"
  by (simp_all add: parse_direct_def strtoul_ends length_hex2 length_hex4 ucast_u8_u64_u32 ucast_u16_u64_u32 ucast_u8_le)

lemma parse_indirect_text:
  "parse_indirect (CHR ''$'' # hex4 w @ '')'') = Some (AM_IND, ucast w)"
  "parse_indirect (CHR ''$'' # hex2 b @ '',X)'') = Some (AM_INDX, ucast b)"
  "parse_indirect (CHR ''$'' # hex2 b @ ''),Y'') = Some (AM_INDY, ucast b)"
  by (simp_all add: parse_indirect_def strtoul_ends starts_with_def ucast_u8_u64_u32 ucast_u16_u64_u32)

lemma parse_operand_text:
  assumes "mode < 12"
  shows "parse_operand (operand_text mode addr b1 b2) = Some (mode, operand_value mode b1 b2)"
proof -
  have sp: "\<not> isspace CHR ''A''" "\<not> isspace CHR ''#''" "\<not> isspace CHR ''$''" "\<not> isspace CHR ''(''"
    by (simp_all add: isspace_def)
  have "mode \<in> {0, 1, 2, 3, 4, 5, 6, 7, 8, 9, 10, 11, 12}" using assms by (intro mode_cases) simp
  then show ?thesis using assms
    by (elim insertE emptyE; simp add: operand_text_def operand_value_def parse_operand_def Let_def sp strtoul_ends
        parse_direct_text [simplified] parse_indirect_text [simplified] ucast_u8_u64_u32)
qed

section \<open>Round trip\<close>

text \<open>The bytes of an instruction of length \<open>len\<close> in memory.\<close>

definition placed :: "u16 \<Rightarrow> int \<Rightarrow> u8 \<Rightarrow> u8 \<Rightarrow> u8 \<Rightarrow> (u16 \<Rightarrow> u8) \<Rightarrow> u16 \<Rightarrow> u8" where
  "placed addr len op b1 b2 M = (let M1 = M(addr := op); M2 = M1(addr + 1 := b1); M3 = M2(addr + 2 := b2) in
     if len = 1 then M1 else if len = 2 then M2 else M3)"

lemma low_high:
  "ucast (ucast (ucast b1 OR push_bit 8 (ucast b2) :: u16) :: u32) = (b1 :: u8)"
  "ucast (drop_bit 8 (ucast (ucast b1 OR push_bit 8 (ucast b2) :: u16) :: u32)) = (b2 :: u8)"
  "ucast (ucast b1 :: u32) = b1"
  by (rule bit_word_eqI; auto simp: bit_simps dest: bit_imp_le_length)+

lemma run_asm_emit:
  assumes "mode < 12"
  shows "run_state (asm_emit addr mode op (operand_value mode b1 b2)) (m, t) =
    (g_dl ! mode, (m\<lparr>ram := placed addr (g_dl ! mode) op b1 b2 (ram m)\<rparr>, t))"
proof -
  have "mode \<in> {0, 1, 2, 3, 4, 5, 6, 7, 8, 9, 10, 11, 12}" using assms by (intro mode_cases) simp
  then show ?thesis using assms
    by (elim insertE emptyE; simp add: asm_emit_def operand_value_def placed_def g_dl_def low_high Let_def)
qed

lemma text_of_letters:
  assumes "letters3 n"
  obtains a b c where "n = [a, b, c]" "\<not> isspace a" "\<not> isspace b" "\<not> isspace c" "toupper a = a" "toupper b = b"
    "toupper c = c" "a \<noteq> CHR '';''" "a \<noteq> CHR ''.''"
proof -
  obtain a b c where n: "n = [a, b, c]"
    using assms by (auto simp: letters3_def length_Suc_conv numeral_3_eq_3)
  show thesis using that [OF n] assms by (simp add: letters3_def n)
qed

lemma starts_byte: "starts_nocase ''.byte'' (a # s) \<Longrightarrow> a = CHR ''.''"
proof -
  assume "starts_nocase ''.byte'' (a # s)"
  then have "tolower a = tolower CHR ''.''" by (simp add: starts_nocase_def)
  also have "tolower CHR ''.'' = CHR ''.''" by (simp add: tolower_dot)
  finally show ?thesis by (simp only: tolower_dot)
qed

lemma operand_no_space: "dropWhile isspace (operand_text mode addr b1 b2) = operand_text mode addr b1 b2"
  by (simp add: operand_text_def Let_def isspace_def)

text \<open>C31: For every entry of the assembler table that is not a branch, at every address and with every
  operand, assembling the text the disassembler prints for the instruction stores exactly the bytes of
  the instruction and returns its length.\<close>

theorem asm_disasm_roundtrip:
  assumes "(n, mode, op) \<in> set asm_tab" and "mode \<noteq> AM_REL"
  shows "let text = g_mn ! unat op @ '' '' @ operand_text (g_dm ! unat op) addr b1 b2; len = g_dl ! (g_dm ! unat op) in
    run_state (asm_line addr text) (m, t) = (Some len, (m\<lparr>ram := placed addr len op b1 b2 (ram m)\<rparr>, t))"
proof -
  have op: "g_mn ! unat op = n" "g_dm ! unat op = mode" and lt: "mode < 12" and l: "letters3 n"
    using asm_tab_names asm_tab_modes asm_tab_letters assms by (auto simp: list_all_iff)
  obtain a b c where n: "n = [a, b, c]" "\<not> isspace a" "\<not> isspace b" "\<not> isspace c" "toupper a = a" "toupper b = b"
    "toupper c = c" "a \<noteq> CHR '';''" "a \<noteq> CHR ''.''" by (rule text_of_letters [OF l])
  have sp: "isspace CHR '' ''" by (simp add: isspace_def)
  have "\<not> starts_nocase ''.byte'' (n @ '' '' @ operand_text mode addr b1 b2)"
    using n(9) starts_byte [of a] by (auto simp: n(1))
  moreover have "run_state (asm_instruction addr (n @ '' '' @ operand_text mode addr b1 b2)) (m, t) =
      (g_dl ! mode, (m\<lparr>ram := placed addr (g_dl ! mode) op b1 b2 (ram m)\<rparr>, t))"
    using n sp asm_find_entry [OF assms(1)]
    by (simp add: asm_instruction_def Let_def operand_no_space parse_operand_text [OF lt] asm_lookup_def run_asm_emit [OF lt])
  ultimately show ?thesis
    using n by (simp add: op asm_line_def Let_def)
qed

theorem asm_disasm_roundtrip_witness:
  "run_state (asm_line 0x200 ''LDA $1234'') (zero_mon, term0) =
    (Some 3, (zero_mon\<lparr>ram := placed 0x200 3 0xAD 0x34 0x12 (\<lambda>_. 0)\<rparr>, term0))"
proof -
  have e: "(''LDA'', AM_ABS, 0xAD) \<in> set asm_tab" by (simp add: asm_tab_def)
  have "operand_text 6 0x200 0x34 0x12 = ''$1234''"
    by (simp add: operand_text_def hex4_def hexw_def pad_left_def digits.simps digit_def)
  moreover have "g_mn ! 0xAD = ''LDA''" "g_dm ! 0xAD = 6" "g_dl ! 6 = 3"
    by (simp_all add: g_mn_def g_dm_def g_dl_def)
  ultimately show ?thesis
    using asm_disasm_roundtrip [OF e, where addr = "0x200" and ?b1.0 = "0x34" and ?b2.0 = "0x12" and m = zero_mon and t = term0]
    by (simp add: zero_mon_def)
qed

section \<open>Branches\<close>

lemma parse_no_relative: "parse_operand s = Some (mode, v) \<Longrightarrow> mode \<noteq> AM_REL"
  by (auto simp: parse_operand_def parse_indirect_def parse_direct_def Let_def case_prod_beta split: if_splits)

lemma lookup_no_branch:
  assumes "n \<in> set branches" "mode \<noteq> AM_REL"
  shows "asm_lookup n mode = None"
proof -
  have "asm_find n k = None" if "k \<noteq> 12" for k
    using asm_tab_modes assms(1) that by (fastforce simp: asm_find_def find_None_iff list_all_iff list_ex_iff)
  then show ?thesis using assms(2) by (simp add: asm_lookup_def abs_mode_def)
qed

text \<open>C37: The assembler accepts no branch instruction: a line that starts with one of the eight branch
  mnemonics is refused whatever its operand, and memory is unchanged.\<close>

theorem asm_rejects_branches:
  assumes "map toupper (take 3 line) \<in> set branches"
  shows "result (asm_line addr line) (m, t) = Some (- 1) \<and> fst (exec (asm_line addr line) (m, t)) = m"
proof -
  obtain a b c r where line: "line = a # b # c # r" and up: "[toupper a, toupper b, toupper c] \<in> set branches"
  proof -
    have "list_all (\<lambda>s. length s = 3) branches" by (simp add: branches_def)
    with assms have "length (map toupper (take 3 line)) = 3" by (simp only: list_all_iff)
    then have "3 \<le> length line" by simp
    then obtain a b c r where "line = a # b # c # r" by (auto simp: numeral_3_eq_3 Suc_le_length_iff)
    then show thesis using that assms by simp
  qed
  have "\<not> isspace x" if "toupper x \<in> {CHR ''B'', CHR ''C'', CHR ''S'', CHR ''E'', CHR ''Q'', CHR ''M'', CHR ''I'', CHR ''N'', CHR ''P'', CHR ''L'', CHR ''V''}" for x
    using that by (cases "isspace x") (auto simp: isspace_def toupper_def Let_def)
  then have sp: "\<not> isspace a" "\<not> isspace b" "\<not> isspace c" using up by (auto simp: branches_def)
  have a: "toupper a = CHR ''B''" using up by (auto simp: branches_def)
  then have ne: "a \<noteq> CHR '';''" "a \<noteq> CHR ''.''" by (auto simp: toupper_def)
  have "\<not> starts_nocase ''.byte'' line"
    using ne(2) starts_byte [of a] by (auto simp: line)
  moreover have "result (asm_instruction addr line) (m, t) = - 1 \<and> fst (exec (asm_instruction addr line) (m, t)) = m"
    using sp up parse_no_relative lookup_no_branch
    by (auto simp: asm_instruction_def line Let_def split: option.split)
  ultimately show ?thesis
    using sp ne by (simp add: asm_line_def Let_def line case_prod_beta)
qed

theorem asm_rejects_branches_witness:
  "result (asm_line 0x800 ''BNE $0810'') (zero_mon, term0) = Some (- 1)"
proof -
  have "map toupper (take 3 ''BNE $0810'') \<in> set branches" by (simp add: branches_def toupper_def)
  from asm_rejects_branches [OF this] show ?thesis by blast
qed

section \<open>The directive\<close>

definition bytes_text :: "u8 list \<Rightarrow> string" where
  "bytes_text bs = concat (map (\<lambda>b. '' $'' @ hex2 b) bs)"

lemma byte_args_text: "byte_args (bytes_text bs) = Some bs"
proof (induction bs)
  case Nil
  show ?case by (subst byte_args.simps) (simp add: byte_round_def bytes_text_def)
next
  case (Cons b bs)
  have sp: "isspace CHR '' ''" "\<not> isspace CHR ''$''" by (simp_all add: isspace_def)
  have "bytes_text bs = [] \<or> (\<exists>s. bytes_text bs = CHR '' '' # s)" by (cases bs) (simp_all add: bytes_text_def)
  then have "strtoul 16 (hex2 b @ bytes_text bs) = (ucast b, bytes_text bs)" by (auto simp: strtoul_ends)
  moreover have "ucast (ucast b :: u64) = b" by (rule bit_word_eqI) (auto simp: bit_simps dest: bit_imp_le_length)
  moreover have "bytes_text (b # bs) = CHR '' '' # CHR ''$'' # hex2 b @ bytes_text bs" by (simp add: bytes_text_def)
  ultimately show ?case using Cons.IH sp by (subst byte_args.simps) (simp add: byte_round_def Let_def)
qed

lemma byte_line:
  "isspace c \<Longrightarrow> result (asm_line addr (''.byte'' @ c # s)) (m, t) =
    (case byte_args (c # s) of None \<Rightarrow> None | Some bs \<Rightarrow> Some (int (length bs)))"
  "isspace c \<Longrightarrow> byte_args (c # s) = Some bs \<Longrightarrow> length bs \<le> 65536 \<Longrightarrow> exec (asm_line addr (''.byte'' @ c # s)) (m, t) =
    (m\<lparr>ram := (\<lambda>a. if unat (a - addr) < length bs then bs ! unat (a - addr) else ram m a)\<rparr>, t)"
proof -
  have d: "\<not> isspace CHR ''.''" "starts_nocase ''.byte'' (CHR ''.'' # CHR ''b'' # CHR ''y'' # CHR ''t'' # CHR ''e'' # c # s)"
    by (simp_all add: isspace_def starts_nocase_def)
  show "isspace c \<Longrightarrow> result (asm_line addr (''.byte'' @ c # s)) (m, t) =
    (case byte_args (c # s) of None \<Rightarrow> None | Some bs \<Rightarrow> Some (int (length bs)))"
    by (simp add: asm_line_def Let_def d case_prod_beta split: option.split)
  show "isspace c \<Longrightarrow> byte_args (c # s) = Some bs \<Longrightarrow> length bs \<le> 65536 \<Longrightarrow> exec (asm_line addr (''.byte'' @ c # s)) (m, t) =
    (m\<lparr>ram := (\<lambda>a. if unat (a - addr) < length bs then bs ! unat (a - addr) else ram m a)\<rparr>, t)"
    by (simp add: asm_line_def Let_def d poke_all)
qed

text \<open>The .byte directive with hexadecimal operands stores them at consecutive addresses and returns
  their number.\<close>

theorem byte_directive_stores:
  assumes "bs \<noteq> []" and "unat addr + length bs \<le> 65536"
  shows "result (asm_line addr (''.byte'' @ bytes_text bs)) (m, t) = Some (int (length bs)) \<and>
    ram (fst (exec (asm_line addr (''.byte'' @ bytes_text bs)) (m, t))) = (\<lambda>a. if unat addr \<le> unat a \<and> unat a < unat addr + length bs
      then bs ! (unat a - unat addr) else ram m a)"
proof -
  obtain s where s: "bytes_text bs = CHR '' '' # s" using assms(1) by (cases bs) (auto simp: bytes_text_def)
  have b: "byte_args (CHR '' '' # s) = Some bs" using byte_args_text [of bs] by (simp only: s)
  have sp: "isspace CHR '' ''" by (simp add: isspace_def)
  have n: "length bs \<le> 65536" using assms(2) by simp
  show ?thesis
    by (simp only: s byte_line(1) [OF sp] byte_line(2) [OF sp b n] b)
      (simp add: fun_eq_iff in_range [OF assms(2)])
qed

theorem byte_directive_stores_witness:
  "ram (fst (exec (asm_line 0xFFFF (''.byte'' @ bytes_text [0x42])) (zero_mon, term0))) 0xFFFF = 0x42"
  using byte_directive_stores [of "[0x42]" "0xFFFF" zero_mon term0] by simp

text \<open>Operands that are numbers, each behind some white space.\<close>

definition hex_operand :: "string \<Rightarrow> bool" where
  "hex_operand w \<longleftrightarrow> (\<exists>d. d \<noteq> [] \<and> list_all (\<lambda>c. digit_val c < 16) d \<and> (w = d \<or> w = CHR ''$'' # d))"

definition gap :: "string \<Rightarrow> bool" where
  "gap g \<longleftrightarrow> g \<noteq> [] \<and> list_all isspace g"

lemma drop_gap: "list_all isspace g \<Longrightarrow> dropWhile isspace (g @ c # r) = (if isspace c then dropWhile isspace r else c # r)"
  by (induction g) simp_all

lemma space_plain: "isspace c \<Longrightarrow> digit_val c = 99"
  by (auto simp: isspace_def digit_val_def Let_def)

lemma digit_plain: "digit_val c < 16 \<Longrightarrow> \<not> isspace c \<and> c \<noteq> CHR ''$'' \<and> c \<noteq> CHR ''-'' \<and> c \<noteq> CHR ''+'' \<and> toupper c \<noteq> CHR ''X''"
  using toupper_X [of c] space_plain [of c] by (auto simp: digit_val_def)

lemma scan_operand:
  assumes "d \<noteq> []" "list_all (\<lambda>c. digit_val c < 16) d" "gap g"
  shows "\<exists>v. scan_number 16 (d @ g @ r) = Some (False, v, g @ r)"
proof -
  obtain c ds where d: "d = c # ds" using assms(1) by (cases d) auto
  obtain b gs where g: "g = b # gs" "isspace b" using assms(3) by (cases g) (auto simp: gap_def)
  have b: "\<not> digit_val b < 16" "toupper b \<noteq> CHR ''X''" using space_plain [OF g(2)] toupper_X [of b] by auto
  have "toupper (char_at (d @ g @ r) 1) \<noteq> CHR ''X''"
    using assms(2) b(2) digit_plain by (cases ds) (auto simp: d g(1) char_at_def)
  moreover have "scan_digits 16 0 (d @ g @ r) = (fst (scan_digits 16 0 d), g @ r)"
    using scan_stops [of "g @ r" 16] b(1) by (simp add: scan_digits_append [OF assms(2)] g(1) char_at_def)
  moreover have "dropWhile isspace (d @ g @ r) = d @ g @ r" "char_at (d @ g @ r) 0 = c" "digit_val c < 16" "c \<noteq> CHR ''-'' \<and> c \<noteq> CHR ''+''"
    using digit_plain [of c] assms(2) by (simp_all add: d char_at_def)
  ultimately show ?thesis by (simp add: scan_number_def Let_def)
qed

lemma byte_args_skips:
  assumes "gap g" "hex_operand w" "gap g'" "byte_args (g' @ r) = None"
  shows "byte_args (g @ w @ g' @ r) = None"
proof -
  obtain d where d: "d \<noteq> []" "list_all (\<lambda>c. digit_val c < 16) d" "w = d \<or> w = CHR ''$'' # d" using assms(2) by (auto simp: hex_operand_def)
  obtain c ds where c: "d = c # ds" "digit_val c < 16" using d(1,2) by (cases d) auto
  obtain v where "scan_number 16 (d @ g' @ r) = Some (False, v, g' @ r)" using scan_operand [OF d(1,2) assms(3)] by blast
  moreover have "dropWhile isspace (g @ w @ g' @ r) = w @ g' @ r"
    using d(3) drop_gap [of g] digit_plain [OF c(2)] assms(1) by (auto simp: c(1) gap_def isspace_def)
  ultimately show ?thesis
    using d(3) assms(4) digit_plain [OF c(2)] by (subst byte_args.simps) (auto simp: byte_round_def Let_def strtoul_def c(1) char_at_def)
qed
definition operands :: "(string \<times> string) list \<Rightarrow> string" where
  "operands ops = concat (map (\<lambda>(g, w). g @ w) ops)"

lemma byte_round_stuck:
  assumes "scan_number 16 q = None" "q \<noteq> []" "\<not> isspace (hd q)" "hd q \<noteq> CHR ''$''"
  shows "byte_round q = Some (0, q)"
proof -
  have "dropWhile isspace q = q" "char_at q 0 \<noteq> CHR ''$''" using assms(2-4) by (cases q; simp)+
  then show ?thesis using assms(1,2) by (simp add: byte_round_def strtoul_def)
qed

lemma byte_args_stuck:
  assumes "byte_round q = Some (b, q)"
  shows "byte_args q = None"
proof (cases "byte_args q")
  case (Some bs)
  have "byte_args q = Option.bind (byte_args q) (\<lambda>bs. Some (b # bs))" by (subst byte_args.simps) (simp add: assms)
  then show ?thesis using Some by simp
qed

lemma byte_args_bad:
  assumes q: "scan_number 16 q = None" "q \<noteq> []" "\<not> isspace (hd q)" "hd q \<noteq> CHR ''$''"
    and g: "gap g" and d: "d = [] \<or> d = ''$''"
  shows "byte_args (g @ d @ q) = None"
proof -
  note stuck = byte_args_stuck [OF byte_round_stuck [OF q]]
  obtain c r where c: "q = c # r" using q(2) by (cases q) auto
  have "list_all isspace g" using g by (simp add: gap_def)
  then have "dropWhile isspace (g @ d @ q) = d @ q" using d drop_gap [of g] q(3) by (auto simp: c isspace_def)
  then show ?thesis using d q stuck
    by (subst byte_args.simps) (auto simp: byte_round_def strtoul_def c char_at_def)
qed

lemma byte_args_hangs:
  assumes "list_all (\<lambda>(g, w). gap g \<and> hex_operand w) ops" and g: "gap g" and r: "byte_args (g @ r) = None"
  shows "byte_args (operands ops @ g @ r) = None"
  using assms(1)
proof (induction ops)
  case (Cons x ops)
  obtain g1 w where x: "x = (g1, w)" by (cases x)
  have "\<exists>g' r'. gap g' \<and> operands ops @ g @ r = g' @ r'"
  proof (cases ops)
    case (Cons p ps)
    then show ?thesis using Cons.prems by (cases p) (auto simp: operands_def)
  qed (use g in \<open>auto simp: operands_def\<close>)
  then obtain g' r' where "gap g'" "operands ops @ g @ r = g' @ r'" by blast
  then show ?case using byte_args_skips [of g1 w g' r'] Cons by (simp add: operands_def x)
qed (use r in \<open>simp add: operands_def\<close>)

text \<open>C38: The .byte directive never returns when an operand is not a number, wherever it stands: behind
  any hexadecimal operands, with or without $, an operand whose text, after a $ if it has one, does
  not begin with anything strtoul accepts (and is not empty or a further $) stops the loop from
  moving, and each round stores another zero.\<close>

theorem byte_directive_hangs:
  assumes "list_all (\<lambda>(g, w). gap g \<and> hex_operand w) ops" and "gap g" and "d = [] \<or> d = ''$''"
    and "scan_number 16 q = None" "q \<noteq> []" "\<not> isspace (hd q)" "hd q \<noteq> CHR ''$''"
  shows "result (asm_line addr (''.byte'' @ operands ops @ g @ d @ q)) (m, t) = None \<and> byte_round q = Some (0, q)"
proof -
  have none: "byte_args (operands ops @ g @ d @ q) = None"
    by (rule byte_args_hangs [OF assms(1,2) byte_args_bad [OF assms(4-7,2,3)]])
  obtain c s where c: "operands ops @ g @ d @ q = c # s" "isspace c"
  proof (cases ops)
    case Nil
    then show ?thesis using assms(2) that by (cases g) (auto simp: operands_def gap_def)
  next
    case (Cons x xs)
    obtain g1 w where x: "x = (g1, w)" by (cases x)
    then have "gap g1" using assms(1) Cons by simp
    then show ?thesis using that by (cases g1) (auto simp: operands_def gap_def Cons x)
  qed
  have "result (asm_line addr (''.byte'' @ c # s)) (m, t) = None" using byte_line(1) [OF c(2)] none by (simp only: c(1) option.case)
  then show ?thesis using byte_round_stuck [OF assms(4-7)] by (simp only: c(1) simp_thms)
qed

theorem byte_directive_hangs_witness:
  "result (asm_line 0x200 ''.byte $01 zz'') (zero_mon, term0) = None \<and> result (asm_line 0x200 ''.byte $zz'') (zero_mon, term0) = None"
proof -
  have "scan_number 16 ''zz'' = None" by (simp add: scan_number_def isspace_def digit_val_def toupper_def)
  note h = byte_directive_hangs [OF _ _ _ this]
  have "hex_operand ''$01''" unfolding hex_operand_def by (rule exI [of _ "''01''"]) (simp add: digit_val_def)
  then show ?thesis
    using h [of "[('' '', ''$01'')]" "'' ''" "[]" "0x200" zero_mon term0] h [of "[]" "'' ''" "''$''" "0x200" zero_mon term0]
    by (simp add: gap_def isspace_def operands_def)
qed

section \<open>The assembler loop ends\<close>

lemma asm_line_returns:
  assumes "CHR ''.'' \<notin> set line"
  shows "\<exists>n. result (asm_line addr line) w = Some n"
proof -
  let ?p = "dropWhile isspace line"
  have "\<not> starts_nocase ''.byte'' ?p" if "?p \<noteq> []"
  proof -
    obtain a s where p: "?p = a # s" using \<open>?p \<noteq> []\<close> by (cases "dropWhile isspace line") blast+
    then have "a \<in> set line" using set_dropWhileD [of a isspace line] by simp
    then show ?thesis using starts_byte [of a s] assms by (auto simp: p)
  qed
  then show ?thesis by (simp add: asm_line_def Let_def case_prod_beta)
qed

definition unread :: "u8 option list \<Rightarrow> board \<Rightarrow> bool" where
  "unread ps w \<longleftrightarrow> suffix (t_in (snd w)) ps"

lemma keeps_unread [keeps_rules]: "keeps (unread ps) (writes f)" "keeps (unread ps) (say_m s)" "keeps (unread ps) (poke a v)"
  by (auto simp: keeps_def unread_def say_m_def put_text_def poke_def)

lemma keeps_unread_read [keeps_rules]:
  "keeps (unread ps) (outside poll_read)" "keeps (unread ps) (outside wait_read)"
proof -
  show "keeps (unread ps) (outside poll_read)"
    by (auto simp: keeps_def unread_def poll_read_def split: list.split option.split dest: suffix_ConsD)
  have "suffix (t_in (exec wait_read t)) ps" if "suffix (t_in t) ps" for t
  proof (cases "dropWhile (\<lambda>p. p = None) (t_in t)")
    case Nil
    then show ?thesis by (simp only: wait_read_def state.sel Nil list.case) simp
  next
    case (Cons p xs)
    have "suffix (p # xs) ps"
      using suffix_order.order_trans [OF suffix_dropWhile that, of "\<lambda>p. p = None"] by (simp only: Cons)
    then show ?thesis by (simp add: wait_read_def Cons suffix_ConsD)
  qed
  then show "keeps (unread ps) (outside wait_read)" by (auto simp: keeps_def unread_def)
qed

lemma keeps_unread_bus: "keeps (unread ps) (mem_read a)"
proof -
  have p: "keeps (unread ps) (case p of Ready c \<Rightarrow> f c | Eof \<Rightarrow> g | Idle \<Rightarrow> h)"
    if "\<And>c. keeps (unread ps) (f c)" "keeps (unread ps) g" "keeps (unread ps) h" for p and f and g h :: "bool mprog"
    using that by (cases p) simp_all
  have o: "keeps (unread ps) (case p of Some c \<Rightarrow> f c | None \<Rightarrow> g)"
    if "\<And>c. keeps (unread ps) (f c)" "keeps (unread ps) g" for p :: "u8 option" and f and g :: "u8 mprog"
    using that by (cases p) simp_all
  show ?thesis unfolding mem_read_def check_watch_def io_peek_m_def io_getc_m_def by (intro keeps_rules p o)
qed

lemma keeps_unread_disasm: "keeps (unread ps) (m6502_disasm mem_read a n)"
proof -
  have "keeps (unread ps) (byte_texts mem_read a n)" for a n
    by (induction n arbitrary: a) (auto intro!: keeps_rules keeps_unread_bus)
  then show ?thesis unfolding m6502_disasm_def by (intro keeps_rules keeps_unread_bus)
qed

lemma keeps_unread_line: "keeps (unread ps) (asm_line addr l)"
proof -
  have o: "keeps (unread ps) (case p of Some c \<Rightarrow> f c | None \<Rightarrow> g)"
    if "\<And>c. keeps (unread ps) (f c)" "keeps (unread ps) g" for p :: "'x option" and f and g :: "'y mprog"
    using that by (cases p) simp_all
  have q: "keeps (unread ps) (case p of (x, y) \<Rightarrow> f x y)" if "\<And>x y. keeps (unread ps) (f x y)"
    for p :: "'x \<times> 'z" and f :: "'x \<Rightarrow> 'z \<Rightarrow> 'y mprog"
    using that by (cases p) simp_all
  show ?thesis unfolding asm_line_def asm_instruction_def asm_emit_def
    by (intro keeps_rules o q)
qed

text \<open>A line that is not empty takes at least one character from the input.\<close>

lemma line_chars_consumes:
  "line_chars n ps = ((s, e), r) \<Longrightarrow> suffix r ps \<and> length r + length s \<le> length ps \<and>
    set s \<subseteq> {char_of (unat c) | c. Some c \<in> set ps}"
proof (induction n ps arbitrary: s e r rule: line_chars.induct)
  case (4 n c ps)
  show ?case
  proof (cases "c = 13 \<or> c = 10")
    case True
    then show ?thesis using 4(1) 4(3) by (auto simp: suffix_ConsI; blast)
  next
    case False
    then obtain s' where "line_chars n ps = ((s', e), r)" "s = char_of (unat c) # s'"
      using 4(3) by (auto split: prod.splits)
    with 4(2) False show ?thesis by (force simp: suffix_ConsI)
  qed
qed (auto simp: suffix_ConsI)

lemma assemble_loop_returns:
  assumes "suffix (t_in (snd w)) ps" "Some 0x2E \<notin> set ps" "length (t_in (snd w)) < k"
  shows "result (assemble_loop k addr) w = Some ()"
  using assms
proof (induction k arbitrary: addr w)
  case (Suc k)
  obtain m t where w: "w = (m, t)" by (cases w)
  obtain s e r where l: "line_chars 127 (t_in t) = ((s, e), r)" by (metis prod.exhaust)
  note c = line_chars_consumes [OF l]
  show ?case
  proof (cases "cstr s = []")
    case True
    then show ?thesis by (simp add: w read_line_m_def l)
  next
    case False
    have "s \<noteq> []" using False by (auto simp: cstr_def)
    have short: "length r < length (t_in t)" using c \<open>s \<noteq> []\<close> by (cases s) auto
    have r: "suffix r ps" using c Suc.prems(1) suffix_order.order_trans by (fastforce simp: w)
    have "set (t_in t) \<subseteq> set ps" using Suc.prems(1) by (simp add: w set_mono_suffix)
    then have "Some 0x2E \<notin> set (t_in t)" using Suc.prems(2) by blast
    have nodot: "CHR ''.'' \<notin> set (cstr s)"
    proof
      assume "CHR ''.'' \<in> set (cstr s)"
      then have "CHR ''.'' \<in> set s" by (auto simp: cstr_def dest: set_takeWhileD)
      then obtain x where x: "CHR ''.'' = char_of (unat (x :: u8))" "Some x \<in> set (t_in t)" using c by blast
      have "of_char CHR ''.'' = (of_char (char_of (unat x)) :: nat)" by (simp only: x(1))
      then have "unat x = 46" using unat_u8_lt [of x] by simp
      then have "x = 0x2E" by (simp add: word_unat_eq_iff)
      then show False using x(2) \<open>Some 0x2E \<notin> set (t_in t)\<close> by simp
    qed
    let ?w = "(m, t\<lparr>t_out := t_out t @ hex4 addr @ '': '', t_in := r\<rparr>)"
    obtain n where n: "result (asm_line addr (cstr s)) ?w = Some n" using asm_line_returns [OF nodot] by blast
    have u: "unread r ?w" by (simp add: unread_def)
    have u1: "unread r (exec (asm_line addr (cstr s)) ?w)" by (rule keepsD [OF keeps_unread_line u])
    have ends: "result (assemble_loop k a) v = Some ()" if "unread r v" for a v
      using that r short Suc.prems by (intro Suc.IH) (auto simp: unread_def w dest: suffix_length_le intro: suffix_order.order_trans)
    have "unread r (exec (say_m x) (exec (m6502_disasm mem_read addr 64) (exec (asm_line addr (cstr s)) ?w)))" for x
      by (rule keepsD [OF keeps_unread(2)]) (rule keepsD [OF keeps_unread_disasm u1])
    then show ?thesis
      using False n ends u1 by (simp add: w read_line_m_def l case_prod_beta put_text_def)
  qed
qed simp

text \<open>C32: The assembler loop ends on every input that contains no dot, so no directive: each round that
  does not end it takes a character of the input.\<close>

theorem do_assemble_returns:
  assumes "Some 0x2E \<notin> set (t_in t)"
  shows "result (do_assemble start) (m, t) = Some ()"
  using assms by (simp add: do_assemble_def assemble_loop_returns [where ps = "t_in t"] del: assemble_loop.simps)

theorem do_assemble_returns_witness:
  "result (do_assemble 0x800) (zero_mon, \<lparr>t_in = [Some 0x4E, Some 0x4F, Some 0x50, Some 10, Some 10], t_out = []\<rparr>) = Some ()"
  by (rule do_assemble_returns) simp

end
