(* ===== verification/Memsys_Modified.thy ===== *)
theory Memsys_Modified
  imports Memsys_Init
begin

text \<open>
  The modified Harvard model with its caches on: one memory behind two caches, which the program has to
  keep coherent.

  \<open>Mod j ki kd V m\<close> says that the data side of the machine presents the memory \<open>V\<close> at all times, and grades
  what the fetch side can see of it by \<open>j\<close>: nothing is known at level 0, at level 1 the data cache is clean,
  so memory is up to date, and at level 2 the instruction cache agrees with memory too.  A store leads
  to level 0, a clean to level 1, an invalidation after it to level 2; with snooping hardware and a data
  cache that writes through, a store stays at level 2.  \<open>leave_modified\<close> says what a change of the model makes of it.
\<close>
unbundle bit_operations_syntax

section \<open>The two caches over one memory\<close>

abbreviation cachable :: "u16 \<Rightarrow> bool" where
  "cachable \<equiv> \<lambda>a. \<not> io_page a"

definition Mod :: "nat \<Rightarrow> phys cache \<Rightarrow> phys cache \<Rightarrow> (u16 \<Rightarrow> u8) \<Rightarrow> memsys \<Rightarrow> bool" where
  "Mod j ki kd V m \<longleftrightarrow> ms_mode m = MODE_MODIFIED \<and> caches_on m \<and> backing.ready CI ki \<and> backing.ready CD kd \<and>
     (\<exists>U. backing.Stale CI MEM_I MEM_I (space (ms_phys m)) ki (space (ms_phys m) MEM_I) U (ci m, ms_phys m)) \<and>
     backing.Safe CD MEM_I MEM_I (space (ms_phys m)) cachable kd V (cd m, ms_phys m) \<and>
     (1 \<le> j \<longrightarrow> clean_in (c_wpol kd) (indices kd) (cd m)) \<and>
     (2 \<le> j \<longrightarrow> backing.Safe CI MEM_I MEM_I (space (ms_phys m)) cachable ki V (ci m, ms_phys m))"

lemma own_MEM_I: "own n MEM_I MEM_I = MEM_I"
  by (simp add: own_def)

lemma St_MEM_I: "backing.St n MEM_I MEM_I M k A L p \<longleftrightarrow>
    frame (fst p) = frame k \<and> slots_of (fst p) = A \<and> still n MEM_I MEM_I M (snd p) \<and> space (snd p) MEM_I = L"
  unfolding backing.St_def by (simp add: own_MEM_I)

lemma still_self: "imem b = MEM_I \<Longrightarrow> dmem b = MEM_I \<Longrightarrow> still n MEM_I MEM_I (space b) b"
  by (simp add: still_def)

lemma still_space: "still n MEM_I MEM_I M b \<Longrightarrow> space b MEM_I = M MEM_I \<Longrightarrow> space b = M"
  unfolding still_def by (rule ext) (metis own_MEM_I)

lemma backing_move:
  assumes "imem b' = MEM_I" "dmem b' = MEM_I"
  shows "backing.St n MEM_I MEM_I M k A L (c, b) \<Longrightarrow> backing.St n MEM_I MEM_I (space b') k A (space b' MEM_I) (c, b')"
  using still_self [OF assms] by (simp add: St_MEM_I)

text \<open>The same cache over another content of the memory.\<close>

lemma Stale_move:
  assumes b: "imem b' = MEM_I" "dmem b' = MEM_I" and k: "backing.ready n k" and s: "backing.Stale n MEM_I MEM_I M k L U (c, b)"
  shows "backing.Stale n MEM_I MEM_I (space b') k (space b' MEM_I) (\<lambda>x. if find_way c x = None then space b' MEM_I x else U x) (c, b')"
proof -
  obtain A where cl: "clean_in (c_wpol k) (indices k) c" and st: "backing.St n MEM_I MEM_I M k A L (c, b)"
    and a: "shape_ok k A" "view k A L = U" using s by (auto simp: backing.Stale_def)
  have "view k A (space b' MEM_I) x = (if find_way c x = None then space b' MEM_I x else U x)" for x
    unfolding backing.find_way_lookup [OF st k] a(2) [symmetric]
    using lookup_Some [OF a(1), of x "the (lookup k A x)"] by (cases "lookup k A x") (auto simp: view_def hit_def)
  then have "view k A (space b' MEM_I) = (\<lambda>x. if find_way c x = None then space b' MEM_I x else U x)" by (simp add: fun_eq_iff)
  with cl backing_move [OF b st] a(1) show ?thesis by (auto simp: backing.Stale_def)
qed

lemma Safe_move:
  assumes b: "imem b' = MEM_I" "dmem b' = MEM_I" "space b' MEM_I = space b MEM_I" and s: "backing.Safe n MEM_I MEM_I M C k V (c, b)"
  shows "backing.Safe n MEM_I MEM_I (space b') C k V (c, b')"
proof -
  obtain A L where st: "backing.St n MEM_I MEM_I M k A L (c, b)" and a: "shape_ok k A" "coherent k A L" "view k A L = V"
    and l: "lines_in C (c_line_bytes k) (indices k) c" using s by (auto simp: backing.Safe_def backing.Ok_def)
  have "L = space b' MEM_I" using st b(3) by (simp add: St_MEM_I)
  with backing_move [OF b(1,2) st] a l show ?thesis by (auto simp: backing.Safe_def backing.Ok_def)
qed

lemma Safe_still: "backing.Safe n MEM_I MEM_I M C k V (c, b) \<Longrightarrow> imem b = MEM_I \<and> dmem b = MEM_I"
  by (auto simp: backing.Safe_def backing.Ok_def St_MEM_I still_def)

lemma Stale_still: "backing.Stale n MEM_I MEM_I M k L U (c, b) \<Longrightarrow>
    imem b = MEM_I \<and> dmem b = MEM_I \<and> space b MEM_I = L \<and> (L = M MEM_I \<longrightarrow> space b = M)"
  using still_space [of n M b] by (auto simp: backing.Stale_def St_MEM_I still_def)

lemma ModD:
  assumes "Mod j ki kd V m"
  shows "ms_mode m = MODE_MODIFIED" "caches_on m" "backing.ready CI ki" "backing.ready CD kd"
    "backing.Safe CD MEM_I MEM_I (space (ms_phys m)) cachable kd V (cd m, ms_phys m)"
    "1 \<le> j \<Longrightarrow> clean_in (c_wpol kd) (indices kd) (cd m)"
    "2 \<le> j \<Longrightarrow> backing.Safe CI MEM_I MEM_I (space (ms_phys m)) cachable ki V (ci m, ms_phys m)"
    "\<exists>U. backing.Stale CI MEM_I MEM_I (space (ms_phys m)) ki (space (ms_phys m) MEM_I) U (ci m, ms_phys m)"
    "imem (ms_phys m) = MEM_I" "dmem (ms_phys m) = MEM_I"
  using assms Safe_still unfolding Mod_def by blast+

lemma Mod_cong:
  assumes "ms_mode m' = ms_mode m" "caches_on m' = caches_on m" "ms_phys m' = ms_phys m" "ci m' = ci m" "cd m' = cd m"
  shows "Mod j ki kd V m' \<longleftrightarrow> Mod j ki kd V m"
  unfolding Mod_def assms ..

lemma Mod_lower: "Mod j ki kd V m \<Longrightarrow> i \<le> j \<Longrightarrow> Mod i ki kd V m"
  unfolding Mod_def by simp

text \<open>With a clean data cache memory holds what the data side presents.\<close>

lemma Mod_memory:
  assumes "Mod j ki kd V m" "1 \<le> j"
  shows "space (ms_phys m) MEM_I = V"
proof -
  have "backing.Ok CD MEM_I MEM_I (space (ms_phys m)) kd V (cd m, ms_phys m)"
    using ModD(5) [OF assms(1)] by (simp add: backing.Safe_def)
  from backing.Ok_clean [OF ModD(4) [OF assms(1)] this] show ?thesis
    using ModD(6) [OF assms] by (simp add: own_MEM_I)
qed

text \<open>A step of one of the caches.\<close>

lemma put_CD [simp]: "ci (put_cache CD c m) = ci m" "cd (put_cache CD c m) = c"
  and put_CI [simp]: "ci (put_cache CI c m) = c" "cd (put_cache CI c m) = cd m"
  by (simp_all add: put_cache_def)

lemma CI_step:
  assumes m: "Mod j ki kd V m" and i: "i \<le> j \<or> 1 \<le> j"
    and st: "backing.Stale CI MEM_I MEM_I (space (ms_phys m)) ki (space (ms_phys m) MEM_I) U (c, b)"
    and two: "2 \<le> i \<Longrightarrow> backing.Safe CI MEM_I MEM_I (space (ms_phys m)) cachable ki V (c, b)"
  shows "Mod i ki kd V (put_cache CI c (m\<lparr>ms_phys := b\<rparr>))"
proof -
  note b = Stale_still [OF st]
  then have "space b = space (ms_phys m)" by simp
  then show ?thesis
    using ModD [OF m] st two i b Safe_move [of b "ms_phys m", OF _ _ _ ModD(5) [OF m]] by (auto simp: Mod_def)
qed

lemma CD_step:
  assumes m: "Mod j ki kd V m" and i: "i \<le> j"
    and s: "backing.Safe CD MEM_I MEM_I (space (ms_phys m)) cachable kd W (c, b)"
    and one: "1 \<le> i \<Longrightarrow> clean_in (c_wpol kd) (indices kd) c" and two: "2 \<le> i \<Longrightarrow> W = V"
  shows "Mod i ki kd W (put_cache CD c (m\<lparr>ms_phys := b\<rparr>))"
proof -
  have b: "imem b = MEM_I" "dmem b = MEM_I" using Safe_still [OF s] by simp_all
  obtain U where U: "backing.Stale CI MEM_I MEM_I (space (ms_phys m)) ki (space (ms_phys m) MEM_I) U (ci m, ms_phys m)"
    using ModD(8) [OF m] by blast
  have st: "\<exists>U. backing.Stale CI MEM_I MEM_I (space b) ki (space b MEM_I) U (ci m, b)"
    using Stale_move [OF b ModD(3) [OF m] U] by blast
  have sd: "backing.Safe CD MEM_I MEM_I (space b) cachable kd W (c, b)" by (rule Safe_move [OF b refl s])
  have "backing.Safe CI MEM_I MEM_I (space b) cachable ki W (ci m, b)" if "2 \<le> i"
  proof -
    have "backing.Ok CD MEM_I MEM_I (space b) kd W (c, b)" using sd by (simp add: backing.Safe_def)
    from backing.Ok_clean [OF ModD(4) [OF m] this] have "space b MEM_I = W" using one that by (simp add: own_MEM_I)
    then have "space b MEM_I = space (ms_phys m) MEM_I" using Mod_memory [OF m] two that i by simp
    from Safe_move [OF b this ModD(7) [OF m]] show ?thesis using two that i by simp
  qed
  then show ?thesis using ModD [OF m] st sd one by (simp add: Mod_def)
qed

section \<open>The operations of the memory system\<close>

text \<open>The machine with its snooping hardware on or off.\<close>

definition Mods :: "nat \<Rightarrow> bool \<Rightarrow> phys cache \<Rightarrow> phys cache \<Rightarrow> (u16 \<Rightarrow> u8) \<Rightarrow> world \<Rightarrow> bool" where
  "Mods j sn ki kd V w \<longleftrightarrow> Mod j ki kd V (fst w) \<and> snoop (fst w) = sn"

text \<open>What these states depend on; the census, the trace and the warnings touch none of it.\<close>

definition core_of :: "memsys \<Rightarrow> MemMode \<times> bool \<times> bool \<times> phys \<times> phys cache \<times> phys cache" where
  "core_of m = (ms_mode m, caches_on m, snoop m, ms_phys m, ci m, cd m)"

definition blind :: "(world \<Rightarrow> bool) \<Rightarrow> bool" where
  "blind P \<longleftrightarrow> (\<forall>m h m' h'. core_of m' = core_of m \<longrightarrow> P (m, h) \<longrightarrow> P (m', h'))"

lemma blind_writes: "blind P \<Longrightarrow> (\<And>m. core_of (f m) = core_of m) \<Longrightarrow> keeps P (writes f)"
  by (rule keeps_writes) (unfold blind_def, blast)

lemma blind_say: "blind P \<Longrightarrow> keeps P (say t)"
  by (auto simp: keeps_def say_def blind_def)

lemma blind_keeps:
  assumes "blind P"
  shows "keeps P (count_access kind)" "keeps P (trace_line op kind a v ce)" "keeps P (stale_warning a)"
    "keeps P (writes (\<lambda>m. m\<lparr>n_uncached := n_uncached m + 1\<rparr>))" "keeps P (writes (\<lambda>m. m\<lparr>code_stores := code_stores m + 1\<rparr>))"
  unfolding count_access_def trace_line_def stale_warning_def Let_def
  by (intro keeps_rules blind_writes [OF assms] blind_say [OF assms]; simp add: core_of_def)+

lemmas blind_triples = blind_keeps [unfolded triple_keeps]

lemma blind_Mods: "blind (Mods j sn ki kd V)"
  unfolding blind_def Mods_def core_of_def prod.inject fst_conv by (metis Mod_cong)

lemma blind_conj: "blind P \<Longrightarrow> blind Q \<Longrightarrow> blind (\<lambda>x. P x \<and> Q x)"
  unfolding blind_def by blast

lemma blind_ci: "blind (\<lambda>x. ci (fst x) = c)"
  by (simp add: blind_def core_of_def)

lemma on_cache_run:
  assumes "run_state prog (the_cache n m, ms_phys m) = (r, (c, b))"
  shows "run_state (on_cache n prog) (m, h) = (r, (put_cache n c (m\<lparr>ms_phys := b\<rparr>), h))"
  using assms by (simp add: on_cache_def)

lemma code_read:
  assumes a: "cachable a"
  shows "triple (Mods j sn ki kd V) (on_cache CI (cache_read rand a)) (\<lambda>r w. (2 \<le> j \<longrightarrow> fst r = V a) \<and> Mods j sn ki kd V w)"
  unfolding triple_def
proof (intro allI impI)
  fix w assume w: "Mods j sn ki kd V w"
  obtain m h where mh: "w = (m, h)" by (cases w)
  have m: "Mod j ki kd V m" "snoop m = sn" using w by (simp_all add: mh Mods_def)
  note D = ModD [OF m(1)]
  obtain r c b where run: "run_state (cache_read rand a) (ci m, ms_phys m) = (r, (c, b))" by (metis prod.exhaust)
  obtain U where U: "backing.Stale CI MEM_I MEM_I (space (ms_phys m)) ki (space (ms_phys m) MEM_I) U (ci m, ms_phys m)" using D(8) by blast
  have c: "cachable (addr_base ki a)" using a D(3) by (simp add: backing.ready_def io_page_base)
  obtain W where W: "backing.Stale CI MEM_I MEM_I (space (ms_phys m)) ki (space (ms_phys m) MEM_I) W (c, b)"
    using tripleD [OF backing.cache_read_stale [OF D(3)] U, of a] run by auto
  have two: "fst r = V a \<and> backing.Safe CI MEM_I MEM_I (space (ms_phys m)) cachable ki V (c, b)" if "2 \<le> j"
    using tripleD [OF backing.cache_read_Safe [where C = cachable, OF D(3) c] D(7) [OF that]] run by auto
  have "Mod j ki kd V (put_cache CI c (m\<lparr>ms_phys := b\<rparr>))" by (rule CI_step [OF m(1) _ W]) (use two in auto)
  moreover have "run_state (on_cache CI (cache_read rand a)) (m, h) = (r, (put_cache CI c (m\<lparr>ms_phys := b\<rparr>), h))"
    by (rule on_cache_run) (simp add: the_cache_def run)
  ultimately show "(2 \<le> j \<longrightarrow> fst (result (on_cache CI (cache_read rand a)) w) = V a) \<and>
      Mods j sn ki kd V (exec (on_cache CI (cache_read rand a)) w)"
    using two m(2) by (simp add: mh Mods_def)
qed

text \<open>A program of the data cache, given by what it does to the cache.\<close>

lemma data_step:
  assumes prog: "\<And>M. backing.ready CD kd \<Longrightarrow> triple (backing.Safe CD MEM_I MEM_I M cachable kd V) prog
        (\<lambda>r s. Q r \<and> backing.Safe CD MEM_I MEM_I M cachable kd W s)"
    and one: "1 \<le> i \<Longrightarrow> keeps (on_struct (clean_in (c_wpol kd) (indices kd))) prog" and i: "i \<le> j" and two: "2 \<le> i \<Longrightarrow> W = V"
  shows "triple (Mods j sn ki kd V) (on_cache CD prog) (\<lambda>r w. Q r \<and> Mods i sn ki kd W w)"
  unfolding triple_def
proof (intro allI impI)
  fix w assume w: "Mods j sn ki kd V w"
  obtain m h where mh: "w = (m, h)" by (cases w)
  have m: "Mod j ki kd V m" "snoop m = sn" using w by (simp_all add: mh Mods_def)
  note D = ModD [OF m(1)]
  obtain r c b where run: "run_state prog (cd m, ms_phys m) = (r, (c, b))" by (metis prod.exhaust)
  have s: "Q r" "backing.Safe CD MEM_I MEM_I (space (ms_phys m)) cachable kd W (c, b)"
    using tripleD [OF prog [OF D(4)] D(5)] run by simp_all
  have "clean_in (c_wpol kd) (indices kd) c" if "1 \<le> i"
    using keepsD [OF one [OF that], of "(cd m, ms_phys m)"] D(6) that i run by simp
  then have "Mod i ki kd W (put_cache CD c (m\<lparr>ms_phys := b\<rparr>))" by (rule CD_step [OF m(1) i s(2) _ two])
  moreover have "run_state (on_cache CD prog) (m, h) = (r, (put_cache CD c (m\<lparr>ms_phys := b\<rparr>), h))"
    by (rule on_cache_run) (simp add: the_cache_def run)
  ultimately show "Q (result (on_cache CD prog) w) \<and> Mods i sn ki kd W (exec (on_cache CD prog) w)"
    using s(1) m(2) by (simp add: mh Mods_def)
qed

lemma data_loads:
  assumes a: "cachable a"
  shows "triple (Mods j sn ki kd V) (on_cache CD (cache_read rand a)) (\<lambda>r w. fst r = V a \<and> Mods j sn ki kd V w)"
proof (rule data_step)
  fix M assume k: "backing.ready CD kd"
  then have "cachable (addr_base kd a)" using a by (simp add: backing.ready_def io_page_base)
  from backing.cache_read_Safe [where C = cachable, OF k this]
  show "triple (backing.Safe CD MEM_I MEM_I M cachable kd V) (cache_read rand a)
      (\<lambda>r s. fst r = V a \<and> backing.Safe CD MEM_I MEM_I M cachable kd V s)"
    by (rule triple_weaken) auto
qed (simp_all add: cache_read_clean)

lemma data_write:
  assumes a: "cachable a" and i: "i = 0 \<or> i = 1 \<and> 1 \<le> j \<and> c_wpol kd = WPOL_THROUGH"
  shows "triple (Mods j sn ki kd V) (on_cache CD (cache_write rand a v)) (\<lambda>r w. True \<and> Mods i sn ki kd (V(a := v)) w)"
proof (rule data_step)
  fix M assume k: "backing.ready CD kd"
  then have "cachable (addr_base kd a)" using a by (simp add: backing.ready_def io_page_base)
  from backing.cache_write_Safe [where C = cachable, OF k this]
  show "triple (backing.Safe CD MEM_I MEM_I M cachable kd V) (cache_write rand a v)
      (\<lambda>r s. True \<and> backing.Safe CD MEM_I MEM_I M cachable kd (V(a := v)) s)" by simp
qed (use i cache_write_clean [of "indices kd" rand a v] in auto)

text \<open>Maintenance.\<close>

lemma data_maintenance:
  assumes "prog = cache_clean \<or> prog = cache_flush \<or> prog = cache_reset_stats"
  shows "triple (Mods j sn ki kd V) (on_cache CD prog) (\<lambda>r w. True \<and> Mods j sn ki kd V w)"
proof (rule data_step)
  fix M assume "backing.ready CD kd"
  note rules = backing.maintenance_Safe [OF this, of MEM_I MEM_I M cachable V]
  show "triple (backing.Safe CD MEM_I MEM_I M cachable kd V) prog (\<lambda>r s. True \<and> backing.Safe CD MEM_I MEM_I M cachable kd V s)"
    using assms by (elim disjE; hypsubst; intro triple_weaken [OF rules(1)] triple_weaken [OF rules(2)] triple_weaken [OF rules(3)])
      simp_all
qed (use assms maintenance_clean(1,2,5) [of "c_wpol kd" "indices kd"] in auto)

text \<open>A clean brings a machine to level 1.\<close>

lemma data_clean:
  "triple (Mods j sn ki kd V) (on_cache CD cache_clean) (\<lambda>_. Mods (max j 1) sn ki kd V)"
  unfolding triple_def
proof (intro allI impI)
  fix w assume w: "Mods j sn ki kd V w"
  obtain m h where mh: "w = (m, h)" by (cases w)
  have m: "Mod j ki kd V m" "snoop m = sn" using w by (simp_all add: mh Mods_def)
  note D = ModD [OF m(1)]
  obtain r c b where run: "run_state cache_clean (cd m, ms_phys m) = (r, (c, b))" by (metis prod.exhaust)
  have e: "run_state (on_cache CD cache_clean) (m, h) = (r, (put_cache CD c (m\<lparr>ms_phys := b\<rparr>), h))"
    by (rule on_cache_run) (simp add: the_cache_def run)
  have ok: "backing.Ok CD MEM_I MEM_I (space (ms_phys m)) kd V (cd m, ms_phys m)" using D(5) by (simp add: backing.Safe_def)
  have cl: "clean_in (c_wpol kd) (indices kd) c" using backing.cache_clean_cleans [OF D(4) ok] run by simp
  have "Mods j sn ki kd V (exec (on_cache CD cache_clean) w)" using tripleD [OF data_maintenance w, of cache_clean] by simp
  then have "Mod j ki kd V (put_cache CD c (m\<lparr>ms_phys := b\<rparr>))" by (simp add: mh Mods_def e)
  then have "Mod (max j 1) ki kd V (put_cache CD c (m\<lparr>ms_phys := b\<rparr>))" using cl by (simp add: Mod_def max_def)
  then show "Mods (max j 1) sn ki kd V (exec (on_cache CD cache_clean) w)" using m(2) by (simp add: mh Mods_def e)
qed

text \<open>A flush of the instruction cache brings it from level 1 to level 2.\<close>

lemma code_flush:
  assumes i: "i \<le> j \<or> 1 \<le> j"
  shows "triple (Mods j sn ki kd V) (on_cache CI cache_flush) (\<lambda>_. Mods i sn ki kd V)"
  unfolding triple_def
proof (intro allI impI)
  fix w assume w: "Mods j sn ki kd V w"
  obtain m h where mh: "w = (m, h)" by (cases w)
  have m: "Mod j ki kd V m" "snoop m = sn" using w by (simp_all add: mh Mods_def)
  note D = ModD [OF m(1)]
  obtain r c b where run: "run_state cache_flush (ci m, ms_phys m) = (r, (c, b))" by (metis prod.exhaust)
  have e: "run_state (on_cache CI cache_flush) (m, h) = (r, (put_cache CI c (m\<lparr>ms_phys := b\<rparr>), h))"
    by (rule on_cache_run) (simp add: the_cache_def run)
  let ?L = "space (ms_phys m) MEM_I"
  obtain U where U: "backing.Stale CI MEM_I MEM_I (space (ms_phys m)) ki ?L U (ci m, ms_phys m)" using D(8) by blast
  have post: "backing.Ok CI MEM_I MEM_I (space (ms_phys m)) ki ?L (c, b)" "space b MEM_I = ?L" "slots_of c = Map.empty"
    using tripleD [OF backing.cache_flush_stale [OF D(3)] U] run by (simp_all add: own_MEM_I)
  have cl: "clean_in (c_wpol ki) (indices ki) c"
    using keepsD [OF maintenance_clean(2), of "c_wpol ki" "indices ki" "(ci m, ms_phys m)"] U run by (simp add: backing.Stale_def)
  have st: "backing.Stale CI MEM_I MEM_I (space (ms_phys m)) ki ?L ?L (c, b)"
    using backing.Stale_Ok [OF post(1)] cl post(2) by (simp add: own_MEM_I)
  have "backing.Safe CI MEM_I MEM_I (space (ms_phys m)) cachable ki V (c, b)" if "2 \<le> i"
  proof -
    have "?L = V" using i that by (intro Mod_memory [OF m(1)]) linarith
    then show ?thesis using backing.Safe_empty [OF D(3) post(1,3)] by simp
  qed
  from CI_step [OF m(1) i st this] show "Mods i sn ki kd V (exec (on_cache CI cache_flush) w)" using m(2) by (simp add: mh Mods_def e)
qed

lemma Mods_mode: "triple (Mods j sn ki kd V) (reads ms_mode) (\<lambda>r w. r = MODE_MODIFIED \<and> Mods j sn ki kd V w)"
  by (rule triple_reads) (simp add: Mods_def Mod_def)

lemma ms_clean_Mods: "triple (Mods j sn ki kd V) ms_clean (\<lambda>_. Mods (max j 1) sn ki kd V)"
  unfolding ms_clean_def using data_clean by (intro triple_bind [OF Mods_mode] triple_pure) simp

lemma ms_flush_Mods:
  assumes "i \<le> j \<or> code \<and> 1 \<le> j"
  shows "triple (Mods j sn ki kd V) (ms_flush code data) (\<lambda>_. Mods i sn ki kd V)"
proof -
  have lower: "triple (Mods j sn ki kd V) (ret ()) (\<lambda>_. Mods i sn ki kd V)" if "i \<le> j"
    using Mod_lower [OF _ that] by (intro triple_ret) (auto simp: Mods_def)
  have code: "triple (Mods j sn ki kd V) (whenever code (on_cache CI cache_flush)) (\<lambda>_. Mods i sn ki kd V)"
    using assms code_flush [of i j] lower by (cases code) (auto simp: whenever_def)
  have data: "triple (Mods i sn ki kd V) (whenever data (on_cache CD cache_flush)) (\<lambda>_. Mods i sn ki kd V)"
    using data_maintenance [of cache_flush i] by (intro triple_whenever) simp
  show ?thesis
    unfolding ms_flush_def
    by (rule triple_bind [OF Mods_mode], rule triple_pure) (simp add: triple_bind [OF code data])
qed

lemma code_reset_stats: "triple (Mods j sn ki kd V) (on_cache CI cache_reset_stats) (\<lambda>_. Mods j sn ki kd V)"
  unfolding triple_def
proof (intro allI impI)
  fix w assume w: "Mods j sn ki kd V w"
  obtain m h where mh: "w = (m, h)" by (cases w)
  have m: "Mod j ki kd V m" "snoop m = sn" using w by (simp_all add: mh Mods_def)
  note D = ModD [OF m(1)]
  obtain r c b where run: "run_state cache_reset_stats (ci m, ms_phys m) = (r, (c, b))" by (metis prod.exhaust)
  have e: "run_state (on_cache CI cache_reset_stats) (m, h) = (r, (put_cache CI c (m\<lparr>ms_phys := b\<rparr>), h))"
    by (rule on_cache_run) (simp add: the_cache_def run)
  obtain U where U: "backing.Stale CI MEM_I MEM_I (space (ms_phys m)) ki (space (ms_phys m) MEM_I) U (ci m, ms_phys m)"
    using D(8) by blast
  have "triple (backing.Stale CI MEM_I MEM_I (space (ms_phys m)) ki (space (ms_phys m) MEM_I) U) cache_reset_stats
      (\<lambda>_. backing.Stale CI MEM_I MEM_I (space (ms_phys m)) ki (space (ms_phys m) MEM_I) U)"
    unfolding cache_reset_stats_def by (rule backing.stale_writes(1)) simp_all
  from tripleD [OF this U] run
  have st: "backing.Stale CI MEM_I MEM_I (space (ms_phys m)) ki (space (ms_phys m) MEM_I) U (c, b)" by simp
  have "backing.Safe CI MEM_I MEM_I (space (ms_phys m)) cachable ki V (c, b)" if "2 \<le> j"
    using tripleD [OF backing.maintenance_Safe(3) [OF D(3)] D(7) [OF that]] run by simp
  from CI_step [OF m(1) _ st this] show "Mods j sn ki kd V (exec (on_cache CI cache_reset_stats) w)"
    using m(2) by (simp add: mh Mods_def e)
qed

lemma ms_reset_stats_Mods: "triple (Mods j sn ki kd V) ms_reset_stats (\<lambda>_. Mods j sn ki kd V)"
proof -
  have data: "triple (Mods j sn ki kd V) (on_cache CD cache_reset_stats) (\<lambda>_. Mods j sn ki kd V)"
    using data_maintenance [of cache_reset_stats] by simp
  have unified: "triple (Mods j sn ki kd V) (on_cache CU cache_reset_stats) (\<lambda>_. Mods j sn ki kd V)"
    unfolding triple_def
  proof (intro allI impI)
    fix w assume "Mods j sn ki kd V w"
    moreover obtain m h where mh: "w = (m, h)" by (cases w)
    obtain c where "exec (on_cache CU cache_reset_stats) (m, h) = (m\<lparr>cu := c\<rparr>, h)"
      by (simp add: on_cache_def cache_reset_stats_def put_cache_def)
    ultimately show "Mods j sn ki kd V (exec (on_cache CU cache_reset_stats) w)"
      using Mod_cong [of "m\<lparr>cu := c\<rparr>" m] by (simp add: mh Mods_def)
  qed
  show ?thesis
    unfolding ms_reset_stats_def
    by (rule triple_bind [OF code_reset_stats], rule triple_bind [OF data], rule triple_bind [OF unified], unfold triple_keeps [symmetric],
        rule blind_writes [OF blind_Mods]) (simp add: core_of_def)
qed

section \<open>Loads and stores\<close>

lemma routing_Mods:
  "triple (Mods j sn ki kd V) (reads (\<lambda>m. ms_cache_for m side))
     (\<lambda>r w. r = Some (if side = SIDE_CODE then CI else CD) \<and> Mods j sn ki kd V w)"
  by (rule triple_reads) (auto simp: Mods_def Mod_def ms_cache_for_def)

lemma ms_load_Mods:
  assumes a: "cachable a"
  shows "triple (Mods j sn ki kd V) (ms_load kind a)
    (\<lambda>r w. (side_of kind = SIDE_DATA \<or> 2 \<le> j \<longrightarrow> r = V a) \<and> Mods j sn ki kd V w)"
  unfolding ms_load_def
proof (rule triple_bind [OF routing_Mods], rule triple_pure, clarsimp simp only: option.case)
  let ?n = "if side_of kind = SIDE_CODE then CI else CD"
  have "triple (Mods j sn ki kd V) (on_cache ?n (cache_read rand a))
      (\<lambda>r w. (side_of kind = SIDE_DATA \<or> 2 \<le> j \<longrightarrow> fst r = V a) \<and> Mods j sn ki kd V w)"
  proof (cases "side_of kind")
    case SIDE_CODE
    then show ?thesis using code_read [OF a] by simp
  next
    case SIDE_DATA
    then show ?thesis using triple_weaken [OF data_loads [OF a]] by (simp add: triple_def)
  qed
  then show "triple (Mods j sn ki kd V) (do {
        (v, ev) \<leftarrow> on_cache ?n (cache_read rand a);
        trace_line ''read'' kind a v (Some (?n, ev));
        ret v }) (\<lambda>r w. (side_of kind = SIDE_DATA \<or> 2 \<le> j \<longrightarrow> r = V a) \<and> Mods j sn ki kd V w)"
    by (rule triple_bind) (auto intro!: triple_pure triple_bind [OF blind_triples(2) [OF blind_Mods]] triple_ret)
qed

lemma data_clean_addr:
  "triple (Mods j sn ki kd V) (on_cache CD (cache_clean_addr a)) (\<lambda>r w. True \<and> Mods j sn ki kd V w)"
proof (rule data_step)
  fix M assume k: "backing.ready CD kd"
  from backing.Safe_triple [OF backing.cache_clean_addr_Ok [OF k] maintenance_lines(4)]
  show "triple (backing.Safe CD MEM_I MEM_I M cachable kd V) (cache_clean_addr a)
      (\<lambda>r s. True \<and> backing.Safe CD MEM_I MEM_I M cachable kd V s)"
    by (rule triple_weaken) (auto simp: backing.Safe_def backing.Synced_def)
qed (simp_all add: maintenance_clean)

text \<open>
  After a store, with memory up to date: the instruction cache is wrong at the address of the store at most,
  and only if it holds it (\<open>b\<close>).
\<close>

definition Near :: "bool \<Rightarrow> u16 \<Rightarrow> phys cache \<Rightarrow> phys cache \<Rightarrow> (u16 \<Rightarrow> u8) \<Rightarrow> world \<Rightarrow> bool" where
  "Near b a ki kd V w \<longleftrightarrow> Mods 1 True ki kd V w \<and>
     lines_in cachable (c_line_bytes ki) (indices ki) (ci (fst w)) \<and>
     (\<exists>U. backing.Stale CI MEM_I MEM_I (space (ms_phys (fst w))) ki V U (ci (fst w), ms_phys (fst w)) \<and>
       (\<forall>x. x \<noteq> a \<or> \<not> b \<longrightarrow> U x = V x))"

lemma blind_Near: "blind (Near b a ki kd V)"
  unfolding blind_def
proof (intro allI impI)
  fix m m' :: memsys and h h' assume e: "core_of m' = core_of m" and n: "Near b a ki kd V (m, h)"
  have "Mods 1 True ki kd V (m', h')" using blind_Mods [of 1 True ki kd V] e n unfolding blind_def Near_def by blast
  moreover have "ci m' = ci m" "ms_phys m' = ms_phys m" using e by (simp_all add: core_of_def)
  ultimately show "Near b a ki kd V (m', h')" using n by (simp add: Near_def)
qed

lemma Mods_memory: "Mods j sn ki kd V w \<Longrightarrow> 1 \<le> j \<Longrightarrow> space (ms_phys (fst w)) MEM_I = V"
  using Mod_memory [of j ki kd V "fst w"] by (simp add: Mods_def)

lemma on_cache_CD_ci: "ci (fst (exec (on_cache CD p) w)) = ci (fst w)"
  by (cases w) (simp add: on_cache_def case_prod_beta)

text \<open>Dropping the line leads back to level 2; if nothing is stale, level 2 is already there.\<close>

lemma Near_fresh:
  assumes "Near b a ki kd V w" "\<not> b"
  shows "Mods 2 True ki kd V w"
proof -
  obtain m h where w: "w = (m, h)" by (cases w)
  have m: "Mod 1 ki kd V m" "snoop m" using assms(1) by (simp_all add: Near_def Mods_def w)
  obtain U where U: "backing.Stale CI MEM_I MEM_I (space (ms_phys m)) ki V U (ci m, ms_phys m)" "\<And>x. U x = V x"
    using assms by (auto simp: Near_def w)
  then have "U = V" by (simp add: fun_eq_iff)
  with U have "backing.Ok CI MEM_I MEM_I (space (ms_phys m)) ki V (ci m, ms_phys m)"
    using backing.Stale_fresh [OF ModD(3) [OF m(1)]] by blast
  then show ?thesis using assms(1) by (simp add: Near_def Mods_def w Mod_def backing.Safe_def)
qed

lemma Near_snoop: "triple (Near b a ki kd V) (on_cache CI (cache_snoop a)) (\<lambda>_. Mods 2 True ki kd V)"
  unfolding triple_def
proof (intro allI impI)
  fix w assume n: "Near b a ki kd V w"
  obtain m h where mh: "w = (m, h)" by (cases w)
  have m: "Mod 1 ki kd V m" "snoop m" using n by (simp_all add: Near_def Mods_def mh)
  note D = ModD [OF m(1)] and L = Mod_memory [OF m(1) order_refl]
  obtain U where U: "backing.Stale CI MEM_I MEM_I (space (ms_phys m)) ki V U (ci m, ms_phys m)" "\<And>x. x \<noteq> a \<Longrightarrow> U x = V x"
    using n by (auto simp: Near_def mh)
  obtain r c b' where run: "run_state (cache_snoop a) (ci m, ms_phys m) = (r, (c, b'))" by (metis prod.exhaust)
  have e: "run_state (on_cache CI (cache_snoop a)) (m, h) = (r, (put_cache CI c (m\<lparr>ms_phys := b'\<rparr>), h))"
    by (rule on_cache_run) (simp add: the_cache_def run)
  obtain W where W: "backing.Stale CI MEM_I MEM_I (space (ms_phys m)) ki V W (c, b')"
    "\<And>x. W x = (if addr_base ki x = addr_base ki a then V x else U x)"
    using tripleD [OF backing.cache_snoop_stale [OF D(3)] U(1), of a] run by auto
  have "W x = V x" for x using U(2) [of x] W(2) [of x] by (cases "x = a") auto
  then have "W = V" by (simp add: fun_eq_iff)
  with W have st: "backing.Stale CI MEM_I MEM_I (space (ms_phys m)) ki V V (c, b')" by simp
  have "lines_in cachable (c_line_bytes ki) (indices ki) c"
    using keepsD [OF maintenance_lines(5), of cachable "c_line_bytes ki" "indices ki" "(ci m, ms_phys m)" a] n run
    by (simp add: Near_def mh)
  with backing.Stale_fresh [OF D(3) st]
  have "backing.Safe CI MEM_I MEM_I (space (ms_phys m)) cachable ki V (c, b')" by (simp add: backing.Safe_def)
  moreover have "backing.Stale CI MEM_I MEM_I (space (ms_phys m)) ki (space (ms_phys m) MEM_I) V (c, b')"
    unfolding L by (rule st)
  ultimately have "Mod 2 ki kd V (put_cache CI c (m\<lparr>ms_phys := b'\<rparr>))" by (intro CI_step [OF m(1)]) simp_all
  then show "Mods 2 True ki kd V (exec (on_cache CI (cache_snoop a)) w)"
    using m(2) by (simp add: mh Mods_def e)
qed

text \<open>Two steps of the data cache that keep or establish \<open>Near\<close>.\<close>

lemma Near_clean_addr: "triple (Near b a ki kd V) (on_cache CD (cache_clean_addr a)) (\<lambda>_. Near b a ki kd V)"
  unfolding triple_def
proof (intro allI impI)
  fix w assume n: "Near b a ki kd V w"
  let ?w = "exec (on_cache CD (cache_clean_addr a)) w"
  have pre: "Mods 1 True ki kd V w" using n by (simp add: Near_def)
  have post: "Mods 1 True ki kd V ?w" using tripleD [OF data_clean_addr pre] by simp
  have ci: "ci (fst ?w) = ci (fst w)" by (rule on_cache_CD_ci)
  obtain U where U: "backing.Stale CI MEM_I MEM_I (space (ms_phys (fst w))) ki V U (ci (fst w), ms_phys (fst w))"
    "\<And>x. x \<noteq> a \<or> \<not> b \<Longrightarrow> U x = V x" using n by (auto simp: Near_def)
  have m: "Mod 1 ki kd V (fst ?w)" using post by (simp add: Mods_def)
  from Stale_move [OF ModD(9,10) [OF m] ModD(3) [OF m] U(1)] ci
  have "backing.Stale CI MEM_I MEM_I (space (ms_phys (fst ?w))) ki V
      (\<lambda>x. if find_way (ci (fst w)) x = None then V x else U x) (ci (fst ?w), ms_phys (fst ?w))"
    using Mods_memory [OF post order_refl] by (simp cong: if_cong)
  then show "Near b a ki kd V ?w" using post n ci U(2) by (auto simp: Near_def)
qed

lemma Near_write:
  assumes a: "cachable a" and p: "c_wpol kd = WPOL_THROUGH" and w: "Mods 2 True ki kd V w"
  shows "Near (find_way (ci (fst w)) a \<noteq> None) a ki kd (V(a := v)) (exec (on_cache CD (cache_write rand a v)) w)"
proof -
  let ?w = "exec (on_cache CD (cache_write rand a v)) w"
  have post: "Mods 1 True ki kd (V(a := v)) ?w" using tripleD [OF data_write [OF a] w, of 1] p by simp
  have ci: "ci (fst ?w) = ci (fst w)" by (rule on_cache_CD_ci)
  have m: "Mod 2 ki kd V (fst w)" "Mod 1 ki kd (V(a := v)) (fst ?w)" using w post by (simp_all add: Mods_def)
  have L: "space (ms_phys (fst w)) MEM_I = V" using Mods_memory [OF w] by simp
  obtain U where U: "backing.Stale CI MEM_I MEM_I (space (ms_phys (fst w))) ki V U (ci (fst w), ms_phys (fst w))"
    using ModD(8) [OF m(1)] L by auto
  have ok: "backing.Safe CI MEM_I MEM_I (space (ms_phys (fst w))) cachable ki V (ci (fst w), ms_phys (fst w))"
    by (rule ModD(7) [OF m(1)]) simp
  then have "backing.Ok CI MEM_I MEM_I (space (ms_phys (fst w))) ki V (ci (fst w), ms_phys (fst w))" by (simp add: backing.Safe_def)
  moreover have "clean_in (c_wpol ki) (indices ki) (ci (fst w))" using U by (simp add: backing.Stale_def)
  ultimately have "backing.Stale CI MEM_I MEM_I (space (ms_phys (fst w))) ki V V (ci (fst w), ms_phys (fst w))"
    using backing.Stale_Ok [of CI MEM_I MEM_I "space (ms_phys (fst w))" ki V "(ci (fst w), ms_phys (fst w))"] L
    by (simp add: own_MEM_I)
  from Stale_move [OF ModD(9,10) [OF m(2)] ModD(3) [OF m(2)] this]
  have "backing.Stale CI MEM_I MEM_I (space (ms_phys (fst ?w))) ki (V(a := v))
      (\<lambda>x. if find_way (ci (fst w)) x = None then (V(a := v)) x else V x) (ci (fst ?w), ms_phys (fst ?w))"
    using Mods_memory [OF post order_refl] ci by (simp cong: if_cong)
  then show ?thesis using post ok ci by (auto simp: Near_def backing.Safe_def)
qed

lemma code_snoop: "triple (Mods 0 sn ki kd V) (on_cache CI (cache_snoop a)) (\<lambda>_. Mods 0 sn ki kd V)"
  unfolding triple_def
proof (intro allI impI)
  fix w assume w: "Mods 0 sn ki kd V w"
  obtain m h where mh: "w = (m, h)" by (cases w)
  have m: "Mod 0 ki kd V m" "snoop m = sn" using w by (simp_all add: mh Mods_def)
  obtain r c b where run: "run_state (cache_snoop a) (ci m, ms_phys m) = (r, (c, b))" by (metis prod.exhaust)
  have e: "run_state (on_cache CI (cache_snoop a)) (m, h) = (r, (put_cache CI c (m\<lparr>ms_phys := b\<rparr>), h))"
    by (rule on_cache_run) (simp add: the_cache_def run)
  obtain U where "backing.Stale CI MEM_I MEM_I (space (ms_phys m)) ki (space (ms_phys m) MEM_I) U (ci m, ms_phys m)"
    using ModD(8) [OF m(1)] by blast
  from tripleD [OF backing.cache_snoop_stale [OF ModD(3) [OF m(1)]] this, of a] run
  obtain W where "backing.Stale CI MEM_I MEM_I (space (ms_phys m)) ki (space (ms_phys m) MEM_I) W (c, b)" by auto
  from CI_step [OF m(1) _ this, of 0] show "Mods 0 sn ki kd V (exec (on_cache CI (cache_snoop a)) w)"
    using m(2) by (simp add: mh Mods_def e)
qed

text \<open>With the trace off these programs print nothing.\<close>

lemma quiet_cache: "keeps (\<lambda>x. snd x = h \<and> \<not> trace (fst x)) (on_cache n prog)"
  by (rule keepsI) (auto simp: on_cache_def case_prod_beta)

lemma quiet_trace: "keeps (\<lambda>x. snd x = h \<and> \<not> trace (fst x)) (trace_line op kind a v ce)"
  by (rule keepsI) (auto simp: trace_line_def)

text \<open>A store of the processor, without and with snooping hardware that works.\<close>

lemma run_reads_any: "result (reads f) w = f (fst w)" "exec (reads f) w = w"
  by (cases w; simp)+

lemma store_prefix:
  assumes k: "side_of kind = SIDE_DATA" and w: "Mods j sn ki kd V w"
  obtains w' where "Mods j sn ki kd V w'" "ci (fst w') = ci (fst w)"
    "sn \<Longrightarrow> snd w' = snd w \<and> trace (fst w') = trace (fst w)"
    "run_state (ms_store kind a v) w = run_state (do {
       ev \<leftarrow> on_cache CD (cache_write rand a v);
       trace_line ''write'' kind a v (Some (CD, ev));
       whenever (find_way (ci (fst w)) a \<noteq> None \<and> sn) (do {
         on_cache CD (cache_clean_addr a); on_cache CI (cache_snoop a); ret () }) }) w'"
proof -
  let ?known = "code_known (fst w) \<and> code_lo (fst w) \<le> a \<and> a \<le> code_hi (fst w)"
  let ?co = "find_way (ci (fst w)) a \<noteq> None"
  define w1 where "w1 = exec (whenever ?known (writes (\<lambda>m. m\<lparr>code_stores := code_stores m + 1\<rparr>))) w"
  define w2 where "w2 = exec (whenever (?co \<and> \<not> sn) (stale_warning a)) w1"
  have keep: "keeps P (whenever ?known (writes (\<lambda>m. m\<lparr>code_stores := code_stores m + 1\<rparr>)))"
    "keeps P (whenever (?co \<and> \<not> sn) (stale_warning a))" if "blind P" for P
    using blind_keeps [OF that] by (auto intro: keeps_whenever)
  have bl: "blind (\<lambda>x. Mods j sn ki kd V x \<and> ci (fst x) = ci (fst w))"
    by (intro blind_conj blind_Mods blind_ci)
  have w1: "Mods j sn ki kd V w1 \<and> ci (fst w1) = ci (fst w)"
    unfolding w1_def by (rule keepsD [OF keep(1) [OF bl]]) (use w in simp)
  have w2: "Mods j sn ki kd V w2 \<and> ci (fst w2) = ci (fst w)"
    unfolding w2_def by (rule keepsD [OF keep(2) [OF bl] w1])
  have m1: "ms_cache_for (fst w1) SIDE_DATA = Some CD" "coherence (fst w1) SIDE_DATA a = ?co" "snoop (fst w1) = sn"
    using w1 by (auto simp: Mods_def Mod_def ms_cache_for_def coherence_def cache_probe_def)
  have "run_state (ms_store kind a v) w = run_state (do {
       ev \<leftarrow> on_cache CD (cache_write rand a v);
       trace_line ''write'' kind a v (Some (CD, ev));
       whenever (?co \<and> sn) (do { on_cache CD (cache_clean_addr a); on_cache CI (cache_snoop a); ret () }) }) w2"
    unfolding ms_store_def Let_def k run_bind_split run_reads_any w1_def [symmetric] m1 option.case w2_def [symmetric] ..
  moreover have "snd w2 = snd w \<and> trace (fst w2) = trace (fst w)" if sn
    using that by (cases w) (simp add: w1_def w2_def whenever_def)
  ultimately show thesis using w2 by (intro that [of w2]) blast+
qed

lemma ms_store_Mods:
  assumes a: "cachable a" and k: "side_of kind = SIDE_DATA"
  shows "triple (Mods j sn ki kd V) (ms_store kind a v) (\<lambda>_. Mods 0 sn ki kd (V(a := v)))"
  unfolding triple_def
proof (intro allI impI)
  fix w assume w: "Mods j sn ki kd V w"
  obtain w' where w': "Mods j sn ki kd V w'" and run: "run_state (ms_store kind a v) w = run_state (do {
       ev \<leftarrow> on_cache CD (cache_write rand a v);
       trace_line ''write'' kind a v (Some (CD, ev));
       whenever (find_way (ci (fst w)) a \<noteq> None \<and> sn) (do {
         on_cache CD (cache_clean_addr a); on_cache CI (cache_snoop a); ret () }) }) w'"
    using store_prefix [OF k w] by metis
  have put: "triple (Mods j sn ki kd V) (on_cache CD (cache_write rand a v)) (\<lambda>_. Mods 0 sn ki kd (V(a := v)))"
    using data_write [OF a, of 0] by simp
  have clean: "triple (Mods 0 sn ki kd (V(a := v))) (on_cache CD (cache_clean_addr a)) (\<lambda>_. Mods 0 sn ki kd (V(a := v)))"
    using data_clean_addr by simp
  have "triple (Mods j sn ki kd V) (do {
       ev \<leftarrow> on_cache CD (cache_write rand a v);
       trace_line ''write'' kind a v (Some (CD, ev));
       whenever (find_way (ci (fst w)) a \<noteq> None \<and> sn) (do {
         on_cache CD (cache_clean_addr a); on_cache CI (cache_snoop a); ret () }) }) (\<lambda>_. Mods 0 sn ki kd (V(a := v)))"
    by (rule triple_bind [OF put], rule triple_bind [OF blind_triples(2) [OF blind_Mods]], rule triple_whenever,
        rule triple_bind [OF clean], rule triple_bind [OF code_snoop], rule triple_ret, assumption)
  from tripleD [OF this w'] show "Mods 0 sn ki kd (V(a := v)) (exec (ms_store kind a v) w)" by (simp add: run)
qed

lemma ms_store_snooped:
  assumes a: "cachable a" and k: "side_of kind = SIDE_DATA" and p: "c_wpol kd = WPOL_THROUGH" and w: "Mods 2 True ki kd V w"
  shows "Mods 2 True ki kd (V(a := v)) (exec (ms_store kind a v) w)"
    and "\<not> trace (fst w) \<Longrightarrow> snd (exec (ms_store kind a v) w) = snd w \<and> \<not> trace (fst (exec (ms_store kind a v) w))"
proof -
  let ?tail = "\<lambda>ev. do {
       trace_line ''write'' kind a v (Some (CD, ev));
       whenever (find_way (ci (fst w)) a \<noteq> None \<and> True) (do {
         on_cache CD (cache_clean_addr a); on_cache CI (cache_snoop a); ret () }) }"
  let ?n = "Near (find_way (ci (fst w)) a \<noteq> None) a ki kd (V(a := v))"
  obtain w' where w': "Mods 2 True ki kd V w'" "ci (fst w') = ci (fst w)" "snd w' = snd w" "trace (fst w') = trace (fst w)"
    and run: "run_state (ms_store kind a v) w = run_state (on_cache CD (cache_write rand a v) \<bind> ?tail) w'"
    using store_prefix [OF k w] by (metis (no_types, lifting))
  have tail: "triple ?n (?tail ev) (\<lambda>_. Mods 2 True ki kd (V(a := v)))" for ev
  proof (cases "find_way (ci (fst w)) a = None")
    case True
    have n: "Mods 2 True ki kd (V(a := v)) x" if "?n x" for x by (rule Near_fresh [OF that]) (use True in simp)
    show ?thesis
      by (rule triple_bind [OF blind_triples(2) [OF blind_Near]]) (use True n in \<open>auto simp: whenever_def intro: triple_ret\<close>)
  next
    case False
    have "triple ?n (do { on_cache CD (cache_clean_addr a); on_cache CI (cache_snoop a); ret () }) (\<lambda>_. Mods 2 True ki kd (V(a := v)))"
      by (rule triple_bind [OF Near_clean_addr], rule triple_bind [OF Near_snoop], rule triple_ret, assumption)
    with False show ?thesis by (intro triple_bind [OF blind_triples(2) [OF blind_Near]]) (simp add: whenever_def)
  qed
  have "?n (exec (on_cache CD (cache_write rand a v)) w')" using Near_write [OF a p w'(1)] w'(2) by simp
  from tripleD [OF tail this] show "Mods 2 True ki kd (V(a := v)) (exec (ms_store kind a v) w)"
    unfolding run run_bind_split .
  assume t: "\<not> trace (fst w)"
  let ?Q = "\<lambda>x. snd x = snd w \<and> \<not> trace (fst x)"
  have "keeps ?Q (on_cache CD (cache_write rand a v) \<bind> ?tail)"
    by (intro keeps_rules quiet_cache quiet_trace)
  from keepsD [OF this, of w'] show "snd (exec (ms_store kind a v) w) = snd w \<and> \<not> trace (fst (exec (ms_store kind a v) w))"
    using w' t by (simp add: run)
qed

section \<open>The device page\<close>

lemma device_read:
  assumes "io_page a" and w: "Mods j sn ki kd V w"
  shows "exec (space_get side a) w = w" "side = SIDE_DATA \<or> 2 \<le> j \<Longrightarrow> result (space_get side a) w = V a"
proof -
  show "exec (space_get side a) w = w" by (simp add: space_get_def run_reads_any)
  obtain m h where mh: "w = (m, h)" by (cases w)
  have m: "Mod j ki kd V m" using w by (simp add: Mods_def mh)
  note D = ModD [OF m]
  have io: "\<not> cachable (addr_base kd a)" "\<not> cachable (addr_base ki a)" using assms(1) D(3,4) by (simp_all add: backing.ready_def io_page_base)
  have "space (ms_phys m) MEM_I a = V a"
    using backing.Safe_past(1) [where C = cachable, OF D(4,5) io(1)] by (simp only: own_MEM_I)
  then show "side = SIDE_DATA \<or> 2 \<le> j \<Longrightarrow> result (space_get side a) w = V a"
    using D(9,10) by (auto simp: space_get_def mh space_for_def)
qed

lemma exec_bs_wr_MEM_I: "imem b = MEM_I \<Longrightarrow> dmem b = MEM_I \<Longrightarrow> exec (bs_wr n a v) b = set_space MEM_I a v b"
  by (simp add: exec_bs_wr own_MEM_I)

lemma device_write:
  assumes "io_page a" and w: "Mods j sn ki kd V w"
  shows "Mods j sn ki kd (V(a := v)) (exec (space_put side a v) w)"
proof -
  obtain m h where mh: "w = (m, h)" by (cases w)
  have m: "Mod j ki kd V m" "snoop m = sn" using w by (simp_all add: Mods_def mh)
  note D = ModD [OF m(1)]
  let ?b = "set_space MEM_I a v (ms_phys m)"
  have io: "\<not> cachable (addr_base kd a)" "\<not> cachable (addr_base ki a)" using assms(1) D(3,4) by (simp_all add: backing.ready_def io_page_base)
  have b: "imem ?b = MEM_I" "dmem ?b = MEM_I" using D(9,10) by simp_all
  obtain U where U: "backing.Stale CI MEM_I MEM_I (space (ms_phys m)) ki (space (ms_phys m) MEM_I) U (ci m, ms_phys m)" using D(8) by blast
  have "backing.Safe CD MEM_I MEM_I (space (ms_phys m)) cachable kd (V(a := v)) (cd m, ?b)"
    using backing.Safe_past(2) [where C = cachable, OF D(4,5) io(1), of v] exec_bs_wr_MEM_I [OF D(9,10)] by simp
  from Safe_move [OF b refl this] have sd: "backing.Safe CD MEM_I MEM_I (space ?b) cachable kd (V(a := v)) (cd m, ?b)" .
  have si: "backing.Safe CI MEM_I MEM_I (space ?b) cachable ki (V(a := v)) (ci m, ?b)" if "2 \<le> j"
  proof -
    have "backing.Safe CI MEM_I MEM_I (space (ms_phys m)) cachable ki (V(a := v)) (ci m, ?b)"
      using backing.Safe_past(2) [where C = cachable, OF D(3) D(7) [OF that] io(2), of v] exec_bs_wr_MEM_I [OF D(9,10)] by simp
    from Safe_move [OF b refl this] show ?thesis .
  qed
  have "Mod j ki kd (V(a := v)) (m\<lparr>ms_phys := ?b\<rparr>)"
    using D Stale_move [OF b D(3) U] sd si unfolding Mod_def by (auto simp del: space_set_space)
  moreover have "exec (space_put side a v) w = (m\<lparr>ms_phys := ?b\<rparr>, h)"
    using D(9,10) by (simp add: space_put_def space_for_def mh)
  ultimately show ?thesis using m(2) by (simp add: Mods_def)
qed

section \<open>Accesses of the processor\<close>

lemma triple_outside: "triple P m Q \<Longrightarrow> triple (\<lambda>p. P (snd p)) (outside m) (\<lambda>r p. Q r (snd p))"
  by (auto simp: triple_def)

lemma io_load_Mods: 
  assumes "io_page a"
  shows "triple (Mods j sn ki kd V) (ms_io_load kind a) (\<lambda>_. Mods j sn ki kd V)"
proof -
  have g: "keeps (Mods j sn ki kd V) (space_get side a)" for side
    using device_read(1) [OF assms] by (auto simp: keeps_def)
  have o: "keeps (Mods j sn ki kd V) (outside p)" for p :: "(hmon \<times> terminal, 'a) state"
    by (auto simp: keeps_def Mods_def)
  show ?thesis
    unfolding ms_io_load_def triple_keeps [symmetric]
    by (intro keeps_rules blind_keeps [OF blind_Mods] g o)
qed

lemma read_Mods: "triple (\<lambda>p. Mods j sn ki kd V (snd p)) (rdk h6502_bus a k) (\<lambda>r p. (cachable a \<and> 2 \<le> j \<longrightarrow> r = V a) \<and> Mods j sn ki kd V (snd p))"
proof -
  let ?k = "acc_code k"
  have "triple (Mods j sn ki kd V) (if io_page a then ms_io_load ?k a else ms_load ?k a)
      (\<lambda>r w. (cachable a \<and> 2 \<le> j \<longrightarrow> r = V a) \<and> Mods j sn ki kd V w)"
    using io_load_Mods [of a] ms_load_Mods [of a] by (cases "io_page a") (auto simp: triple_def)
  from triple_bind [OF triple_outside [OF blind_triples(1) [OF blind_Mods, where kind = "?k"]] triple_outside [OF this]]
  have "triple (\<lambda>p. Mods j sn ki kd V (snd p)) (do { outside (count_access ?k); outside (if io_page a then ms_io_load ?k a else ms_load ?k a) })
      (\<lambda>r p. (cachable a \<and> 2 \<le> j \<longrightarrow> r = V a) \<and> Mods j sn ki kd V (snd p))" .
  then show ?thesis by (auto simp: triple_def rdk_def h6502_bus_def ms_read_def)
qed

lemma write_Mods:
  assumes "cachable a"
  shows "triple (\<lambda>p. Mods j sn ki kd V (snd p)) (wrk h6502_bus a v M6502_ACC_DATA) (\<lambda>_ p. Mods 0 sn ki kd (V(a := v)) (snd p))"
proof -
  let ?k = "acc_code M6502_ACC_DATA"
  have k: "side_of ?k = SIDE_DATA" by (simp add: side_of_def)
  have "triple (\<lambda>p. Mods j sn ki kd V (snd p)) (do { outside (count_access ?k); outside (ms_store ?k a v) })
      (\<lambda>_ p. Mods 0 sn ki kd (V(a := v)) (snd p))"
    by (rule triple_bind [OF triple_outside [OF blind_triples(1) [OF blind_Mods]]],
        rule triple_outside [OF ms_store_Mods [OF assms k]])
  then show ?thesis using assms by (auto simp: triple_def wrk_def h6502_bus_def ms_write_def)
qed

text \<open>The two halves of the fence: the writes that clean the data cache and empty the instruction cache.\<close>

lemma fence_Mods:
  "triple (\<lambda>p. Mods j sn ki kd V (snd p)) (wrk h6502_bus 0xF0FC x M6502_ACC_DATA) (\<lambda>_ p. Mods (max j 1) sn ki kd V (snd p))"
  "triple (\<lambda>p. Mods 1 sn ki kd V (snd p)) (wrk h6502_bus 0xF0FD x M6502_ACC_DATA) (\<lambda>_ p. Mods 2 sn ki kd V (snd p))"
proof -
  let ?k = "acc_code M6502_ACC_DATA"
  have *: "triple (\<lambda>p. Mods j sn ki kd V (snd p)) (wrk h6502_bus a x M6502_ACC_DATA) (\<lambda>_ p. Mods i sn ki kd V (snd p))"
    if t: "triple (Mods j sn ki kd V) prog (\<lambda>_. Mods i sn ki kd V)"
      and a: "io_page a" "h_io_write a x = do { outside prog; ret True }" for i j a and prog :: "unit msprog"
  proof -
    from triple_bind [OF blind_triples(1) [OF blind_Mods] triple_bind [OF blind_triples(4) [OF blind_Mods] triple_bind [OF t blind_triples(2) [OF blind_Mods]]]]
    have "triple (Mods j sn ki kd V) (do { count_access ?k; writes (\<lambda>m. m\<lparr>n_uncached := n_uncached m + 1\<rparr>); prog;
        trace_line ''write'' ?k a x None }) (\<lambda>_. Mods i sn ki kd V)" .
    then show ?thesis
      using a unfolding triple_def run_bind_split
      by (auto simp: wrk_def h6502_bus_def ms_write_def ms_io_store_def case_prod_beta whenever_def)
  qed
  show "triple (\<lambda>p. Mods j sn ki kd V (snd p)) (wrk h6502_bus 0xF0FC x M6502_ACC_DATA) (\<lambda>_ p. Mods (max j 1) sn ki kd V (snd p))"
    by (rule * [OF ms_clean_Mods]) (simp_all add: h_io_write_def io_page_def MS_IO_LO_def MS_IO_HI_def)
  have "triple (Mods 1 sn ki kd V) (ms_flush True False) (\<lambda>_. Mods 2 sn ki kd V)" by (rule ms_flush_Mods) simp
  then show "triple (\<lambda>p. Mods 1 sn ki kd V (snd p)) (wrk h6502_bus 0xF0FD x M6502_ACC_DATA) (\<lambda>_ p. Mods 2 sn ki kd V (snd p))"
    by (rule *) (simp_all add: h_io_write_def io_page_def MS_IO_LO_def MS_IO_HI_def)
qed

definition bus_reads :: "(u16 \<times> m6502_access) list \<Rightarrow> (world, unit) cpu" where
  "bus_reads xs = for_each xs (\<lambda>(a, k). do { rdk h6502_bus a k; ret () })"

lemma bus_reads_Mods: "triple (\<lambda>p. Mods j sn ki kd V (snd p)) (bus_reads xs) (\<lambda>_ p. Mods j sn ki kd V (snd p))"
proof -
  have "keeps (\<lambda>p. Mods j sn ki kd V (snd p)) (rdk h6502_bus a k)" for a k
    using read_Mods [of j sn ki kd V a k] by (auto simp: triple_def keeps_def)
  then have "keeps (\<lambda>p. Mods j sn ki kd V (snd p)) (bus_reads xs)"
    unfolding bus_reads_def by (intro keeps_rules)
  then show ?thesis by (simp add: triple_keeps)
qed

section \<open>How a machine gets into step\<close>

text \<open>With empty caches the two sides agree; so does a machine that changes to this model.\<close>

lemma idle_Mod:
  assumes m: "ms_mode m = MODE_MODIFIED" "caches_on m" "imem (ms_phys m) = MEM_I" "dmem (ms_phys m) = MEM_I"
    and idle: "idle CI m" "idle CD m"
  shows "\<exists>ki kd. Mod 2 ki kd (space (ms_phys m) MEM_I) m"
proof -
  let ?b = "ms_phys m" and ?V = "space (ms_phys m) MEM_I"
  have *: "\<exists>k. backing.ready n k \<and> backing.Safe n MEM_I MEM_I (space ?b) cachable k ?V (the_cache n m, ?b) \<and>
      clean_in (c_wpol k) (indices k) (the_cache n m) \<and> backing.Stale n MEM_I MEM_I (space ?b) k ?V ?V (the_cache n m, ?b)"
    if "idle n m" for n
  proof -
    have "held n MEM_I MEM_I (space ?b) False ?V (the_cache n m, ?b)"
      using that unfolding idle_def m(3,4) own_MEM_I .
    then obtain k where k: "backing.ready n k" and s: "backing.Safe n MEM_I MEM_I (space ?b) (\<lambda>_. False) k ?V (the_cache n m, ?b)"
      by (auto simp: held_def)
    have ok: "backing.Ok n MEM_I MEM_I (space ?b) k ?V (the_cache n m, ?b)" using s by (simp add: backing.Safe_def)
    have safe: "backing.Safe n MEM_I MEM_I (space ?b) cachable k ?V (the_cache n m, ?b)"
      using s by (auto simp: backing.Safe_def lines_in_def)
    have f: "frame (the_cache n m) = frame k" using ok by (auto simp: backing.Ok_def St_MEM_I)
    have cl: "clean_in (c_wpol k) (indices k) (the_cache n m)"
      using s backing.St_fields(5) [OF f] by (auto simp: backing.Safe_def lines_in_def clean_in_def)
    have "backing.Stale n MEM_I MEM_I (space ?b) k ?V ?V (the_cache n m, ?b)"
      using backing.Stale_Ok [OF ok] cl by (simp add: own_MEM_I)
    with k safe cl show ?thesis by blast
  qed
  from * [OF idle(1)] * [OF idle(2)] m show ?thesis unfolding Mod_def the_cache_def cache_name.case by blast
qed

section \<open>Leaving the model\<close>

text \<open>In the modified Harvard model the flush of the instruction cache leaves memory alone, whatever the cache holds.\<close>

lemma flush_stale:
  assumes m: "Mod j ki kd V m"
  shows "\<exists>m'. exec (on_cache CI cache_flush) (m, h) = (m', h) \<and> flushed CI (space (ms_phys m) MEM_I) m m'"
proof -
  note D = ModD [OF m]
  let ?L = "space (ms_phys m) MEM_I"
  obtain U where U: "backing.Stale CI MEM_I MEM_I (space (ms_phys m)) ki ?L U (ci m, ms_phys m)" using D(8) by blast
  obtain c b where cb: "exec cache_flush (ci m, ms_phys m) = (c, b)" by (metis prod.exhaust)
  have "backing.Ok CI MEM_I MEM_I (space (ms_phys m)) ki ?L (c, b)" "slots_of c = Map.empty"
    using tripleD [OF backing.cache_flush_stale [OF D(3)] U] cb by (simp_all add: own_MEM_I)
  from backing.Safe_empty [OF D(3) this] D(3,9,10)
  have "held CI (imem (ms_phys m)) (dmem (ms_phys m)) (space (ms_phys m)) False ?L (c, b)" by (auto simp: held_def)
  from flushed_by [OF this] show ?thesis by (auto simp: exec_on_cache cb the_cache_def)
qed

lemma leave_modified:
  assumes m: "Mod 0 ki kd V m" and u: "idle CU m"
  shows "idle n (fst (exec (ms_set_mode k) (m, h)))"
    "mem_i (ms_phys (fst (exec (ms_set_mode k) (m, h)))) = V"
    "mem_d (ms_phys (fst (exec (ms_set_mode k) (m, h)))) = mem_d (ms_phys m)"
    "imem (ms_phys (fst (exec (ms_set_mode k) (m, h)))) = MEM_I"
    "dmem (ms_phys (fst (exec (ms_set_mode k) (m, h)))) = (if k = MODE_HARVARD then MEM_D else MEM_I)"
    "ms_mode (fst (exec (ms_set_mode k) (m, h))) = k" "caches_on (fst (exec (ms_set_mode k) (m, h)))"
proof -
  note D = ModD [OF m]
  obtain m1 where r1: "exec (on_cache CI cache_flush) (m, h) = (m1, h)" and f1: "flushed CI (space (ms_phys m) MEM_I) m m1"
    using flush_stale [OF m] by blast
  have "Mods 0 (snoop m) ki kd V (m1, h)"
    using tripleD [OF code_flush [of 0 0], of "snoop m" ki kd V "(m, h)"] m by (simp add: Mods_def r1)
  then have m1: "Mod 0 ki kd V m1" by (simp add: Mods_def)
  have "held CD (imem (ms_phys m1)) (dmem (ms_phys m1)) (space (ms_phys m1)) True V (the_cache CD m1, ms_phys m1)"
    using ModD(4,5,9,10) [OF m1] by (auto simp: held_def the_cache_def)
  from flush_held [OF this, of h] obtain m2 where r2: "exec (on_cache CD cache_flush) (m1, h) = (m2, h)" and f2: "flushed CD V m1 m2"
    by blast
  have "idle CU m2" "idle CI m2" using u f1 f2 by (simp_all add: flushed_def)
  from flush_held [OF this(1) [unfolded idle_def], of h]
  obtain m3 where r3: "exec (on_cache CU cache_flush) (m2, h) = (m3, h)" and f3: "flushed CU (space (ms_phys m2) MEM_I) m2 m3"
    using f1 f2 D(9,10) by (auto simp: flushed_def own_MEM_I)
  have idle: "idle n m3" for n using \<open>idle CI m2\<close> f2 f3 by (cases n) (auto simp: flushed_def)
  note after = ms_set_mode_after [OF r1 r2 r3 idle]
  have "space (ms_phys m3) MEM_I = V" "space (ms_phys m3) MEM_D = space (ms_phys m) MEM_D"
    using f1 f2 f3 D(9,10) by (simp_all add: flushed_def own_MEM_I)
  moreover have "caches_on m3" using f1 f2 f3 D(2) by (simp add: flushed_def)
  ultimately show "idle n (fst (exec (ms_set_mode k) (m, h)))"
    "mem_i (ms_phys (fst (exec (ms_set_mode k) (m, h)))) = V"
    "mem_d (ms_phys (fst (exec (ms_set_mode k) (m, h)))) = mem_d (ms_phys m)"
    "imem (ms_phys (fst (exec (ms_set_mode k) (m, h)))) = MEM_I"
    "dmem (ms_phys (fst (exec (ms_set_mode k) (m, h)))) = (if k = MODE_HARVARD then MEM_D else MEM_I)"
    "ms_mode (fst (exec (ms_set_mode k) (m, h))) = k" "caches_on (fst (exec (ms_set_mode k) (m, h)))"
    by (simp_all add: after(2-9)) (simp add: space_def)
qed

end
