(* ===== verification/Memsys_Coherence.thy ===== *)
theory Memsys_Coherence
  imports Memsys_Modified Memsys_Props
begin

text \<open>
  The properties of the modified Harvard model with its caches on.  The software fence, a clean of the data
  cache and then an invalidation of the instruction cache, publishes every store to the fetch side.
  Snooping hardware makes the fence superfluous if the data cache writes through (the machine then keeps
  the contract of \<open>Memsys_Contract\<close>), but not if it writes back.  At the end, changes of the memory model,
  into and out of this one included, keep every byte.
\<close>
unbundle bit_operations_syntax

section \<open>Snooping hardware over a write-through data cache\<close>

text \<open>Such a machine is the machine without caches.\<close>

definition snooping :: "(u16 \<Rightarrow> u8) \<Rightarrow> memsys \<Rightarrow> bool" where
  "snooping V m \<longleftrightarrow> snoop m \<and> (\<exists>ki kd. c_wpol kd = WPOL_THROUGH \<and> Mod 2 ki kd V m)"

definition snoops :: "(u16 \<Rightarrow> u8) \<Rightarrow> (u16 \<Rightarrow> u8) \<Rightarrow> bool \<Rightarrow> hmon \<times> terminal \<Rightarrow> world \<Rightarrow> bool" where
  "snoops Vc Vd split h w \<longleftrightarrow> snooping Vd (fst w) \<and> \<not> trace (fst w) \<and> \<not> split \<and> Vc = Vd \<and> snd w = h"

lemma snoops_Mods: "snoops Vc Vd sp h w \<longleftrightarrow> Vc = Vd \<and> \<not> sp \<and> (snd w = h \<and> \<not> trace (fst w)) \<and>
    (\<exists>ki kd. c_wpol kd = WPOL_THROUGH \<and> Mods 2 True ki kd Vd w)"
  by (auto simp: snoops_def snooping_def Mods_def)

lemma snoops_triple:
  assumes "\<And>ki kd V. c_wpol kd = WPOL_THROUGH \<Longrightarrow> triple (Mods 2 True ki kd V) p (\<lambda>r w. Q r V \<and> Mods 2 True ki kd V w)"
    and "keeps (\<lambda>w. snd w = h \<and> \<not> trace (fst w)) p"
  shows "triple (snoops Vc Vd sp h) p (\<lambda>r w. Q r Vd \<and> snoops Vc Vd sp h w)"
  using assms unfolding triple_def keeps_def snoops_Mods by metis

lemma snoops_silent:
  assumes "\<And>ki kd V. triple (Mods 2 True ki kd V) p (\<lambda>_. Mods 2 True ki kd V)"
    and "keeps (\<lambda>w. snd w = h \<and> \<not> trace (fst w)) p"
  shows "triple (snoops Vc Vd sp h) p (\<lambda>_. snoops Vc Vd sp h)"
  using snoops_triple [where Q = "\<lambda>_ _. True", OF _ assms(2)] assms(1) by simp

lemma quiet_writes: "(\<And>m. trace (f m) = trace m) \<Longrightarrow> keeps (\<lambda>w. snd w = h \<and> \<not> trace (fst w)) (writes f)"
  by (rule keeps_writes) simp

lemma quiet_steps:
  "keeps (\<lambda>w. snd w = h \<and> \<not> trace (fst w)) (count_access kind)"
  "keeps (\<lambda>w. snd w = h \<and> \<not> trace (fst w)) ms_clean" "keeps (\<lambda>w. snd w = h \<and> \<not> trace (fst w)) (ms_flush code data)"
  "keeps (\<lambda>w. snd w = h \<and> \<not> trace (fst w)) ms_reset_stats" "keeps (\<lambda>w. snd w = h \<and> \<not> trace (fst w)) (ms_load kind a)"
  "keeps (\<lambda>w. snd w = h \<and> \<not> trace (fst w)) (space_get side a)"
  unfolding count_access_def ms_clean_def ms_flush_def ms_reset_stats_def ms_load_def space_get_def Let_def
  by (intro keeps_rules quiet_writes quiet_cache quiet_trace; simp)+

interpretation snooped: memory_contract snoops
proof
  fix Vc Vd :: "u16 \<Rightarrow> u8" and sp :: bool and h g :: "hmon \<times> terminal" and a :: u16 and kind v :: u8
    and side :: MemSide and m :: memsys and op ce code data
  show "snoops Vc Vd sp h (m, g) \<Longrightarrow> g = h" "snoops Vc Vd sp h (m, h) \<Longrightarrow> snoops Vc Vd sp g (m, g)" by (simp_all add: snoops_def)
  note silent = snoops_silent [where h = h and Vc = Vc and Vd = Vd and sp = sp]
  show "triple (snoops Vc Vd sp h) (count_access kind) (\<lambda>_. snoops Vc Vd sp h)"
    by (rule silent [OF blind_triples(1) [OF blind_Mods] quiet_steps(1)])
  show "triple (snoops Vc Vd sp h) (trace_line op kind a v ce) (\<lambda>_. snoops Vc Vd sp h)"
    by (rule silent [OF blind_triples(2) [OF blind_Mods] quiet_trace])
  show "triple (snoops Vc Vd sp h) (writes (\<lambda>m. m\<lparr>n_uncached := n_uncached m + 1\<rparr>)) (\<lambda>_. snoops Vc Vd sp h)"
    by (rule silent [OF blind_triples(4) [OF blind_Mods] quiet_writes]) simp
  show "triple (snoops Vc Vd sp h) ms_clean (\<lambda>_. snoops Vc Vd sp h)"
    using ms_clean_Mods [of 2] by (intro silent quiet_steps) (simp add: numeral_2_eq_2)
  show "triple (snoops Vc Vd sp h) (ms_flush code data) (\<lambda>_. snoops Vc Vd sp h)"
    by (rule silent [OF ms_flush_Mods quiet_steps(3)]) simp
  show "triple (snoops Vc Vd sp h) ms_reset_stats (\<lambda>_. snoops Vc Vd sp h)"
    by (rule silent [OF ms_reset_stats_Mods quiet_steps(4)])
  show "triple (snoops Vc Vd sp h) (ms_load kind a)
      (\<lambda>r w. r = (if side_of kind = SIDE_CODE then Vc else Vd) a \<and> snoops Vc Vd sp h w)" if "\<not> io_page a"
  proof -
    have "triple (snoops Vc Vd sp h) (ms_load kind a) (\<lambda>r w. r = Vd a \<and> snoops Vc Vd sp h w)"
      by (rule snoops_triple [where Q = "\<lambda>r V. r = V a", OF _ quiet_steps(5)])
        (use ms_load_Mods [OF that, of 2 True] in \<open>simp add: triple_def\<close>)
    then show ?thesis by (auto simp: triple_def snoops_def)
  qed
  show "triple (snoops Vc Vd sp h) (ms_store kind a v) (\<lambda>_. snoops (stored sp Vc a v) (Vd(a := v)) sp h)"
    if "\<not> io_page a" "side_of kind = SIDE_DATA"
    unfolding triple_def
  proof (intro allI impI)
    fix w assume "snoops Vc Vd sp h w"
    then obtain ki kd where s: "Vc = Vd" "\<not> sp" "snd w = h" "\<not> trace (fst w)" and p: "c_wpol kd = WPOL_THROUGH"
      and w: "Mods 2 True ki kd Vd w" by (auto simp: snoops_Mods)
    note st = ms_store_snooped [OF that p w, of v]
    show "snoops (stored sp Vc a v) (Vd(a := v)) sp h (exec (ms_store kind a v) w)"
      unfolding snoops_Mods stored_def using st(1) st(2) [OF s(4)] s p by auto
  qed
  assume io: "io_page a"
  show "triple (snoops Vc Vd sp h) (space_get side a)
      (\<lambda>r w. r = (if side = SIDE_CODE then Vc else Vd) a \<and> snoops Vc Vd sp h w)"
  proof -
    have "triple (snoops Vc Vd sp h) (space_get side a) (\<lambda>r w. r = Vd a \<and> snoops Vc Vd sp h w)"
      by (rule snoops_triple [where Q = "\<lambda>r V. r = V a", OF _ quiet_steps(6)])
        (use device_read [OF io, of 2 True] in \<open>simp add: triple_def\<close>)
    then show ?thesis by (auto simp: triple_def snoops_def)
  qed
  show "triple (snoops Vc Vd sp h) (space_put SIDE_DATA a v) (\<lambda>_. snoops (stored sp Vc a v) (Vd(a := v)) sp h)"
    unfolding triple_def
  proof (intro allI impI)
    fix w assume s: "snoops Vc Vd sp h w"
    then obtain ki kd where p: "c_wpol kd = WPOL_THROUGH" and w: "Mods 2 True ki kd Vd w" by (auto simp: snoops_Mods)
    have "snd (exec (space_put SIDE_DATA a v) w) = snd w \<and> trace (fst (exec (space_put SIDE_DATA a v) w)) = trace (fst w)"
      by (cases w) (simp add: space_put_def)
    with device_write [OF io w, of v SIDE_DATA] s p
    show "snoops (stored sp Vc a v) (Vd(a := v)) sp h (exec (space_put SIDE_DATA a v) w)"
      by (auto simp: snoops_Mods stored_def)
  qed
qed

interpretation snooped_bus: bus_sim h6502_bus ideal_bus snooped.refines
  by (rule snooped.bus_simulates)

lemma snooped_refinesD:
  assumes "snooped.refines w i"
  shows "snooping (i_data (fst i)) (fst w) \<and> snd w = snd i"
proof -
  have "snoops (i_code (fst i)) (i_data (fst i)) (i_split (fst i)) (snd i) w" using assms by (simp only: snooped.refines_def)
  then show ?thesis by (simp add: snoops_def)
qed

section \<open>What a fetch delivers\<close>

text \<open>What the fetch side of a machine presents: \<open>U\<close>.\<close>

definition fetches :: "phys cache \<Rightarrow> (u16 \<Rightarrow> u8) \<Rightarrow> world \<Rightarrow> bool" where
  "fetches ki U w \<longleftrightarrow> backing.Stale CI MEM_I MEM_I (space (ms_phys (fst w))) ki (space (ms_phys (fst w)) MEM_I) U
     (ci (fst w), ms_phys (fst w))"

lemma blind_fetches: "blind (fetches ki U)"
  by (auto simp: blind_def fetches_def core_of_def)

lemma fetch_delivers:
  assumes w: "Mods j sn ki kd V w" "fetches ki U w" and a: "cachable a"
  shows "result (rdk h6502_bus a M6502_ACC_OPCODE) (s, w) = U a"
proof -
  let ?k = "0 :: u8"
  let ?w = "exec (count_access ?k) w"
  have w': "Mods j sn ki kd V ?w" "fetches ki U ?w"
    by (rule keepsD [OF blind_keeps(1) [OF blind_Mods] w(1)], rule keepsD [OF blind_keeps(1) [OF blind_fetches] w(2)])
  obtain m h where mh: "?w = (m, h)" by (cases ?w)
  have m: "Mod j ki kd V m" using w'(1) by (simp add: mh Mods_def)
  obtain r c b where run: "run_state (cache_read rand a) (ci m, ms_phys m) = (r, (c, b))" by (metis prod.exhaust)
  have "fst r = U a"
    using tripleD [OF backing.cache_read_stale [OF ModD(3) [OF m]] w'(2) [unfolded fetches_def], of a] run by (simp add: mh)
  moreover have "run_state (on_cache CI (cache_read rand a)) (m, h) = (r, (put_cache CI c (m\<lparr>ms_phys := b\<rparr>), h))"
    by (rule on_cache_run) (simp add: the_cache_def run)
  moreover have "ms_cache_for m SIDE_CODE = Some CI" using ModD(1,2) [OF m] by (simp add: ms_cache_for_def)
  ultimately show ?thesis
    using a mh by (cases r) (simp add: rdk_def h6502_bus_def ms_read_def ms_load_def side_of_def case_prod_beta)
qed

text \<open>In step, memory holds what both sides present.\<close>

lemma in_step_fetches:
  assumes "Mods 2 sn ki kd V w"
  shows "fetches ki V w" "space (ms_phys (fst w)) MEM_I = V"
proof -
  have m: "Mod 2 ki kd V (fst w)" using assms by (simp add: Mods_def)
  show L: "space (ms_phys (fst w)) MEM_I = V" using Mods_memory [OF assms] by simp
  have "backing.Ok CI MEM_I MEM_I (space (ms_phys (fst w))) ki V (ci (fst w), ms_phys (fst w))"
    using ModD(7) [OF m] by (simp add: backing.Safe_def)
  moreover have "clean_in (c_wpol ki) (indices ki) (ci (fst w))" using ModD(8) [OF m] by (auto simp: backing.Stale_def)
  ultimately show "fetches ki V w"
    using backing.Stale_Ok [of CI MEM_I MEM_I "space (ms_phys (fst w))" ki V "(ci (fst w), ms_phys (fst w))"] L
    by (simp add: fetches_def own_MEM_I)
qed

text \<open>A step of the data cache moves memory under the instruction cache.\<close>

lemma fetches_after:
  assumes f: "fetches ki U w" and m: "Mods j sn ki kd V (exec (on_cache CD prog) w)"
  shows "fetches ki (\<lambda>x. if find_way (ci (fst w)) x = None then space (ms_phys (fst (exec (on_cache CD prog) w))) MEM_I x else U x)
    (exec (on_cache CD prog) w)"
proof -
  have m': "Mod j ki kd V (fst (exec (on_cache CD prog) w))" using m by (simp add: Mods_def)
  have ci: "ci (fst (exec (on_cache CD prog) w)) = ci (fst w)" by (rule on_cache_CD_ci)
  from Stale_move [OF ModD(9,10) [OF m'] ModD(3) [OF m'] f [unfolded fetches_def]]
  show ?thesis unfolding fetches_def ci .
qed

text \<open>A store into a clean write-back data cache leaves memory alone.\<close>

lemma store_back:
  assumes w: "Mods 2 sn ki kd V w" and k: "c_wpol kd = WPOL_BACK" "c_write_alloc kd" and a: "cachable a"
  shows "space (ms_phys (fst (exec (on_cache CD (cache_write rand a v)) w))) MEM_I = V"
    "fetches ki V (exec (on_cache CD (cache_write rand a v)) w)" "Mods 0 sn ki kd (V(a := v)) (exec (on_cache CD (cache_write rand a v)) w)"
proof -
  obtain m h where mh: "w = (m, h)" by (cases w)
  have m: "Mod 2 ki kd V m" using w by (simp add: Mods_def mh)
  note D = ModD [OF m] and L = in_step_fetches(2) [OF w]
  have ok: "backing.Ok CD MEM_I MEM_I (space (ms_phys m)) kd V (cd m, ms_phys m)" using D(5) by (simp add: backing.Safe_def)
  have st: "backing.Stale CD MEM_I MEM_I (space (ms_phys m)) kd V V (cd m, ms_phys m)"
    using backing.Stale_Ok [OF ok] D(6) L by (simp add: own_MEM_I mh)
  obtain r c b where run: "run_state (cache_write rand a v) (cd m, ms_phys m) = (r, (c, b))" by (metis prod.exhaust)
  have e: "exec (on_cache CD (cache_write rand a v)) w = (put_cache CD c (m\<lparr>ms_phys := b\<rparr>), h)"
    unfolding mh by (subst on_cache_run [where r = r and c = c and b = b]) (simp_all add: the_cache_def run)
  have "space b MEM_I = V" using backing.store_held_back [OF D(4) k st, of a v] run by (simp add: own_MEM_I)
  then show sp: "space (ms_phys (fst (exec (on_cache CD (cache_write rand a v)) w))) MEM_I = V" by (simp add: e)
  show mo: "Mods 0 sn ki kd (V(a := v)) (exec (on_cache CD (cache_write rand a v)) w)"
    using tripleD [OF data_write [OF a, of 0] w] by simp
  from fetches_after [OF in_step_fetches(1) [OF w] mo] show "fetches ki V (exec (on_cache CD (cache_write rand a v)) w)"
    unfolding sp if_cancel .
qed

lemma data_frame: "Mod j ki kd V m \<Longrightarrow> frame (cd m) = frame kd"
  by (auto simp: Mod_def backing.Safe_def backing.Ok_def St_MEM_I)

lemma clean_addr_syncs:
  assumes w: "Mods j sn ki kd V w"
  shows "space (ms_phys (fst (exec (on_cache CD (cache_clean_addr a)) w))) MEM_I a = V a"
proof -
  obtain m h where mh: "w = (m, h)" by (cases w)
  have m: "Mod j ki kd V m" using w by (simp add: Mods_def mh)
  have ok: "backing.Ok CD MEM_I MEM_I (space (ms_phys m)) kd V (cd m, ms_phys m)" using ModD(5) [OF m] by (simp add: backing.Safe_def)
  obtain r c b where run: "run_state (cache_clean_addr a) (cd m, ms_phys m) = (r, (c, b))" by (metis prod.exhaust)
  have "exec (on_cache CD (cache_clean_addr a)) w = (put_cache CD c (m\<lparr>ms_phys := b\<rparr>), h)"
    unfolding mh by (subst on_cache_run [where r = r and c = c and b = b]) (simp_all add: the_cache_def run)
  moreover have "backing.Synced CD MEM_I MEM_I (space (ms_phys m)) kd V a (c, b)"
    using tripleD [OF backing.cache_clean_addr_Ok [OF ModD(4) [OF m]] ok, of a] run by simp
  then have "space b (own CD MEM_I MEM_I) a = V a" by (simp add: backing.Synced_def)
  ultimately show ?thesis by (simp add: own_MEM_I)
qed

lemma snoop_fetches:
  assumes w: "Mods j sn ki kd V w" and f: "fetches ki U w"
  shows "\<exists>W. fetches ki W (exec (on_cache CI (cache_snoop a)) w) \<and> W a = space (ms_phys (fst w)) MEM_I a"
proof -
  obtain m h where mh: "w = (m, h)" by (cases w)
  have m: "Mod j ki kd V m" using w by (simp add: Mods_def mh)
  obtain r c b where run: "run_state (cache_snoop a) (ci m, ms_phys m) = (r, (c, b))" by (metis prod.exhaust)
  have e: "exec (on_cache CI (cache_snoop a)) w = (put_cache CI c (m\<lparr>ms_phys := b\<rparr>), h)"
    unfolding mh by (subst on_cache_run [where r = r and c = c and b = b]) (simp_all add: the_cache_def run)
  obtain W where W: "backing.Stale CI MEM_I MEM_I (space (ms_phys m)) ki (space (ms_phys m) MEM_I) W (c, b)"
    "W a = space (ms_phys m) MEM_I a"
    using tripleD [OF backing.cache_snoop_stale [OF ModD(3) [OF m]] f [unfolded fetches_def], of a] run by (auto simp: mh)
  have "space b = space (ms_phys m)" using Stale_still [OF W(1)] by simp
  with W(1) have "fetches ki W (exec (on_cache CI (cache_snoop a)) w)" unfolding fetches_def e by simp
  with W(2) show ?thesis by (auto simp: mh)
qed

section \<open>What the program can rely on\<close>

definition modified :: "(u16 \<Rightarrow> u8) \<Rightarrow> memsys \<Rightarrow> bool" where
  "modified V m \<longleftrightarrow> (\<exists>ki kd. Mod 0 ki kd V m)"

definition in_step :: "(u16 \<Rightarrow> u8) \<Rightarrow> memsys \<Rightarrow> bool" where
  "in_step V m \<longleftrightarrow> (\<exists>ki kd. Mod 2 ki kd V m)"

lemma in_step_modified: "in_step V m \<Longrightarrow> modified V m"
  unfolding in_step_def modified_def using Mod_lower by blast

lemma triple_step: "triple P m Q \<Longrightarrow> P x \<Longrightarrow> (\<And>r y. Q r y \<Longrightarrow> result (f r) y = z) \<Longrightarrow> result (m \<bind> f) x = z"
  by (simp add: triple_def case_prod_beta)

text \<open>A machine for the witnesses, with either write policy.\<close>

definition machine2 :: "cache_wpol \<Rightarrow> memsys" where
  "machine2 p = (init_memsys phys0)\<lparr>ms_mode := MODE_MODIFIED, snoop := True,
     cd := (cd (init_memsys phys0))\<lparr>c_wpol := p\<rparr>\<rparr>"

lemma machine2:
  "in_step (\<lambda>_. 0xEA) (machine2 p)" "snoop (machine2 p)" "c_wpol (cd (machine2 p)) = p" "c_write_alloc (cd (machine2 p))"
  "\<not> trace (machine2 p)" "snooping (\<lambda>_. 0xEA) (machine2 WPOL_THROUGH)" "cache_probe (ci (machine2 p)) a = None"
proof -
  have fields: "imem (ms_phys (machine2 p)) = MEM_I" "dmem (ms_phys (machine2 p)) = MEM_I" "ms_mode (machine2 p) = MODE_MODIFIED"
    "caches_on (machine2 p)" "space (ms_phys (machine2 p)) MEM_I = (\<lambda>_. 0xEA)" "snoop (machine2 p)" for p
    by (simp_all add: machine2_def init_memsys_def zero_memsys_def phys0_def space_def)
  have "idle n (machine2 p)" if "n = CI \<or> n = CD" for n p
    unfolding idle_def fields
    by (rule held_fresh)
      (use that in \<open>auto simp: the_cache_def machine2_def init_memsys_def default_cache_def zero_cache_def zero_line_def
        geometry_ok_def bs_rd_def bs_wr_def still_def zero_memsys_def\<close>)
  then have m: "\<exists>ki kd. Mod 2 ki kd (\<lambda>_. 0xEA) (machine2 p)" for p
    using idle_Mod [of "machine2 p"] fields by simp
  then show "in_step (\<lambda>_. 0xEA) (machine2 p)" by (simp add: in_step_def)
  show "snoop (machine2 p)" "c_wpol (cd (machine2 p)) = p" "c_write_alloc (cd (machine2 p))" "\<not> trace (machine2 p)"
    by (simp_all add: machine2_def init_memsys_def zero_memsys_def default_cache_def)
  obtain ki kd where k: "Mod 2 ki kd (\<lambda>_. 0xEA) (machine2 WPOL_THROUGH)" using m by blast
  have "c_wpol kd = WPOL_THROUGH" using backing.St_fields(5) [OF data_frame [OF k]] by (simp add: machine2_def)
  with k fields(6) show "snooping (\<lambda>_. 0xEA) (machine2 WPOL_THROUGH)" by (auto simp: snooping_def)
  show "cache_probe (ci (machine2 p)) a = None"
    by (simp add: cache_probe_def find_way_def machine2_def init_memsys_def default_cache_def zero_cache_def zero_line_def
        line_at_def find_None_iff)
qed

text \<open>C5: On a machine in the modified Harvard model self-modifying code works as long as the program
  cleans the data cache and then invalidates the instruction cache: whatever is read in between, the
  next fetch from any address outside the device page delivers what the data side holds there, the
  byte just stored included.\<close>

theorem fence_publishes_store:
  assumes "modified V m" "\<not> io_page a" "\<not> io_page b"
  shows "result (do {
      wrk h6502_bus a v M6502_ACC_DATA; bus_reads xs;
      wrk h6502_bus 0xF0FC x M6502_ACC_DATA; bus_reads ys;
      wrk h6502_bus 0xF0FD y M6502_ACC_DATA; bus_reads zs;
      rdk h6502_bus b M6502_ACC_OPCODE }) (s, (m, h)) = (V(a := v)) b"
proof -
  obtain ki kd where "Mod 0 ki kd V m" using assms(1) by (auto simp: modified_def)
  then have w: "Mods 0 (snoop m) ki kd V (snd (s, (m, h)))" by (simp add: Mods_def)
  show ?thesis
    by (rule triple_step [OF write_Mods [OF assms(2)] w], erule triple_step [OF bus_reads_Mods],
        erule triple_step [OF fence_Mods(1)], erule triple_step [OF bus_reads_Mods], simp only: max_0L,
        erule triple_step [OF fence_Mods(2)], erule triple_step [OF bus_reads_Mods])
      (use read_Mods assms(3) in \<open>auto simp: triple_def\<close>)
qed

theorem fence_publishes_store_witness:
  "result (do {
      wrk h6502_bus 0x0800 0x60 M6502_ACC_DATA; bus_reads [(0x0800, M6502_ACC_OPCODE)];
      wrk h6502_bus 0xF0FC 1 M6502_ACC_DATA; bus_reads [];
      wrk h6502_bus 0xF0FD 1 M6502_ACC_DATA; bus_reads [];
      rdk h6502_bus 0x0800 M6502_ACC_OPCODE }) (zero_core, (machine2 WPOL_BACK, hmon0)) = 0x60"
  by (subst fence_publishes_store [OF in_step_modified [OF machine2(1)]]) (simp_all add: io_page_def MS_IO_LO_def)

text \<open>C6: With snooping hardware and a data cache that writes through, the modified Harvard model needs no
  fence: any number of instructions runs as on the machine without caches and with one memory.\<close>

theorem snooping_refines_ideal:
  assumes "snooping V m" and "\<not> trace m"
  shows "let p = (s, (m, h)); i = (s, (\<lparr>i_split = False, i_code = V, i_data = V\<rparr>, h)) in
    result (m6502_steps h6502_bus n) p = result (m6502_steps ideal_bus n) i \<and>
    fst (exec (m6502_steps h6502_bus n) p) = fst (exec (m6502_steps ideal_bus n) i) \<and>
    snooping (i_data (fst (snd (exec (m6502_steps ideal_bus n) i)))) (fst (snd (exec (m6502_steps h6502_bus n) p))) \<and>
    snd (snd (exec (m6502_steps h6502_bus n) p)) = snd (snd (exec (m6502_steps ideal_bus n) i))"
proof -
  let ?i = "(\<lparr>i_split = False, i_code = V, i_data = V\<rparr>, h)"
  have r: "snooped.refines (m, h) ?i" using assms by (simp add: snooped.refines_def snoops_def)
  note sim = simD [OF snooped_bus.steps_sim [where n = n] r, where s = s]
  with snooped_refinesD [OF sim(3)] show ?thesis unfolding Let_def by blast
qed

theorem snooping_refines_ideal_witness:
  "fst (exec (m6502_steps h6502_bus 7) (zero_core, (machine2 WPOL_THROUGH, hmon0))) =
   fst (exec (m6502_steps ideal_bus 7) (zero_core, (\<lparr>i_split = False, i_code = (\<lambda>_. 0xEA), i_data = (\<lambda>_. 0xEA)\<rparr>, hmon0)))"
  using snooping_refines_ideal [OF machine2(6,5), where n = 7] by (simp add: Let_def)

text \<open>C7: The snooping hardware does not cover a data cache that writes back and allocates on writes: in
  step, a store outside the device page followed by a fetch of the same address delivers the new byte
  only if snooping is on and the instruction cache holds the line; if the line is not resident,
  snooping does nothing, the store stays in the data cache, and the fetch refills the line from memory
  with the old byte.\<close>

theorem snoop_misses_absent_line:
  assumes "in_step V m" "c_wpol (cd m) = WPOL_BACK" "c_write_alloc (cd m)" "\<not> io_page a"
  shows "result (do { wrk h6502_bus a v M6502_ACC_DATA; rdk h6502_bus a M6502_ACC_OPCODE }) (s, (m, h)) =
    (if snoop m \<and> cache_probe (ci m) a \<noteq> None then v else V a)"
proof -
  let ?k = "2 :: u8" and ?co = "find_way (ci m) a \<noteq> None"
  obtain ki kd where m: "Mod 2 ki kd V m" using assms(1) by (auto simp: in_step_def)
  have p: "c_wpol kd = WPOL_BACK" "c_write_alloc kd" using assms(2,3) backing.St_fields(5,6) [OF data_frame [OF m]] by simp_all
  define w where "w = exec (count_access ?k) (m, h)"
  have "blind (\<lambda>x. Mods 2 (snoop m) ki kd V x \<and> ci (fst x) = ci m)" by (intro blind_conj blind_Mods blind_ci)
  from keepsD [OF blind_keeps(1) [OF this], of "(m, h)" ?k] m have w: "Mods 2 (snoop m) ki kd V w" "ci (fst w) = ci m"
    by (simp_all add: w_def Mods_def)
  have k: "side_of ?k = SIDE_DATA" by (simp add: side_of_def)
  obtain w1 where w1: "Mods 2 (snoop m) ki kd V w1" "ci (fst w1) = ci m" and run: "run_state (ms_store ?k a v) w = run_state (do {
       ev \<leftarrow> on_cache CD (cache_write rand a v);
       trace_line ''write'' ?k a v (Some (CD, ev));
       whenever (?co \<and> snoop m) (do { on_cache CD (cache_clean_addr a); on_cache CI (cache_snoop a); ret () }) }) w1"
    by (rule store_prefix [OF k w(1), of a v]) (simp only: w(2))
  let ?trace = "trace_line ''write'' ?k a v (Some (CD, result (on_cache CD (cache_write rand a v)) w1))"
  define w2 where "w2 = exec ?trace (exec (on_cache CD (cache_write rand a v)) w1)"
  have w2: "Mods 0 (snoop m) ki kd (V(a := v)) w2" "fetches ki V w2"
    unfolding w2_def
    by (rule keepsD [OF blind_keeps(2) [OF blind_Mods] store_back(3) [OF w1(1) p assms(4)]],
        rule keepsD [OF blind_keeps(2) [OF blind_fetches] store_back(2) [OF w1(1) p assms(4)]])
  have store: "exec (wrk h6502_bus a v M6502_ACC_DATA) (s, (m, h)) = (s\<lparr>access := ?k\<rparr>, exec (ms_store ?k a v) w)"
    using assms(4) by (simp add: wrk_def h6502_bus_def ms_write_def w_def)
  have "\<exists>W. Mods 0 (snoop m) ki kd (V(a := v)) (exec (ms_store ?k a v) w) \<and> fetches ki W (exec (ms_store ?k a v) w) \<and>
      W a = (if snoop m \<and> ?co then v else V a)"
  proof (cases "?co \<and> snoop m")
    case False
    then have "exec (ms_store ?k a v) w = w2" unfolding run run_bind_split w2_def by (auto simp: whenever_def)
    with w2 False show ?thesis by auto
  next
    case True
    let ?w3 = "exec (on_cache CD (cache_clean_addr a)) w2"
    have e: "exec (ms_store ?k a v) w = exec (on_cache CI (cache_snoop a)) ?w3"
      using True unfolding run run_bind_split w2_def by (simp add: whenever_def case_prod_beta)
    have w3: "Mods 0 (snoop m) ki kd (V(a := v)) ?w3" by (rule conjunct2 [OF tripleD [OF data_clean_addr w2(1)]])
    from snoop_fetches [OF w3 fetches_after [OF w2(2) w3], of a] clean_addr_syncs [OF w2(1), of a]
    obtain W where "fetches ki W (exec (on_cache CI (cache_snoop a)) ?w3)" "W a = v" by auto
    then show ?thesis unfolding e using True by (intro exI [of _ W] conjI tripleD [OF code_snoop w3]) simp_all
  qed
  then obtain W where W: "Mods 0 (snoop m) ki kd (V(a := v)) (exec (ms_store ?k a v) w)" "fetches ki W (exec (ms_store ?k a v) w)"
    "W a = (if snoop m \<and> ?co then v else V a)" by blast
  have "result (do { wrk h6502_bus a v M6502_ACC_DATA; rdk h6502_bus a M6502_ACC_OPCODE }) (s, (m, h)) = W a"
    unfolding run_bind_split store by (rule fetch_delivers [OF W(1,2) assms(4)])
  then show ?thesis by (simp only: W(3) cache_probe_def)
qed

theorem snoop_misses_absent_line_witness:
  "result (do { wrk h6502_bus 0x0800 0x60 M6502_ACC_DATA; rdk h6502_bus 0x0800 M6502_ACC_OPCODE })
    (zero_core, (machine2 WPOL_BACK, hmon0)) = 0xEA"
  using snoop_misses_absent_line [OF machine2(1,3,4) [where p = WPOL_BACK], where a = "0x0800" and v = "0x60"] machine2(7)
  by (simp add: io_page_def MS_IO_LO_def)

section \<open>Changing the model\<close>

text \<open>What a machine holds, in any model: in the modified Harvard model with the caches on, what the data side
  presents, pending stores included, with the unified cache, which this model does not use, empty.\<close>

definition carries :: "(u16 \<Rightarrow> u8) \<Rightarrow> (u16 \<Rightarrow> u8) \<Rightarrow> memsys \<Rightarrow> bool" where
  "carries Vc Vd m \<longleftrightarrow> presents Vc Vd m \<or> Vd = Vc \<and> modified Vc m \<and> idle CU m"

lemma carries_idle:
  fixes k :: MemMode and h :: "hmon \<times> terminal"
  assumes "carries Vc Vd m"
  defines "m' \<equiv> fst (exec (ms_set_mode k) (m, h))"
  shows "(\<forall>n. idle n m') \<and> mem_i (ms_phys m') = Vc \<and> mem_d (ms_phys m') = (if ms_mode m = MODE_HARVARD then Vd else mem_d (ms_phys m)) \<and>
    imem (ms_phys m') = MEM_I \<and> dmem (ms_phys m') = (if k = MODE_HARVARD then MEM_D else MEM_I) \<and> ms_mode m' = k \<and>
    caches_on m' = caches_on m"
proof (cases "presents Vc Vd m")
  case True
  show ?thesis unfolding m'_def by (simp add: ms_set_mode_idle [OF True])
next
  case False
  then obtain ki kd where m: "Mod 0 ki kd Vc m" "idle CU m" using assms by (auto simp: carries_def modified_def)
  show ?thesis unfolding m'_def by (simp add: leave_modified [OF m] ModD(1,2) [OF m(1)])
qed

text \<open>C4: Changing the memory model loses no byte, from any model to any model, with the caches on or off.
  A machine that presents Vc and Vd, or that is in the modified Harvard model with the caches on, with
  stores pending in the data cache, an instruction cache however stale and the unified cache empty, as
  this model leaves it: after ms_set_mode the code memory is still Vc; the data memory is Vc, or in
  the Harvard model the separate memory; what the Harvard data side held has reached that memory. If
  the new model is the modified one with the caches on, the fetch and the data side are in step on Vc;
  otherwise the machine presents these memories.\<close>

theorem ms_set_mode_keeps_memory:
  assumes "carries Vc Vd m"
  shows "let m' = fst (exec (ms_set_mode k) (m, h));
      Vd' = (if k = MODE_HARVARD then if ms_mode m = MODE_HARVARD then Vd else mem_d (ms_phys m) else Vc) in
    mem_d (ms_phys m') = (if ms_mode m = MODE_HARVARD then Vd else mem_d (ms_phys m)) \<and> carries Vc Vd' m' \<and>
    (if k = MODE_MODIFIED \<and> caches_on m then in_step Vc m' else presents Vc Vd' m')"
proof -
  let ?m = "fst (exec (ms_set_mode k) (m, h))"
  have i: "idle n ?m" "mem_i (ms_phys ?m) = Vc" "mem_d (ms_phys ?m) = (if ms_mode m = MODE_HARVARD then Vd else mem_d (ms_phys m))"
    "imem (ms_phys ?m) = MEM_I" "dmem (ms_phys ?m) = (if k = MODE_HARVARD then MEM_D else MEM_I)" "ms_mode ?m = k"
    "caches_on ?m = caches_on m" for n
    using carries_idle [OF assms, where k = k and h = h] by blast+
  have sp: "space (ms_phys ?m) MEM_I = Vc" using i(2) by (simp add: space_def)
  show ?thesis
  proof (cases "k = MODE_MODIFIED \<and> caches_on m")
    case True
    have "\<exists>ki kd. Mod 2 ki kd (space (ms_phys ?m) MEM_I) ?m" by (rule idle_Mod) (use i True in simp_all)
    then have "in_step Vc ?m" by (simp add: in_step_def sp)
    then show ?thesis using True i(1,3) in_step_modified by (simp add: Let_def carries_def)
  next
    case False
    have "presents (mem_i (ms_phys ?m)) (if ms_mode ?m = MODE_HARVARD then mem_d (ms_phys ?m) else mem_i (ms_phys ?m)) ?m"
      by (rule idle_presents [OF i(1,4)]) (use i(5-7) False in \<open>simp, metis\<close>)
    then have "presents Vc (if k = MODE_HARVARD then if ms_mode m = MODE_HARVARD then Vd else mem_d (ms_phys m) else Vc) ?m"
      unfolding i(2,3,6) .
    with i(3) show ?thesis unfolding Let_def carries_def if_not_P [OF False] by blast
  qed
qed

theorem ms_set_mode_keeps_memory_witness:
  "presents (\<lambda>_. 0xEA) (\<lambda>_. 0xEA)
    (fst (exec (ms_set_mode MODE_VONNEUMANN) (fst (exec (ms_set_mode MODE_MODIFIED) (machine0, hmon0)), hmon0)))"
proof -
  have "carries (\<lambda>_. 0xEA) (\<lambda>_. 0xEA) machine0" using machine0(1) by (simp add: carries_def)
  from ms_set_mode_keeps_memory [OF this, of MODE_MODIFIED hmon0]
  have "carries (\<lambda>_. 0xEA) (\<lambda>_. 0xEA) (fst (exec (ms_set_mode MODE_MODIFIED) (machine0, hmon0)))" by (simp add: Let_def)
  from ms_set_mode_keeps_memory [OF this, of MODE_VONNEUMANN hmon0] show ?thesis by (simp add: Let_def)
qed

end
