(* ===== verification/Cache_Fit.thy ===== *)
theory Cache_Fit
  imports Cache_Stats Cache_Config
begin

text \<open>
  The invariant of the data structure: a consistent geometry, the callbacks it was attached to, and every
  resident line in the set of its address, under its tag and once (\<open>fit\<close>).  It says nothing about memory,
  so it also holds of a cache whose memory has changed behind its back, by a monitor command or through
  another cache.  Every operation of \<open>h6502/cache.c\<close> keeps it.
\<close>
unbundle bit_operations_syntax

section \<open>The invariant\<close>

definition lines_ok :: "'b cache \<Rightarrow> bool" where
  "lines_ok c \<longleftrightarrow> (\<forall>s w. s < c_sets c \<and> w < c_ways c \<and> l_valid (line_at c s w) \<longrightarrow>
     cache_decode c (l_base (line_at c s w)) = (l_tag (line_at c s w), s, 0) \<and>
     (\<forall>w'. w' < c_ways c \<and> l_valid (line_at c s w') \<and> l_tag (line_at c s w') = l_tag (line_at c s w) \<longrightarrow> w' = w))"

definition fit :: "(u16 \<Rightarrow> ('b, u8) state) \<Rightarrow> (u16 \<Rightarrow> u8 \<Rightarrow> ('b, unit) state) \<Rightarrow> 'b cache \<Rightarrow> bool" where
  "fit rf kf c \<longleftrightarrow> geometry_ok c \<and> c_bs_read c = rf \<and> c_bs_write c = kf \<and> lines_ok c"

text \<open>The line of the address \<open>a\<close>, with this tag and set, is not resident.\<close>

definition absent :: "u16 \<Rightarrow> u16 \<Rightarrow> u32 \<Rightarrow> 'b cache \<Rightarrow> bool" where
  "absent a tag si c \<longleftrightarrow> addr_tag c a = tag \<and> addr_set c a = si \<and>
     (\<forall>w. w < c_ways c \<and> l_valid (line_at c si w) \<longrightarrow> l_tag (line_at c si w) \<noteq> tag)"

abbreviation missing where
  "missing rf kf a tag si c \<equiv> fit rf kf c \<and> absent a tag si c"

lemma line_after_set: "line_at (set_line s w f c) s' w' =
    (if line_index c s' w' = line_index c s w then f (line_at c s' w') else line_at c s' w')"
  by (simp add: line_at_def set_line_def line_index_def)

lemma set_line_fields [simp]:
  "c_line_bytes (set_line s w f c) = c_line_bytes c" "c_sets (set_line s w f c) = c_sets c" "c_ways (set_line s w f c) = c_ways c"
  "c_bs_read (set_line s w f c) = c_bs_read c" "c_bs_write (set_line s w f c) = c_bs_write c"
  "geometry_ok (set_line s w f c) = geometry_ok c" "addr_tag (set_line s w f c) a = addr_tag c a"
  "addr_set (set_line s w f c) a = addr_set c a" "addr_base (set_line s w f c) a = addr_base c a"
  "cache_decode (set_line s w f c) a = cache_decode c a"
  by (simp_all add: set_line_def geometry_ok_def addr_tag_def addr_set_def addr_base_def addr_off_def cache_decode_def)

text \<open>A change to a line that does not make it valid and keeps what identifies it.\<close>

definition tame :: "(cache_line \<Rightarrow> cache_line) \<Rightarrow> bool" where
  "tame f \<longleftrightarrow> (\<forall>l. l_valid (f l) \<longrightarrow> l_valid l \<and> l_tag (f l) = l_tag l \<and> l_base (f l) = l_base l)"

lemma tame [simp]:
  "tame (\<lambda>l. l\<lparr>l_dirty := d\<rparr>)" "tame (\<lambda>l. l\<lparr>l_stamp := t\<rparr>)" "tame (\<lambda>l. l\<lparr>l_valid := False\<rparr>)"
  "tame (\<lambda>l. l\<lparr>l_valid := False, l_dirty := d\<rparr>)"
  by (simp_all add: tame_def)

lemma tame_set_line:
  assumes "tame f" "l_valid (line_at (set_line s w f c) s' w')"
  shows "l_valid (line_at c s' w') \<and> l_tag (line_at (set_line s w f c) s' w') = l_tag (line_at c s' w') \<and>
    l_base (line_at (set_line s w f c) s' w') = l_base (line_at c s' w')"
  using assms by (auto simp: line_after_set tame_def split: if_splits)

lemma fit_set_line [simp]:
  assumes "tame f" "fit rf kf c"
  shows "fit rf kf (set_line s w f c)"
proof -
  have "lines_ok (set_line s w f c)"
    unfolding lines_ok_def set_line_fields
  proof (intro allI impI conjI)
    fix s' v assume a: "s' < c_sets c \<and> v < c_ways c \<and> l_valid (line_at (set_line s w f c) s' v)"
    note t = tame_set_line [OF assms(1)]
    have l: "lines_ok c" using assms(2) by (simp add: fit_def)
    show "cache_decode c (l_base (line_at (set_line s w f c) s' v)) = (l_tag (line_at (set_line s w f c) s' v), s', 0)"
      using a t [of s w c s' v] l by (simp add: lines_ok_def)
    fix w' assume "w' < c_ways c \<and> l_valid (line_at (set_line s w f c) s' w') \<and>
      l_tag (line_at (set_line s w f c) s' w') = l_tag (line_at (set_line s w f c) s' v)"
    then show "w' = v" using a t [of s w c s' v] t [of s w c s' w'] l unfolding lines_ok_def by auto
  qed
  with assms(2) show ?thesis by (simp add: fit_def)
qed

lemma absent_set_line [simp]: "tame f \<Longrightarrow> absent a tag si c \<Longrightarrow> absent a tag si (set_line s w f c)"
  unfolding absent_def set_line_fields line_after_set tame_def by auto

lemma fit_other [simp]:
  "fit rf kf (set_data s w i v c) = fit rf kf c" "fit rf kf (c\<lparr>c_clock := t\<rparr>) = fit rf kf c"
  "fit rf kf (c\<lparr>c_reads := m\<rparr>) = fit rf kf c" "fit rf kf (c\<lparr>c_writes := m\<rparr>) = fit rf kf c"
  "fit rf kf (c\<lparr>c_read_hit := m\<rparr>) = fit rf kf c" "fit rf kf (c\<lparr>c_read_miss := m\<rparr>) = fit rf kf c"
  "fit rf kf (c\<lparr>c_write_hit := m\<rparr>) = fit rf kf c" "fit rf kf (c\<lparr>c_write_miss := m\<rparr>) = fit rf kf c"
  "fit rf kf (c\<lparr>c_evictions := m\<rparr>) = fit rf kf c" "fit rf kf (c\<lparr>c_writebacks := m\<rparr>) = fit rf kf c"
  "fit rf kf (c\<lparr>c_invalidations := m\<rparr>) = fit rf kf c" "fit rf kf (c\<lparr>c_stall_cycles := m\<rparr>) = fit rf kf c"
  "fit rf kf (c\<lparr>c_bytes_in := m\<rparr>) = fit rf kf c" "fit rf kf (c\<lparr>c_bytes_out := m\<rparr>) = fit rf kf c"
  "fit rf kf (c\<lparr>c_repl := r\<rparr>) = fit rf kf c" "fit rf kf (c\<lparr>c_wpol := p\<rparr>) = fit rf kf c"
  "fit rf kf (c\<lparr>c_write_alloc := al\<rparr>) = fit rf kf c" "fit rf kf (c\<lparr>c_miss_penalty := n\<rparr>) = fit rf kf c"
  by (simp_all add: fit_def lines_ok_def set_data_def geometry_ok_def cache_decode_def addr_tag_def addr_set_def addr_off_def
    line_at_def line_index_def)

lemma absent_other [simp]:
  "absent a tag si (set_data s w i v c) = absent a tag si c" "absent a tag si (c\<lparr>c_clock := t\<rparr>) = absent a tag si c"
  "absent a tag si (c\<lparr>c_reads := m\<rparr>) = absent a tag si c" "absent a tag si (c\<lparr>c_writes := m\<rparr>) = absent a tag si c"
  "absent a tag si (c\<lparr>c_read_miss := m\<rparr>) = absent a tag si c" "absent a tag si (c\<lparr>c_write_miss := m\<rparr>) = absent a tag si c"
  "absent a tag si (c\<lparr>c_evictions := m\<rparr>) = absent a tag si c" "absent a tag si (c\<lparr>c_writebacks := m\<rparr>) = absent a tag si c"
  "absent a tag si (c\<lparr>c_stall_cycles := m\<rparr>) = absent a tag si c" "absent a tag si (c\<lparr>c_bytes_in := m\<rparr>) = absent a tag si c"
  "absent a tag si (c\<lparr>c_bytes_out := m\<rparr>) = absent a tag si c"
  by (simp_all add: absent_def set_data_def addr_tag_def addr_set_def line_at_def line_index_def)

lemma set_data_fields [simp]:
  "c_ways (set_data s w i v c) = c_ways c" "addr_base (set_data s w i v c) a = addr_base c a"
  by (simp_all add: set_data_def addr_base_def)

lemma fill_fit:
  assumes m: "missing rf kf a tag si c" and w: "w < c_ways c"
  shows "fit rf kf (set_line si w (\<lambda>l. l\<lparr>l_valid := True, l_dirty := False, l_tag := tag, l_base := addr_base c a\<rparr>) c)"
proof -
  let ?f = "\<lambda>l. l\<lparr>l_valid := True, l_dirty := False, l_tag := tag, l_base := addr_base c a\<rparr>"
  have g: "geometry_ok c" and l: "lines_ok c" using m by (simp_all add: fit_def)
  have t: "addr_tag c a = tag" "addr_set c a = si" and ab: "\<And>v. v < c_ways c \<Longrightarrow> l_valid (line_at c si v) \<Longrightarrow> l_tag (line_at c si v) \<noteq> tag"
    using m by (auto simp: absent_def)
  have si: "si < c_sets c" using addr_bounds(1) [OF g, of a] t by simp
  have b: "cache_decode c (addr_base c a) = (tag, si, 0)" using base_decode [OF g, of a] t by simp
  have at: "line_at (set_line si w ?f c) s v = (if s = si \<and> v = w then ?f (line_at c s v) else line_at c s v)"
    if "s < c_sets c" "v < c_ways c" for s v
    using line_index_inj [OF g that si w] by (auto simp: line_after_set)
  have "lines_ok (set_line si w ?f c)"
    unfolding lines_ok_def set_line_fields
  proof (intro allI impI)
    fix s v assume a: "s < c_sets c \<and> v < c_ways c \<and> l_valid (line_at (set_line si w ?f c) s v)"
    show "cache_decode c (l_base (line_at (set_line si w ?f c) s v)) = (l_tag (line_at (set_line si w ?f c) s v), s, 0) \<and>
        (\<forall>w'. w' < c_ways c \<and> l_valid (line_at (set_line si w ?f c) s w') \<and>
          l_tag (line_at (set_line si w ?f c) s w') = l_tag (line_at (set_line si w ?f c) s v) \<longrightarrow> w' = v)"
    proof (cases "s = si \<and> v = w")
      case True
      have u: "w' = v" if "w' < c_ways c" "l_valid (line_at (set_line si w ?f c) si w')" "l_tag (line_at (set_line si w ?f c) si w') = tag" for w'
      proof (rule ccontr)
        assume "w' \<noteq> v"
        then have "line_at (set_line si w ?f c) si w' = line_at c si w'" using True that(1) si by (simp add: at)
        with that ab [of w'] show False by simp
      qed
      have e: "line_at (set_line si w ?f c) si w = ?f (line_at c si w)" using at [OF si w] by simp
      show ?thesis using True u by (simp add: e b)
    next
      case False
      have "line_at (set_line si w ?f c) s v = line_at c s v"
        using at [OF conjunct1 [OF a] conjunct1 [OF conjunct2 [OF a]]] by (simp only: if_not_P [OF False])
      with a have old: "l_valid (line_at c s v)" "line_at (set_line si w ?f c) s v = line_at c s v" by simp_all
      from a old l have d: "cache_decode c (l_base (line_at c s v)) = (l_tag (line_at c s v), s, 0)"
        and u: "\<And>w'. w' < c_ways c \<Longrightarrow> l_valid (line_at c s w') \<Longrightarrow> l_tag (line_at c s w') = l_tag (line_at c s v) \<Longrightarrow> w' = v"
        unfolding lines_ok_def by blast+
      have "\<not> (s = si \<and> l_tag (line_at c s v) = tag)" using ab [of v] a old by auto
      then have "w' = v" if "w' < c_ways c" "l_valid (line_at (set_line si w ?f c) s w')"
        "l_tag (line_at (set_line si w ?f c) s w') = l_tag (line_at c s v)" for w'
        using that at [of s w'] a u [of w'] by (auto split: if_splits)
      then show ?thesis using d by (simp add: old(2))
    qed
  qed
  with m show ?thesis by (simp add: fit_def)
qed

section \<open>The steps\<close>

lemma fit_steps [keeps_rules]:
  "keeps (on_struct (fit rf kf)) (writeback si w)" "keeps (on_struct (fit rf kf)) (touch si w)"
  "keeps (on_struct (fit rf kf)) (store_line si w off a v)"
  unfolding writeback_def touch_def store_line_def by (intro keeps_rules; simp)+

lemma missing_steps [keeps_rules]:
  "keeps (on_struct (missing rf kf a tag si)) (writeback s w)"
  unfolding writeback_def by (intro keeps_rules; simp)

lemma pick_victim_way:
  "triple (on_struct (missing rf kf a tag si)) (pick_victim rnd s) (\<lambda>w p. missing rf kf a tag si (fst p) \<and> w < c_ways (fst p))"
  unfolding triple_def
proof (intro allI impI)
  fix p :: "'a cache \<times> 'a" assume p: "missing rf kf a tag si (fst p)"
  obtain c b where cb: "p = (c, b)" by (cases p)
  show "missing rf kf a tag si (fst (exec (pick_victim rnd s) p)) \<and>
      result (pick_victim rnd s) p < c_ways (fst (exec (pick_victim rnd s) p))"
    using p victim_bound [of c rnd s b] by (simp add: cb victim_struct fit_def)
qed

section \<open>A miss\<close>

lemma missing_writes: "(\<And>c. missing rf kf a tag si c \<Longrightarrow> missing rf kf a tag si (f c) \<and> c_ways (f c) = c_ways c) \<Longrightarrow>
    keeps (on_struct (\<lambda>c. missing rf kf a tag si c \<and> w < c_ways c)) (writes f)"
  by (auto simp: keeps_def)

lemma writeback_room:
  "keeps (on_struct (\<lambda>c. missing rf kf a tag si c \<and> w < c_ways c)) (writeback s v)"
  unfolding writeback_def by (intro keeps_rules missing_writes; simp)

lemma evict_room:
  "keeps (on_struct (\<lambda>c. missing rf kf a tag si c \<and> w < c_ways c)) (whenever b (do {
     writes (\<lambda>c. c\<lparr>c_evictions := c_evictions c + 1\<rparr>);
     writeback s v }))"
  by (rule keeps_whenever, rule keeps_bind [OF missing_writes writeback_room]) simp

lemma refill_fit:
  "hoare (on_struct (\<lambda>c. missing rf kf a tag si c \<and> w < c_ways c)) (refill si w a tag) (on_struct (fit rf kf))"
  unfolding hoare_def
proof (intro allI impI)
  fix p :: "'a cache \<times> 'a" assume p: "missing rf kf a tag si (fst p) \<and> w < c_ways (fst p)"
  obtain c b where cb: "p = (c, b)" by (cases p)
  let ?P = "\<lambda>c'. (missing rf kf a tag si c' \<and> w < c_ways c') \<and> addr_base c' a = addr_base c a"
  have loop: "keeps (on_struct ?P) (for_each xs (\<lambda>i. do {
       rd \<leftarrow> reads c_bs_read; v \<leftarrow> outside (rd (addr_base c a + ucast i)); writes (set_data si w i v) }))" for xs
    by (intro keeps_rules; simp)
  define q where "q = exec (for_each (upto_u32 (c_line_bytes c)) (\<lambda>i. do {
       rd \<leftarrow> reads c_bs_read; v \<leftarrow> outside (rd (addr_base c a + ucast i)); writes (set_data si w i v) })) (c, b)"
  have q: "?P (fst q)" unfolding q_def by (rule keepsD [OF loop]) (use p cb in simp)
  show "fit rf kf (fst (exec (refill si w a tag) p))"
    unfolding refill_def cb run_bind_split run_reads fst_conv snd_conv q_def [symmetric]
    using fill_fit [where a = a and tag = tag and si = si and c = "fst q" and w = w] q by (cases q) simp
qed

lemma handle_miss_fit:
  "hoare (on_struct (missing rf kf a tag si)) (handle_miss rnd a tag si ev) (on_struct (fit rf kf))"
proof -
  have rest: "hoare (on_struct (\<lambda>c. missing rf kf a tag si c \<and> w < c_ways c)) (do {
       l \<leftarrow> reads (\<lambda>c. line_at c si w);
       whenever (l_valid l) (do { writes (\<lambda>c. c\<lparr>c_evictions := c_evictions c + 1\<rparr>); writeback si w });
       let ev = (if l_valid l then ev\<lparr>ev_evicted := True, ev_evicted_base := l_base l, ev_wrote_back := l_dirty l\<rparr> else ev);
       refill si w a tag;
       writes (\<lambda>c. c\<lparr>c_stall_cycles := c_stall_cycles c + ucast (c_miss_penalty c)\<rparr>);
       p \<leftarrow> reads c_miss_penalty;
       ret (w, ev\<lparr>ev_stall := p\<rparr>) }) (on_struct (fit rf kf))" for w
    unfolding Let_def
    by (rule hoare_reads_then, rule hoare_keeps_bind [OF evict_room], rule hoare_then_keeps [OF refill_fit])
      (intro keeps_rules; simp)
  show ?thesis
    unfolding hoare_def
  proof (intro allI impI)
    fix p :: "'a cache \<times> 'a" assume "missing rf kf a tag si (fst p)"
    from tripleD [OF pick_victim_way this, of rnd si] hoareD [OF rest]
    show "fit rf kf (fst (exec (handle_miss rnd a tag si ev) p))" unfolding handle_miss_def run_bind_split by simp
  qed
qed

section \<open>Every operation\<close>

lemma missing_found:
  assumes "fit rf kf c" "find_way c a = None"
  shows "absent a (addr_tag c a) (addr_set c a) c"
  using assms(2) by (auto simp: absent_def find_way_def find_None_iff set_upto_u32)

text \<open>The way from the start of an access to the search and past it.\<close>

lemma access_fit:
  assumes "\<And>w tag si off. keeps (on_struct (fit rf kf)) (f w tag si off)"
    and "\<And>tag si off. hoare (on_struct (missing rf kf a tag si)) (m tag si off) (on_struct (fit rf kf))"
    and "\<And>c. find_way (g c) a = find_way c a \<and> addr_tag (g c) a = addr_tag c a \<and> addr_set (g c) a = addr_set c a"
    and "\<And>c. fit rf kf (g c) = fit rf kf c"
  shows "keeps (on_struct (fit rf kf)) (do {
     (tag, si, off) \<leftarrow> reads (\<lambda>c. cache_decode c a);
     writes g;
     found \<leftarrow> reads (\<lambda>c. find_way c a);
     case found of Some w \<Rightarrow> f w tag si off | None \<Rightarrow> m tag si off })"
proof (rule keepsI)
  fix p :: "'a cache \<times> 'b" assume p: "fit rf kf (fst p)"
  obtain c b where cb: "p = (c, b)" by (cases p)
  have g: "fit rf kf (g c)" using p assms(4) cb by simp
  show "fit rf kf (fst (exec (do {
     (tag, si, off) \<leftarrow> reads (\<lambda>c. cache_decode c a);
     writes g;
     found \<leftarrow> reads (\<lambda>c. find_way c a);
     case found of Some w \<Rightarrow> f w tag si off | None \<Rightarrow> m tag si off }) p))"
  proof (cases "find_way c a")
    case None
    then have "missing rf kf a (addr_tag c a) (addr_set c a) (g c)"
      using missing_found [OF g, of a] assms(3) g by simp
    with hoareD [OF assms(2), of "(g c, b)"] None assms(3) show ?thesis by (simp add: cb cache_decode_def)
  next
    case (Some w)
    with keepsD [OF assms(1), of "(g c, b)"] g assms(3) show ?thesis by (simp add: cb cache_decode_def)
  qed
qed

lemma counts_same:
  "find_way (c\<lparr>c_reads := n\<rparr>) a = find_way c a" "find_way (c\<lparr>c_writes := n\<rparr>) a = find_way c a"
  "addr_tag (c\<lparr>c_reads := n\<rparr>) a = addr_tag c a" "addr_tag (c\<lparr>c_writes := n\<rparr>) a = addr_tag c a"
  "addr_set (c\<lparr>c_reads := n\<rparr>) a = addr_set c a" "addr_set (c\<lparr>c_writes := n\<rparr>) a = addr_set c a"
  by (simp_all add: find_way_def addr_set_def addr_tag_def line_at_def line_index_def)

lemma missing_keep: "(\<And>c. missing rf kf a tag si c \<Longrightarrow> missing rf kf a tag si (f c)) \<Longrightarrow>
    keeps (on_struct (missing rf kf a tag si)) (writes f)"
  by (auto simp: keeps_def)

lemma read_fit: "keeps (on_struct (fit rf kf)) (cache_read rnd a)"
  unfolding cache_read_def Let_def
  by (rule access_fit; (simp add: counts_same)?)
    (intro keeps_rules; simp |
     rule hoare_keeps_bind [OF missing_keep], simp, rule hoare_then_keeps [OF handle_miss_fit], intro keeps_rules)+

lemma write_fit: "keeps (on_struct (fit rf kf)) (cache_write rnd a v)"
  unfolding cache_write_def Let_def
proof (rule access_fit; (simp add: counts_same)?)
  show "hoare (on_struct (missing rf kf a tag si)) (do {
         writes (\<lambda>c. c\<lparr>c_write_miss := c_write_miss c + 1\<rparr>);
         alloc \<leftarrow> reads c_write_alloc;
         if \<not> alloc then do {
           wr \<leftarrow> reads c_bs_write;
           outside (wr a v);
           writes (\<lambda>c. c\<lparr>c_bytes_out := c_bytes_out c + 1,
             c_stall_cycles := c_stall_cycles c + ucast (c_miss_penalty c)\<rparr>);
           p \<leftarrow> reads c_miss_penalty;
           ret ((ev_init si tag)\<lparr>ev_stall := p\<rparr>) }
         else do {
           (w, ev) \<leftarrow> handle_miss rnd a tag si (ev_init si tag);
           store_line si w off a v;
           ret (ev\<lparr>ev_way := w\<rparr>) } }) (on_struct (fit rf kf))" for tag si off
    by (rule hoare_keeps_bind [OF missing_keep], simp, rule hoare_reads_then, rule hoare_if,
        rule keeps_hoare [where P = "on_struct (missing rf kf a tag si)"], (intro keeps_rules; simp), simp,
        rule hoare_then_keeps [OF handle_miss_fit]) (intro keeps_rules)
qed (intro keeps_rules; simp)

lemma maintenance_fit:
  "keeps (on_struct (fit rf kf)) cache_clean" "keeps (on_struct (fit rf kf)) cache_flush"
  "keeps (on_struct (fit rf kf)) cache_invalidate" "keeps (on_struct (fit rf kf)) (cache_clean_addr a)"
  "keeps (on_struct (fit rf kf)) (cache_snoop a)" "keeps (on_struct (fit rf kf)) cache_reset_stats"
  unfolding cache_clean_def cache_flush_def cache_invalidate_def cache_clean_addr_def cache_snoop_def
    cache_reset_stats_def all_ways_def
  by (intro keeps_rules; simp)+

lemma config_fit:
  assumes f: "fit rf kf c" and w: "unat ways < 2 ^ 24"
  shows "fit rf kf (fst (exec (cache_config room nm sz line ways) (c, b)))"
    and "result (cache_config room nm sz line ways) (c, b) \<noteq> Config_crash"
    and "snd (exec (cache_config room nm sz line ways) (c, b)) = b"
proof -
  have ok: "fit rf kf (fst (exec (cache_config room nm sz line ways) (c, b)))"
    if "result (cache_config room nm sz line ways) (c, b) = Config_ok" and p: "unat line * unat ways < 2 ^ 32"
    using config_ok_geometry [OF p that(1)] f by (auto simp: Let_def fit_def lines_ok_def line_at_def)
  have err: "exec (cache_config room nm sz line ways) (c, b) = (c, b)"
    if "result (cache_config room nm sz line ways) (c, b) \<noteq> Config_ok"
    using that by (auto simp: cache_config_def Let_def split: if_splits)
  show "snd (exec (cache_config room nm sz line ways) (c, b)) = b"
    by (simp add: cache_config_def Let_def)
  show "fit rf kf (fst (exec (cache_config room nm sz line ways) (c, b)))"
    "result (cache_config room nm sz line ways) (c, b) \<noteq> Config_crash"
  proof -
    consider "256 < line \<or> line < 1 \<or> ways < 1" | "unat line \<le> 256" "0 < unat line" "0 < unat ways"
      by (cases "256 < line \<or> line < 1 \<or> ways < 1") (auto simp: word_less_nat_alt not_less)
    then have "fit rf kf (fst (exec (cache_config room nm sz line ways) (c, b))) \<and>
      result (cache_config room nm sz line ways) (c, b) \<noteq> Config_crash"
    proof cases
      case 1
      then have "result (cache_config room nm sz line ways) (c, b) \<noteq> Config_ok"
        "result (cache_config room nm sz line ways) (c, b) \<noteq> Config_crash"
        by (auto simp: cache_config_def Let_def)
      then show ?thesis using err f by simp
    next
      case 2
      have "unat line * unat ways \<le> 256 * unat ways" using 2(1) by (rule mult_le_mono1)
      also have "256 * unat ways < 2 ^ 32" using w by simp
      finally have p: "unat line * unat ways < 2 ^ 32" .
      then have "unat (line * ways) = unat line * unat ways" by (simp add: unat_word_ariths)
      then have "line * ways \<noteq> 0" using 2(2,3) by (metis less_numeral_extra(3) nat_0_less_mult_iff unsigned_0)
      then have "result (cache_config room nm sz line ways) (c, b) \<noteq> Config_crash" by (simp add: cache_config_def Let_def)
      then show ?thesis using ok [OF _ p] err f by (cases "result (cache_config room nm sz line ways) (c, b) = Config_ok") simp_all
    qed
    then show "fit rf kf (fst (exec (cache_config room nm sz line ways) (c, b)))"
      "result (cache_config room nm sz line ways) (c, b) \<noteq> Config_crash" by simp_all
  qed
qed

section \<open>What the callbacks keep\<close>

text \<open>The weakest contract of the callbacks: something about the world they act on does not change.\<close>

locale callbacks =
  fixes rf :: "u16 \<Rightarrow> ('b, u8) state" and kf :: "u16 \<Rightarrow> u8 \<Rightarrow> ('b, unit) state" and rnd :: "('b, nat) state" and W :: "'b \<Rightarrow> bool"
  assumes rf: "keeps W (rf a)" and kf: "keeps W (kf a v)" and rnd: "keeps W rnd"
begin

definition calm :: "'b cache \<times> 'b \<Rightarrow> bool" where
  "calm p \<longleftrightarrow> c_bs_read (fst p) = rf \<and> c_bs_write (fst p) = kf \<and> W (snd p)"

lemma calm_call:
  "keeps calm (g rf) \<Longrightarrow> keeps calm (reads c_bs_read \<bind> g)" "keeps calm (g' kf) \<Longrightarrow> keeps calm (reads c_bs_write \<bind> g')"
  by (auto simp: keeps_def calm_def)

lemma calm_outside: "keeps W m \<Longrightarrow> keeps calm (outside m)"
  by (auto simp: keeps_def calm_def)

lemma calm_writes: "(\<And>c. c_bs_read (f c) = c_bs_read c \<and> c_bs_write (f c) = c_bs_write c) \<Longrightarrow> keeps calm (writes f)"
  by (auto simp: keeps_def calm_def)

lemmas calm_rules = calm_call keeps_ret keeps_reads keeps_bind keeps_if keeps_whenever keeps_for_each keeps_prod_case
  keeps_option_case calm_outside rf kf rnd calm_writes

lemma steps_calm:
  "keeps calm (writeback si w)" "keeps calm (pick_victim rnd si)" "keeps calm (refill si w a tag)" "keeps calm (touch si w)"
  "keeps calm (store_line si w off a v)"
  unfolding writeback_def pick_victim_def refill_def touch_def store_line_def
  by (rule calm_rules | (simp add: set_data_def; fail))+

lemma miss_calm: "keeps calm (handle_miss rnd a tag si ev)"
  unfolding handle_miss_def Let_def by (rule steps_calm calm_rules | (simp; fail))+

lemma operations_calm:
  "keeps calm (cache_read rnd a)" "keeps calm (cache_write rnd a v)" "keeps calm cache_clean" "keeps calm cache_flush"
  "keeps calm (cache_clean_addr a)" "keeps calm (cache_snoop a)" "keeps calm cache_reset_stats"
  unfolding cache_read_def cache_write_def cache_clean_def cache_flush_def cache_clean_addr_def cache_snoop_def
    cache_reset_stats_def all_ways_def Let_def
  by (rule miss_calm steps_calm calm_rules | (simp; fail))+

text \<open>Together with the structural invariant: what an owner of the cache relies on.\<close>

lemma operations_safe:
  defines "P \<equiv> \<lambda>p. fit rf kf (fst p) \<and> W (snd p)"
  shows "keeps P (cache_read rnd a)" "keeps P (cache_write rnd a v)" "keeps P cache_clean" "keeps P cache_flush"
    "keeps P (cache_clean_addr a)" "keeps P (cache_snoop a)" "keeps P cache_reset_stats"
proof -
  have "keeps P m" if "keeps (on_struct (fit rf kf)) m" "keeps calm m" for m :: "('b, 'c) cprog"
    using that unfolding keeps_def P_def calm_def fit_def by blast
  note both = this
  show "keeps P (cache_read rnd a)" "keeps P (cache_write rnd a v)" "keeps P cache_clean" "keeps P cache_flush"
    "keeps P (cache_clean_addr a)" "keeps P (cache_snoop a)" "keeps P cache_reset_stats"
    by (rule both [OF _ operations_calm(1)], rule read_fit, rule both [OF _ operations_calm(2)], rule write_fit,
        (rule both [OF maintenance_fit(1) operations_calm(3)] both [OF maintenance_fit(2) operations_calm(4)]
          both [OF maintenance_fit(4) operations_calm(5)] both [OF maintenance_fit(5) operations_calm(6)]
          both [OF maintenance_fit(6) operations_calm(7)])+)
qed

end

end
