(* ===== verification/Memsys_Fit.thy ===== *)
theory Memsys_Fit
  imports Cache_Fit Memsys_Init
begin

text \<open>
  The structural invariant of the memory system (\<open>sound\<close>): its three caches are well formed and attached
  to their memories, and the space pointers are those of the memory model.  Unlike \<open>presents\<close> of
  \<open>Memsys_Refine\<close> it holds in every memory model and whatever has been written behind the caches; the bus
  and the operations of \<open>h6502/memsys.c\<close> keep it.
\<close>
unbundle bit_operations_syntax

definition sound :: "memsys \<Rightarrow> bool" where
  "sound m \<longleftrightarrow> (\<forall>n. fit (bs_rd n) (bs_wr n) (the_cache n m)) \<and> imem (ms_phys m) = MEM_I \<and>
     dmem (ms_phys m) = (if ms_mode m = MODE_HARVARD then MEM_D else MEM_I)"

interpretation kept: callbacks "bs_rd n" "bs_wr n" rand "\<lambda>b. imem b = p \<and> dmem b = q" for n p q
  by unfold_locales (auto simp: keeps_def exec_bs_wr bs_rd_def bs_read_i_def bs_read_d_def rand_def)

lemma sound_on_cache:
  assumes "\<And>p q. keeps (\<lambda>s. fit (bs_rd n) (bs_wr n) (fst s) \<and> imem (snd s) = p \<and> dmem (snd s) = q) prog"
  shows "keeps (on_struct sound) (on_cache n prog)"
proof (rule keepsI)
  fix s :: world assume s: "sound (fst s)"
  obtain m h where mh: "s = (m, h)" by (cases s)
  obtain r c b where run: "run_state prog (the_cache n m, ms_phys m) = (r, (c, b))" by (metis prod.exhaust)
  have "fit (bs_rd n) (bs_wr n) c \<and> imem b = imem (ms_phys m) \<and> dmem b = dmem (ms_phys m)"
    using keepsD [OF assms, of "(the_cache n m, ms_phys m)" "imem (ms_phys m)" "dmem (ms_phys m)"] s run mh
    by (simp add: sound_def)
  then show "sound (fst (exec (on_cache n prog) s))"
    using s mh run by (simp add: on_cache_def sound_def)
qed

lemmas cache_sound = kept.operations_safe [THEN sound_on_cache]

text \<open>A change that touches none of the fields the invariant is about.\<close>

lemma sound_writes:
  assumes "\<And>m. sound m \<Longrightarrow> sound (f m)"
  shows "keeps (on_struct sound) (writes f)"
  using assms by (auto simp: keeps_def)

lemma sound_other [simp]:
  "sound (m\<lparr>caches_on := x\<rparr>) = sound m" "sound (m\<lparr>snoop := x\<rparr>) = sound m" "sound (m\<lparr>warn_stale := x\<rparr>) = sound m"
  "sound (m\<lparr>n_kind := y\<rparr>) = sound m" "sound (m\<lparr>n_code := n\<rparr>) = sound m" "sound (m\<lparr>n_data := n\<rparr>) = sound m"
  "sound (m\<lparr>n_uncached := n\<rparr>) = sound m" "sound (m\<lparr>stale_writes := n\<rparr>) = sound m"
  "sound (m\<lparr>code_stores := n\<rparr>) = sound m" "sound (m\<lparr>stale_warn_left := z\<rparr>) = sound m"
  "sound (m\<lparr>code_lo := a\<rparr>) = sound m" "sound (m\<lparr>code_hi := a\<rparr>) = sound m" "sound (m\<lparr>code_known := x\<rparr>) = sound m"
  "sound (m\<lparr>trace := x\<rparr>) = sound m" "sound (m\<lparr>trace_left := z\<rparr>) = sound m"
  "sound (m\<lparr>ms_phys := set_space p a v (ms_phys m)\<rparr>) = sound m"
  by (simp_all add: sound_def the_cache_def cong: cache_name.case_cong)

lemma say_sound [keeps_rules]: "keeps (on_struct sound) (say s)"
  unfolding say_def by (rule keeps_outside)

lemma trace_sound [keeps_rules]: "keeps (on_struct sound) (trace_line op kind a v ce)"
  unfolding trace_line_def by (intro keeps_rules; simp)

lemma memory_sound [keeps_rules]:
  "keeps (on_struct sound) (count_access kind)" "keeps (on_struct sound) (space_put side a v)"
  "keeps (on_struct sound) (stale_warning a)" "keeps (on_struct sound) (ms_poke side a v)"
  "keeps (on_struct sound) (ms_flush code data)" "keeps (on_struct sound) ms_clean"
  "keeps (on_struct sound) ms_reset_stats"
  unfolding count_access_def space_put_def stale_warning_def ms_poke_def ms_flush_def ms_clean_def ms_reset_stats_def Let_def
  by (intro keeps_rules cache_sound; simp)+

lemma mode_sound [keeps_rules]: "keeps (on_struct sound) (ms_set_mode k)"
  unfolding ms_set_mode_def
  by (intro keeps_rules cache_sound) (auto simp: sound_def the_cache_def split: cache_name.splits)

lemma access_sound:
  "keeps (on_struct sound) (ms_load kind a)" "keeps (on_struct sound) (ms_store kind a v)"
  "keeps (on_struct sound) (ms_io_load kind a)"
  unfolding ms_load_def ms_store_def ms_io_load_def Let_def space_get_def
  by (intro keeps_rules cache_sound; simp)+

section \<open>The bus\<close>

text \<open>What the CPU sees of the invariant: it is about the world, not about the registers.\<close>

definition sound_world :: "world \<Rightarrow> bool" where
  "sound_world w \<longleftrightarrow> sound (fst w)"

lemma cpu_outside: "keeps (on_struct sound) m \<Longrightarrow> keeps (\<lambda>p. sound_world (snd p)) (outside m)"
  by (auto simp: keeps_def sound_world_def)

lemma cpu_writes: "keeps (\<lambda>p. sound_world (snd p)) (writes f)"
  by (auto simp: keeps_def)

lemma io_write_sound: "keeps (\<lambda>p. sound_world (snd p)) (h_io_write a v)"
  unfolding h_io_write_def by (intro keeps_rules cpu_outside cpu_writes)

interpretation h6502_sound: bus_inv h6502_bus sound_world
proof unfold_locales
  fix w :: world and a s assume w: "sound_world w"
  have "keeps (\<lambda>p. sound_world (snd p)) (ms_read a)"
    unfolding ms_read_def by (intro keeps_rules cpu_outside access_sound)
  from keepsD [OF this, of "(s, w)"] w show "sound_world (snd (exec (bus_read h6502_bus a) (s, w)))"
    by (simp add: h6502_bus_def)
next
  fix w :: world and a x s assume w: "sound_world w"
  have "keeps (\<lambda>p. sound_world (snd p)) (ms_write a x)"
    unfolding ms_write_def ms_io_store_def by (intro keeps_rules cpu_outside io_write_sound access_sound sound_writes; simp)
  from keepsD [OF this, of "(s, w)"] w show "sound_world (snd (exec (bus_write h6502_bus a x) (s, w)))"
    by (simp add: h6502_bus_def)
qed

section \<open>The initial state\<close>

lemma init_sound: "sound (init_memsys b)"
  unfolding sound_def fit_def lines_ok_def
  by (auto simp: init_memsys_def zero_memsys_def the_cache_def default_cache_def geometry_ok_def bs_rd_def bs_wr_def
    zero_cache_def zero_line_def line_at_def split: cache_name.split)

end
