(* ===== verification/Hmon.thy ===== *)
theory Hmon
  imports Memsys Disasm CLib
begin

text \<open>
  The helpers and the displays of \<open>h6502/hmon.c\<close>.

  The breakpoint table, the two addresses the display commands remember and the terminal mode are the
  struct \<open>hstatics\<close> of the command interpreter; its world is the machine, the CPU over the memory
  system of \<open>Memsys\<close>.  \<open>on_cpu\<close> and \<open>on_ms\<close> run a program of those layers, \<open>out\<close> prints.  The texts of
  the statistics contain \<open>double\<close>s: their conversion is the parameter \<open>fx\<close>, which maps the precision
  and the exact value to the digits.
\<close>

unbundle bit_operations_syntax

section \<open>State\<close>

definition MAX_BP :: nat where
  "MAX_BP = 8"

record hstatics =
  bp_table :: "u16 list"
  last_dis :: u16
  last_dump :: u16
  tty_raw :: bool

type_synonym machine = "core \<times> world"
type_synonym 'a hcmd = "(hstatics \<times> machine, 'a) state"

abbreviation on_cpu :: "(world, 'a) cpu \<Rightarrow> 'a hcmd" where
  "on_cpu m \<equiv> outside m"

abbreviation on_ms :: "'a msprog \<Rightarrow> 'a hcmd" where
  "on_ms m \<equiv> outside (outside m)"

abbreviation out :: "string \<Rightarrow> unit hcmd" where
  "out s \<equiv> on_ms (say s)"

definition cpu_reads :: "(core \<Rightarrow> 'a) \<Rightarrow> 'a hcmd" where
  "cpu_reads f = on_cpu (reads f)"

definition ms_reads :: "(memsys \<Rightarrow> 'a) \<Rightarrow> 'a hcmd" where
  "ms_reads f = on_ms (reads f)"

definition ms_writes :: "(memsys \<Rightarrow> memsys) \<Rightarrow> unit hcmd" where
  "ms_writes f = on_ms (writes f)"

section \<open>Small helpers\<close>

text \<open>The number and \<open>*ok\<close>; pointers into the string are compared by what is left from there.\<close>

definition parse_num :: "string option \<Rightarrow> int \<times> bool" where
  "parse_num p = (case p of
     None \<Rightarrow> (0, False)
   | Some s \<Rightarrow>
       if s = [] then (0, False)
       else let (v, rest) =
           (if char_at s 0 = CHR ''$'' then strtol 16 (drop 1 s)
            else if char_at s 0 = CHR ''0'' \<and> (char_at s 1 = CHR ''x'' \<or> char_at s 1 = CHR ''X'') then strtol 16 (drop 2 s)
            else if char_at s 0 = CHR ''#'' then strtol 10 (drop 1 s)
            else strtol 16 s)
         in if length rest = length s \<or> rest \<noteq> [] then (0, False) else (v, True))"

definition num16 :: "string option \<Rightarrow> u16" where
  "num16 p = word_of_int (fst (parse_num p))"

text \<open>The token and the rest of the line behind it.\<close>

definition blank :: "char \<Rightarrow> bool" where
  "blank c \<longleftrightarrow> c = CHR '' '' \<or> c = CHR 0x09"

definition tok :: "string \<Rightarrow> string option \<times> string" where
  "tok p = (let s = dropWhile blank p in
     if s = [] then (None, s)
     else (Some (takeWhile (\<lambda>c. \<not> blank c) s), drop 1 (dropWhile (\<lambda>c. \<not> blank c) s)))"

text \<open>What a line holds up to the zero that \<open>tok\<close> has put behind its first token.\<close>

definition cut_line :: "string \<Rightarrow> string" where
  "cut_line p = takeWhile blank p @ takeWhile (\<lambda>c. \<not> blank c) (dropWhile blank p)"

fun eqi_loop :: "string \<Rightarrow> string \<Rightarrow> bool" where
  "eqi_loop (a # as) (b # bs) \<longleftrightarrow> tolower a = tolower b \<and> eqi_loop as bs"
| "eqi_loop as bs \<longleftrightarrow> as = [] \<and> bs = []"

definition eqi :: "string option \<Rightarrow> string \<Rightarrow> bool" where
  "eqi a b \<longleftrightarrow> (case a of None \<Rightarrow> False | Some s \<Rightarrow> eqi_loop s b)"

definition is_bp :: "hstatics \<Rightarrow> u16 \<Rightarrow> bool" where
  "is_bp h a \<longleftrightarrow> list_ex (\<lambda>b. b = a) (bp_table h)"

section \<open>Display\<close>

definition regs_text :: "core \<Rightarrow> string" where
  "regs_text c = (let p = m6502_getP c in
     ''PC=$'' @ hex4 (r_pc c) @ '' A=$'' @ hex2 (r_a c) @ '' X=$'' @ hex2 (r_x c) @ '' Y=$'' @ hex2 (r_y c) @
     '' SP=$'' @ hex2 (r_sp c) @ '' P=$'' @ hex2 p @ '' ['' @
     map (\<lambda>i. if p AND drop_bit i 0x80 \<noteq> 0 then ''NV-BDIZC'' ! i else CHR ''.'') [0..<8] @ '']'' @ nl)"

definition show_regs :: "unit hcmd" where
  "show_regs = do {
     c \<leftarrow> cpu_reads id;
     out (regs_text c);
     st \<leftarrow> ms_reads ms_stall_cycles;
     out (''cycles='' @ dec (unat (cycles c)) @ ''  stall='' @ dec (unat st) @ ''  total='' @
       dec (unat (cycles c + st)) @ nl) }"

definition peek_code :: "u16 \<Rightarrow> u8 msprog" where
  "peek_code a = reads (\<lambda>m. ms_peek_code m a)"

fun disasm :: "u16 \<Rightarrow> nat \<Rightarrow> unit hcmd" where
  "disasm a 0 = ret ()"
| "disasm a (Suc n) = do {
     (len, buf) \<leftarrow> on_ms (m6502_disasm peek_code a 48);
     pc \<leftarrow> cpu_reads r_pc;
     hit \<leftarrow> reads (\<lambda>h. is_bp h a);
     out ([if a = pc then CHR ''>'' else CHR '' '', if hit then CHR ''*'' else CHR '' ''] @ '' $'' @ hex4 a @
       ''  '' @ buf @ nl);
     disasm (a + of_int len) n }"

definition dump_row :: "memsys \<Rightarrow> MemSide \<Rightarrow> nat \<Rightarrow> string" where
  "dump_row m side a = (let vs = map (\<lambda>i. ms_peek m side (of_nat (a + i))) [0..<16] in
     ''$'' @ hexw 4 a @ '' '' @ concat (map (\<lambda>v. '' '' @ hex2 v) vs) @ ''  '' @
     map (\<lambda>v. if isprint (char_of (unat v)) then char_of (unat v) else CHR ''.'') vs @ nl)"

function dump_loop :: "MemSide \<Rightarrow> nat \<Rightarrow> u16 \<Rightarrow> unit hcmd" where
  "dump_loop side a hi = (
     if a \<le> unat hi then do {
       row \<leftarrow> ms_reads (\<lambda>m. dump_row m side a);
       out row;
       if 0xffff < a + 16 then ret () else dump_loop side (a + 16) hi }
     else ret ())"
  by pat_completeness auto
termination
  by (relation "measure (\<lambda>(side, a, hi). 65536 - a)") auto

declare dump_loop.simps [simp del]

definition dump :: "MemSide \<Rightarrow> u16 \<Rightarrow> u16 \<Rightarrow> unit hcmd" where
  "dump side lo hi = dump_loop side (unat (lo AND 0xfff0)) hi"

section \<open>Cache reporting\<close>

definition udec :: "'a::len word \<Rightarrow> string" where
  "udec v = dec (unat v)"

definition wide :: "nat \<Rightarrow> 'a::len word \<Rightarrow> string" where
  "wide w v = pad_left CHR '' '' w (udec v)"

definition repl_name :: "cache_repl \<Rightarrow> string" where
  "repl_name r = (if r = REPL_LRU then ''LRU'' else if r = REPL_FIFO then ''FIFO'' else ''random'')"

definition cache_config_text :: "phys cache \<Rightarrow> string" where
  "cache_config_text c =
     ''  '' @ pad_right 3 (c_name c) @ '' '' @ wide 5 (c_capacity c) @ '' B = '' @ udec (c_sets c) @ '' sets x '' @
     udec (c_ways c) @ '' ways x '' @ udec (c_line_bytes c) @ '' B/line   tag '' @
     udec (16 - c_off_bits c - c_idx_bits c) @ '' : index '' @ udec (c_idx_bits c) @ '' : offset '' @
     udec (c_off_bits c) @ '' bits'' @ nl @
     ''      '' @ repl_name (c_repl c) @ '' replacement, write-'' @
     (if c_wpol c = WPOL_BACK then ''back'' else ''through'') @ '', '' @
     (if c_write_alloc c then ''write'' else ''no-write'') @ ''-allocate, miss penalty '' @
     udec (c_miss_penalty c) @ '' cycles'' @ nl"

definition show_cache_config :: "cache_name \<Rightarrow> unit hcmd" where
  "show_cache_config k = do { c \<leftarrow> ms_reads (the_cache k); out (cache_config_text c) }"

definition show_config :: "unit hcmd" where
  "show_config = do {
     m \<leftarrow> ms_reads id;
     out (''model: '' @ ms_mode_name (ms_mode m) @ nl);
     out (''caches: '' @ (if caches_on m then ''on'' else ''OFF (every access goes to memory)''));
     whenever (ms_mode m = MODE_MODIFIED) (out ('', I$ snooping '' @ (if snoop m then ''on'' else ''off'')));
     out nl;
     whenever (caches_on m) (
       if ms_mode m = MODE_VONNEUMANN then show_cache_config CU
       else do { show_cache_config CI; show_cache_config CD }) }"

definition cache_stats_text :: "(nat \<Rightarrow> rat \<Rightarrow> string) \<Rightarrow> phys cache \<Rightarrow> string" where
  "cache_stats_text fx c =
     ''  '' @ pad_right 3 (c_name c) @ '' '' @ wide 8 (c_reads c + c_writes c) @ '' acc  '' @
     wide 8 (c_read_hit c + c_write_hit c) @ '' hit  '' @ wide 8 (c_read_miss c + c_write_miss c) @
     '' miss   hit rate '' @ pad_left CHR '' '' 6 (fx 2 (cache_hit_rate c)) @ ''%'' @ nl @
     ''      reads  '' @ wide 8 (c_reads c) @ '' ('' @ udec (c_read_hit c) @ '' hit / '' @ udec (c_read_miss c) @
     '' miss)   writes '' @ wide 8 (c_writes c) @ '' ('' @ udec (c_write_hit c) @ '' hit / '' @
     udec (c_write_miss c) @ '' miss)'' @ nl @
     ''      evictions '' @ udec (c_evictions c) @ '' ('' @ udec (c_writebacks c) @ '' dirty)  stall '' @
     udec (c_stall_cycles c) @ '' cyc  traffic in '' @ udec (c_bytes_in c) @ '' B / out '' @ udec (c_bytes_out c) @
     '' B'' @ nl @
     (if c_invalidations c \<noteq> 0 then ''      snoop invalidations '' @ udec (c_invalidations c) @ nl else [])"

definition show_cache_stats :: "(nat \<Rightarrow> rat \<Rightarrow> string) \<Rightarrow> cache_name \<Rightarrow> unit hcmd" where
  "show_cache_stats fx k = do { c \<leftarrow> ms_reads (the_cache k); out (cache_stats_text fx c) }"

definition ratio :: "u64 \<Rightarrow> u64 \<Rightarrow> rat" where
  "ratio a b = of_nat (unat a) / of_nat (unat b)"

definition show_stats :: "(nat \<Rightarrow> rat \<Rightarrow> string) \<Rightarrow> unit hcmd" where
  "show_stats fx = do {
     m \<leftarrow> ms_reads id;
     cyc \<leftarrow> cpu_reads cycles;
     let bus = n_code m + n_data m;
     let st = ms_stall_cycles m;
     out (''model: '' @ ms_mode_name (ms_mode m) @ nl);
     out (''bus accesses '' @ udec bus @ ''   instruction side '' @ udec (n_code m) @ '' ('' @
       fx 1 (if bus \<noteq> 0 then 100 * ratio (n_code m) bus else 0) @ ''%)   data side '' @ udec (n_data m) @ '' ('' @
       fx 1 (if bus \<noteq> 0 then 100 * ratio (n_data m) bus else 0) @ ''%)   uncached '' @ udec (n_uncached m) @ nl);
     out ''  by kind: '';
     for_each [0..<6] (\<lambda>i. out (ms_kind_name (of_nat i) @ ''='' @ udec (n_kind m (of_nat i)) @
       (if i = 5 then nl else ''  '')));
     (if caches_on m then
        if ms_mode m = MODE_VONNEUMANN then show_cache_stats fx CU
        else do { show_cache_stats fx CI; show_cache_stats fx CD }
      else out (''  (caches off -- nothing to report)'' @ nl));
     out (''cycles: cpu '' @ udec cyc @ '' + stall '' @ udec st @ '' = '' @ udec (cyc + st));
     whenever (cyc \<noteq> 0) (out (''   ('' @ fx 2 (ratio (cyc + st) cyc) @ ''x the ideal-memory time)''));
     out nl;
     whenever (bus \<noteq> 0) (out (''AMAT: '' @ fx 3 (ratio st bus) @ '' stall cycles per bus access'' @ nl));
     whenever (code_known m) (out (''stores into the program image ($'' @ hex4 (code_lo m) @ ''-$'' @
       hex4 (code_hi m) @ ''): '' @ udec (code_stores m) @ nl));
     whenever (stale_writes m \<noteq> 0) (out (''STALE: '' @ udec (stale_writes m) @
       '' store(s) landed in D$ while I$ held the same line'' @ nl)) }"

definition line_text :: "cache_line \<Rightarrow> string" where
  "line_text l = (if \<not> l_valid l then ''   ---------  ''
     else ''  $'' @ hex4 (l_base l) @ (if l_dirty l then ''*'' else '' '') @ '' a='' @ pad_right 4 (udec (l_stamp l)))"

definition dump_cache :: "cache_name \<Rightarrow> int \<Rightarrow> unit hcmd" where
  "dump_cache k only_set = do {
     c \<leftarrow> ms_reads (the_cache k);
     out (c_name c @ ''  '' @ udec (c_sets c) @ '' sets x '' @ udec (c_ways c) @ '' ways x '' @ udec (c_line_bytes c) @
       ''B'' @ nl);
     for_each (upto_u32 (c_sets c)) (\<lambda>s.
       whenever (\<not> (0 \<le> only_set \<and> word_of_int only_set \<noteq> s)) (do {
         out ('' set '' @ wide 2 s @ '' |'');
         for_each (upto_u32 (c_ways c)) (\<lambda>w. out (line_text (line_at c s w)));
         out nl }));
     out ('' (base address of the resident line; * = dirty; a = age stamp)'' @ nl) }"

definition occupancy :: "phys cache \<Rightarrow> u32 \<Rightarrow> nat" where
  "occupancy c s = length (filter (\<lambda>w. l_valid (line_at c s w)) (upto_u32 (c_ways c)))"

definition dump_sets :: "cache_name \<Rightarrow> unit hcmd" where
  "dump_sets k = do {
     c \<leftarrow> ms_reads (the_cache k);
     out (c_name c @ '' set occupancy'' @ nl);
     for_each (upto_u32 (c_sets c)) (\<lambda>s. do {
       out ('' '' @ wide 3 s @ '' |'');
       for_each (upto_u32 (c_ways c)) (\<lambda>i. out (if unat i < occupancy c s then ''#'' else ''.''));
       out (''| '' @ dec (occupancy c s) @ ''/'' @ udec (c_ways c) @ nl) }) }"

definition map_text :: "phys cache \<Rightarrow> u16 \<Rightarrow> string" where
  "map_text c a = (
     let (tag, si, off) = cache_decode c a;
         col = push_bit (unat (c_off_bits c)) si;
         step = push_bit (unat (c_off_bits c)) (c_sets c)
     in ''  '' @ pad_right 3 (c_name c) @ '' tag $'' @ hexw 3 (unat tag) @ '' | set '' @ udec si @ '' | offset '' @ udec off @
       ''    -> '' @ (case cache_probe c a of
         None \<Rightarrow> ''not resident'' | Some way \<Rightarrow> ''RESIDENT in way '' @ udec way) @ nl @
       ''      addresses that collide with it: $'' @ hexw 4 (unat col) @ '', $'' @ hexw 4 (unat (col + step)) @ '', $'' @
       hexw 4 (unat (col + 2 * step)) @ '', ... (every '' @ udec step @ '' bytes)'' @ nl)"

definition show_map :: "u16 \<Rightarrow> unit hcmd" where
  "show_map a = do {
     m \<leftarrow> ms_reads id;
     out (''address $'' @ hex4 a @ '' = %'' @
       map (\<lambda>i. if bit a (15 - i) then CHR ''1'' else CHR ''0'') [0..<16] @ nl);
     for_each (if ms_mode m = MODE_VONNEUMANN then [CU] else [CI, CD]) (\<lambda>k. do {
       c \<leftarrow> ms_reads (the_cache k);
       out (map_text c a) }) }"

end
