(* ===== verification/Hmon_Cmd.thy ===== *)
theory Hmon_Cmd
  imports Hmon
begin

text \<open>
  The commands of \<open>h6502/hmon.c\<close>: configuration, loading, the run loop, the command interpreter, the line
  editor and \<open>main\<close>.

  Files are a parameter as in the other monitor: the size and the bytes \<open>fread\<close> delivers.  \<open>room\<close> says
  whether \<open>calloc\<close> delivers.  A loop that may run for ever has a fuel argument, and the value \<open>Unfinished\<close>
  when it is spent; \<open>Crash\<close> is the division by zero \<open>cache_config\<close> can run into.
\<close>

unbundle bit_operations_syntax

datatype outcome = Go_on | Quit | Crash | Unfinished

section \<open>The config command\<close>

definition reconfig :: "bool \<Rightarrow> cache_name \<Rightarrow> u32 \<Rightarrow> u32 \<Rightarrow> u32 \<Rightarrow> outcome hcmd" where
  "reconfig room k sz line ways = do {
     tmp \<leftarrow> ms_reads (the_cache k);
     r \<leftarrow> on_ms (on_cache k (cache_config room (Some (c_name tmp)) sz line ways));
     case r of
       Config_error err \<Rightarrow> do {
         out (''config: '' @ err @ '' (unchanged)'' @ nl);
         ms_writes (put_cache k tmp);
         ret Go_on }
     | Config_crash \<Rightarrow> ret Crash
     | Config_ok \<Rightarrow> do { show_cache_config k; ret Go_on } }"

text \<open>The local variables of the loop over the settings.\<close>

record geometry =
  g_size :: u32
  g_line :: u32
  g_ways :: u32
  g_changed :: bool

definition uint_of :: "string \<Rightarrow> u32" where
  "uint_of v = ucast (fst (strtoul 0 v))"

definition atoi :: "string \<Rightarrow> int" where
  "atoi v = int_of_long (fst (strtol 10 v))"

definition set_cache :: "cache_name \<Rightarrow> (phys cache \<Rightarrow> phys cache) \<Rightarrow> unit hcmd" where
  "set_cache k f = ms_writes (\<lambda>m. put_cache k (f (the_cache k m)) m)"

text \<open>One setting \<open>key=value\<close>.\<close>

definition setting :: "cache_name \<Rightarrow> string \<Rightarrow> string \<Rightarrow> geometry \<Rightarrow> geometry hcmd" where
  "setting k kv v g = (
     if eqi (Some kv) ''size'' then ret (g\<lparr>g_size := uint_of v, g_changed := True\<rparr>)
     else if eqi (Some kv) ''line'' then ret (g\<lparr>g_line := uint_of v, g_changed := True\<rparr>)
     else if eqi (Some kv) ''ways'' then ret (g\<lparr>g_ways := uint_of v, g_changed := True\<rparr>)
     else if eqi (Some kv) ''penalty'' then do { set_cache k (\<lambda>c. c\<lparr>c_miss_penalty := uint_of v\<rparr>); ret g }
     else if eqi (Some kv) ''alloc'' then do { set_cache k (\<lambda>c. c\<lparr>c_write_alloc := (atoi v \<noteq> 0)\<rparr>); ret g }
     else if eqi (Some kv) ''repl'' then do {
       (if eqi (Some v) ''lru'' then set_cache k (\<lambda>c. c\<lparr>c_repl := REPL_LRU\<rparr>)
        else if eqi (Some v) ''fifo'' then set_cache k (\<lambda>c. c\<lparr>c_repl := REPL_FIFO\<rparr>)
        else if eqi (Some v) ''rand'' \<or> eqi (Some v) ''random'' then set_cache k (\<lambda>c. c\<lparr>c_repl := REPL_RANDOM\<rparr>)
        else out (''config: repl must be lru, fifo or rand'' @ nl));
       ret g }
     else if eqi (Some kv) ''write'' then do {
       (if eqi (Some v) ''wb'' \<or> eqi (Some v) ''back'' then set_cache k (\<lambda>c. c\<lparr>c_wpol := WPOL_BACK\<rparr>)
        else if eqi (Some v) ''wt'' \<or> eqi (Some v) ''through'' then set_cache k (\<lambda>c. c\<lparr>c_wpol := WPOL_THROUGH\<rparr>)
        else out (''config: write must be wb or wt'' @ nl));
       ret g }
     else do { out (''config: unknown key '' @ [CHR 0x27] @ kv @ [CHR 0x27] @ nl); ret g })"

lemma tok_shorter: "tok p = (Some t, r) \<Longrightarrow> length r < length p"
proof -
  assume "tok p = (Some t, r)"
  then have "strtok blank p = Some (t, r)" by (simp add: tok_def strtok_def Let_def split: if_splits)
  then show ?thesis by (rule strtok_shorter)
qed

text \<open>All tokens of the rest of a line.\<close>

function toks :: "string \<Rightarrow> string list" where
  "toks p = (case tok p of (None, r) \<Rightarrow> [] | (Some t, r) \<Rightarrow> t # toks r)"
  by pat_completeness auto
termination
  by (relation "measure length") (auto dest: tok_shorter [OF sym])

declare toks.simps [simp del]

fun settings :: "cache_name \<Rightarrow> string list \<Rightarrow> geometry \<Rightarrow> geometry hcmd" where
  "settings k [] g = ret g"
| "settings k (kv # kvs) g = (
     if CHR ''='' \<notin> set kv then do {
       out (''config: expected key=value, got '' @ [CHR 0x27] @ kv @ [CHR 0x27] @ nl); ret g }
     else do {
       g' \<leftarrow> setting k (takeWhile (\<lambda>c. c \<noteq> CHR ''='') kv) (drop 1 (dropWhile (\<lambda>c. c \<noteq> CHR ''='') kv)) g;
       settings k kvs g' })"

definition config_target :: "bool \<Rightarrow> cache_name \<Rightarrow> string list \<Rightarrow> outcome hcmd" where
  "config_target room k kvs = do {
     c \<leftarrow> ms_reads (the_cache k);
     g \<leftarrow> settings k kvs \<lparr>g_size = c_capacity c, g_line = c_line_bytes c, g_ways = c_ways c, g_changed = False\<rparr>;
     if g_changed g then reconfig room k (g_size g) (g_line g) (g_ways g)
     else do { show_cache_config k; ret Go_on } }"

text \<open>The loop over the targets.  \<open>tok\<close> puts a zero behind each token of the one line all targets read, so
  from the second target on the line ends behind its first setting.\<close>

fun config_targets :: "bool \<Rightarrow> cache_name list \<Rightarrow> string \<Rightarrow> outcome hcmd" where
  "config_targets room [] rest = ret Go_on"
| "config_targets room (k # ks) rest = do {
     r \<leftarrow> config_target room k (toks rest);
     if r = Go_on then config_targets room ks (cut_line rest) else ret r }"

definition cmd_config :: "bool \<Rightarrow> string \<Rightarrow> outcome hcmd" where
  "cmd_config room rest = (let (what, rest) = tok rest in
     if what = None then do { show_config; ret Go_on }
     else if eqi what ''i'' then config_targets room [CI] rest
     else if eqi what ''d'' then config_targets room [CD] rest
     else if eqi what ''u'' then config_targets room [CU] rest
     else if eqi what ''all'' then config_targets room [CI, CD, CU] rest
     else do {
       out (''config <i|d|u|all> [size=N] [line=N] [ways=N] [repl=lru|fifo|rand] [write=wb|wt] [alloc=0|1] [penalty=N]'' @ nl);
       ret Go_on })"

section \<open>Loading\<close>

record h_file =
  hf_size :: int
  hf_bytes :: "u8 list"

type_synonym h_files = "string \<Rightarrow> h_file option"

definition copy_to :: "mem_name \<Rightarrow> u16 \<Rightarrow> u8 list \<Rightarrow> memsys \<Rightarrow> memsys" where
  "copy_to p base bs m = m\<lparr>ms_phys := fold (\<lambda>i. set_space p (base + of_nat i) (bs ! i)) [0..<length bs] (ms_phys m)\<rparr>"

definition load_file :: "bool \<Rightarrow> h_files \<Rightarrow> string \<Rightarrow> u16 \<Rightarrow> bool \<Rightarrow> bool \<Rightarrow> int hcmd" where
  "load_file room fs path base to_i to_d = (case fs path of
     None \<Rightarrow> do { out (''cannot open '' @ path @ nl); ret (- 1) }
   | Some f \<Rightarrow>
       if hf_size f \<le> 0 \<or> 0x10000 < int (unat base) + hf_size f then do {
         out (''bad size '' @ decl (hf_size f) @ '' for load at $'' @ hex4 base @ nl); ret (- 1) }
       else if \<not> room \<or> int (length (hf_bytes f)) < hf_size f then do { out (''read error'' @ nl); ret (- 1) }
       else do {
         let buf = take (nat (hf_size f)) (hf_bytes f);
         whenever to_i (ms_writes (\<lambda>m. copy_to (imem (ms_phys m)) base buf m));
         whenever to_d (ms_writes (\<lambda>m. copy_to (dmem (ms_phys m)) base buf m));
         ms_writes (\<lambda>m. m\<lparr>code_lo := base, code_hi := word_of_int (int (unat base) + hf_size f - 1), code_known := True\<rparr>);
         out (''loaded '' @ decl (hf_size f) @ '' bytes at $'' @ hex4 base @ '' into '' @
           (if to_i then ''I-space'' else []) @ (if to_i \<and> to_d then '' and '' else []) @
           (if to_d then ''D-space'' else []) @ nl);
         k \<leftarrow> ms_reads ms_mode;
         whenever (k = MODE_HARVARD \<and> to_i \<and> to_d)
           (out (''  (mirrored into both, the way a Harvard toolchain copies .data from ROM to RAM at startup)'' @ nl));
         ret 0 })"

section \<open>Running\<close>

text \<open>The loop of \<open>run(-1)\<close>.\<close>

fun run_steps :: "nat \<Rightarrow> outcome hcmd" where
  "run_steps 0 = ret Unfinished"
| "run_steps (Suc n) = do {
     on_cpu (m6502_step h6502_bus);
     stop \<leftarrow> on_cpu (outside (outside (reads halted)));
     pc \<leftarrow> cpu_reads r_pc;
     hit \<leftarrow> reads (\<lambda>h. is_bp h pc);
     if stop then do { out (nl @ ''[halted at $'' @ hex4 pc @ '']'' @ nl); ret Go_on }
     else if hit then do { out (nl @ ''[breakpoint $'' @ hex4 pc @ '']'' @ nl); ret Go_on }
     else run_steps n }"

definition run_machine :: "nat \<Rightarrow> outcome hcmd" where
  "run_machine n = do {
     on_cpu (outside (outside (writes (\<lambda>h. h\<lparr>halted := False\<rparr>))));
     run_steps n }"

definition h_help :: "unit hcmd" where
  "h_help = out (concat (map (\<lambda>l. l @ nl) [
    ''CPU / memory'',
    ''  s [n]                step n instructions (default 1)'',
    ''  c | run              run until halt ($F0FF) or breakpoint'',
    ''  g <addr>             set PC, then run'',
    ''  r                    registers, cycles and stall cycles'',
    ''  d [addr] [n]         disassemble from I-space'',
    ''  m  [lo] [hi]         dump data space'',
    ''  mi [lo] [hi]         dump instruction space'',
    ''  e  <addr> <b>...     write bytes into data space'',
    ''  ei <addr> <b>...     write bytes into instruction space'',
    ''  load <f> [addr] [i|d|both]   default $0800, both spaces'',
    ''  b [addr] / bc <addr> breakpoints'',
    ''  reset                reset CPU (reads $FFFC from I-space)'',
    [],
    ''Memory model'',
    ''  mode [vn|harvard|mod]        pick the architecture'',
    ''  cache [on|off]               bypass the caches entirely'',
    ''  config <i|d|u|all> k=v ...   size= line= ways= repl= write= alloc= penalty='',
    ''  snoop [on|off]               modified Harvard: D-writes invalidate I$'',
    ''  warn [on|off]                narrate stale-line coherence violations'',
    ''  flush [i|d|all]              write back + invalidate'',
    ''  clean                        write back dirty data lines, keep them resident'',
    [],
    ''Observation'',
    ''  stats                cache and bus statistics'',
    ''  zero                 reset statistics (not memory)'',
    ''  ci | cd | cu [set]   dump cache contents'',
    ''  sets <i|d|u>         set-occupancy map'',
    ''  map <addr>           tag/index/offset breakdown and what collides with it'',
    ''  trace [on|off|N]     print every bus access (N = limit)'',
    [],
    ''  q                    quit          h | ?   this help'',
    ''Numbers are hex by default; $ or 0x also hex, # decimal.'']))"

section \<open>Commands\<close>

fun single_steps :: "nat \<Rightarrow> unit hcmd" where
  "single_steps 0 = ret ()"
| "single_steps (Suc n) = do {
     pc \<leftarrow> cpu_reads r_pc;
     (len, buf) \<leftarrow> on_ms (m6502_disasm peek_code pc 48);
     tr \<leftarrow> ms_reads trace;
     out (pad_right 24 buf @ (if tr then nl else []));
     on_cpu (m6502_step h6502_bus);
     c \<leftarrow> cpu_reads id;
     out (''  -> A=$'' @ hex2 (r_a c) @ '' X=$'' @ hex2 (r_x c) @ '' Y=$'' @ hex2 (r_y c) @ '' SP=$'' @ hex2 (r_sp c) @ nl);
     stop \<leftarrow> on_cpu (outside (outside (reads halted)));
     if stop then out (''[halted]'' @ nl) else single_steps n }"

definition hcmd_s :: "string option \<Rightarrow> unit hcmd" where
  "hcmd_s a = (let n = (case a of None \<Rightarrow> 1 | Some _ \<Rightarrow> fst (parse_num a)) in single_steps (nat (if n < 1 then 1 else n)))"

definition hcmd_g :: "nat \<Rightarrow> string option \<Rightarrow> outcome hcmd" where
  "hcmd_g n a = do {
     (let (v, ok) = parse_num a in whenever ok (on_cpu (writes (\<lambda>c. c\<lparr>r_pc := word_of_int v\<rparr>))));
     run_machine n }"

definition hcmd_d :: "string option \<Rightarrow> string option \<Rightarrow> unit hcmd" where
  "hcmd_d a b = do {
     pc \<leftarrow> cpu_reads r_pc;
     ld \<leftarrow> reads last_dis;
     let start = (case a of Some _ \<Rightarrow> num16 a | None \<Rightarrow> if ld \<noteq> 0 then ld else pc);
     let n = (case b of Some _ \<Rightarrow> int_of_long (fst (parse_num b)) | None \<Rightarrow> 10);
     disasm start (nat (if 0 < n then n else 10));
     writes (\<lambda>h. h\<lparr>last_dis := start + of_int (3 * n)\<rparr>) }"

definition hcmd_m :: "MemSide \<Rightarrow> string option \<Rightarrow> string option \<Rightarrow> unit hcmd" where
  "hcmd_m side a b = do {
     ld \<leftarrow> reads last_dump;
     let lo = (case a of Some _ \<Rightarrow> num16 a | None \<Rightarrow> ld);
     let hi = (case b of Some _ \<Rightarrow> num16 b | None \<Rightarrow> lo + 0x7f);
     dump side lo hi;
     writes (\<lambda>h. h\<lparr>last_dump := hi + 1\<rparr>) }"

fun poke_tokens :: "MemSide \<Rightarrow> u16 \<Rightarrow> string list \<Rightarrow> unit hcmd" where
  "poke_tokens side a [] = ret ()"
| "poke_tokens side a (v # vs) = do {
     on_ms (ms_poke side a (word_of_int (fst (parse_num (Some v)))));
     poke_tokens side (a + 1) vs }"

definition hcmd_e :: "string \<Rightarrow> MemSide \<Rightarrow> string \<Rightarrow> unit hcmd" where
  "hcmd_e cmd side rest = (case tok rest of
     (None, _) \<Rightarrow> out (''usage: '' @ cmd @ '' <addr> <byte>...'' @ nl)
   | (Some a, rest) \<Rightarrow> poke_tokens side (num16 (Some a)) (toks rest))"

definition hcmd_load :: "bool \<Rightarrow> h_files \<Rightarrow> string option \<Rightarrow> string option \<Rightarrow> string option \<Rightarrow> unit hcmd" where
  "hcmd_load room fs f a w = (case f of
     None \<Rightarrow> out (''usage: load <file> [addr] [i|d|both]'' @ nl)
   | Some f \<Rightarrow> do {
       let base = (let (v, ok) = parse_num a in if ok then word_of_int v else 0x0800);
       load_file room fs f base (eqi w ''i'' \<or> \<not> eqi w ''d'') (\<not> eqi w ''i'');
       ret () })"

definition hcmd_b :: "string option \<Rightarrow> unit hcmd" where
  "hcmd_b a = do {
     bs \<leftarrow> reads bp_table;
     if a = None then do {
       whenever (bs = []) (out (''no breakpoints'' @ nl));
       for_each bs (\<lambda>b. out (''  $'' @ hex4 b @ nl)) }
     else if length bs < MAX_BP then do {
       writes (\<lambda>h. h\<lparr>bp_table := bs @ [num16 a]\<rparr>);
       out (''set'' @ nl) }
     else out (''breakpoint table full'' @ nl) }"

definition hcmd_bc :: "string option \<Rightarrow> unit hcmd" where
  "hcmd_bc a = (let v = (case a of Some _ \<Rightarrow> num16 a | None \<Rightarrow> 0) in
     writes (\<lambda>h. h\<lparr>bp_table := filter (\<lambda>b. b \<noteq> v) (bp_table h)\<rparr>))"

section \<open>Memory model\<close>

definition show_mode :: "unit hcmd" where
  "show_mode = do { k \<leftarrow> ms_reads ms_mode; out (ms_mode_name k @ nl) }"

definition set_mode :: "MemMode \<Rightarrow> unit hcmd" where
  "set_mode k = do {
     on_ms (ms_set_mode k);
     show_mode;
     whenever (k = MODE_HARVARD) (out (''  note: I-space and D-space are now separate 64K memories.'' @ nl @
       ''        Reload the program if you want both populated.'' @ nl)) }"

definition hcmd_mode :: "string option \<Rightarrow> unit hcmd" where
  "hcmd_mode a = (
     if a = None then show_mode
     else if eqi a ''vn'' \<or> eqi a ''vonneumann'' then set_mode MODE_VONNEUMANN
     else if eqi a ''harvard'' \<or> eqi a ''h'' then set_mode MODE_HARVARD
     else if eqi a ''mod'' \<or> eqi a ''modified'' then set_mode MODE_MODIFIED
     else out (''mode vn | harvard | mod'' @ nl))"

definition hcmd_cache :: "string option \<Rightarrow> unit hcmd" where
  "hcmd_cache a = do {
     (if eqi a ''on'' then ms_writes (\<lambda>m. m\<lparr>caches_on := True\<rparr>)
      else if eqi a ''off'' then do {
        on_ms (ms_flush True True);
        ms_writes (\<lambda>m. m\<lparr>caches_on := False\<rparr>) }
      else ret ());
     show_config }"

definition hcmd_snoop :: "string option \<Rightarrow> unit hcmd" where
  "hcmd_snoop a = do {
     whenever (a \<noteq> None) (ms_writes (\<lambda>m. m\<lparr>snoop := eqi a ''on''\<rparr>));
     m \<leftarrow> ms_reads id;
     out (''I$ snooping '' @ (if snoop m then ''on'' else ''off'') @
       (if ms_mode m = MODE_MODIFIED then [] else ''  (only meaningful in modified Harvard mode)'') @ nl) }"

definition hcmd_warn :: "string option \<Rightarrow> unit hcmd" where
  "hcmd_warn a = do {
     whenever (a \<noteq> None) (ms_writes (\<lambda>m. m\<lparr>warn_stale := eqi a ''on'', stale_warn_left := 8\<rparr>));
     w \<leftarrow> ms_reads warn_stale;
     out (''stale-line warnings '' @ (if w then ''on'' else ''off'') @ nl) }"

definition hcmd_flush :: "string option \<Rightarrow> unit hcmd" where
  "hcmd_flush a = (
     let code = (eqi a ''i'' \<or> \<not> eqi a ''d''); data = (\<not> eqi a ''i'') in do {
     on_ms (ms_flush code data);
     out (''flushed'' @ (if code then '' I$'' else []) @ (if data then '' D$'' else []) @ nl) })"

definition hcmd_zero :: "unit hcmd" where
  "hcmd_zero = do {
     on_ms ms_reset_stats;
     on_cpu (writes (\<lambda>c. c\<lparr>cycles := 0\<rparr>));
     out (''statistics cleared'' @ nl) }"

definition hcmd_trace :: "string option \<Rightarrow> unit hcmd" where
  "hcmd_trace a = do {
     (if a = None then ms_writes (\<lambda>m. m\<lparr>trace := \<not> trace m\<rparr>)
      else if eqi a ''on'' then ms_writes (\<lambda>m. m\<lparr>trace := True, trace_left := - 1\<rparr>)
      else if eqi a ''off'' then ms_writes (\<lambda>m. m\<lparr>trace := False\<rparr>)
      else ms_writes (\<lambda>m. m\<lparr>trace := True, trace_left := fst (parse_num a)\<rparr>));
     m \<leftarrow> ms_reads id;
     out (''bus trace '' @ (if trace m then ''on'' else ''off''));
     whenever (trace m \<and> 0 < trace_left m) (out ('' (next '' @ decl (trace_left m) @ '' accesses)''));
     out nl }"

section \<open>The command interpreter\<close>

record env =
  e_start :: "cache_name \<Rightarrow> bool"
  e_room :: bool
  e_files :: h_files
  e_fx :: "nat \<Rightarrow> rat \<Rightarrow> string"
  e_fuel :: nat

definition go :: "unit hcmd \<Rightarrow> outcome hcmd" where
  "go m = do { m; ret Go_on }"

definition do_command :: "env \<Rightarrow> string \<Rightarrow> outcome hcmd" where
  "do_command e line = (case tok line of
     (None, _) \<Rightarrow> ret Go_on
   | (Some cmd, rest) \<Rightarrow>
     (let c = eqi (Some cmd); (a1, rest1) = tok rest; (a2, rest2) = tok rest1; (a3, _) = tok rest2 in
      if c ''q'' \<or> c ''quit'' then ret Quit
      else if c ''h'' \<or> c ''?'' \<or> c ''help'' then go h_help
      else if c ''r'' then go show_regs
      else if c ''s'' then go (hcmd_s a1)
      else if c ''c'' \<or> c ''run'' then run_machine (e_fuel e)
      else if c ''g'' then hcmd_g (e_fuel e) a1
      else if c ''reset'' then go (do { on_cpu (m6502_reset h6502_bus); show_regs })
      else if c ''d'' then go (hcmd_d a1 a2)
      else if c ''m'' then go (hcmd_m SIDE_DATA a1 a2)
      else if c ''mi'' then go (hcmd_m SIDE_CODE a1 a2)
      else if c ''e'' then go (hcmd_e cmd SIDE_DATA rest)
      else if c ''ei'' then go (hcmd_e cmd SIDE_CODE rest)
      else if c ''load'' then go (hcmd_load (e_room e) (e_files e) a1 a2 a3)
      else if c ''b'' then go (hcmd_b a1)
      else if c ''bc'' then go (hcmd_bc a1)
      else if c ''mode'' then go (hcmd_mode a1)
      else if c ''cache'' then go (hcmd_cache a1)
      else if c ''config'' then cmd_config (e_room e) rest
      else if c ''snoop'' then go (hcmd_snoop a1)
      else if c ''warn'' then go (hcmd_warn a1)
      else if c ''clean'' then go (do { on_ms ms_clean; out (''dirty data lines written back'' @ nl) })
      else if c ''flush'' then go (hcmd_flush a1)
      else if c ''stats'' then go (show_stats (e_fx e))
      else if c ''zero'' then go hcmd_zero
      else if c ''ci'' \<or> c ''cd'' \<or> c ''cu'' then
        go (dump_cache (if c ''ci'' then CI else if c ''cd'' then CD else CU)
          (case a1 of Some _ \<Rightarrow> fst (parse_num a1) | None \<Rightarrow> - 1))
      else if c ''sets'' then go (dump_sets (if eqi a1 ''i'' then CI else if eqi a1 ''d'' then CD else CU))
      else if c ''map'' then go (if a1 = None then out (''usage: map <addr>'' @ nl) else show_map (num16 a1))
      else if c ''trace'' then go (hcmd_trace a1)
      else go (out (''? '' @ cmd @ ''   (h for help)'' @ nl))))"

section \<open>The line editor and main\<close>

text \<open>The buffer is kept in reverse; the last component is what the terminal echoes.\<close>

fun edit_line :: "nat \<Rightarrow> bool \<Rightarrow> string \<Rightarrow> u8 option list \<Rightarrow> string option \<times> u8 option list \<times> string" where
  "edit_line cap raw buf [] = (if buf = [] then None else Some (rev buf), [], [])"
| "edit_line cap raw buf (None # ps) = edit_line cap raw buf ps"
| "edit_line cap raw buf (Some ch # ps) = (
     if ch = 10 \<or> ch = 13 then (Some (rev buf), ps, if raw then nl else [])
     else if ch = 8 \<or> ch = 127 then
       (case edit_line cap raw (drop 1 buf) ps of
          (l, r, echo) \<Rightarrow> (l, r, (if raw \<and> buf \<noteq> [] then [CHR 0x08, CHR '' '', CHR 0x08] else []) @ echo))
     else if length buf < cap then
       (case edit_line cap raw (char_of (unat ch) # buf) ps of
          (l, r, echo) \<Rightarrow> (l, r, (if raw then [char_of (unat ch)] else []) @ echo))
     else edit_line cap raw buf ps)"

definition read_line :: "nat \<Rightarrow> string option hcmd" where
  "read_line sz = do {
     raw \<leftarrow> reads tty_raw;
     on_ms (outside (outside (State (\<lambda>t. case edit_line (sz - 1) raw [] (t_in t) of
       (l, r, echo) \<Rightarrow> (l, t\<lparr>t_in := r, t_out := t_out t @ echo\<rparr>))))) }"

fun command_loop :: "env \<Rightarrow> nat \<Rightarrow> outcome hcmd" where
  "command_loop e 0 = ret Unfinished"
| "command_loop e (Suc n) = do {
     out ''h> '';
     l \<leftarrow> read_line 256;
     (case l of
        None \<Rightarrow> ret Quit
      | Some line \<Rightarrow> do {
          r \<leftarrow> do_command e (cstr line);
          if r = Go_on then command_loop e n else ret r }) }"

text \<open>The commands of \<open>-x\<close>, separated by semicolons.\<close>

function script_loop :: "env \<Rightarrow> string \<Rightarrow> outcome hcmd" where
  "script_loop e p = (
     if p = [] then ret Go_on
     else do {
       r \<leftarrow> do_command e (takeWhile (\<lambda>c. c \<noteq> CHR '';'') p);
       if r = Go_on then script_loop e (drop 1 (dropWhile (\<lambda>c. c \<noteq> CHR '';'') p)) else ret r })"
  by pat_completeness auto
termination
proof (relation "measure (\<lambda>(e, p). length p)")
  fix e :: env and p :: string and r :: outcome assume "p \<noteq> []"
  then have "0 < length p" by simp
  moreover have "length (dropWhile (\<lambda>c. c \<noteq> CHR '';'') p) \<le> length p" by (rule length_dropWhile_le)
  ultimately have "length (dropWhile (\<lambda>c. c \<noteq> CHR '';'') p) - 1 < length p" by linarith
  then show "((e, drop 1 (dropWhile (\<lambda>c. c \<noteq> CHR '';'') p)), (e, p)) \<in> measure (\<lambda>(e, p). length p)"
    by (simp only: in_measure prod.case length_drop)
qed simp

declare script_loop.simps [simp del]

record h_args =
  x_autorun :: bool
  x_base :: u16
  x_mode :: "string option"
  x_script :: "string option"
  x_file :: "string option"
  x_usage :: bool

fun parse_h_args :: "string list \<Rightarrow> h_args \<Rightarrow> h_args" where
  "parse_h_args [] o1 = o1"
| "parse_h_args (a # as) o1 = (
     if a = ''-r'' then parse_h_args as (o1\<lparr>x_autorun := True\<rparr>)
     else if a = ''-a'' \<and> as \<noteq> [] then parse_h_args (tl as) (o1\<lparr>x_base := num16 (Some (hd as))\<rparr>)
     else if a = ''-m'' \<and> as \<noteq> [] then parse_h_args (tl as) (o1\<lparr>x_mode := Some (hd as)\<rparr>)
     else if a = ''-x'' \<and> as \<noteq> [] then parse_h_args (tl as) (o1\<lparr>x_script := Some (hd as)\<rparr>)
     else if a = ''-h'' \<or> a = ''--help'' then o1\<lparr>x_usage := True\<rparr>
     else parse_h_args as (o1\<lparr>x_file := Some a\<rparr>))"

definition h_usage :: "unit hcmd" where
  "h_usage = out (concat (map (\<lambda>l. l @ nl) [
    ''h6502 [-r] [-a <hex>] [-m vn|harvard|mod] [-x <cmds>] [file]'',
    ''  -r          run immediately'',
    ''  -a <hex>    load address (default 0800)'',
    ''  -m <model>  memory model'',
    ''  -x <cmds>   run '' @ [CHR 0x27, CHR '';'', CHR 0x27] @ ''-separated monitor commands at startup'']))"

text \<open>From the options to the reset.\<close>

definition h_boot :: "env \<Rightarrow> h_args \<Rightarrow> unit hcmd" where
  "h_boot e x = do {
     (if x_mode x = Some ''vn'' then on_ms (ms_set_mode MODE_VONNEUMANN)
      else if x_mode x = Some ''harvard'' then on_ms (ms_set_mode MODE_HARVARD)
      else if x_mode x = Some ''mod'' then on_ms (ms_set_mode MODE_MODIFIED)
      else ret ());
     (case x_file x of None \<Rightarrow> ret () | Some f \<Rightarrow> do { load_file (e_room e) (e_files e) f (x_base x) True True; ret () });
     on_cpu (m6502_reset h6502_bus);
     whenever (x_file x \<noteq> None) (on_cpu (writes (\<lambda>c. c\<lparr>r_pc := x_base x\<rparr>))) }"

definition h_main :: "env \<Rightarrow> string list \<Rightarrow> bool \<Rightarrow> nat \<Rightarrow> outcome hcmd" where
  "h_main e args tty n = do {
     on_cpu (writes m6502_init);
     on_ms (ms_init (e_start e));
     let x = parse_h_args args \<lparr>x_autorun = False, x_base = 0x0800, x_mode = None, x_script = None, x_file = None,
       x_usage = False\<rparr>;
     if x_usage x then do { h_usage; ret Quit }
     else do {
       h_boot e x;
       r \<leftarrow> (case x_script x of None \<Rightarrow> ret Go_on | Some p \<Rightarrow> script_loop e p);
       if r \<noteq> Go_on then ret r
       else do {
         writes (\<lambda>h. h\<lparr>tty_raw := tty\<rparr>);
         r \<leftarrow> (if x_autorun x then run_machine (e_fuel e) else ret Go_on);
         if r \<noteq> Go_on then ret r
         else do {
           out (''h6502 -- 6502 with a visible memory hierarchy.  '' @ [CHR 0x27, CHR ''h'', CHR 0x27] @ '' for help.'' @ nl);
           show_config;
           r \<leftarrow> command_loop e n;
           writes (\<lambda>h. h\<lparr>tty_raw := False\<rparr>);
           ret r } } } }"

end
