(* ===== verification/Hmon_Safety.thy ===== *)
theory Hmon_Safety
  imports Memsys_Fit Hmon_Cmd
begin

text \<open>
  The monitor of \<open>h6502/hmon.c\<close> as a state machine.  \<open>reached e p\<close> are the states that the program can get into by
  command lines, single instructions and interrupts in any order; every command keeps the invariant \<open>mon_ok\<close>: the
  structural invariant of the memory system and the bound of the breakpoint table.  The one command that can
  break it is \<open>config\<close> with a number of ways so large that the product with the line size wraps; \<open>mild\<close> lines
  have no such setting.
\<close>
unbundle bit_operations_syntax

section \<open>The invariant\<close>

definition mon_ok :: "hstatics \<times> machine \<Rightarrow> bool" where
  "mon_ok p \<longleftrightarrow> length (bp_table (fst p)) \<le> MAX_BP \<and> sound_world (snd (snd p))"

lemma mon_cpu: "keeps (\<lambda>p. sound_world (snd p)) m \<Longrightarrow> keeps mon_ok (on_cpu m)"
  by (auto simp: keeps_def mon_ok_def)

lemma mon_writes: "(\<And>h. length (bp_table h) \<le> MAX_BP \<Longrightarrow> length (bp_table (f h)) \<le> MAX_BP) \<Longrightarrow> keeps mon_ok (writes f)"
  by (auto simp: keeps_def mon_ok_def)

lemma mon_out [keeps_rules]: "keeps mon_ok (out s)"
  by (intro mon_cpu cpu_outside say_sound)

lemma mon_reads [keeps_rules]: "keeps mon_ok (cpu_reads f)" "keeps mon_ok (ms_reads g)"
  unfolding cpu_reads_def ms_reads_def by (auto simp: keeps_def)

lemma run_ms_reads: "run_state (ms_reads f) (h, (s, (m, v))) = (f m, (h, (s, (m, v))))"
  by (simp add: ms_reads_def)

lemma mon_ms_writes: "(\<And>m. sound m \<Longrightarrow> sound (f m)) \<Longrightarrow> keeps mon_ok (ms_writes f)"
  unfolding ms_writes_def by (intro mon_cpu cpu_outside sound_writes)

lemma mon_ms [keeps_rules]: "keeps (on_struct sound) m \<Longrightarrow> keeps mon_ok (on_ms m)"
  by (intro mon_cpu cpu_outside)

lemma mon_hmon [keeps_rules]: "keeps mon_ok (on_cpu (outside (outside m)))"
  by (intro mon_cpu cpu_outside keeps_outside)

lemma mon_step [keeps_rules]:
  "keeps mon_ok (on_cpu (m6502_step h6502_bus))" "keeps mon_ok (on_cpu (m6502_reset h6502_bus))" "keeps mon_ok (on_cpu (writes g))"
proof -
  have "keeps (\<lambda>p. sound_world (snd p)) (m6502_step h6502_bus)" "keeps (\<lambda>p. sound_world (snd p)) (m6502_reset h6502_bus)"
    using h6502_sound.step_keeps h6502_sound.api_keeps(1) by (auto simp: keeps_def)
  then show "keeps mon_ok (on_cpu (m6502_step h6502_bus))" "keeps mon_ok (on_cpu (m6502_reset h6502_bus))"
    "keeps mon_ok (on_cpu (writes g))" by - (rule mon_cpu, (assumption | rule cpu_writes))+
qed

section \<open>Displays\<close>

lemma byte_texts_sound [keeps_rules]: "(\<And>a. keeps P (get a)) \<Longrightarrow> keeps P (byte_texts get a n)"
  by (induction n arbitrary: a) (auto intro!: keeps_rules)

lemma disasm_sound [keeps_rules]: "keeps (on_struct sound) (m6502_disasm peek_code a n)"
  unfolding m6502_disasm_def Let_def peek_code_def by (intro keeps_rules)

lemma mon_disasm [keeps_rules]: "keeps mon_ok (disasm a n)"
  by (induction n arbitrary: a) (auto intro!: keeps_rules)

lemma mon_dump [keeps_rules]: "keeps mon_ok (dump side lo hi)"
proof -
  have "keeps mon_ok (dump_loop side a hi)" for a
  proof (induction side a hi rule: dump_loop.induct)
    case (1 side a hi)
    show ?case by (subst dump_loop.simps) (use 1 in \<open>auto intro!: keeps_rules\<close>)
  qed
  then show ?thesis by (simp add: dump_def)
qed

lemma mon_shows [keeps_rules]:
  "keeps mon_ok show_regs" "keeps mon_ok (show_cache_config k)" "keeps mon_ok show_config" "keeps mon_ok (show_stats fx)"
  "keeps mon_ok (dump_cache k i)" "keeps mon_ok (dump_sets k)" "keeps mon_ok (show_map a)" "keeps mon_ok show_mode"
  "keeps mon_ok h_help"
  unfolding show_regs_def show_cache_config_def show_config_def show_stats_def show_cache_stats_def dump_cache_def dump_sets_def
    show_map_def show_mode_def h_help_def Let_def
  by (intro keeps_rules)+

section \<open>Commands that go on\<close>

lemma mon_steps [keeps_rules]: "keeps mon_ok (single_steps n)"
  by (induction n) (auto intro!: keeps_rules)

lemma mon_run_steps: "keeps mon_ok (run_steps n)"
  by (induction n) (auto intro!: keeps_rules)

lemma mon_run [keeps_rules]: "keeps mon_ok (run_machine n)"
  unfolding run_machine_def by (intro keeps_rules mon_run_steps)

lemma mon_poke [keeps_rules]: "keeps mon_ok (poke_tokens side a vs)"
  by (induction vs arbitrary: a) (auto intro!: keeps_rules)

lemma fold_pokes: "sound (m\<lparr>ms_phys := fold (\<lambda>i. set_space p (f i) (g i)) xs b\<rparr>) = sound (m\<lparr>ms_phys := b\<rparr>)"
proof (induction xs arbitrary: b)
  case (Cons i xs)
  then show ?case using sound_other(16) [where m = "m\<lparr>ms_phys := b\<rparr>"] by simp
qed simp

lemma mon_load [keeps_rules]: "keeps mon_ok (load_file room fs path base to_i to_d)"
  unfolding load_file_def copy_to_def Let_def
  by (intro keeps_rules mon_ms_writes; simp add: fold_pokes)

lemma mon_boot: "keeps mon_ok (h_boot e x)"
  unfolding h_boot_def by (intro keeps_rules)

lemma mon_commands [keeps_rules]:
  "keeps mon_ok (hcmd_s a)" "keeps mon_ok (hcmd_g n a)" "keeps mon_ok (hcmd_d a b)" "keeps mon_ok (hcmd_m side a b)"
  "keeps mon_ok (hcmd_e c side rest)" "keeps mon_ok (hcmd_load room fs a b d)" "keeps mon_ok (hcmd_mode a)"
  "keeps mon_ok (hcmd_cache a)" "keeps mon_ok (hcmd_snoop a)" "keeps mon_ok (hcmd_warn a)" "keeps mon_ok (hcmd_flush a)"
  "keeps mon_ok hcmd_zero" "keeps mon_ok (hcmd_trace a)"
  unfolding hcmd_s_def hcmd_g_def hcmd_d_def hcmd_m_def hcmd_e_def hcmd_load_def hcmd_mode_def set_mode_def hcmd_cache_def
    hcmd_snoop_def hcmd_warn_def hcmd_flush_def hcmd_zero_def hcmd_trace_def Let_def
  by (intro keeps_rules mon_writes mon_ms_writes; simp)+

lemma mon_breakpoints [keeps_rules]: "keeps mon_ok (hcmd_b a)" "keeps mon_ok (hcmd_bc a)"
proof -
  have "keeps mon_ok (writes (\<lambda>h. h\<lparr>bp_table := filter f (bp_table h)\<rparr>))" for f
    by (rule mon_writes) (simp add: order_trans [OF length_filter_le])
  then show "keeps mon_ok (hcmd_bc a)" by (simp add: hcmd_bc_def Let_def)
  show "keeps mon_ok (hcmd_b a)"
    unfolding hcmd_b_def by (intro keeps_rules mon_writes) simp_all
qed

section \<open>The config command\<close>

text \<open>A setting of the number of ways stays below \<open>2^24\<close>, so that its product with a line size is exact.\<close>

definition mild_setting :: "string \<Rightarrow> bool" where
  "mild_setting kv \<longleftrightarrow> (eqi (Some (takeWhile (\<lambda>c. c \<noteq> CHR ''='') kv)) ''ways'' \<longrightarrow>
     uint_of (drop 1 (dropWhile (\<lambda>c. c \<noteq> CHR ''='') kv)) < 2 ^ 24)"

definition mild :: "string \<Rightarrow> bool" where
  "mild line \<longleftrightarrow> list_all mild_setting (toks line)"

lemma toks_tok: "tok p = (Some t, r) \<Longrightarrow> toks p = t # toks r"
  by (subst toks.simps) simp

lemma toks_none: "tok p = (None, r) \<Longrightarrow> toks p = []"
  by (subst toks.simps) simp

lemma mild_rest: "mild line \<Longrightarrow> tok line = (Some t, r) \<Longrightarrow> mild r"
  by (simp add: mild_def toks_tok)

text \<open>What is left of a line once \<open>tok\<close> has cut it behind its first token: that token.\<close>

lemma toks_cut: "toks (cut_line p) = take 1 (toks p)"
proof (cases "dropWhile blank p")
  case Nil
  then have "cut_line p = p" using takeWhile_dropWhile_id [of blank p] by (simp only: cut_line_def takeWhile.simps)
  moreover have "tok p = (None, [])" using Nil by (simp add: tok_def)
  ultimately show ?thesis by (simp add: toks_none)
next
  case (Cons c cs)
  let ?t = "takeWhile (\<lambda>c. \<not> blank c) (c # cs)"
  have c: "\<not> blank c" using Cons hd_dropWhile [of blank p] by simp
  have "tok p = (Some ?t, drop 1 (dropWhile (\<lambda>c. \<not> blank c) (c # cs)))" using Cons by (simp add: tok_def Let_def)
  then have "take 1 (toks p) = [?t]" by (simp add: toks_tok)
  have "dropWhile blank (takeWhile blank p @ ?t) = ?t" using c by (auto simp: dropWhile_append dest: set_takeWhileD)
  moreover have "takeWhile (\<lambda>c. \<not> blank c) ?t = ?t" "dropWhile (\<lambda>c. \<not> blank c) ?t = []"
    using c by (auto simp: takeWhile_eq_all_conv dropWhile_eq_Nil_conv dest: set_takeWhileD)
  moreover have "dropWhile (\<lambda>c. \<not> blank c) (takeWhile (\<lambda>c. \<not> blank c) cs) = []"
    by (auto simp: dropWhile_eq_Nil_conv dest: set_takeWhileD)
  ultimately have "tok (cut_line p) = (Some ?t, [])" using c by (simp add: cut_line_def Cons tok_def Let_def del: dropWhile_eq_Nil_conv)
  then have "toks (cut_line p) = [?t]" by (simp add: toks_tok toks_none [of "[]" "[]"] tok_def)
  with \<open>take 1 (toks p) = [?t]\<close> show ?thesis by simp
qed

text \<open>A program that keeps the invariant and does not crash.\<close>

definition safe :: "outcome hcmd \<Rightarrow> bool" where
  "safe m \<longleftrightarrow> triple mon_ok m (\<lambda>r p. r \<noteq> Crash \<and> mon_ok p)"

lemma safe_go [simp]: "keeps mon_ok m \<Longrightarrow> safe (go m)"
  by (simp add: safe_def go_def triple_def keeps_def case_prod_beta)

lemma run_steps_outcome: "result (run_steps n) p \<noteq> Crash"
  by (induction n arbitrary: p) (auto simp: case_prod_beta Let_def)

lemma safe_run [simp]: "safe (run_machine n)" "safe (hcmd_g n a)"
proof -
  have r: "result (run_machine n) p \<noteq> Crash" for p unfolding run_machine_def run_bind_split by (rule run_steps_outcome)
  then show "safe (run_machine n)" using mon_run [of n] by (simp add: safe_def triple_def keeps_def)
  have "result (hcmd_g n a) p \<noteq> Crash" for p unfolding hcmd_g_def run_bind_split by (rule r)
  then show "safe (hcmd_g n a)" using mon_commands(2) [of n a] by (simp add: safe_def triple_def keeps_def)
qed

text \<open>The settings of a line keep the number of ways small.\<close>

lemma set_cache_ok:
  assumes "\<And>rf kf c. fit rf kf (f c) = fit rf kf c"
  shows "keeps mon_ok (set_cache k f)"
  unfolding set_cache_def
  by (rule mon_ms_writes) (use assms in \<open>auto simp: sound_def\<close>)

lemma setting_ok:
  assumes "mild_setting kv" "unat (g_ways g) < 2 ^ 24"
  shows "triple mon_ok (setting k (takeWhile (\<lambda>c. c \<noteq> CHR ''='') kv) (drop 1 (dropWhile (\<lambda>c. c \<noteq> CHR ''='') kv)) g)
    (\<lambda>g' p. unat (g_ways g') < 2 ^ 24 \<and> mon_ok p)"
proof -
  define key v where kv: "key = takeWhile (\<lambda>c. c \<noteq> CHR ''='') kv" "v = drop 1 (dropWhile (\<lambda>c. c \<noteq> CHR ''='') kv)"
  have w: "unat (uint_of v) < 2 ^ 24" if "eqi (Some key) ''ways''"
    using assms(1) that by (simp add: mild_setting_def kv word_less_nat_alt)
  have m: "keeps mon_ok (setting k key v g)"
    unfolding setting_def by (intro keeps_rules set_cache_ok; simp)
  have "unat (g_ways (result (setting k key v g) p)) < 2 ^ 24" for p
    using w assms(2) by (simp add: setting_def case_prod_beta)
  with m show ?thesis by (simp add: triple_def keeps_def kv)
qed

lemma settings_ok:
  "list_all mild_setting kvs \<Longrightarrow> unat (g_ways g) < 2 ^ 24 \<Longrightarrow>
    triple mon_ok (settings k kvs g) (\<lambda>g' p. unat (g_ways g') < 2 ^ 24 \<and> mon_ok p)"
proof (induction kvs arbitrary: g)
  case Nil
  then show ?case by (auto intro: triple_ret)
next
  case (Cons kv kvs)
  show ?case
    unfolding settings.simps
  proof (rule triple_if)
    show "triple mon_ok (do {
       out (''config: expected key=value, got '' @ [CHR 0x27] @ kv @ [CHR 0x27] @ nl); ret g })
       (\<lambda>g' p. unat (g_ways g') < 2 ^ 24 \<and> mon_ok p)"
      using Cons.prems(2) by (intro triple_bind [OF iffD1 [OF triple_keeps mon_out]] triple_ret) simp
    show "triple mon_ok (do {
       g' \<leftarrow> setting k (takeWhile (\<lambda>c. c \<noteq> CHR ''='') kv) (drop 1 (dropWhile (\<lambda>c. c \<noteq> CHR ''='') kv)) g;
       settings k kvs g' }) (\<lambda>g' p. unat (g_ways g') < 2 ^ 24 \<and> mon_ok p)"
      by (rule triple_bind [OF setting_ok], use Cons.prems in simp, rule Cons.prems, rule triple_pure, rule Cons.IH)
        (use Cons.prems in simp_all)
  qed
qed

lemma reconfig_safe:
  assumes w: "unat ways < 2 ^ 24"
  shows "safe (reconfig room k sz line ways)"
  unfolding safe_def triple_def
proof (intro allI impI)
  fix p assume p: "mon_ok p"
  obtain h s m v where e: "p = (h, (s, (m, v)))" by (metis prod.exhaust)
  have s: "sound m" using p by (simp add: e mon_ok_def sound_world_def)
  then have f: "fit (bs_rd k) (bs_wr k) (the_cache k m)" by (simp add: sound_def)
  let ?run = "cache_config room (Some (c_name (the_cache k m))) sz line ways"
  obtain r c where run: "run_state ?run (the_cache k m, ms_phys m) = (r, (c, ms_phys m))"
    using config_fit(3) [OF f w, of room _ sz line "ms_phys m"] by (metis prod.exhaust snd_conv)
  have c: "fit (bs_rd k) (bs_wr k) c" "r \<noteq> Config_crash"
    using config_fit(1,2) [OF f w, of room _ sz line "ms_phys m"] run by (metis fst_conv snd_conv)+
  have out: "mon_ok (exec n (h, (s, (m', v))))" if "sound m'" "keeps mon_ok n" for m' and n :: "outcome hcmd"
    using keepsD [OF that(2), of "(h, (s, (m', v)))"] that(1) p by (simp add: e mon_ok_def sound_world_def)
  have s1: "sound (put_cache k c m)" using s c(1) by (simp add: sound_def)
  let ?m = "put_cache k c m"
  have undo: "keeps mon_ok (do { out t; ms_writes (put_cache k (the_cache k m)); ret Go_on })" for t
    by (intro keeps_rules mon_ms_writes) (use f in \<open>auto simp: sound_def\<close>)
  have e1: "exec (reconfig room k sz line ways) p = exec (case r of
       Config_error err \<Rightarrow> do {
         out (''config: '' @ err @ '' (unchanged)'' @ nl);
         ms_writes (put_cache k (the_cache k m));
         ret Go_on }
     | Config_crash \<Rightarrow> ret Crash
     | Config_ok \<Rightarrow> do { show_cache_config k; ret Go_on }) (h, (s, (?m, v)))"
    "result (reconfig room k sz line ways) p = result (case r of
       Config_error err \<Rightarrow> do {
         out (''config: '' @ err @ '' (unchanged)'' @ nl);
         ms_writes (put_cache k (the_cache k m));
         ret Go_on }
     | Config_crash \<Rightarrow> ret Crash
     | Config_ok \<Rightarrow> do { show_cache_config k; ret Go_on }) (h, (s, (?m, v)))"
    unfolding reconfig_def run_bind_split e run_ms_reads fst_conv snd_conv by (simp_all add: on_cache_def run)
  show "result (reconfig room k sz line ways) p \<noteq> Crash \<and> mon_ok (exec (reconfig room k sz line ways) p)"
  proof (cases r)
    case Config_ok
    then show ?thesis unfolding e1 using out [OF s1, of "do { show_cache_config k; ret Go_on }"]
      by (simp add: keeps_rules case_prod_beta)
  next
    case (Config_error x)
    then show ?thesis unfolding e1 using out [OF s1 undo] by (simp add: case_prod_beta)
  qed (use c in simp)
qed

lemma config_safe:
  assumes "mild rest"
  shows "safe (cmd_config room rest)"
proof -
  have target: "safe (config_target room k (toks rest))" if "mild rest" for k rest
  proof -
    have start: "triple mon_ok (ms_reads (the_cache k)) (\<lambda>c p. unat (c_ways c) < 2 ^ 24 \<and> mon_ok p)"
      unfolding triple_def
    proof (intro allI impI)
      fix p assume p: "mon_ok p"
      obtain h s m v where e: "p = (h, (s, (m, v)))" by (metis prod.exhaust)
      have "geometry_ok (the_cache k m)" using p by (simp add: e mon_ok_def sound_world_def sound_def fit_def)
      then have "unat (c_ways (the_cache k m)) < 2 ^ 24" using geometry_bounds(7) by fastforce
      then show "unat (c_ways (result (ms_reads (the_cache k)) p)) < 2 ^ 24 \<and> mon_ok (exec (ms_reads (the_cache k)) p)"
        using p by (simp add: e ms_reads_def)
    qed
    show ?thesis
      unfolding safe_def config_target_def
      by (rule triple_bind [OF start], rule triple_pure, rule triple_bind [OF settings_ok], use that in \<open>simp add: mild_def\<close>, simp,
          rule triple_pure, rule triple_if, rule reconfig_safe [unfolded safe_def], assumption,
          rule triple_bind [OF iffD1 [OF triple_keeps mon_shows(2)]], rule triple_ret, simp)
  qed
  have targets: "safe (config_targets room ks rest)" if "mild rest" for ks rest
    using that
  proof (induction ks arbitrary: rest)
    case Nil
    then show ?case by (auto simp: safe_def intro: triple_ret)
  next
    case (Cons k ks)
    have "mild (cut_line rest)" using Cons.prems by (auto simp: mild_def toks_cut list_all_iff dest: in_set_takeD)
    from Cons.IH [OF this] show ?case
      unfolding safe_def config_targets.simps
      by (intro triple_bind [OF target [OF Cons.prems, unfolded safe_def]] triple_pure triple_if triple_ret)
        (auto elim: triple_weaken)
  qed
  have "mild r" if "tok rest = (w, r)" for w r
    using assms that mild_rest by (cases w) (auto simp: tok_def mild_def Let_def toks_none split: if_splits)
  note rests = this
  have go: "triple mon_ok (do { m; ret Go_on }) (\<lambda>r p. r \<noteq> Crash \<and> mon_ok p)" if "keeps mon_ok m" for m :: "unit hcmd"
    using safe_go [OF that] by (simp add: safe_def go_def)
  show ?thesis
    unfolding safe_def cmd_config_def
    using rests targets [unfolded safe_def] go [OF mon_shows(3)] go [OF mon_out]
    by (auto simp: Let_def split: prod.split simp del: config_targets.simps)
qed

section \<open>The state machine\<close>

lemma safe_if: "(b \<Longrightarrow> safe m) \<Longrightarrow> (\<not> b \<Longrightarrow> safe n) \<Longrightarrow> safe (if b then m else n)"
  by simp

lemma safe_ret: "r \<noteq> Crash \<Longrightarrow> safe (ret r)"
  by (auto simp: safe_def intro: triple_ret)

lemma command_safe:
  assumes "mild line"
  shows "safe (do_command e line)"
proof (cases "tok line")
  case (Pair w rest)
  show ?thesis
  proof (cases w)
    case None
    then show ?thesis using Pair by (simp add: do_command_def safe_ret)
  next
    case (Some cmd)
    have r: "mild rest" using assms Pair Some by (auto dest: mild_rest)
    obtain a1 r1 where t1: "tok rest = (a1, r1)" by fastforce
    obtain a2 r2 where t2: "tok r1 = (a2, r2)" by fastforce
    obtain a3 r3 where t3: "tok r2 = (a3, r3)" by fastforce
    show ?thesis
      unfolding do_command_def Pair Some option.case prod.case Let_def t1 t2 t3
      by (intro safe_if safe_go safe_run config_safe r keeps_rules; simp add: safe_ret)
  qed
qed

text \<open>The states of the program, from a start with any options on, in which the caches got their memory.\<close>

definition h_start :: "env \<Rightarrow> h_args \<Rightarrow> unit hcmd" where
  "h_start e x = do { on_cpu (writes m6502_init); on_ms (ms_init (e_start e)); h_boot e x }"

inductive reached :: "env \<Rightarrow> hstatics \<times> machine \<Rightarrow> bool" for e where
  start: "bp_table h = [] \<Longrightarrow> \<forall>k. e_start e k \<Longrightarrow> reached e (exec (h_start e x) (h, s))"
| line: "reached e p \<Longrightarrow> reached e (exec (read_line n) p)"
| command: "reached e p \<Longrightarrow> mild l \<Longrightarrow> reached e (exec (do_command e l) p)"
| printed: "reached e p \<Longrightarrow> reached e (exec (out t) p)"
| instruction: "reached e p \<Longrightarrow> reached e (exec (on_cpu (m6502_step h6502_bus)) p)"
| interrupt: "reached e p \<Longrightarrow> reached e (exec (on_cpu (outside (outside on_sigint))) p)"

lemma reached_ok: "reached e p \<Longrightarrow> mon_ok p"
proof (induction rule: reached.induct)
  case (start h x s)
  obtain c m v where s: "s = (c, (m, v))" by (metis prod.exhaust)
  have "mon_ok (exec (on_ms (ms_init (e_start e))) (exec (on_cpu (writes m6502_init)) (h, s)))"
    using start by (simp add: mon_ok_def sound_world_def s ms_init_run init_sound MAX_BP_def)
  from keepsD [OF mon_boot this, of e x] show ?case by (simp add: h_start_def run_bind_split)
next
  case (line p n)
  have "keeps mon_ok (read_line n)" unfolding read_line_def by (intro keeps_rules)
  then show ?case using line.IH by (rule keepsD)
next
  case (command p l)
  then show ?case using tripleD [OF command_safe [OF command.hyps(2), unfolded safe_def]] by simp
next
  case (printed p t)
  then show ?case by - (rule keepsD [OF mon_out])
next
  case (instruction p)
  then show ?case by - (rule keepsD [OF mon_step(1)])
next
  case (interrupt p)
  then show ?case by - (rule keepsD [OF mon_hmon])
qed

text \<open>The loops of the program stay inside: the command loop, on an input whose lines are mild, and a script.\<close>

lemma loop_reached:
  assumes mild: "\<And>p l. reached e p \<Longrightarrow> result (read_line 256) p = Some l \<Longrightarrow> mild (cstr l)"
  shows "reached e p \<Longrightarrow> reached e (exec (command_loop e n) p) \<and> result (command_loop e n) p \<noteq> Crash"
proof (induction n arbitrary: p)
  case (Suc n)
  let ?p = "exec (out ''h> '') p" and ?r = "result (read_line 256)"
  have p: "reached e ?p" using Suc.prems by (rule reached.printed)
  then have q: "reached e (exec (read_line 256) ?p)" by (rule reached.line)
  show ?case
  proof (cases "?r ?p")
    case (Some l)
    let ?d = "do_command e (cstr l)" and ?q = "exec (read_line 256) ?p"
    note m = mild [OF p Some]
    have "reached e (exec ?d ?q)" using q m by (rule reached.command)
    moreover have "result ?d ?q \<noteq> Crash" using tripleD [OF command_safe [OF m, unfolded safe_def] reached_ok [OF q]] by simp
    ultimately show ?thesis using Suc.IH unfolding command_loop.simps run_bind_split Some option.case by simp
  next
    case None
    then show ?thesis using q unfolding command_loop.simps run_bind_split by simp
  qed
qed simp

function pieces :: "string \<Rightarrow> string list" where
  "pieces p = (if p = [] then [] else
     takeWhile (\<lambda>c. c \<noteq> CHR '';'') p # pieces (drop 1 (dropWhile (\<lambda>c. c \<noteq> CHR '';'') p)))"
  by pat_completeness auto
termination
proof (relation "measure length")
  fix p :: string assume "p \<noteq> []"
  then have "length (dropWhile (\<lambda>c. c \<noteq> CHR '';'') p) - 1 < length p"
    using length_dropWhile_le [of "\<lambda>c. c \<noteq> CHR '';''" p] by (cases p) (auto simp: less_Suc_eq_le)
  then show "(drop 1 (dropWhile (\<lambda>c. c \<noteq> CHR '';'') p), p) \<in> measure length" by simp
qed simp

declare pieces.simps [simp del]

lemma script_reached:
  "list_all mild (pieces t) \<Longrightarrow> reached e p \<Longrightarrow> reached e (exec (script_loop e t) p) \<and> result (script_loop e t) p \<noteq> Crash"
proof (induction e t arbitrary: p rule: script_loop.induct)
  case (1 e t)
  show ?case
  proof (cases "t = []")
    case True
    then show ?thesis using 1(3) unfolding script_loop.simps [of e t] if_P [OF True] by simp
  next
    case False
    let ?l = "takeWhile (\<lambda>c. c \<noteq> CHR '';'') t"
    have m: "mild ?l" "list_all mild (pieces (drop 1 (dropWhile (\<lambda>c. c \<noteq> CHR '';'') t)))"
      using 1(2) False by (simp_all add: pieces.simps [of t])
    have "reached e (exec (do_command e ?l) p)" using 1(3) m(1) by (rule reached.command)
    moreover have "result (do_command e ?l) p \<noteq> Crash"
      using tripleD [OF command_safe [OF m(1), unfolded safe_def] reached_ok [OF 1(3)]] by simp
    ultimately show ?thesis using 1(1) [OF False _ m(2)] False
      unfolding script_loop.simps [of e t] if_not_P [OF False] run_bind_split by simp
  qed
qed

text \<open>C8: However the user and the program go on after a start at which the three caches got their memory,
  in every state the h6502 monitor reaches by command lines, single instructions and interrupts in any
  order, the breakpoint table is within its array, each cache has a consistent geometry with every
  resident line in the set of its address, under its tag and only once, every index into its two
  arrays is inside them, the space pointers are those of the memory model, and no further command
  crashes; the one exception is a config line with 2^24 ways or more.\<close>

theorem monitor_invariant:
  assumes "reached e p"
  shows "let m = fst (snd (snd p)) in
    length (bp_table (fst p)) \<le> MAX_BP \<and>
    (\<forall>k. geometry_ok (the_cache k m) \<and> lines_ok (the_cache k m)) \<and>
    (\<forall>k a w. w < c_ways (the_cache k m) \<longrightarrow>
       line_index (the_cache k m) (addr_set (the_cache k m) a) w < unat (c_sets (the_cache k m)) * unat (c_ways (the_cache k m)) \<and>
       data_index (the_cache k m) (addr_set (the_cache k m) a) w + unat (addr_off (the_cache k m) a) < unat (c_capacity (the_cache k m))) \<and>
    imem (ms_phys m) = MEM_I \<and> dmem (ms_phys m) = (if ms_mode m = MODE_HARVARD then MEM_D else MEM_I) \<and>
    (\<forall>l. mild l \<longrightarrow> result (do_command e l) p \<noteq> Crash)"
proof -
  note ok = reached_ok [OF assms]
  let ?m = "fst (snd (snd p))"
  have s: "sound ?m" using ok by (simp add: mon_ok_def sound_world_def)
  then have g: "geometry_ok (the_cache k ?m)" "lines_ok (the_cache k ?m)" for k by (simp_all add: sound_def fit_def)
  have "result (do_command e l) p \<noteq> Crash" if "mild l" for l
    using tripleD [OF command_safe [OF that, unfolded safe_def] ok] by simp
  then show ?thesis
    using ok s g line_index(2) [OF g(1) addr_bounds(1) [OF g(1)]] data_index_bound [OF g(1) addr_bounds(1) [OF g(1)] _ addr_bounds(2) [OF g(1)]]
    unfolding Let_def by (simp add: mon_ok_def sound_def)
qed

definition env0 :: env where
  "env0 = \<lparr>e_start = (\<lambda>_. True), e_room = True, e_files = (\<lambda>_. None), e_fx = (\<lambda>_ _. []), e_fuel = 0\<rparr>"

definition args0 :: h_args where
  "args0 = \<lparr>x_autorun = False, x_base = 0x0800, x_mode = Some ''harvard'', x_script = None, x_file = None, x_usage = False\<rparr>"

text \<open>A command line that configures a cache.\<close>

lemma numerals: "scan_number 0 ''512'' = Some (False, 512, [])" "scan_number 0 ''4'' = Some (False, 4, [])"
    "scan_number 0 ''256'' = Some (False, 256, [])" "scan_number 0 ''16777216'' = Some (False, 16777216, [])"
  by (simp_all add: scan_number_def Let_def digit_val_def char_at_def isspace_def toupper_def)

lemma config_line: "mild ''config d size=512 ways=4''"
proof -
  have "toks ''config d size=512 ways=4'' = [''config'', ''d'', ''size=512'', ''ways=4'']"
    by (simp add: toks.simps tok_def blank_def)
  then show ?thesis by (simp add: mild_def mild_setting_def eqi_def tolower_def uint_of_def strtoul_def numerals)
qed

theorem monitor_invariant_witness:
  "\<forall>s. let p = exec (do_command env0 ''config d size=512 ways=4'') (exec (h_start env0 args0)
      (\<lparr>bp_table = [], last_dis = 0, last_dump = 0, tty_raw = False\<rparr>, s)) in
    length (bp_table (fst p)) \<le> MAX_BP \<and> (\<forall>k. geometry_ok (the_cache k (fst (snd (snd p))))) \<and>
    result (do_command env0 ''config d size=512 ways=4'') p \<noteq> Crash"
proof
  fix s :: machine
  have "reached env0 (exec (do_command env0 ''config d size=512 ways=4'') (exec (h_start env0 args0)
      (\<lparr>bp_table = [], last_dis = 0, last_dump = 0, tty_raw = False\<rparr>, s)))"
    by (rule reached.command [OF reached.start config_line]) (simp_all add: env0_def)
  from monitor_invariant [OF this] config_line
  show "let p = exec (do_command env0 ''config d size=512 ways=4'') (exec (h_start env0 args0)
      (\<lparr>bp_table = [], last_dis = 0, last_dump = 0, tty_raw = False\<rparr>, s)) in
    length (bp_table (fst p)) \<le> MAX_BP \<and> (\<forall>k. geometry_ok (the_cache k (fst (snd (snd p))))) \<and>
    result (do_command env0 ''config d size=512 ways=4'') p \<noteq> Crash" by (simp add: Let_def)
qed

end
