(* ===== verification/Hmon_Props.thy ===== *)
theory Hmon_Props
  imports Hmon_Safety Memsys_Props
begin

text \<open>
  What the \<open>config\<close> command of \<open>h6502/hmon.c\<close> does: which of its settings reach which cache, what a new
  geometry does to the bytes a cache held back, and when the program divides by zero.
\<close>
unbundle bit_operations_syntax

section \<open>A new geometry\<close>

lemma run_reconfig:
  assumes "run_state (cache_config room (Some (c_name (the_cache k m))) sz line ways) (the_cache k m, ms_phys m) = (Config_ok, (c, b))"
  shows "result (reconfig room k sz line ways) (h, (s, (m, v))) = Go_on"
    and "fst (snd (snd (exec (reconfig room k sz line ways) (h, (s, (m, v)))))) = put_cache k c (m\<lparr>ms_phys := b\<rparr>)"
  unfolding reconfig_def run_bind_split run_ms_reads fst_conv snd_conv
  by (simp_all add: on_cache_def assms show_cache_config_def ms_reads_def say_def put_text_def case_prod_beta)

text \<open>C25: A new geometry loses the stores that a cache still holds back: after reconfig has accepted the
  parameters for a cache in use, the machine presents on its side not what it presented before but
  what the physical memory holds; the other side is unchanged.\<close>

theorem reconfig_drops_stores:
  assumes pr: "presents Vc Vd m" and ok: "config_valid (unat sz) (unat line) (unat ways)"
    and w: "unat line * unat ways < 2 ^ 32"
  shows "presents (if serves m k \<and> k \<noteq> CD then space (ms_phys m) (imem (ms_phys m)) else Vc)
     (if serves m k \<and> k \<noteq> CI then space (ms_phys m) (dmem (ms_phys m)) else Vd)
     (fst (snd (snd (exec (reconfig True k sz line ways) (h, (s, (m, v)))))))"
proof -
  let ?run = "cache_config True (Some (c_name (the_cache k m))) sz line ways" and ?b = "ms_phys m"
  let ?Wc = "if serves m k \<and> k \<noteq> CD then space ?b (imem ?b) else Vc" and ?Wd = "if serves m k \<and> k \<noteq> CI then space ?b (dmem ?b) else Vd"
  note pq = presentsD [OF pr]
  have at: "c_bs_read (the_cache k m) = bs_rd k" "c_bs_write (the_cache k m) = bs_wr k"
  proof -
    obtain j where "c_bs_read j = bs_rd k" "c_bs_write j = bs_wr k" "frame (the_cache k m) = frame j"
      using presents_held [OF pr, of k] by (auto simp: held_def backing.Safe_def backing.Ok_def backing.St_def backing.ready_def)
    then show "c_bs_read (the_cache k m) = bs_rd k" "c_bs_write (the_cache k m) = bs_wr k"
      using backing.St_fields(7,8) by metis+
  qed
  have r: "result ?run (the_cache k m, ?b) = Config_ok" using ok by (simp add: config_ok_iff [OF w])
  note g = config_ok_geometry [OF w r]
  obtain c where run: "run_state ?run (the_cache k m, ?b) = (Config_ok, (c, ?b))"
    using r g by (metis (no_types, lifting) prod.collapse)
  have c: "geometry_ok c" "c_bs_read c = bs_rd k" "c_bs_write c = bs_wr k" "\<And>i. \<not> l_valid (c_line c i)"
    using g at by (simp_all add: run Let_def)
  have "held k (imem ?b) (dmem ?b) (space ?b) (serves m k) (space ?b (own k (imem ?b) (dmem ?b))) (c, ?b)"
    by (rule held_fresh [OF c]) (simp add: still_def)
  moreover have "space ?b (own k (imem ?b) (dmem ?b)) = shows_bytes (m\<lparr>ms_phys := ?b\<rparr>) k ?Wc ?Wd"
    using pq by (cases k; simp add: shows_bytes_def own_def)
  ultimately have h: "held k (imem ?b) (dmem ?b) (space ?b) (serves m k) (shows_bytes (m\<lparr>ms_phys := ?b\<rparr>) k ?Wc ?Wd) (c, ?b)"
    by simp
  have "presents ?Wc ?Wd (put_cache k c (m\<lparr>ms_phys := ?b\<rparr>))"
  proof (rule presents_step [OF pr h])
    show "ms_mode m \<noteq> MODE_HARVARD \<longrightarrow> ?Wc = ?Wd"
      using pq by (cases "ms_mode m"; cases k; simp add: serves_def)
    show "\<not> caches_on m \<longrightarrow> ?Wc = space ?b (imem ?b) \<and> ?Wd = space ?b (dmem ?b)"
      using pq(5) by (simp add: serves_def)
  next
    fix j assume "j \<noteq> k" "serves m j"
    then show "(if j = CD then ?Wd = Vd else ?Wc = Vc) \<and>
        space ?b (own j (imem ?b) (dmem ?b)) = space ?b (own j (imem ?b) (dmem ?b))"
      using pq by (cases "ms_mode m"; cases k; cases j; simp add: serves_def)
  qed
  then show ?thesis using run_reconfig(2) [OF run] by simp
qed

text \<open>The machine of the witness, after a store that stays in the unified cache.\<close>

definition machine3 :: memsys where
  "machine3 = fst (exec (on_cache CU (cache_write rand 0x0300 0x60)) (machine0, hmon0))"

lemma machine3: "presents ((\<lambda>_. 0xEA)(0x0300 := 0x60)) ((\<lambda>_. 0xEA)(0x0300 := 0x60)) machine3" "ms_mode machine3 = MODE_VONNEUMANN" "caches_on machine3"
    "imem (ms_phys machine3) = MEM_I"
proof -
  have on: "caches_on machine0" by (simp add: machine0_def ms_init_run init_memsys_def)
  have s: "sees (\<lambda>_. 0xEA) (\<lambda>_. 0xEA) False hmon0 (machine0, hmon0)" using machine0 by (simp add: sees_def)
  have c: "ms_cache_for machine0 SIDE_DATA = Some CU" using machine0(2) on by (simp add: ms_cache_for_def)
  have p: "presents ((\<lambda>_. 0xEA)(0x0300 := 0x60)) ((\<lambda>_. 0xEA)(0x0300 := 0x60)) machine3 \<and> ms_mode machine3 \<noteq> MODE_HARVARD"
    using on_cache_write [OF c _ s, of "0x0300" "0x60"] by (simp add: sees_def stored_def machine3_def io_page_def MS_IO_LO_def)
  then show "presents ((\<lambda>_. 0xEA)(0x0300 := 0x60)) ((\<lambda>_. 0xEA)(0x0300 := 0x60)) machine3" by simp
  show "ms_mode machine3 = MODE_VONNEUMANN" "caches_on machine3"
    using machine0(2) on by (simp_all add: machine3_def on_cache_def case_prod_beta)
  show "imem (ms_phys machine3) = MEM_I" using presentsD(1) p by blast
qed

lemma held_back3: "space (ms_phys machine3) MEM_I = (\<lambda>_. 0xEA)"
proof -
  let ?c = "the_cache CU machine0" and ?b = "ms_phys machine0"
  have f: "c_wpol ?c = WPOL_BACK" "c_write_alloc ?c" "\<And>i. \<not> l_valid (c_line ?c i)" "imem ?b = MEM_I" "dmem ?b = MEM_I" "space ?b MEM_I = (\<lambda>_. 0xEA)"
    by (simp_all add: machine0_def ms_init_run init_memsys_def the_cache_def default_cache_def zero_cache_def zero_line_def
        zero_memsys_def space_def phys0_def)
  have "held CU MEM_I MEM_I (space ?b) (serves machine0 CU) (shows_bytes machine0 CU (\<lambda>_. 0xEA) (\<lambda>_. 0xEA)) (?c, ?b)"
    using presents_held [OF machine0(1), of CU] f by simp
  then obtain k where k: "backing.ready CU k" "backing.Ok CU MEM_I MEM_I (space ?b) k (shows_bytes machine0 CU (\<lambda>_. 0xEA) (\<lambda>_. 0xEA)) (?c, ?b)"
    by (auto simp: held_def backing.Safe_def)
  then have "frame ?c = frame k" by (auto simp: backing.Ok_def backing.St_def)
  then have p: "c_wpol k = WPOL_BACK" "c_write_alloc k" using backing.St_fields(5,6) f by metis+
  have "clean_in (c_wpol k) (indices k) (fst (?c, ?b))" using f(1,3) p by (simp add: clean_in_def)
  from backing.store_held_back [OF k(1) p backing.Stale_Ok [OF k(2) this], of "0x0300" "0x60"]
  show ?thesis using f by (simp add: machine3_def on_cache_def case_prod_beta own_def)
qed

theorem reconfig_drops_stores_witness:
  "presents ((\<lambda>_. 0xEA)(0x0300 := 0x60)) ((\<lambda>_. 0xEA)(0x0300 := 0x60)) machine3 \<and>
   (\<forall>h s v. presents (\<lambda>_. 0xEA) (\<lambda>_. 0xEA) (fst (snd (snd (exec (reconfig True CU 512 16 4) (h, (s, (machine3, v))))))))"
proof -
  have v: "config_valid 512 16 4"
    unfolding config_valid_def by (intro conjI exI [of _ 4] exI [of _ 3]) simp_all
  have s: "serves machine3 CU" using machine3(2,3) by (simp add: serves_def)
  have d: "dmem (ms_phys machine3) = MEM_I" using presentsD(2) [OF machine3(1)] machine3(2) by simp
  show ?thesis using machine3(1) reconfig_drops_stores [OF machine3(1), of 512 16 4 CU] v s machine3(4) d held_back3 by simp
qed

section \<open>Which settings reach which cache\<close>

text \<open>C26: config all applies all its settings to the instruction cache, but only the first one to the
  data cache and to the unified cache: the loop restores its pointer into the line and the equals
  sign, but not the blank that tok has overwritten with a zero.\<close>

theorem config_all_applies_first:
  "config_targets room [CI, CD, CU] rest = do {
     r \<leftarrow> config_target room CI (toks rest);
     if r \<noteq> Go_on then ret r
     else do {
       r \<leftarrow> config_target room CD (take 1 (toks rest));
       if r \<noteq> Go_on then ret r
       else config_target room CU (take 1 (toks rest)) } }"
proof (rule State_Monad.state.expand, rule ext)
  fix p
  show "run_state (config_targets room [CI, CD, CU] rest) p = run_state (do {
     r \<leftarrow> config_target room CI (toks rest);
     if r \<noteq> Go_on then ret r
     else do {
       r \<leftarrow> config_target room CD (take 1 (toks rest));
       if r \<noteq> Go_on then ret r
       else config_target room CU (take 1 (toks rest)) } }) p"
    unfolding config_targets.simps run_bind_split toks_cut
    by (simp add: case_prod_beta toks_cut prod_eq_iff)
qed

text \<open>A \<open>config\<close> line can crash the program: with 2^24 ways and 256 byte lines the product that \<open>cache_config\<close>
  divides by is zero, in every state.\<close>

theorem config_crashes: "result (do_command e ''config i line=256 ways=16777216'') p = Crash"
proof -
  obtain h s m v where e: "p = (h, (s, (m, v)))" by (metis prod.exhaust)
  have t: "tok ''config i line=256 ways=16777216'' = (Some ''config'', ''i line=256 ways=16777216'')"
    "tok ''i line=256 ways=16777216'' = (Some ''i'', ''line=256 ways=16777216'')"
    "toks ''line=256 ways=16777216'' = [''line=256'', ''ways=16777216'']"
    by (simp_all add: tok_def blank_def toks.simps)
  have z: "\<not> sz < (4294967296 :: u32)" "(4294967296 :: u32) = 0" for sz by (simp_all add: word_less_nat_alt word_unat_eq_iff)
  have c: "result (reconfig room k sz 256 16777216) (h, (s, (m, v))) = Crash" for room k sz
    unfolding reconfig_def run_bind_split run_ms_reads fst_conv snd_conv
    by (simp add: on_cache_def cache_config_def is_pow2_def z)
  have g: "run_state (settings CI [''line=256'', ''ways=16777216''] \<lparr>g_size = sz, g_line = l, g_ways = w, g_changed = False\<rparr>) (h, (s, (m, v))) =
      (\<lparr>g_size = sz, g_line = 256, g_ways = 16777216, g_changed = True\<rparr>, (h, (s, (m, v))))" for sz l w
    by (simp add: setting_def eqi_def tolower_def uint_of_def strtoul_def numerals)
  have tg: "result (config_target room CI [''line=256'', ''ways=16777216'']) (h, (s, (m, v))) = Crash" for room
    unfolding config_target_def run_bind_split run_ms_reads fst_conv snd_conv g by (simp add: c)
  have "result (cmd_config room ''i line=256 ways=16777216'') (h, (s, (m, v))) = Crash" for room
    unfolding cmd_config_def t(2) Let_def prod.case
    by (simp add: eqi_def tolower_def t(3) case_prod_beta tg)
  then show ?thesis
    unfolding e do_command_def t(1) option.case prod.case Let_def
    by (simp add: eqi_def tolower_def split: prod.split)
qed

end
