(* ===== verification/Cache_List_Props.thy ===== *)
theory Cache_List_Props
  imports Cache_Props
begin

text \<open>
  Two theorems about runs of \<open>h6502/cache.c\<close> that rest on the lists of \<open>Cache_Lists\<close>: a run of a cache is the run
  of its lists, counters and events included; and under LRU a cache with more ways hits whenever a smaller
  one does.
\<close>
unbundle bit_operations_syntax

section \<open>Runs with everything that can be observed\<close>

text \<open>What a call returns: the byte of a read, the event (without the way) of an access, the result of a
  \<open>cache_clean_addr\<close> or \<open>cache_snoop\<close>.\<close>

type_synonym outcome = "u8 option \<times> cache_event option \<times> bool option"

fun observe :: "('b, nat) state \<Rightarrow> cache_op \<Rightarrow> ('b, outcome) cprog" where
  "observe rnd (Op_read a) = do { (v, e) \<leftarrow> cache_read rnd a; ret (Some v, Some (e\<lparr>ev_way := 0\<rparr>), None) }"
| "observe rnd (Op_write a v) = do { e \<leftarrow> cache_write rnd a v; ret (None, Some (e\<lparr>ev_way := 0\<rparr>), None) }"
| "observe rnd Op_clean = do { cache_clean; ret (None, None, None) }"
| "observe rnd (Op_clean_addr a) = do { r \<leftarrow> cache_clean_addr a; ret (None, None, Some r) }"
| "observe rnd Op_flush = do { cache_flush; ret (None, None, None) }"
| "observe rnd (Op_snoop a) = do { r \<leftarrow> cache_snoop a; ret (None, None, Some r) }"
| "observe rnd Op_invalidate = do { cache_invalidate; ret (None, None, None) }"
| "observe rnd Op_reset_stats = do { cache_reset_stats; ret (None, None, None) }"

fun observe_run :: "('b, nat) state \<Rightarrow> cache_op list \<Rightarrow> ('b, outcome list) cprog" where
  "observe_run rnd [] = ret []"
| "observe_run rnd (x # xs) = do { r \<leftarrow> observe rnd x; rs \<leftarrow> observe_run rnd xs; ret (r # rs) }"

fun list_do :: "'b cache \<Rightarrow> cache_op \<Rightarrow> lists \<Rightarrow> outcome \<times> lists" where
  "list_do k (Op_read a) S = (let ((v, e), S') = list_read k a S in ((Some v, Some e, None), S'))"
| "list_do k (Op_write a v) S = (let (e, S') = list_write k a v S in ((None, Some e, None), S'))"
| "list_do k Op_clean S = ((None, None, None), list_clean k S)"
| "list_do k (Op_clean_addr a) S = (let (r, S') = list_clean_addr k a S in ((None, None, Some r), S'))"
| "list_do k Op_flush S = ((None, None, None), list_flush k S)"
| "list_do k (Op_snoop a) S = (let (r, S') = list_snoop k a S in ((None, None, Some r), S'))"
| "list_do k Op_invalidate S = ((None, None, None), list_invalidate S)"
| "list_do k Op_reset_stats S = ((None, None, None), list_reset_stats S)"

fun list_run :: "'b cache \<Rightarrow> cache_op list \<Rightarrow> lists \<Rightarrow> outcome list \<times> lists" where
  "list_run k [] S = ([], S)"
| "list_run k (x # xs) S = (let (r, S') = list_do k x S; (rs, S'') = list_run k xs S' in (r # rs, S''))"

text \<open>The lists of an empty cache in front of the memory \<open>m\<close>.\<close>

definition list_init :: "(u16 \<Rightarrow> u8) \<Rightarrow> 'b cache \<Rightarrow> lists" where
  "list_init m c = \<lparr>r_row = (\<lambda>_. []), r_seen = m, r_mem = m, r_tally = tally_of c\<rparr>"

context backing_store
begin

lemma quiet_tracks:
  assumes "triple (tracks k n S) m (\<lambda>_. tracks k n S')"
  shows "triple (tracks k n S) (do { m; ret (None, None, None) }) (\<lambda>r p. r = (None, None, None) \<and> tracks k (n + 1) S' p)"
  by (rule triple_bind [OF assms], rule triple_ret) (auto intro: tracks_later)

lemma observe_tracks:
  assumes k: "ready k" "n + 1 < 2 ^ 32" "c_repl k \<noteq> REPL_RANDOM"
  shows "triple (tracks k n S) (observe rnd x) (\<lambda>r p. r = fst (list_do k x S) \<and> tracks k (n + 1) (snd (list_do k x S)) p)"
proof (cases x)
  case (Op_read a)
  show ?thesis unfolding Op_read observe.simps list_do.simps
    by (rule triple_bind [OF read_tracks [OF k]], clarify, rule triple_ret) (auto simp: case_prod_beta prod_eq_iff)
next
  case (Op_write a v)
  show ?thesis unfolding Op_write observe.simps list_do.simps
    by (rule triple_bind [OF write_tracks [OF k]], rule triple_ret) (auto simp: case_prod_beta)
next
  case (Op_clean_addr a)
  show ?thesis unfolding Op_clean_addr observe.simps list_do.simps
    by (rule triple_bind [OF clean_addr_tracks [OF k(1)]], rule triple_ret) (auto simp: case_prod_beta intro: tracks_later)
next
  case (Op_snoop a)
  show ?thesis unfolding Op_snoop observe.simps list_do.simps
    by (rule triple_bind [OF snoop_tracks [OF k(1)]], rule triple_ret) (auto simp: case_prod_beta intro: tracks_later)
next
  case Op_clean
  show ?thesis using quiet_tracks [OF clean_tracks [OF k(1)]] by (simp add: Op_clean)
next
  case Op_flush
  show ?thesis using quiet_tracks [OF flush_tracks [OF k(1)]] by (simp add: Op_flush)
next
  case Op_invalidate
  show ?thesis using quiet_tracks [OF invalidate_tracks [OF k(1)]] by (simp add: Op_invalidate)
next
  case Op_reset_stats
  show ?thesis using quiet_tracks [OF reset_tracks] by (simp add: Op_reset_stats)
qed

lemma observe_run_tracks:
  assumes "ready k" "c_repl k \<noteq> REPL_RANDOM" "n + length xs < 2 ^ 32"
  shows "triple (tracks k n S) (observe_run rnd xs)
    (\<lambda>r p. r = fst (list_run k xs S) \<and> tracks k (n + length xs) (snd (list_run k xs S)) p)"
  using assms(3)
proof (induction xs arbitrary: n S)
  case Nil
  show ?case by (simp add: triple_def)
next
  case (Cons x xs)
  then have n: "n + 1 < 2 ^ 32" "(n + 1) + length xs < 2 ^ 32" by simp_all
  show ?case unfolding observe_run.simps list_run.simps
    by (rule triple_bind [OF observe_tracks [OF assms(1) n(1) assms(2)]], rule triple_pure,
        rule triple_bind [OF Cons.IH [OF n(2)]], rule triple_ret) (auto simp: case_prod_beta)
qed

end

section \<open>A cache is its lists\<close>

lemma config_keeps:
  assumes "result (cache_config room nm sz line ways) (c, b) = Config_ok"
  shows "let k = fst (exec (cache_config room nm sz line ways) (c, b)) in c_repl k = c_repl c \<and> c_wpol k = c_wpol c \<and>
    c_write_alloc k = c_write_alloc c \<and> c_clock k = 0 \<and> tally_of k = tally_of c \<and> c_sets k = sz div (line * ways) \<and>
    c_off_bits k = log2u line \<and> c_idx_bits k = log2u (sz div (line * ways))"
  using assms unfolding cache_config_def Let_def by (auto simp: tally_of_def split: if_splits option.split)

lemma configured:
  assumes "unat line * unat ways < 2 ^ 32" and "result (cache_config room nm sz line ways) (c, b) = Config_ok"
    and "c_bs_read c = bs_read_i" "c_bs_write c = bs_write_i"
  defines "k \<equiv> fst (exec (cache_config room nm sz line ways) (c, b))"
  shows "exec (cache_config room nm sz line ways) (c, b) = (k, b)" "backing.ready CI k"
    "backing.tracks CI (imem b) (dmem b) (space b) k 0 (list_init (space b (imem b)) c) (k, b)"
    "c_repl k = c_repl c" "c_write_alloc k = c_write_alloc c" "c_line_bytes k = line" "c_ways k = ways"
proof -
  note g = config_ok_geometry [OF assms(1,2), unfolded Let_def, folded k_def]
  note q = config_keeps [OF assms(2), unfolded Let_def, folded k_def]
  show "exec (cache_config room nm sz line ways) (c, b) = (k, b)" using g by (simp add: prod_eq_iff k_def)
  show r: "backing.ready CI k" using g assms(3,4) unfolding backing.ready_def by (simp add: bs_rd_def bs_wr_def)
  show "c_repl k = c_repl c" "c_write_alloc k = c_write_alloc c" "c_line_bytes k = line" "c_ways k = ways" using g q by simp_all
  have "still CI (imem b) (dmem b) (space b) b" by (simp add: still_def)
  from backing.fresh_tracks [OF r this, of 0] g q
  show "backing.tracks CI (imem b) (dmem b) (space b) k 0 (list_init (space b (imem b)) c) (k, b)"
    by (simp add: list_init_def own_def)
qed

text \<open>C18: A cache accepted by cache_config with line size times ways below 2^32, so that the product does
  not wrap, under LRU or FIFO replacement, is a recency list per set: over every sequence of fewer
  than 2^32 operations of its interface, each byte returned, each event (hit, set, tag, stall, evicted
  line and whether it was written back), each result of clean_addr and snoop, the twelve counters at
  the end and the memory at the end are those of the lists.\<close>

theorem cache_is_lists:
  fixes c :: "phys cache"
  assumes "unat line * unat ways < 2 ^ 32" and "result (cache_config room nm sz line ways) (c, b) = Config_ok"
    and "c_bs_read c = bs_read_i" "c_bs_write c = bs_write_i" and "c_repl c \<noteq> REPL_RANDOM" and "length xs < 2 ^ 32"
  shows "let k = fst (exec (cache_config room nm sz line ways) (c, b));
      (r, (c', b')) = run_state (do { cache_config room nm sz line ways; observe_run rand xs }) (c, b);
      (r', S') = list_run k xs (list_init (space b (imem b)) c) in
    r = r' \<and> tally_of c' = r_tally S' \<and> space b' (imem b) = r_mem S'"
proof -
  note k = configured [OF assms(1-4)]
  let ?k = "fst (exec (cache_config room nm sz line ways) (c, b))"
  let ?S = "list_init (space b (imem b)) c"
  have det: "c_repl ?k \<noteq> REPL_RANDOM" and len: "0 + length xs < 2 ^ 32" using k(4) assms(5,6) by simp_all
  have run: "result (observe_run rand xs) (?k, b) = fst (list_run ?k xs ?S) \<and>
      backing.tracks CI (imem b) (dmem b) (space b) ?k (0 + length xs) (snd (list_run ?k xs ?S)) (exec (observe_run rand xs) (?k, b))"
    by (rule tripleD [OF backing.observe_run_tracks [OF k(2) det len] k(3)])
  have "tally_of (fst (exec (observe_run rand xs) (?k, b))) = r_tally (snd (list_run ?k xs ?S)) \<and>
      space (snd (exec (observe_run rand xs) (?k, b))) (imem b) = r_mem (snd (list_run ?k xs ?S))"
    using backing.tallies_tracks [OF conjunct2 [OF run]] by (simp add: own_def)
  moreover obtain k' where e: "exec (cache_config room nm sz line ways) (c, b) = (k', b)" using k(1) by blast
  ultimately show ?thesis using conjunct1 [OF run] by (simp add: e case_prod_beta)
qed

text \<open>The hits of a run.\<close>

definition hits_of :: "outcome list \<Rightarrow> bool list" where
  "hits_of rs = map (\<lambda>r. case fst (snd r) of Some e \<Rightarrow> ev_hit e | None \<Rightarrow> False) rs"

text \<open>The caches of the witnesses: one set of two lines, or one line, of 16 bytes.\<close>

definition tiny :: "u32 \<Rightarrow> u32 \<Rightarrow> phys cache" where
  "tiny sz ways = zero_cache\<lparr>c_line_bytes := 16, c_ways := ways, c_sets := 1, c_capacity := sz, c_off_bits := 4, c_write_alloc := True,
     c_bs_read := bs_read_i, c_bs_write := bs_write_i\<rparr>"

lemma tiny:
  defines "c \<equiv> zero_cache\<lparr>c_write_alloc := True, c_bs_read := bs_read_i, c_bs_write := bs_write_i\<rparr>"
  shows "run_state (cache_config True None 32 16 2) (c, b) = (Config_ok, (tiny 32 2, b))"
    "run_state (cache_config True None 16 16 1) (c, b) = (Config_ok, (tiny 16 1, b))"
  by (simp_all add: c_def cache_config_def small_powers CACHE_MAX_LINES_def tiny_def zero_cache_def)

lemma tiny_fields [simp]:
  "c_line_bytes (tiny sz ways) = 16" "c_ways (tiny sz ways) = ways" "c_sets (tiny sz ways) = 1" "c_repl (tiny sz ways) = REPL_LRU"
  "c_wpol (tiny sz ways) = WPOL_BACK" "c_write_alloc (tiny sz ways)" "c_miss_penalty (tiny sz ways) = 0"
  "addr_set (tiny sz ways) a = 0" "addr_base (tiny sz ways) a = a AND - 16"
  by (simp_all add: tiny_def zero_cache_def addr_set_def addr_base_def)

theorem cache_is_lists_witness:
  "let (r, (c', b')) = run_state (do { cache_config True None 32 16 2;
      observe_run rand [Op_write 0x1000 7, Op_read 0x2000, Op_read 0x1000, Op_read 0x3000, Op_read 0x2000] })
    (zero_cache\<lparr>c_write_alloc := True, c_bs_read := bs_read_i, c_bs_write := bs_write_i\<rparr>, phys0) in
   hits_of r = [False, False, True, False, False] \<and> c_evictions c' = 2 \<and> space b' MEM_I 0x1000 = 7"
proof -
  let ?c = "zero_cache\<lparr>c_write_alloc := True, c_bs_read := bs_read_i, c_bs_write := bs_write_i\<rparr>"
  let ?xs = "[Op_write 0x1000 7, Op_read 0x2000, Op_read 0x1000, Op_read 0x3000, Op_read 0x2000]"
  let ?L = "list_run (tiny 32 2) ?xs (list_init (space phys0 MEM_I) ?c)"
  let ?q = "run_state (observe_run rand ?xs) (tiny 32 2, phys0)"
  have "c_repl ?c = REPL_LRU" by (simp add: zero_cache_def)
  with cache_is_lists [where line = 16 and ways = 2 and sz = 32 and room = True and nm = None and c = ?c and b = phys0 and xs = ?xs]
  have "fst ?q = fst ?L" "tally_of (fst (snd ?q)) = r_tally (snd ?L)" "space (snd (snd ?q)) MEM_I = r_mem (snd ?L)"
    by (simp_all add: tiny phys0_def case_prod_beta Let_def del: observe_run.simps list_run.simps)
  moreover have "hits_of (fst ?L) = [False, False, True, False, False]" "n_evictions (r_tally (snd ?L)) = 2" "r_mem (snd ?L) 0x1000 = 7"
    by (simp_all add: list_steps list_init_def hits_of_def tally_of_def zero_cache_def)
  moreover have "c_evictions c = n_evictions (tally_of c)" for c :: "phys cache" by (simp add: tally_of_def)
  ultimately show ?thesis by (simp add: tiny case_prod_beta Let_def del: observe_run.simps list_run.simps)
qed

section \<open>Inclusion\<close>

text \<open>Under LRU an access to the line \<open>x\<close>, hit or miss, does this to the bases in a set of \<open>n\<close> ways.\<close>

definition lru_step :: "nat \<Rightarrow> u16 \<Rightarrow> u16 list \<Rightarrow> u16 list" where
  "lru_step n x q = take n (x # filter (\<lambda>y. y \<noteq> x) q)"

definition bases :: "lists \<Rightarrow> u32 \<Rightarrow> u16 list" where
  "bases S s = map fst (r_row S s)"

definition lru_lists :: "'b cache \<Rightarrow> lists \<Rightarrow> bool" where
  "lru_lists k S \<longleftrightarrow> (\<forall>s. distinct (bases S s) \<and> length (bases S s) \<le> unat (c_ways k))"

lemma promote_bases:
  assumes "distinct q" "x \<in> set q" "length q \<le> n"
  shows "x # filter (\<lambda>y. y \<noteq> x) q = lru_step n x q"
proof -
  have "length (filter (\<lambda>y. y \<noteq> x) q) < length q" using assms(2) by (rule length_filter_less) simp
  then show ?thesis using assms(3) by (cases n) (simp_all add: lru_step_def)
qed

lemma push_bases:
  assumes "x \<notin> set q" "length q \<le> n" "0 < n"
  shows "x # (if length q = n then butlast q else q) = lru_step n x q"
proof -
  have "filter (\<lambda>y. y \<noteq> x) q = q" using assms(1) by (auto intro!: filter_True)
  then show ?thesis using assms(2,3) by (cases n) (simp_all add: lru_step_def butlast_conv_take)
qed

lemma lru_step_distinct: "distinct q \<Longrightarrow> distinct (lru_step n x q)"
  by (auto simp: lru_step_def intro!: distinct_take)

lemma lru_step_length: "length (lru_step n x q) \<le> n"
  by (simp add: lru_step_def)

text \<open>Inclusion: a smaller LRU set is a prefix of a larger one, and stays one.\<close>

lemma lru_step_take:
  assumes "distinct q" "m \<le> n"
  shows "lru_step m x (take m q) = take m (lru_step n x q)"
proof (cases m)
  case (Suc i)
  let ?P = "\<lambda>y. y \<noteq> x"
  have "take i (filter ?P (take m q)) = take i (filter ?P q)"
  proof (cases "length q \<le> m")
    case False
    have "filter ?P q = filter ?P (take m q) @ filter ?P (drop m q)" by (metis append_take_drop_id filter_append)
    moreover have "i \<le> length (filter ?P (take m q))"
    proof -
      have d: "distinct (take m q)" using assms(1) by simp
      have "card (set (take m q) - {x}) \<ge> card (set (take m q)) - 1" by (simp add: card_Diff_singleton_if)
      moreover have "set (filter ?P (take m q)) = set (take m q) - {x}" by auto
      ultimately show ?thesis using distinct_card [OF d] distinct_card [OF distinct_filter [OF d], of ?P] False Suc by simp
    qed
    ultimately show ?thesis by simp
  qed simp
  moreover have "min i (n - 1) = i" using assms(2) Suc by simp
  ultimately show ?thesis using Suc assms(2) by (cases n) (simp_all add: lru_step_def)
qed (simp add: lru_step_def)

lemma resident_bases: "resident k S a \<longleftrightarrow> addr_base k a \<in> set (bases S (addr_set k a))"
  by (simp add: resident_def bases_def)

lemma bases_same [simp]:
  "bases (tally_by f S) = bases S" "bases (list_store k a v S) = bases S" "bases (S\<lparr>r_seen := g\<rparr>) = bases S"
  "bases (list_put_back k e S) = bases S"
  by (auto simp: bases_def list_store_def list_put_back_def Let_def fun_eq_iff)

lemma use_bases:
  assumes "lru_lists k S" "resident k S a" "c_repl k = REPL_LRU"
  shows "bases (list_use k a S) = (bases S)(addr_set k a := lru_step (unat (c_ways k)) (addr_base k a) (bases S (addr_set k a)))"
proof -
  have "distinct (bases S (addr_set k a))" "length (bases S (addr_set k a)) \<le> unat (c_ways k)" using assms(1) by (simp_all add: lru_lists_def)
  note p = promote_bases [OF this(1) assms(2) [unfolded resident_bases] this(2)]
  have "map fst (filter (\<lambda>e. fst e \<noteq> x) q) = filter (\<lambda>y. y \<noteq> x) (map fst q)" for x and q :: "(u16 \<times> bool) list"
    by (induction q) auto
  then show ?thesis using p assms(3) by (auto simp: list_use_def promote_def bases_def fun_eq_iff)
qed

lemma fill_bases:
  assumes "lru_lists k S" "\<not> resident k S a" "0 < unat (c_ways k)"
  shows "bases (list_fill k a S) = (bases S)(addr_set k a := lru_step (unat (c_ways k)) (addr_base k a) (bases S (addr_set k a)))"
proof -
  have "length (bases S (addr_set k a)) \<le> unat (c_ways k)" using assms(1) by (simp add: lru_lists_def)
  note p = push_bases [OF assms(2) [unfolded resident_bases] this assms(3)]
  then show ?thesis
    by (auto simp: list_fill_def list_evict_def full_def list_put_back_def bases_def fun_eq_iff Let_def map_butlast split: if_splits)
qed

text \<open>The address of an access.\<close>

fun op_addr :: "cache_op \<Rightarrow> u16 option" where
  "op_addr (Op_read a) = Some a"
| "op_addr (Op_write a v) = Some a"
| "op_addr _ = None"

lemma access_bases:
  assumes l: "lru_lists k S" and k: "c_repl k = REPL_LRU" "c_write_alloc k" "0 < unat (c_ways k)" and x: "op_addr x = Some a"
  shows "bases (snd (list_do k x S)) =
      (bases S)(addr_set k a := lru_step (unat (c_ways k)) (addr_base k a) (bases S (addr_set k a)))"
    and "hits_of (fst (list_do k x S) # rs) = (addr_base k a \<in> set (bases S (addr_set k a))) # hits_of rs"
    and "lru_lists k (snd (list_do k x S))"
proof -
  have t: "lru_lists k (tally_by f S)" "resident k (tally_by f S) a = resident k S a" for f
    using l by (simp_all add: lru_lists_def resident_bases)
  have e: "ev_hit (hit_event k a)" "\<not> ev_hit (miss_event k a S)" for S
    by (simp_all add: hit_event_def miss_event_def ev_init_def Let_def)
  show "hits_of (fst (list_do k x S) # rs) = (addr_base k a \<in> set (bases S (addr_set k a))) # hits_of rs"
    using x k(2) by (cases x) (auto simp: hits_of_def list_read_def list_write_def e resident_bases [symmetric] Let_def)
  show b: "bases (snd (list_do k x S)) =
      (bases S)(addr_set k a := lru_step (unat (c_ways k)) (addr_base k a) (bases S (addr_set k a)))"
    using x k t by (cases x; cases "resident k S a") (auto simp: list_read_def list_write_def use_bases fill_bases Let_def)
  show "lru_lists k (snd (list_do k x S))"
    using l unfolding lru_lists_def b by (simp add: lru_step_distinct lru_step_length)
qed

lemma lists_inclusion:
  assumes g: "addr_set k = addr_set j" "addr_base k = addr_base j"
    and k: "c_repl k = REPL_LRU" "c_write_alloc k" "0 < unat (c_ways k)"
    and j: "c_repl j = REPL_LRU" "c_write_alloc j" "c_ways k \<le> c_ways j"
    and xs: "\<forall>x\<in>set xs. op_addr x \<noteq> None"
    and l: "lru_lists k S" "lru_lists j T" "\<forall>s. bases S s = take (unat (c_ways k)) (bases T s)"
  shows "list_all2 (\<longrightarrow>) (hits_of (fst (list_run k xs S))) (hits_of (fst (list_run j xs T)))"
  using xs l
proof (induction xs arbitrary: S T)
  case Nil
  show ?case by (simp add: hits_of_def)
next
  case (Cons x xs)
  then obtain a where x: "op_addr x = Some a" and xs: "\<forall>x\<in>set xs. op_addr x \<noteq> None" by auto
  have le: "unat (c_ways k) \<le> unat (c_ways j)" using j(3) by (simp add: word_le_nat_alt)
  then have pos: "0 < unat (c_ways j)" using k(3) by linarith
  note S = access_bases [OF Cons.prems(2) k x] and T = access_bases [OF Cons.prems(3) j(1,2) pos x]
  have d: "distinct (bases T s)" for s using Cons.prems(3) by (simp add: lru_lists_def)
  have "bases (snd (list_do k x S)) s = take (unat (c_ways k)) (bases (snd (list_do j x T)) s)" for s
    using Cons.prems(4) by (simp add: S(1) T(1) g lru_step_take [OF d le])
  with Cons.IH [OF xs S(3) T(3)]
  have IH: "list_all2 (\<longrightarrow>) (hits_of (fst (list_run k xs (snd (list_do k x S))))) (hits_of (fst (list_run j xs (snd (list_do j x T)))))"
    by blast
  have "addr_base k a \<in> set (bases S (addr_set k a)) \<longrightarrow> addr_base j a \<in> set (bases T (addr_set j a))"
    using Cons.prems(4) g by (auto dest: in_set_takeD)
  with IH show ?case by (simp add: case_prod_beta S(2) T(2))
qed

text \<open>C19: Inclusion: two LRU write-allocate caches, accepted by cache_config with line size times ways
  below 2^32 for both, start empty with the same line size and the same number of sets and see the
  same reads and writes, fewer than 2^32 of them, so that the stamps do not wrap: the one with more
  ways hits on every access on which the other hits, so over such runs more associativity never turns
  a hit into a miss.\<close>

theorem lru_inclusion:
  assumes "unat line * unat ways1 < 2 ^ 32" "unat line * unat ways2 < 2 ^ 32"
    and "result (cache_config room nm sz1 line ways1) (c, b) = Config_ok"
    and "result (cache_config room nm sz2 line ways2) (c, b) = Config_ok"
    and "sz1 div (line * ways1) = sz2 div (line * ways2)" "ways1 \<le> ways2"
    and "c_bs_read c = bs_read_i" "c_bs_write c = bs_write_i" "c_repl c = REPL_LRU" "c_write_alloc c"
    and "\<forall>x\<in>set xs. op_addr x \<noteq> None" "length xs < 2 ^ 32"
  shows "list_all2 (\<longrightarrow>)
    (hits_of (result (do { cache_config room nm sz1 line ways1; observe_run rand xs }) (c, b)))
    (hits_of (result (do { cache_config room nm sz2 line ways2; observe_run rand xs }) (c, b)))"
proof -
  let ?k = "fst (exec (cache_config room nm sz1 line ways1) (c, b))" and ?j = "fst (exec (cache_config room nm sz2 line ways2) (c, b))"
  let ?S = "list_init (space b (imem b)) c"
  note k = configured [OF assms(1,3,7,8)] and j = configured [OF assms(2,4,7,8)]
  note kk = config_keeps [OF assms(3), unfolded Let_def] and jj = config_keeps [OF assms(4), unfolded Let_def]
  have g: "addr_set ?k = addr_set ?j" "addr_base ?k = addr_base ?j"
    using kk jj k(6) j(6) assms(5) by (simp_all add: fun_eq_iff addr_set_def addr_base_def)
  have len: "0 + length xs < 2 ^ 32" using assms(12) by simp
  have det: "c_repl ?k \<noteq> REPL_RANDOM" "c_repl ?j \<noteq> REPL_RANDOM" using k(4) j(4) assms(9) by simp_all
  have run: "result (observe_run rand xs) (?k, b) = fst (list_run ?k xs ?S)" "result (observe_run rand xs) (?j, b) = fst (list_run ?j xs ?S)"
    by (rule conjunct1 [OF tripleD [OF backing.observe_run_tracks [OF k(2) det(1) len] k(3)]]
      conjunct1 [OF tripleD [OF backing.observe_run_tracks [OF j(2) det(2) len] j(3)]])+
  have "geometry_ok ?k" using config_ok_geometry [OF assms(1,3)] by (simp add: Let_def)
  then have pos: "0 < unat (c_ways ?k)" by (rule geometry_bounds(4))
  have init: "lru_lists i ?S" for i :: "phys cache" by (simp add: lru_lists_def bases_def list_init_def)
  have "list_all2 (\<longrightarrow>) (hits_of (fst (list_run ?k xs ?S))) (hits_of (fst (list_run ?j xs ?S)))"
    using k(4,5,7) j(4,5,7) assms(6,9,10)
    by (intro lists_inclusion [OF g _ _ pos _ _ _ assms(11) init init]) (simp_all add: bases_def list_init_def)
  moreover obtain k' j' where "exec (cache_config room nm sz1 line ways1) (c, b) = (k', b)"
    "exec (cache_config room nm sz2 line ways2) (c, b) = (j', b)" using k(1) j(1) by blast
  ultimately show ?thesis using run by (simp add: case_prod_beta)
qed

theorem lru_inclusion_witness:
  "list_all2 (\<longrightarrow>)
    (hits_of (result (do { cache_config True None 16 16 1; observe_run rand [Op_read 0x2000, Op_read 0x1000, Op_write 0x2000 1] })
      (zero_cache\<lparr>c_write_alloc := True, c_bs_read := bs_read_i, c_bs_write := bs_write_i\<rparr>, phys0)))
    (hits_of (result (do { cache_config True None 32 16 2; observe_run rand [Op_read 0x2000, Op_read 0x1000, Op_write 0x2000 1] })
      (zero_cache\<lparr>c_write_alloc := True, c_bs_read := bs_read_i, c_bs_write := bs_write_i\<rparr>, phys0)))"
  by (rule lru_inclusion) (simp_all add: tiny, simp add: zero_cache_def)

end
