(* ===== verification/Cachetest.thy ===== *)
theory Cachetest
  imports Cache Terminal
begin

text \<open>
  The unit tests of the cache, \<open>h6502/cachetest.c\<close>, test by test.

  The programs run on three things: the \<open>report\<close> (the counters \<open>failures\<close> and \<open>checks\<close> and what has been
  printed, one string per call of \<open>printf\<close>), the cache \<open>C\<close>, and the world behind it, the array \<open>MEM\<close> and
  the state of the C library's \<open>rand\<close>, whose next number is the argument \<open>rnd\<close>.  \<open>room\<close> says whether
  \<open>calloc\<close> delivers.  The numbers of \<open>ck_eq\<close> are \<open>unsigned long long\<close>, to which C converts what is passed.
\<close>
unbundle bit_operations_syntax

section \<open>The bench\<close>

record report =
  failures :: int
  checks :: int
  said :: "string list"

type_synonym 'r host = "(u16 \<Rightarrow> u8) \<times> 'r"

type_synonym ('r, 'a) bench = "(report \<times> 'r host cache \<times> 'r host, 'a) state"

definition bsr :: "u16 \<Rightarrow> ('r host, u8) state" where
  "bsr a = State (\<lambda>(m, r). (m a, (m, r)))"

definition bsw :: "u16 \<Rightarrow> u8 \<Rightarrow> ('r host, unit) state" where
  "bsw a v = State (\<lambda>(m, r). ((), (m(a := v), r)))"

definition host_rand :: "('r \<Rightarrow> nat \<times> 'r) \<Rightarrow> ('r host, nat) state" where
  "host_rand rnd = State (\<lambda>(m, r). case rnd r of (n, r') \<Rightarrow> (n, (m, r')))"

text \<open>A read of the struct \<open>C\<close>, of \<open>MEM\<close> and an assignment to \<open>MEM\<close>.\<close>

definition the_C :: "('r, 'r host cache) bench" where
  "the_C = outside (reads id)"

definition peek :: "u16 \<Rightarrow> ('r, u8) bench" where
  "peek a = outside (outside (bsr a))"

definition poke :: "u16 \<Rightarrow> u8 \<Rightarrow> ('r, unit) bench" where
  "poke a v = outside (outside (bsw a v))"

definition say :: "string \<Rightarrow> ('r, unit) bench" where
  "say s = writes (\<lambda>r. r\<lparr>said := said r @ [s]\<rparr>)"

definition ck :: "bool \<Rightarrow> string \<Rightarrow> ('r, unit) bench" where
  "ck cond what = do {
     writes (\<lambda>r. r\<lparr>checks := checks r + 1\<rparr>);
     whenever (\<not> cond) (do {
       say (''  FAIL  '' @ what @ nl);
       writes (\<lambda>r. r\<lparr>failures := failures r + 1\<rparr>) }) }"

definition ck_eq :: "u64 \<Rightarrow> u64 \<Rightarrow> string \<Rightarrow> ('r, unit) bench" where
  "ck_eq got want what = do {
     writes (\<lambda>r. r\<lparr>checks := checks r + 1\<rparr>);
     whenever (got \<noteq> want) (do {
       say (''  FAIL  '' @ what @ '': got '' @ dec (unat got) @ '', want '' @ dec (unat want) @ nl);
       writes (\<lambda>r. r\<lparr>failures := failures r + 1\<rparr>) }) }"

text \<open>\<open>cache_free\<close> has no effect before \<open>memset\<close>; the parameters of the tests do not run into the crash.\<close>

definition mk :: "bool \<Rightarrow> u32 \<Rightarrow> u32 \<Rightarrow> u32 \<Rightarrow> cache_repl \<Rightarrow> cache_wpol \<Rightarrow> bool \<Rightarrow> ('r, unit) bench" where
  "mk room sz line ways repl wpol alloc = do {
     outside (writes (\<lambda>_. zero_cache));
     outside (writes (\<lambda>c. c\<lparr>c_repl := repl, c_wpol := wpol, c_write_alloc := alloc, c_miss_penalty := 10\<rparr>));
     r \<leftarrow> outside (cache_config room (Some ''T$'') sz line ways);
     (case r of
       Config_error err \<Rightarrow> do {
         say (''  FAIL  cache_config('' @ dec (unat sz) @ '','' @ dec (unat line) @ '','' @ dec (unat ways) @ ''): '' @ err @ nl);
         writes (\<lambda>r. r\<lparr>failures := failures r + 1\<rparr>) }
     | _ \<Rightarrow> ret ());
     outside (cache_attach bsr bsw) }"

text \<open>A call on a local cache: its result and the cache afterwards.\<close>

definition on_local :: "'r host cache \<Rightarrow> ('r host, 'a) cprog \<Rightarrow> ('r, 'a \<times> 'r host cache) bench" where
  "on_local c m = State (\<lambda>(rep, k, w). case run_state m (c, w) of (x, (c', w')) \<Rightarrow> ((x, c'), (rep, k, w')))"

definition rejected :: "config_outcome \<Rightarrow> bool" where
  "rejected r \<longleftrightarrow> (case r of Config_error e \<Rightarrow> True | _ \<Rightarrow> False)"

section \<open>The tests\<close>

definition t_geometry :: "bool \<Rightarrow> ('r, unit) bench" where
  "t_geometry room = do {
     say (''geometry'' @ nl);
     mk room 256 16 2 REPL_LRU WPOL_BACK True;
     c \<leftarrow> the_C;
     ck_eq (ucast (c_sets c)) 8 ''sets'';
     ck_eq (ucast (c_off_bits c)) 4 ''offset bits'';
     ck_eq (ucast (c_idx_bits c)) 3 ''index bits'';
     let (tag, si, off) = cache_decode c 0x1234;
     ck_eq (ucast tag) (drop_bit 7 0x1234) ''tag of $1234'';
     ck_eq (ucast si) (drop_bit 4 0x1234 AND 7) ''set of $1234'';
     ck_eq (ucast off) 4 ''offset of $1234'';
     mk room 256 16 1 REPL_LRU WPOL_BACK True;
     c \<leftarrow> the_C;
     ck_eq (ucast (c_sets c)) 16 ''direct-mapped sets'';
     mk room 256 16 16 REPL_LRU WPOL_BACK True;
     c \<leftarrow> the_C;
     ck_eq (ucast (c_sets c)) 1 ''fully associative sets'';
     ck_eq (ucast (c_idx_bits c)) 0 ''fully associative index bits'';
     (r, c) \<leftarrow> on_local zero_cache (cache_config room (Some ''X$'') 256 24 2);
     ck (rejected r) ''non-power-of-two line rejected'';
     (r, c) \<leftarrow> on_local c (cache_config room (Some ''X$'') 100 16 2);
     ck (rejected r) ''non-integral set count rejected'';
     (r, c) \<leftarrow> on_local c (cache_config room (Some ''X$'') 8 16 2);
     ck (rejected r) ''cache smaller than a set rejected'' }"

definition t_hit_miss :: "bool \<Rightarrow> ('r \<Rightarrow> nat \<times> 'r) \<Rightarrow> ('r, unit) bench" where
  "t_hit_miss room rnd = do {
     say (''hits and misses'' @ nl);
     for_each (upto_u32 0x100) (\<lambda>i. poke (ucast (0x2000 + i)) (ucast i));
     mk room 256 16 2 REPL_LRU WPOL_BACK True;
     (v, ev) \<leftarrow> outside (cache_read (host_rand rnd) 0x2000);
     ck_eq (ucast v) 0x00 ''value on cold miss'';
     ck (\<not> ev_hit ev) ''first touch is a miss'';
     ck_eq (ucast (ev_stall ev)) 10 ''miss costs the penalty'';
     for_each (List.map of_nat [1..<16]) (\<lambda>i :: u32. do {
       (v, ev) \<leftarrow> outside (cache_read (host_rand rnd) (ucast (0x2000 + i)));
       ck (ev_hit ev) ''rest of the line hits'' });
     c \<leftarrow> the_C;
     ck_eq (c_read_miss c) 1 ''one miss for a 16-byte line'';
     ck_eq (c_read_hit c) 15 ''fifteen hits'';
     ck_eq (c_bytes_in c) 16 ''one line fetched'';
     ck_eq (c_stall_cycles c) 10 ''one penalty charged'';
     (v, ev) \<leftarrow> outside (cache_read (host_rand rnd) 0x2010);
     ck (\<not> ev_hit ev) ''next line misses'' }"

definition t_replacement :: "bool \<Rightarrow> ('r \<Rightarrow> nat \<times> 'r) \<Rightarrow> ('r, unit) bench" where
  "t_replacement room rnd = do {
     say (''replacement policy'' @ nl);
     mk room 32 16 2 REPL_LRU WPOL_BACK True;
     (v, ev) \<leftarrow> outside (cache_read (host_rand rnd) 0x1000);
     (v, ev) \<leftarrow> outside (cache_read (host_rand rnd) 0x2000);
     (v, ev) \<leftarrow> outside (cache_read (host_rand rnd) 0x1000);
     ck (ev_hit ev) ''A still resident'';
     (v, ev) \<leftarrow> outside (cache_read (host_rand rnd) 0x3000);
     c \<leftarrow> the_C;
     ck (cache_probe c 0x1000 \<noteq> None) ''LRU kept the recently used line'';
     ck (\<not> cache_probe c 0x2000 \<noteq> None) ''LRU evicted the least recently used line'';
     mk room 32 16 2 REPL_FIFO WPOL_BACK True;
     (v, ev) \<leftarrow> outside (cache_read (host_rand rnd) 0x1000);
     (v, ev) \<leftarrow> outside (cache_read (host_rand rnd) 0x2000);
     (v, ev) \<leftarrow> outside (cache_read (host_rand rnd) 0x1000);
     ck (ev_hit ev) ''A still resident (FIFO)'';
     (v, ev) \<leftarrow> outside (cache_read (host_rand rnd) 0x3000);
     c \<leftarrow> the_C;
     ck (\<not> cache_probe c 0x1000 \<noteq> None) ''FIFO evicted the oldest fill, re-touch or not'';
     ck (cache_probe c 0x2000 \<noteq> None) ''FIFO kept the newer fill'' }"

definition t_conflict :: "bool \<Rightarrow> ('r \<Rightarrow> nat \<times> 'r) \<Rightarrow> ('r, unit) bench" where
  "t_conflict room rnd = do {
     say (''conflict misses and associativity'' @ nl);
     mk room 128 16 1 REPL_LRU WPOL_BACK True;
     for_each [0..<10] (\<lambda>i :: nat. do {
       (v, ev) \<leftarrow> outside (cache_read (host_rand rnd) 0x2000);
       (v, ev) \<leftarrow> outside (cache_read (host_rand rnd) 0x2080);
       ret () });
     c \<leftarrow> the_C;
     ck_eq (c_read_hit c) 0 ''direct-mapped: two colliding streams never hit'';
     ck_eq (c_read_miss c) 20 ''...and always miss'';
     mk room 128 16 2 REPL_LRU WPOL_BACK True;
     for_each [0..<10] (\<lambda>i :: nat. do {
       (v, ev) \<leftarrow> outside (cache_read (host_rand rnd) 0x2000);
       (v, ev) \<leftarrow> outside (cache_read (host_rand rnd) 0x2080);
       ret () });
     c \<leftarrow> the_C;
     ck_eq (c_read_miss c) 2 ''2-way: two cold misses and nothing else'';
     ck_eq (c_read_hit c) 18 ''2-way: everything else hits'';
     mk room 128 16 2 REPL_LRU WPOL_BACK True;
     for_each [0..<10] (\<lambda>i :: nat. do {
       (v, ev) \<leftarrow> outside (cache_read (host_rand rnd) 0x2000);
       (v, ev) \<leftarrow> outside (cache_read (host_rand rnd) 0x2080);
       (v, ev) \<leftarrow> outside (cache_read (host_rand rnd) 0x2100);
       ret () });
     c \<leftarrow> the_C;
     ck_eq (c_read_hit c) 0 ''three streams, two ways: LRU evicts what you need next'' }"

definition t_write_policy :: "bool \<Rightarrow> ('r \<Rightarrow> nat \<times> 'r) \<Rightarrow> ('r, unit) bench" where
  "t_write_policy room rnd = do {
     say (''write policy'' @ nl);
     poke 0x3000 0x11;
     mk room 32 16 1 REPL_LRU WPOL_BACK True;
     ev \<leftarrow> outside (cache_write (host_rand rnd) 0x3000 0x99);
     ck (\<not> ev_hit ev) ''write miss'';
     c \<leftarrow> the_C;
     ck_eq (c_write_miss c) 1 ''counted as a write miss'';
     ck_eq (c_bytes_in c) 16 ''write-allocate fetched the line first'';
     m \<leftarrow> peek 0x3000;
     ck_eq (ucast m) 0x11 ''write-back: memory still holds the old byte'';
     (v, ev) \<leftarrow> outside (cache_read (host_rand rnd) 0x3000);
     ck_eq (ucast v) 0x99 ''cache holds the new byte'';
     (v, ev) \<leftarrow> outside (cache_read (host_rand rnd) 0x3020);
     m \<leftarrow> peek 0x3000;
     ck_eq (ucast m) 0x99 ''eviction wrote the dirty line back'';
     c \<leftarrow> the_C;
     ck_eq (c_writebacks c) 1 ''one write-back'';
     poke 0x4000 0x11;
     mk room 32 16 1 REPL_LRU WPOL_THROUGH True;
     ev \<leftarrow> outside (cache_write (host_rand rnd) 0x4000 0x99);
     m \<leftarrow> peek 0x4000;
     ck_eq (ucast m) 0x99 ''write-through reached memory at once'';
     (v, ev) \<leftarrow> outside (cache_read (host_rand rnd) 0x4020);
     c \<leftarrow> the_C;
     ck_eq (c_writebacks c) 0 ''write-through never writes back'';
     poke 0x5000 0x11;
     mk room 32 16 1 REPL_LRU WPOL_BACK False;
     ev \<leftarrow> outside (cache_write (host_rand rnd) 0x5000 0x99);
     m \<leftarrow> peek 0x5000;
     ck_eq (ucast m) 0x99 ''no-write-allocate stored straight to memory'';
     c \<leftarrow> the_C;
     ck (\<not> cache_probe c 0x5000 \<noteq> None) ''...and left the cache alone'';
     ck_eq (c_bytes_in c) 0 ''no line was fetched'' }"

definition t_maintenance :: "bool \<Rightarrow> ('r \<Rightarrow> nat \<times> 'r) \<Rightarrow> ('r, unit) bench" where
  "t_maintenance room rnd = do {
     say (''flush, clean and snoop'' @ nl);
     poke 0x6000 0x11;
     mk room 32 16 1 REPL_LRU WPOL_BACK True;
     ev \<leftarrow> outside (cache_write (host_rand rnd) 0x6000 0x99);
     outside cache_clean;
     m \<leftarrow> peek 0x6000;
     ck_eq (ucast m) 0x99 ''clean pushed the dirty byte to memory'';
     c \<leftarrow> the_C;
     ck (cache_probe c 0x6000 \<noteq> None) ''clean kept the line resident'';
     ev \<leftarrow> outside (cache_write (host_rand rnd) 0x6000 0xAA);
     outside cache_flush;
     m \<leftarrow> peek 0x6000;
     ck_eq (ucast m) 0xAA ''flush wrote back'';
     c \<leftarrow> the_C;
     ck (\<not> cache_probe c 0x6000 \<noteq> None) ''flush invalidated'';
     (v, ev) \<leftarrow> outside (cache_read (host_rand rnd) 0x6000);
     r \<leftarrow> outside (cache_snoop 0x6005);
     ck r ''snoop found the line covering $6005'';
     c \<leftarrow> the_C;
     ck (\<not> cache_probe c 0x6000 \<noteq> None) ''snoop invalidated it'';
     r \<leftarrow> outside (cache_snoop 0x6005);
     ck (\<not> r) ''snooping an absent line reports nothing'';
     c \<leftarrow> the_C;
     ck_eq (c_invalidations c) 1 ''one invalidation counted'' }"

text \<open>The bounds 74.9 and 75.1, exact, against the rational hit rate.\<close>

definition t_stats :: "bool \<Rightarrow> ('r \<Rightarrow> nat \<times> 'r) \<Rightarrow> ('r, unit) bench" where
  "t_stats room rnd = do {
     say (''statistics'' @ nl);
     mk room 256 16 2 REPL_LRU WPOL_BACK True;
     (v, ev) \<leftarrow> outside (cache_read (host_rand rnd) 0x7000);
     (v, ev) \<leftarrow> outside (cache_read (host_rand rnd) 0x7001);
     (v, ev) \<leftarrow> outside (cache_read (host_rand rnd) 0x7002);
     (v, ev) \<leftarrow> outside (cache_read (host_rand rnd) 0x7003);
     c \<leftarrow> the_C;
     ck (749 / 10 < cache_hit_rate c \<and> cache_hit_rate c < 751 / 10) ''hit rate is 75%'';
     outside cache_reset_stats;
     c \<leftarrow> the_C;
     ck_eq (c_reads c) 0 ''stats cleared'';
     ck (cache_probe c 0x7000 \<noteq> None) ''clearing stats does not clear the cache'' }"

text \<open>\<open>main\<close>, from the zeroed statics, returns its exit status.\<close>

definition cachetest_main :: "bool \<Rightarrow> ('r \<Rightarrow> nat \<times> 'r) \<Rightarrow> ('r, int) bench" where
  "cachetest_main room rnd = do {
     t_geometry room;
     t_hit_miss room rnd;
     t_replacement room rnd;
     t_conflict room rnd;
     t_write_policy room rnd;
     t_maintenance room rnd;
     t_stats room rnd;
     r \<leftarrow> reads id;
     say (''---- '' @ decl (checks r) @ '' checks, '' @ decl (failures r) @ '' failed ----'' @ nl);
     r \<leftarrow> reads id;
     ret (if failures r \<noteq> 0 then 1 else 0) }"

definition bench0 :: "'r \<Rightarrow> report \<times> 'r host cache \<times> 'r host" where
  "bench0 r = (\<lparr>failures = 0, checks = 0, said = []\<rparr>, zero_cache, ((\<lambda>_. 0), r))"

end
