(* ===== verification/Cachetest_Props.thy ===== *)
theory Cachetest_Props
  imports Cachetest Cache_Recency Cache_Config
begin

text \<open>
  The unit tests pass.  \<open>on_lists rep k n S\<close> is a state of the bench in which the cache \<open>C\<close> refines the lists \<open>S\<close>;
  each step of a test has a rule that carries it to the lists, on which the test is computed.
\<close>
unbundle bit_operations_syntax

interpretation bench: backing_store bsr bsw "host_rand rnd" "\<lambda>_. True" fst for rnd
  by unfold_locales (auto simp: bsr_def bsw_def host_rand_def split: prod.split)

section \<open>The caches of the tests\<close>

definition mk_cache :: "u32 \<Rightarrow> u32 \<Rightarrow> u32 \<Rightarrow> u32 \<Rightarrow> cache_repl \<Rightarrow> cache_wpol \<Rightarrow> bool \<Rightarrow> 'r host cache" where
  "mk_cache sz ways sets ib repl wpol alloc = zero_cache\<lparr>c_name := ''T$'', c_line_bytes := 16, c_ways := ways, c_sets := sets,
     c_capacity := sz, c_off_bits := 4, c_idx_bits := ib, c_repl := repl, c_wpol := wpol, c_write_alloc := alloc,
     c_miss_penalty := 10, c_bs_read := bsr, c_bs_write := bsw\<rparr>"

lemma mk_cache_fields [simp]:
  "c_line_bytes (mk_cache sz ways sets ib r p al) = 16" "c_ways (mk_cache sz ways sets ib r p al) = ways"
  "c_sets (mk_cache sz ways sets ib r p al) = sets" "c_repl (mk_cache sz ways sets ib r p al) = r"
  "c_wpol (mk_cache sz ways sets ib r p al) = p" "c_write_alloc (mk_cache sz ways sets ib r p al) = al"
  "c_miss_penalty (mk_cache sz ways sets ib r p al) = 10" "c_off_bits (mk_cache sz ways sets ib r p al) = 4"
  "c_idx_bits (mk_cache sz ways sets ib r p al) = ib"
  "addr_set (mk_cache sz ways sets ib r p al) a = drop_bit 4 (ucast a) AND (sets - 1)"
  "addr_base (mk_cache sz ways sets ib r p al) a = a AND - 16"
  by (simp_all add: mk_cache_def zero_cache_def addr_set_def addr_base_def)

lemma mk_runs:
  "run_state (mk True 256 16 2 r p al) (rep, (c, w)) = ((), (rep, (mk_cache 256 2 8 3 r p al, w)))"
  "run_state (mk True 256 16 1 r p al) (rep, (c, w)) = ((), (rep, (mk_cache 256 1 16 4 r p al, w)))"
  "run_state (mk True 256 16 16 r p al) (rep, (c, w)) = ((), (rep, (mk_cache 256 16 1 0 r p al, w)))"
  "run_state (mk True 32 16 2 r p al) (rep, (c, w)) = ((), (rep, (mk_cache 32 2 1 0 r p al, w)))"
  "run_state (mk True 32 16 1 r p al) (rep, (c, w)) = ((), (rep, (mk_cache 32 1 2 1 r p al, w)))"
  "run_state (mk True 128 16 1 r p al) (rep, (c, w)) = ((), (rep, (mk_cache 128 1 8 3 r p al, w)))"
  "run_state (mk True 128 16 2 r p al) (rep, (c, w)) = ((), (rep, (mk_cache 128 2 4 2 r p al, w)))"
  by (simp_all add: mk_def cache_config_def cache_attach_def small_powers CACHE_MAX_LINES_def mk_cache_def zero_cache_def)

definition small :: "'r host cache \<Rightarrow> bool" where
  "small k \<longleftrightarrow> backing_store.ready bsr bsw k \<and> c_repl k \<noteq> REPL_RANDOM \<and> (\<forall>i. \<not> l_valid (c_line k i)) \<and> c_clock k = 0 \<and> tally_of k = no_tally"

lemma small [simp]:
  assumes "r \<noteq> REPL_RANDOM"
  shows "small (mk_cache 256 2 8 3 r p al)" "small (mk_cache 256 1 16 4 r p al)" "small (mk_cache 256 16 1 0 r p al)"
    "small (mk_cache 32 2 1 0 r p al)" "small (mk_cache 32 1 2 1 r p al)" "small (mk_cache 128 1 8 3 r p al)"
    "small (mk_cache 128 2 4 2 r p al)"
  using assms by (simp_all add: small_def bench.ready_def geometry_ok_def mk_cache_def zero_cache_def zero_line_def tally_of_def no_tally_def)

section \<open>The steps\<close>

definition on_lists :: "report \<Rightarrow> 'r host cache \<Rightarrow> nat \<Rightarrow> lists \<Rightarrow> report \<times> 'r host cache \<times> 'r host \<Rightarrow> bool" where
  "on_lists rep k n S q \<longleftrightarrow> fst q = rep \<and> bench.tracks k n S (snd q)"

definition on_memory :: "report \<Rightarrow> (u16 \<Rightarrow> u8) \<Rightarrow> report \<times> 'r host cache \<times> 'r host \<Rightarrow> bool" where
  "on_memory rep M q \<longleftrightarrow> fst q = rep \<and> fst (snd (snd q)) = M"

definition report_of :: "int \<Rightarrow> string list \<Rightarrow> report" where
  "report_of n out = \<lparr>failures = 0, checks = n, said = out\<rparr>"

definition start :: "(u16 \<Rightarrow> u8) \<Rightarrow> lists" where
  "start M = \<lparr>r_row = (\<lambda>_. []), r_seen = M, r_mem = M, r_tally = no_tally\<rparr>"

lemma outside_lists:
  assumes "triple (bench.tracks k n S) m Q"
  shows "triple (on_lists rep k n S) (outside m) (\<lambda>x q. fst q = rep \<and> Q x (snd q))"
  using assms by (auto simp: triple_def on_lists_def)

lemma do_read:
  assumes "small k" "n + 1 < 2 ^ 32" "list_read k a S = ((v, e), S')" "(ev_hit e, ev_stall e) = hs"
    and "\<And>ev. (ev_hit ev, ev_stall ev) = hs \<Longrightarrow> triple (on_lists rep k (n + 1) S') (f v ev) Q"
  shows "triple (on_lists rep k n S) (outside (cache_read (host_rand rnd) a) \<bind> case_prod f) Q"
proof (rule triple_bind [OF outside_lists [OF bench.read_tracks]])
  fix x :: "u8 \<times> cache_event"
  obtain v' ev where x: "x = (v', ev)" by (cases x)
  have "triple (\<lambda>q. (v' = v \<and> ev\<lparr>ev_way := 0\<rparr> = e) \<and> on_lists rep k (n + 1) S' q) (case_prod f x) Q"
  proof (rule triple_pure, elim conjE)
    assume "v' = v" and e: "ev\<lparr>ev_way := 0\<rparr> = e"
    moreover have "ev_hit ev = ev_hit (ev\<lparr>ev_way := 0\<rparr>)" "ev_stall ev = ev_stall (ev\<lparr>ev_way := 0\<rparr>)" by simp_all
    ultimately show "triple (on_lists rep k (n + 1) S') (case_prod f x) Q" using assms(5) [of ev] assms(4) by (simp only: x e prod.case)
  qed
  then show "triple (\<lambda>q. fst q = rep \<and> (case x of (v, e) \<Rightarrow> \<lambda>p. (v, e\<lparr>ev_way := 0\<rparr>) = fst (list_read k a S) \<and>
      bench.tracks k (n + 1) (snd (list_read k a S)) p) (snd q)) (case_prod f x) Q"
    by (rule triple_weaken) (auto simp: x assms(3) on_lists_def)
qed (use assms(1,2) in \<open>simp_all add: small_def\<close>)

lemma do_write:
  assumes "small k" "n + 1 < 2 ^ 32" "list_write k a v S = (e, S')" "(ev_hit e, ev_stall e) = hs"
    and "\<And>ev. (ev_hit ev, ev_stall ev) = hs \<Longrightarrow> triple (on_lists rep k (n + 1) S') (f ev) Q"
  shows "triple (on_lists rep k n S) (outside (cache_write (host_rand rnd) a v) \<bind> f) Q"
proof (rule triple_bind [OF outside_lists [OF bench.write_tracks]])
  fix ev :: cache_event
  have "triple (\<lambda>q. ev\<lparr>ev_way := 0\<rparr> = e \<and> on_lists rep k (n + 1) S' q) (f ev) Q"
  proof (rule triple_pure)
    assume e: "ev\<lparr>ev_way := 0\<rparr> = e"
    have "ev_hit ev = ev_hit (ev\<lparr>ev_way := 0\<rparr>)" "ev_stall ev = ev_stall (ev\<lparr>ev_way := 0\<rparr>)" by simp_all
    then show "triple (on_lists rep k (n + 1) S') (f ev) Q" using assms(5) [of ev] assms(4) by (simp only: e)
  qed
  then show "triple (\<lambda>q. fst q = rep \<and> ev\<lparr>ev_way := 0\<rparr> = fst (list_write k a v S) \<and>
      bench.tracks k (n + 1) (snd (list_write k a v S)) (snd q)) (f ev) Q"
    by (rule triple_weaken) (auto simp: assms(3) on_lists_def)
qed (use assms(1,2) in \<open>simp_all add: small_def\<close>)

lemma do_snoop:
  assumes "small k" "list_snoop k a S = (r, S')" "triple (on_lists rep k n S') (f r) Q"
  shows "triple (on_lists rep k n S) (outside (cache_snoop a) \<bind> f) Q"
proof (rule triple_bind [OF outside_lists [OF bench.snoop_tracks]])
  fix x
  have "triple (\<lambda>q. x = r \<and> on_lists rep k n S' q) (f x) Q" by (rule triple_pure) (simp add: assms(3))
  then show "triple (\<lambda>q. fst q = rep \<and> x = fst (list_snoop k a S) \<and> bench.tracks k n (snd (list_snoop k a S)) (snd q)) (f x) Q"
    by (rule triple_weaken) (auto simp: assms(2) on_lists_def)
qed (use assms(1) in \<open>simp add: small_def\<close>)

lemma do_unit:
  assumes "triple (bench.tracks k n S) m (\<lambda>_. bench.tracks k n S')" "triple (on_lists rep k n S') (f ()) Q"
  shows "triple (on_lists rep k n S) (outside m \<bind> f) Q"
  by (rule triple_bind [OF outside_lists [OF assms(1)]], rule triple_weaken [where P = "on_lists rep k n S'"]) (use assms(2) in \<open>auto simp: on_lists_def\<close>)

lemma do_whole:
  assumes "small k"
  shows "list_clean k S = S' \<Longrightarrow> triple (on_lists rep k n S') (f ()) Q \<Longrightarrow> triple (on_lists rep k n S) (outside cache_clean \<bind> f) Q"
    "list_flush k S = S' \<Longrightarrow> triple (on_lists rep k n S') (f ()) Q \<Longrightarrow> triple (on_lists rep k n S) (outside cache_flush \<bind> f) Q"
    "list_reset_stats S = S' \<Longrightarrow> triple (on_lists rep k n S') (f ()) Q \<Longrightarrow> triple (on_lists rep k n S) (outside cache_reset_stats \<bind> f) Q"
proof -
  have r: "backing_store.ready bsr bsw k" using assms by (simp add: small_def)
  show "list_clean k S = S' \<Longrightarrow> triple (on_lists rep k n S') (f ()) Q \<Longrightarrow> triple (on_lists rep k n S) (outside cache_clean \<bind> f) Q"
    using do_unit [OF bench.clean_tracks [OF r]] by blast
  show "list_flush k S = S' \<Longrightarrow> triple (on_lists rep k n S') (f ()) Q \<Longrightarrow> triple (on_lists rep k n S) (outside cache_flush \<bind> f) Q"
    using do_unit [OF bench.flush_tracks [OF r]] by blast
  show "list_reset_stats S = S' \<Longrightarrow> triple (on_lists rep k n S') (f ()) Q \<Longrightarrow> triple (on_lists rep k n S) (outside cache_reset_stats \<bind> f) Q"
    using do_unit [OF bench.reset_tracks] by blast
qed

lemma do_look:
  assumes "small k"
    and "\<And>c. tally_of c = r_tally S \<Longrightarrow> (\<And>a. cache_probe c a \<noteq> None \<longleftrightarrow> resident k S a) \<Longrightarrow>
      triple (on_lists rep k n S) (f c) Q"
  shows "triple (on_lists rep k n S) (the_C \<bind> f) Q"
  unfolding triple_def
proof (intro allI impI)
  fix q assume q: "on_lists rep k n S q"
  obtain rp c w where q': "q = (rp, (c, w))" by (cases q)
  have t: "bench.tracks k n S (c, w)" using q by (simp add: on_lists_def q')
  have "tally_of c = r_tally S" using bench.tallies_tracks [OF t] by simp
  moreover have "cache_probe c a \<noteq> None \<longleftrightarrow> resident k S a" for a
    by (rule bench.probe_tracks [OF _ t]) (use assms(1) in \<open>simp add: small_def\<close>)
  ultimately have "triple (on_lists rep k n S) (f c) Q" by (rule assms(2))
  from tripleD [OF this q] show "Q (result (the_C \<bind> f) q) (exec (the_C \<bind> f) q)"
    by (simp add: q' the_C_def)
qed

lemma do_geometry:
  assumes "\<And>c. c_sets c = c_sets k \<Longrightarrow> c_off_bits c = c_off_bits k \<Longrightarrow> c_idx_bits c = c_idx_bits k \<Longrightarrow>
      (\<And>a. cache_decode c a = cache_decode k a) \<Longrightarrow> triple (on_lists rep k n S) (f c) Q"
  shows "triple (on_lists rep k n S) (the_C \<bind> f) Q"
  unfolding triple_def
proof (intro allI impI)
  fix q assume q: "on_lists rep k n S q"
  obtain rp c w where q': "q = (rp, (c, w))" by (cases q)
  have f: "frame c = frame k" using q by (auto simp: on_lists_def q' bench.tracks_def bench.At_def bench.St_def)
  have "c_off_bits x = c_off_bits (frame x)" "c_idx_bits x = c_idx_bits (frame x)" for x :: "'a host cache"
    by (simp_all add: frame_def)
  then have "c_off_bits c = c_off_bits k" "c_idx_bits c = c_idx_bits k" using f by metis+
  then have "triple (on_lists rep k n S) (f c) Q" using bench.St_fields(3,14) [OF f] by (intro assms)
  from tripleD [OF this q] show "Q (result (the_C \<bind> f) q) (exec (the_C \<bind> f) q)"
    by (simp add: q' the_C_def)
qed

lemma do_peek:
  assumes "r_mem S a = v" "triple (on_lists rep k n S) (f v) Q"
  shows "triple (on_lists rep k n S) (peek a \<bind> f) Q"
  unfolding triple_def
proof (intro allI impI)
  fix q assume q: "on_lists rep k n S q"
  obtain rp c m r where q': "q = (rp, (c, (m, r)))" by (cases q) auto
  have "m a = v" using q bench.tallies_tracks [of k n S "(c, (m, r))"] assms(1) by (simp add: on_lists_def q')
  with tripleD [OF assms(2) q] show "Q (result (peek a \<bind> f) q) (exec (peek a \<bind> f) q)"
    by (simp add: q' peek_def bsr_def)
qed

lemma do_check:
  "cond \<Longrightarrow> triple (on_lists (report_of (m + 1) out) k n S) (f ()) Q \<Longrightarrow>
    triple (on_lists (report_of m out) k n S) (ck cond what \<bind> f) Q"
  "got = want \<Longrightarrow> triple (on_lists (report_of (m + 1) out) k n S) (f ()) Q \<Longrightarrow>
    triple (on_lists (report_of m out) k n S) (ck_eq got want what \<bind> f) Q"
  by (auto simp: triple_def ck_def ck_eq_def on_lists_def report_of_def)

lemma do_mk:
  fixes k :: "'r host cache"
  assumes "\<And>c w. run_state (mk True sz line ways r p al) (rep, (c, w)) = ((), (rep, (k, w)))" "small k"
    and "triple (on_lists rep k 0 (start M)) (f ()) Q"
  shows "triple (on_memory rep M) (mk True sz line ways r p al \<bind> f) Q"
  unfolding triple_def
proof (intro allI impI)
  fix q :: "report \<times> 'r host cache \<times> 'r host" assume q: "on_memory rep M q"
  obtain c :: "'r host cache" and w :: "'r host" where q': "q = (rep, (c, w))" "fst w = M" using q by (cases q) (auto simp: on_memory_def)
  have "bench.tracks k 0 (start (fst w)) (k, w)"
    using bench.fresh_tracks [where c = k and b = w and n = 0] assms(2) by (simp add: small_def start_def)
  then have "on_lists rep k 0 (start M) (rep, (k, w))" by (simp add: on_lists_def q'(2))
  from tripleD [OF assms(3) this] show "Q (result (mk True sz line ways r p al \<bind> f) q) (exec (mk True sz line ways r p al \<bind> f) q)"
    by (simp add: q'(1) assms(1))
qed

lemma lists_memory: "on_lists rep k n S q \<Longrightarrow> on_memory rep (r_mem S) q"
  using bench.tallies_tracks [of k n S "snd q"] by (simp add: on_lists_def on_memory_def)

lemma to_memory: "(\<And>M. triple (on_memory rep M) m Q) \<Longrightarrow> triple (on_lists rep k n S) m Q"
  using lists_memory unfolding triple_def by blast

lemma do_poke: "triple (on_memory rep (M(a := v))) (f ()) Q \<Longrightarrow> triple (on_memory rep M) (poke a v \<bind> f) Q"
  by (auto simp: triple_def poke_def bsw_def on_memory_def)

lemma do_say: "triple (on_memory (report_of m (out @ [s])) M) (f ()) Q \<Longrightarrow> triple (on_memory (report_of m out) M) (say s \<bind> f) Q"
  by (auto simp: triple_def say_def on_memory_def report_of_def)

text \<open>The end of a test, of a loop and of its body.\<close>

definition passes :: "('r, unit) bench \<Rightarrow> int \<Rightarrow> string \<Rightarrow> bool" where
  "passes t m s \<longleftrightarrow> (\<forall>n out M. triple (on_memory (report_of n out) M) t (\<lambda>_ q. \<exists>M. on_memory (report_of (n + m) (out @ [s])) M q))"

lemma do_last: "triple P (m \<bind> ret) Q \<Longrightarrow> triple P m Q"
  by (simp add: triple_def)

lemma do_done: "x = y \<Longrightarrow> triple (on_lists (report_of x out) k n S) (ret ()) (\<lambda>_ q. \<exists>M. on_memory (report_of y out) M q)"
  by (auto simp: triple_def dest: lists_memory)

lemma do_stop: "triple P (ret ()) (\<lambda>_. P)"
  by (simp add: triple_def)

lemma do_each:
  "triple P (f x) (\<lambda>_. R) \<Longrightarrow> triple R (for_each xs f \<bind> g) Q \<Longrightarrow> triple P (for_each (x # xs) f \<bind> g) Q"
  "triple P (g ()) Q \<Longrightarrow> triple P (for_each [] f \<bind> g) Q"
  by (simp_all add: triple_def case_prod_beta)

section \<open>The tests\<close>

lemma replacement_passes: "passes (t_replacement True rnd) 6 (''replacement policy'' @ nl)"
  unfolding passes_def t_replacement_def
  apply (intro allI, rule do_say, rule do_mk, rule mk_runs, simp)
  apply (rule do_read, simp, simp, simp add: list_steps start_def, simp)+
  apply (rule do_check, simp)
  apply (rule do_read, simp, simp, simp add: list_steps start_def, simp)+
  apply (rule do_look, simp)
  apply (rule do_check, simp add: list_steps start_def)
  apply (rule do_check, simp add: list_steps start_def)
  apply (rule to_memory, rule do_mk, rule mk_runs, simp)
  apply (rule do_read, simp, simp, simp add: list_steps start_def, simp)+
  apply (rule do_check, simp)
  apply (rule do_read, simp, simp, simp add: list_steps start_def, simp)+
  apply (rule do_look, simp)
  apply (rule do_check, simp add: list_steps start_def)
  apply (rule do_last, rule do_check, simp add: list_steps start_def)
  apply (rule do_done, simp)
  done


lemma ten: "[0..<10] = [0, 1, 2, 3, 4, 5, 6, 7, 8, 9 :: nat]"
  by (simp add: upt_rec)

lemma conflict_passes: "passes (t_conflict True rnd) 5 (''conflict misses and associativity'' @ nl)"
  unfolding passes_def t_conflict_def ten
  apply (intro allI, rule do_say, rule do_mk, rule mk_runs, simp)
  apply (rule do_each, (rule do_read, simp, simp, simp add: list_steps start_def, simp)+, rule do_stop)+
  apply (rule do_each, rule do_look, simp)
  apply (rule do_check, simp add: tally_fields)
  apply (rule do_check, simp add: tally_fields)
  apply (rule to_memory, rule do_mk, rule mk_runs, simp)
  apply (rule do_each, (rule do_read, simp, simp, simp add: list_steps start_def, simp)+, rule do_stop)+
  apply (rule do_each, rule do_look, simp)
  apply (rule do_check, simp add: tally_fields)
  apply (rule do_check, simp add: tally_fields)
  apply (rule to_memory, rule do_mk, rule mk_runs, simp)
  apply (rule do_each, (rule do_read, simp, simp, simp add: list_steps start_def, simp)+, rule do_stop)+
  apply (rule do_each, rule do_look, simp)
  apply (rule do_last, rule do_check, simp add: tally_fields)
  apply (rule do_done, simp)
  done

lemma write_policy_passes: "passes (t_write_policy True rnd) 12 (''write policy'' @ nl)"
  unfolding passes_def t_write_policy_def
  apply (intro allI, rule do_say, rule do_poke, rule do_mk, rule mk_runs, simp)
  apply (rule do_write, simp, simp, simp add: list_steps start_def, simp)
  apply (rule do_check, simp)
  apply (rule do_look, simp)
  apply (rule do_check, simp add: tally_fields)
  apply (rule do_check, simp add: tally_fields)
  apply (rule do_peek, simp, rule do_check, simp)
  apply (rule do_read, simp, simp, simp add: list_steps start_def, simp)
  apply (rule do_check, simp)
  apply (rule do_read, simp, simp, simp add: list_steps start_def, simp)
  apply (rule do_peek, simp, rule do_check, simp)
  apply (rule do_look, simp)
  apply (rule do_check, simp add: tally_fields)
  apply (rule to_memory, rule do_poke, rule do_mk, rule mk_runs, simp)
  apply (rule do_write, simp, simp, simp add: list_steps start_def, simp)
  apply (rule do_peek, simp, rule do_check, simp)
  apply (rule do_read, simp, simp, simp add: list_steps start_def, simp)
  apply (rule do_look, simp)
  apply (rule do_check, simp add: tally_fields)
  apply (rule to_memory, rule do_poke, rule do_mk, rule mk_runs, simp)
  apply (rule do_write, simp, simp, simp add: list_steps start_def, simp)
  apply (rule do_peek, simp, rule do_check, simp)
  apply (rule do_look, simp)
  apply (rule do_check, simp add: list_steps start_def)
  apply (rule do_last, rule do_check, simp add: tally_fields)
  apply (rule do_done, simp)
  done

lemma whole_rows:
  "(\<lambda>s. map g (if s = i then q else [])) = (\<lambda>_. [])(i := map g q)" "upto_u32 2 = [0, 1]"
  by (auto simp: upto_u32_def upt_rec)

lemmas whole_steps = list_clean_def list_flush_def list_settle_def list_reset_stats_def list_snoop_def entry_def dirty_lines_def whole_rows

lemma maintenance_passes: "passes (t_maintenance True rnd) 8 (''flush, clean and snoop'' @ nl)"
  unfolding passes_def t_maintenance_def
  apply (intro allI, rule do_say, rule do_poke, rule do_mk, rule mk_runs, simp)
  apply (rule do_write, simp, simp, simp add: list_steps start_def, simp)
  apply (rule do_whole, simp, simp add: whole_steps list_steps)
  apply (rule do_peek, simp, rule do_check, simp)
  apply (rule do_look, simp, rule do_check, simp add: list_steps start_def)
  apply (rule do_write, simp, simp, simp add: list_steps start_def, simp)
  apply (rule do_whole, simp, simp add: whole_steps list_steps)
  apply (rule do_peek, simp, rule do_check, simp)
  apply (rule do_look, simp, rule do_check, simp add: list_steps start_def)
  apply (rule do_read, simp, simp, simp add: list_steps start_def, simp)
  apply (rule do_snoop, simp, simp add: whole_steps list_steps)
  apply (rule do_check, simp)
  apply (rule do_look, simp, rule do_check, simp add: list_steps start_def)
  apply (rule do_snoop [where r = False], simp, simp add: whole_steps list_steps)
  apply (rule do_check, simp)
  apply (rule do_look, simp, rule do_last, rule do_check, simp add: tally_fields)
  apply (rule do_done, simp)
  done

lemma stats_passes: "passes (t_stats True rnd) 3 (''statistics'' @ nl)"
  unfolding passes_def t_stats_def
  apply (intro allI, rule do_say, rule do_mk, rule mk_runs, simp)
  apply (rule do_read, simp, simp, simp add: list_steps start_def, simp)+
  apply (rule do_look, simp)
  apply (rule do_check, simp add: tally_fields cache_hit_rate_def)
  apply (rule do_whole, simp, simp add: list_reset_stats_def list_steps)
  apply (rule do_look, simp)
  apply (rule do_check, simp add: tally_fields)
  apply (rule do_last, rule do_check, simp add: list_steps start_def)
  apply (rule do_done, simp)
  done


lemma do_local:
  assumes "\<And>w. run_state m (c, w) = (x, (c', w))" "triple (on_lists rep k n S) (f x c') Q"
  shows "triple (on_lists rep k n S) (on_local c m \<bind> case_prod f) Q"
  unfolding triple_def
proof (intro allI impI)
  fix q assume q: "on_lists rep k n S q"
  obtain rp d w where q': "q = (rp, (d, w))" by (cases q)
  from tripleD [OF assms(2) q] show "Q (result (on_local c m \<bind> case_prod f) q) (exec (on_local c m \<bind> case_prod f) q)"
    by (simp add: q' on_local_def assms(1))
qed

lemma decode_1234: "cache_decode (mk_cache 256 2 8 3 r p al) 0x1234 = (0x24, 3, 4)"
  by (simp add: cache_decode_def addr_tag_def addr_set_def addr_off_def mk_cache_def zero_cache_def)

lemma geometry_passes: "passes (t_geometry True) 12 (''geometry'' @ nl)"
  unfolding passes_def t_geometry_def
  apply (intro allI, rule do_say, rule do_mk, rule mk_runs, simp)
  apply (rule do_geometry)
  apply (rule do_check, simp)+
  apply (simp only: decode_1234 Let_def prod.case)
  apply (rule do_check, simp)+
  apply (rule to_memory, rule do_mk, rule mk_runs, simp)
  apply (rule do_geometry, rule do_check, simp)
  apply (rule to_memory, rule do_mk, rule mk_runs, simp)
  apply (rule do_geometry, rule do_check, simp, rule do_check, simp)
  apply (rule do_local, simp add: cache_config_def is_pow2_def, rule do_check, simp add: rejected_def)+
  apply (rule do_local, simp add: cache_config_def is_pow2_def, rule do_last, rule do_check, simp add: rejected_def)
  apply (rule do_done, simp)
  done

text \<open>The bytes \<open>t_hit_miss\<close> puts into memory: only the first matters.\<close>

lemma fill_memory:
  assumes "\<And>M. M 0x2000 = 0 \<Longrightarrow> triple (on_memory rep M) (f ()) Q"
  shows "triple (on_memory rep M) (for_each (upto_u32 0x100) (\<lambda>i. poke (ucast (0x2000 + i)) (ucast i)) \<bind> f) Q"
proof (rule triple_bind)
  let ?P = "\<lambda>D q. \<exists>M. on_memory rep M q \<and> (0 \<in> D \<longrightarrow> M 0x2000 = (0 :: u8))"
  have other: "(ucast (0x2000 + i) :: u16) \<noteq> 0x2000" if "i < 0x100" "i \<noteq> 0" for i :: u32
  proof
    assume e: "(ucast (0x2000 + i) :: u16) = 0x2000"
    have i: "unat i < 256" "unat i \<noteq> 0" using that by (simp_all add: word_less_nat_alt unat_eq_zero)
    then have "unat (0x2000 + i) = 0x2000 + unat i" by (simp add: unat_word_ariths)
    then have "unat (ucast (0x2000 + i) :: u16) = 0x2000 + unat i" using i by simp
    with e i(2) show False by simp
  qed
  have step: "triple (?P D) (poke (ucast (0x2000 + i)) (ucast i)) (\<lambda>_. ?P (insert i D))" if i: "i \<in> set (upto_u32 0x100)" for D i
    unfolding triple_def
  proof (intro allI impI)
    fix q assume "?P D q"
    then obtain M where q: "on_memory rep M q" and D: "0 \<in> D \<longrightarrow> M 0x2000 = 0" by blast
    have "on_memory rep (M(ucast (0x2000 + i) := ucast i)) (exec (poke (ucast (0x2000 + i)) (ucast i)) q)"
      using q by (cases q) (auto simp: on_memory_def poke_def bsw_def)
    moreover have "0 \<in> insert i D \<longrightarrow> (M(ucast (0x2000 + i) := ucast i)) 0x2000 = 0"
      using D other [of i] i by (cases "i = 0") (auto simp: set_upto_u32)
    ultimately show "?P (insert i D) (exec (poke (ucast (0x2000 + i)) (ucast i)) q)" by blast
  qed
  show "triple (on_memory rep M) (for_each (upto_u32 0x100) (\<lambda>i. poke (ucast (0x2000 + i)) (ucast i)))
      (\<lambda>_ q. \<exists>M. on_memory rep M q \<and> M 0x2000 = 0)"
    by (rule triple_weaken [OF bench.triple_for_each [where P = ?P and D = "{}", OF step]]) (auto simp: set_upto_u32 word_less_nat_alt)
  fix x :: unit
  show "triple (\<lambda>q. \<exists>M. on_memory rep M q \<and> M 0x2000 = 0) (f x) Q"
    using assms by (auto simp: triple_def)
qed

lemma fifteen: "List.map of_nat [1..<16] = [1, 2, 3, 4, 5, 6, 7, 8, 9, 10, 11, 12, 13, 14, 15 :: u32]"
  by (simp add: upt_rec)

lemma hit_miss_passes: "passes (t_hit_miss True rnd) 23 (''hits and misses'' @ nl)"
  unfolding passes_def t_hit_miss_def fifteen
  apply (intro allI, rule do_say, rule fill_memory, rule do_mk, rule mk_runs, simp)
  apply (rule do_read, simp, simp, simp add: list_steps start_def, simp)
  apply (rule do_check, simp)+
  apply (rule do_each, rule do_read, simp, simp, simp add: list_steps start_def, simp, rule do_last, rule do_check, simp, rule do_stop)+
  apply (rule do_each, rule do_look, simp)
  apply (rule do_check, simp add: tally_fields)+
  apply (rule do_read, simp, simp, simp add: list_steps start_def, simp)
  apply (rule do_last, rule do_check, simp)
  apply (rule do_done, simp)
  done

section \<open>The whole\<close>

lemma passes_bind:
  assumes "passes t m s" "\<And>n' M. n' = n + m \<Longrightarrow> triple (on_memory (report_of n' (out @ [s])) M) (f ()) Q"
  shows "triple (on_memory (report_of n out) M) (t \<bind> f) Q"
proof (rule triple_bind)
  show "triple (on_memory (report_of n out) M) t (\<lambda>_ q. \<exists>M. on_memory (report_of (n + m) (out @ [s])) M q)"
    using assms(1) by (simp add: passes_def)
  show "triple (\<lambda>q. \<exists>M. on_memory (report_of (n + m) (out @ [s])) M q) (f x) Q" for x
    using assms(2) [OF refl] by (auto simp: triple_def)
qed

text \<open>C23: The unit tests of the cache pass: whatever rand yields, when the allocations succeed, all 69
  checks of cachetest.c hold, main returns 0, and what it prints is the seven titles and the summary,
  without a FAIL.\<close>

theorem cachetest_passes:
  "let (status, (rep, _)) = run_state (cachetest_main True rnd) (bench0 r) in
    status = 0 \<and> failures rep = 0 \<and> checks rep = 69 \<and>
    said rep = map (\<lambda>s. s @ nl) [''geometry'', ''hits and misses'', ''replacement policy'',
      ''conflict misses and associativity'', ''write policy'', ''flush, clean and snoop'', ''statistics'',
      ''---- 69 checks, 0 failed ----'']"
proof -
  let ?Q = "\<lambda>status q. status = 0 \<and> failures (fst q) = 0 \<and> checks (fst q) = 69 \<and>
    said (fst q) = map (\<lambda>s. s @ nl) [''geometry'', ''hits and misses'', ''replacement policy'',
      ''conflict misses and associativity'', ''write policy'', ''flush, clean and snoop'', ''statistics'',
      ''---- 69 checks, 0 failed ----'']"
  have "triple (on_memory (report_of 0 []) (\<lambda>_. 0)) (cachetest_main True rnd) ?Q"
    unfolding cachetest_main_def
    apply (rule passes_bind [OF geometry_passes], rule passes_bind [OF hit_miss_passes], rule passes_bind [OF replacement_passes],
        rule passes_bind [OF conflict_passes], rule passes_bind [OF write_policy_passes], rule passes_bind [OF maintenance_passes],
        rule passes_bind [OF stats_passes])
    apply (auto simp: triple_def on_memory_def say_def report_of_def decl_def dec_def digits.simps digit_def)
    done
  moreover have "on_memory (report_of 0 []) (\<lambda>_. 0) (bench0 r)" by (simp add: on_memory_def report_of_def bench0_def)
  ultimately have "?Q (result (cachetest_main True rnd) (bench0 r)) (exec (cachetest_main True rnd) (bench0 r))" by (rule tripleD)
  then show ?thesis by (simp add: case_prod_beta)
qed

end
