(* ===== verification/Spec2Isabelle.thy ===== *)
theory Spec2Isabelle
  imports M6502_Props Memsys_Props Cache_Props Disasm_Props Monitor_Props Monitor_Asm_Props Memsys_Coherence Hmon_Props
    Cache_List_Props Cachetest_Props
begin

text \<open>
  A verification library for the 6502 emulators of this repository: the CPU core and the monitor of
  \<open>src/m6502/\<close>, and the memory hierarchy of \<open>src/h6502/\<close> with its own monitor and the unit tests of its cache.

  \<^bold>\<open>The program.\<close>  \<open>m6502/m6502.c\<close> is a CPU with a struct of registers and two bus callbacks; every access tells
  the bus its kind through the field \<open>access\<close>.  Two programs supply a bus.  \<open>m6502/main.c\<close> has 64 KB of flat
  memory, a console at four addresses, watchpoints, a history and a line assembler.  \<open>h6502/memsys.c\<close> routes an
  access by its kind to a code or a data side, and on each side through a cache (\<open>h6502/cache.c\<close>) to one or two
  physical memories; \<open>h6502/hmon.c\<close> adds a device page, whose registers also clean and invalidate the caches, and
  a monitor that changes the memory model, the geometries and the policies while a program is loaded.
  \<open>h6502/cachetest.c\<close> is a third program, which tests the cache over an array of its own.

  \<^bold>\<open>How it is modelled.\<close>  A C function is a program in the state monad over a pair, its own struct (a record with
  the fields of the C struct) and the world behind its callbacks: \<open>reads\<close> and \<open>writes\<close> act on the struct,
  \<open>outside\<close> on the world.  So the CPU runs over the memory system, the memory system over the statics of the
  monitor, these over the terminal.  Integers have the width of the C type and wrap; a raise, an error code, an
  early return and a division by zero are values (\<open>config_outcome\<close>, \<open>outcome\<close>, options).  The definitions follow
  the order of the source and keep its names.

  \<^item> \<open>Prelude\<close>: the monad, the calculi \<open>keeps\<close>, \<open>sim\<close>, \<open>hoare\<close> and \<open>triple\<close>, lemmas on words.
    \<open>CLib\<close>: the C string functions.  \<open>Terminal\<close>: \<open>printf\<close> conversions, \<open>stdin\<close> and \<open>stdout\<close>.
  \<^item> \<open>M6502\<close>: \<open>m6502/m6502.h\<close> and \<open>m6502.c\<close>; record \<open>core\<close>, addressing modes \<open>am_*\<close>, opcode routines \<open>op_*\<close>, the
    dispatch tables \<open>g_at\<close>, \<open>g_ot\<close>, \<open>g_tt\<close>, the calls \<open>m6502_step\<close>, \<open>_reset\<close>, \<open>_nmi\<close>, \<open>_irq\<close>.
    \<open>Disasm\<close>: \<open>m6502_disasm\<close> and its tables.
  \<^item> \<open>Cache\<close>: \<open>h6502/cache.h\<close> and \<open>cache.c\<close>; record \<open>cache\<close> with its line and data arrays.
  \<^item> \<open>Memsys\<close>: \<open>h6502/memsys.h\<close> and \<open>memsys.c\<close>, with the device page of \<open>hmon.c\<close>; record \<open>memsys\<close>.
  \<^item> \<open>Hmon\<close>, \<open>Hmon_Cmd\<close>: the displays, and the commands, loops and \<open>main\<close>, of \<open>h6502/hmon.c\<close>; record \<open>hstatics\<close>.
  \<^item> \<open>Cachetest\<close>: \<open>h6502/cachetest.c\<close>, test by test; record \<open>report\<close>.
  \<^item> \<open>Monitor\<close>, \<open>Monitor_Asm\<close>, \<open>Monitor_Cmd\<close>: bus, history and displays; the line assembler; the commands, loader,
    main loop and \<open>main\<close> of \<open>m6502/main.c\<close>; record \<open>mon\<close>.

  \<^bold>\<open>Contracts.\<close>  Each interface is a locale, its lemmas are proved from the contract, and it is interpreted on the
  definitions of the code that provide it.

  \<^item> \<open>backing_store\<close> (\<open>Cache_Refine\<close>): what a cache needs of the memory behind its callbacks; provided by the four
    callbacks of \<open>memsys.c\<close> (\<open>backing\<close>) and by those of \<open>cachetest.c\<close> (\<open>bench\<close>).
    \<open>callbacks\<close> (\<open>Cache_Fit\<close>) is its weaker form (\<open>kept\<close>).
  \<^item> \<open>bus_sim\<close>, \<open>bus_inv\<close> (\<open>M6502_Bus\<close>): two buses that answer alike, and an invariant of one bus, lifted to every
    instruction and to the interrupts; interpreted on the memory system against the machine without caches
    (\<open>h6502\<close>, \<open>snooped_bus\<close>), on its structural invariant (\<open>h6502_sound\<close>) and on the flat bus (\<open>debugger\<close>).
  \<^item> \<open>bus_frame\<close>, \<open>stack_bus\<close> (\<open>M6502_Frame\<close>, \<open>M6502_Stack\<close>): a bus that leaves the registers alone, and one whose
    stack page remembers; interpreted on all three buses.
  \<^item> \<open>memory_contract\<close> (\<open>Memsys_Contract\<close>): what loads, stores and the device page do to the memories a machine
    presents; from it follows the simulation of \<open>ideal_bus\<close> (\<open>Memsys_Spec\<close>).  Two machines provide it: \<open>cached\<close>, von
    Neumann and Harvard with any caches, and \<open>snooped\<close>, modified Harvard with snooping and write-through.

  \<^bold>\<open>What is shown.\<close>

  \<^item> CPU: addition and subtraction, binary and decimal, against integers (\<open>M6502_Alu\<close>, \<open>M6502_Props\<close>); flags stay
    bits, cycle bounds, calls and interrupts return (\<open>Memsys_Props\<close> on the cached machine).
  \<^item> Cache: the abstract cache and the refinement to it (\<open>Cache_Abs\<close>, \<open>Cache_Refine\<close>, \<open>Cache_Lines\<close>): for every
    geometry and policy it is the array behind it; accepted parameters, index bounds, address round trip
    (\<open>Cache_Geometry\<close>, \<open>Cache_Config\<close>); the choice of a victim and the balance of the counters (\<open>Cache_Policy\<close>, \<open>Cache_Stats\<close>); caches that are stale
    (\<open>Cache_Stale\<close>); the structural invariant no operation breaks (\<open>Cache_Fit\<close>).
  \<^item> Replacement, in full: \<open>Cache_Lists\<close> specifies a cache under LRU or FIFO as one recency list of (line, dirty) per
    set, the bytes seen, the memory and the counters; \<open>Cache_Ways\<close> relates ways and stamps to the lists and
    \<open>Cache_Recency\<close> carries every operation over (\<open>tracks\<close>; the number of steps is bounded because the stamps are
    32-bit numbers and wrap).  \<open>Cache_List_Props\<close> lifts this to runs, with bytes, events, counters and memory, and
    derives inclusion of LRU caches from the lists alone.  \<open>Cachetest_Props\<close> runs the unit tests on the lists.
  \<^item> Memory system: \<open>presents Vc Vd m\<close> holds after \<open>ms_init\<close> (\<open>Memsys_Init\<close>) and is kept by the bus, so
    programs run as on the machine without caches (\<open>Memsys_Refine\<close>, \<open>Memsys_Props\<close>).  In the modified Harvard
    model with caches on it holds only under conditions: \<open>Memsys_Modified\<close> grades how far the fetch side
    is behind, \<open>Memsys_Coherence\<close> shows that the fence of the device page publishes stores, that snooping replaces
    it under write-through, and that under write-back it does not, and that changes between all the models, into
    and out of this one included, keep every byte (\<open>carries\<close>).
  \<^item> Monitors: the reachable states of \<open>hmon.c\<close> and their invariant (\<open>Memsys_Fit\<close>, \<open>Hmon_Safety\<close>), the \<open>config\<close> command
    (\<open>Hmon_Props\<close>); the debugger of \<open>main.c\<close> does not disturb the program, its tables, loader and loops
    (\<open>Monitor_Bus\<close>, \<open>Monitor_Props\<close>); assembler and disassembler are inverse to each other, and where the assembler
    fails (\<open>Monitor_Asm_Props\<close>); disassembler tables against the dispatch tables (\<open>Disasm_Props\<close>).

  \<^bold>\<open>Loops and bounds.\<close>  Loops that end are structural or have a measure (\<open>fill_loop\<close>, \<open>dump_loop\<close>, \<open>script_loop\<close>,
  \<open>toks\<close>, \<open>log2u_loop\<close>).  Loops that depend on the program or on the input have fuel and the outcome \<open>Unfinished\<close>:
  \<open>run_steps\<close>, \<open>command_loop\<close> and the main loop of \<open>main.c\<close>, which may all run for ever; results hold for any
  fuel.  \<open>assemble_loop\<close> gets one round more than the input has characters, and \<open>do_assemble_returns\<close> proves that this is
  enough; the \<open>.byte\<close> loop is a partial function (\<open>byte_args\<close>, round by round \<open>byte_round\<close>) whose divergence is a theorem: a
  call that does not return is \<open>None\<close> and has no final state, so the zeros it goes on storing are not in the model.

  \<^bold>\<open>Parameters.\<close>  The contents of files, whether \<open>calloc\<close> delivers, at the start for each
  cache (\<open>e_start\<close>) and later (\<open>e_room\<close>), the conversion of a \<open>double\<close> to text (\<open>fx\<close>), the
  numbers \<open>rand\<close> returns and what the terminal delivers and when.

  \<^bold>\<open>Not modelled.\<close>  Terminal settings (\<open>termios\<close>), the installation of signal handlers (what they do is
  \<open>on_sigint\<close>), text on \<open>stderr\<close>, \<open>cache_free\<close> and \<open>ms_free\<close> at exit, and the rounding of \<open>double\<close>: the effects are
  outside the state of the program.  A cache that got no memory at the start is modelled by its fields (\<open>init_without_room\<close>),
  the null pointer the program then follows is not; the reachable states of \<open>Hmon_Safety\<close> begin where all three got it.
  \<open>a6502/asm.py\<close>, a cross assembler in Python, and the 6502 programs under \<open>basic/\<close> and the demos are not part of the C emulators.
\<close>

end
